(* ===== verification/Rtmp_Prelude.thy ===== *)
theory Rtmp_Prelude
imports Main "HOL-Library.Word" "HOL-Library.Monad_Syntax" "HOL-Library.AList"
begin

text \<open>
  Shared vocabulary of the development: the machine types of \<open>private/utils.h\<close>, reading through
  a \<open>v8::const_iterator\<close>, \<open>std::string\<close> against bytes, the dictionary of
  \<open>std::unordered_map\<close>, and the interfaces (locales) that the codecs and the queues share.

  A C++ iterator into a buffer is modelled by the bytes from it to the end of the buffer. Reading
  past the end, or moving an iterator past the end, is undefined behaviour in C++: every such
  operation returns \<open>None\<close>, so a model that returns \<open>Some\<close> made no undefined step.
\<close>

unbundle bit_operations_syntax

section \<open>Machine types\<close>

type_synonym u8 = "8 word"
type_synonym u16 = "16 word"
type_synonym u32 = "32 word"
type_synonym u64 = "64 word"
type_synonym v8 = "8 word list"

named_theorems codec_simps \<open>evaluation of readers on written bytes\<close>

section \<open>Reading through an iterator\<close>

text \<open>\<open>{iter, iter + n}\<close>: a fresh vector holding the next \<open>n\<close> bytes.\<close>

definition iter_slice :: "nat \<Rightarrow> v8 \<Rightarrow> v8 option" where
  "iter_slice n it = (if n \<le> length it then Some (take n it) else None)"

text \<open>\<open>iter += n\<close>.\<close>

definition iter_advance :: "nat \<Rightarrow> v8 \<Rightarrow> v8 option" where
  "iter_advance n it = (if n \<le> length it then Some (drop n it) else None)"

text \<open>\<open>*iter\<close>.\<close>

definition iter_deref :: "v8 \<Rightarrow> u8 option" where
  "iter_deref it = (case it of [] \<Rightarrow> None | b # _ \<Rightarrow> Some b)"

lemma iter_slice_append [simp, codec_simps]: "n = length xs \<Longrightarrow> iter_slice n (xs @ ys) = Some xs"
  by (simp add: iter_slice_def)

lemma iter_advance_append [simp, codec_simps]: "n = length xs \<Longrightarrow> iter_advance n (xs @ ys) = Some ys"
  by (simp add: iter_advance_def)

lemma iter_deref_Cons [simp, codec_simps]: "iter_deref (b # it) = Some b"
  by (simp add: iter_deref_def)

lemma iter_deref_Nil [simp]: "iter_deref [] = None"
  by (simp add: iter_deref_def)

lemma iter_slice_all [simp]: "n = length xs \<Longrightarrow> iter_slice n xs = Some xs"
  by (simp add: iter_slice_def)

lemma iter_slice_Some: "iter_slice n it = Some xs \<Longrightarrow> n \<le> length it \<and> xs = take n it"
  by (auto simp: iter_slice_def split: if_splits)

lemma iter_advance_Some: "iter_advance n it = Some xs \<Longrightarrow> n \<le> length it \<and> xs = drop n it"
  by (auto simp: iter_advance_def split: if_splits)

lemma length_iter_slice: "iter_slice n it = Some xs \<Longrightarrow> length xs = n"
  by (auto dest: iter_slice_Some)

lemma length_iter_advance: "iter_advance n it = Some xs \<Longrightarrow> length xs + n = length it"
  by (auto dest: iter_advance_Some)

lemma iter_slice_0 [simp]: "iter_slice 0 it = Some []"
  by (simp add: iter_slice_def)

lemma iter_advance_0 [simp]: "iter_advance 0 it = Some it"
  by (simp add: iter_advance_def)

lemma iter_slice_Suc_Cons [codec_simps]:
  "iter_slice (Suc n) (b # it) = map_option ((#) b) (iter_slice n it)"
  by (simp add: iter_slice_def)

lemma iter_advance_Suc_Cons [codec_simps]: "iter_advance (Suc n) (b # it) = iter_advance n it"
  by (simp add: iter_advance_def)

lemma iter_advance_1_Cons [simp]: "iter_advance (Suc 0) (b # it) = Some it"
  by (simp add: iter_advance_def)

text \<open>A read that stays within a buffer stays within every extension of it.\<close>

lemma iter_slice_more: "iter_slice n it = Some xs \<Longrightarrow> iter_slice n (it @ more) = Some xs"
  by (auto simp: iter_slice_def split: if_splits)

lemma iter_advance_more: "iter_advance n it = Some xs \<Longrightarrow> iter_advance n (it @ more) = Some (xs @ more)"
  by (auto simp: iter_advance_def split: if_splits)

lemma iter_deref_more: "iter_deref it = Some b \<Longrightarrow> iter_deref (it @ more) = Some b"
  by (cases it) simp_all

lemmas iter_more = iter_slice_more iter_advance_more iter_deref_more

lemma bind_Some_iff:
  "Option.bind x f = Some y \<longleftrightarrow> (\<exists>z. x = Some z \<and> f z = Some y)"
  by (cases x) auto

section \<open>Bytes and characters\<close>

text \<open>A \<open>std::string\<close> is a sequence of \<open>char\<close>, one byte each.\<close>

definition byte_of_char :: "char \<Rightarrow> u8" where
  "byte_of_char c = word_of_nat (of_char c)"

definition char_of_byte :: "u8 \<Rightarrow> char" where
  "char_of_byte b = char_of (unat b)"

lemma char_of_byte_of_char [simp]: "char_of_byte (byte_of_char c) = c"
proof -
  have "(of_char c :: nat) < 256"
    using nat_of_char_less_256 [of c] by simp
  then have "unat (word_of_nat (of_char c) :: u8) = (of_char c :: nat)"
    by (simp add: unsigned_of_nat take_bit_nat_eq_self)
  then show ?thesis
    by (simp add: char_of_byte_def byte_of_char_def)
qed

lemma byte_of_char_of_byte [simp]: "byte_of_char (char_of_byte b) = b"
proof -
  have "unat b < 2 ^ LENGTH(8)"
    by (rule unsigned_less)
  then have "unat b < 256" by simp
  then show ?thesis
    by (simp add: byte_of_char_def char_of_byte_def)
qed

lemma map_char_byte [simp]: "map (char_of_byte \<circ> byte_of_char) s = s"
  by (induction s) simp_all

section \<open>Dictionaries\<close>

text \<open>
  \<open>std::unordered_map\<close> iterates in an order the standard leaves open. A dictionary is modelled by
  the list of its entries in iteration order, with distinct keys; statements about a dictionary
  quantify over every such list, hence over every order. \<open>dict[k] = v\<close> is
  \<^const>\<open>AList.update\<close>, and \<open>dict.insert({k, v})\<close> keeps an entry that is already there.
\<close>

type_synonym 'v dict = "(string \<times> 'v) list"

definition dict_ok :: "'v dict \<Rightarrow> bool" where
  "dict_ok d \<longleftrightarrow> distinct (map fst d)"

definition dict_insert :: "string \<Rightarrow> 'v \<Rightarrow> 'v dict \<Rightarrow> 'v dict" where
  "dict_insert k v d = (if map_of d k = None then d @ [(k, v)] else d)"

lemma dict_ok_Nil [simp]: "dict_ok []"
  by (simp add: dict_ok_def)

lemma dict_ok_update [simp]: "dict_ok d \<Longrightarrow> dict_ok (AList.update k v d)"
  by (simp add: dict_ok_def distinct_update)

lemma dict_ok_insert [simp]: "dict_ok d \<Longrightarrow> dict_ok (dict_insert k v d)"
  by (auto simp: dict_ok_def dict_insert_def map_of_eq_None_iff)

lemma map_of_dict_insert:
  "map_of (dict_insert k v d) k' = (if k' = k \<and> map_of d k = None then Some v else map_of d k')"
  by (auto simp: dict_insert_def map_add_def split: option.splits)

lemma update_fresh [simp]: "k \<notin> fst ` set d \<Longrightarrow> AList.update k v d = d @ [(k, v)]"
  by (induction d) auto

section \<open>Interfaces\<close>

text \<open>
  A codec: an encoder of values and a decoder that reads one value off the front of a buffer and
  returns the rest. Whatever follows the encoded value must not disturb the decoder.
\<close>

locale codec =
  fixes enc :: "'a \<Rightarrow> v8"
    and dec :: "v8 \<Rightarrow> ('a \<times> v8) option"
    and valid :: "'a \<Rightarrow> bool"
  assumes dec_enc: "valid x \<Longrightarrow> dec (enc x @ rest) = Some (x, rest)"
begin

lemma dec_enc_exact: "valid x \<Longrightarrow> dec (enc x) = Some (x, [])"
  using dec_enc [of x "[]"] by simp

lemma enc_prefix_free:
  assumes "valid x" and "valid y" and "enc x @ r = enc y @ s"
  shows "x = y \<and> r = s"
proof -
  have "dec (enc x @ r) = Some (x, r)" and "dec (enc x @ r) = Some (y, s)"
    using dec_enc [OF assms(1), of r] dec_enc [OF assms(2), of s] by (simp_all only: assms(3))
  then show ?thesis by simp
qed

lemma enc_inj: "valid x \<Longrightarrow> valid y \<Longrightarrow> enc x = enc y \<Longrightarrow> x = y"
  by (rule enc_prefix_free [of x y "[]" "[]", THEN conjunct1]) simp_all

end

text \<open>
  A decoder of a whole buffer that reads values until the buffer is empty, as the top-level parsing
  loops of the program do.
\<close>

locale stream_codec = codec enc dec valid
  for enc :: "'a \<Rightarrow> v8" and dec :: "v8 \<Rightarrow> ('a \<times> v8) option" and valid :: "'a \<Rightarrow> bool" +
  fixes decs :: "v8 \<Rightarrow> 'a list option"
  assumes enc_nonempty: "valid x \<Longrightarrow> enc x \<noteq> []"
    and decs_Nil: "decs [] = Some []"
    and decs_step: "it \<noteq> [] \<Longrightarrow> dec it = Some (x, it') \<Longrightarrow> decs it = map_option ((#) x) (decs it')"
begin

lemma decs_append:
  "\<forall>x \<in> set xs. valid x \<Longrightarrow> decs (concat (map enc xs) @ rest) = map_option ((@) xs) (decs rest)"
proof (induction xs)
  case Nil
  show ?case by (cases "decs rest") simp_all
next
  case (Cons x xs)
  then have v: "valid x" and vs: "\<forall>x \<in> set xs. valid x" by simp_all
  let ?tail = "concat (map enc xs) @ rest"
  have "decs (enc x @ ?tail) = map_option ((#) x) (decs ?tail)"
    using enc_nonempty [OF v] by (intro decs_step) (simp_all add: dec_enc [OF v])
  then show ?case
    by (simp add: Cons.IH [OF vs] option.map_comp o_def)
qed

lemma decs_encs: "\<forall>x \<in> set xs. valid x \<Longrightarrow> decs (concat (map enc xs)) = Some xs"
  using decs_append [of xs "[]"] by (simp add: decs_Nil)

end

end
