(* ===== verification/Delegates.thy ===== *)
theory Delegates
imports Rtmp_Prelude
begin

text \<open>
  \<open>MulticastDelegate\<close>: the queue of weak pointers through which sockets, sessions and parsers notify
  their listeners. An entry whose object is gone is one for which \<open>alive\<close> is false. The lemmas show in
  which order listeners are called, what removing a listener does, and what a callback that changes the list does.
\<close>

definition addDelegate :: "'d \<Rightarrow> 'd list \<Rightarrow> 'd list" where
  "addDelegate d q = q @ [d]"

text \<open>\<open>find_if\<close> stops at the listener, or at the first entry that has expired, whichever comes first.\<close>

fun removeDelegate :: "('d \<Rightarrow> bool) \<Rightarrow> 'd \<Rightarrow> 'd list \<Rightarrow> 'd list" where
  "removeDelegate alive d [] = []"
| "removeDelegate alive d (x # q) =
     (if (if alive x then x = d else True) then q else x # removeDelegate alive d q)"

text \<open>The listeners \<open>invoke\<close> calls, in order.\<close>

definition invoke_targets :: "('d \<Rightarrow> bool) \<Rightarrow> 'd list \<Rightarrow> 'd list" where
  "invoke_targets alive q = filter alive q"

lemma invoke_add: "alive d \<Longrightarrow> invoke_targets alive (addDelegate d q) = invoke_targets alive q @ [d]"
  by (simp add: invoke_targets_def addDelegate_def)

lemma invoke_all [simp]: "invoke_targets (\<lambda>_. True) q = q"
  by (simp add: invoke_targets_def)

lemma removeDelegate_alive: "\<forall>x \<in> set q. alive x \<Longrightarrow> removeDelegate alive d q = remove1 d q"
  by (induction q) auto

lemma removeDelegate_expired_first:
  "\<forall>x \<in> set p. alive x \<and> x \<noteq> d \<Longrightarrow> \<not> alive x \<Longrightarrow> removeDelegate alive d (p @ x # q) = p @ q"
  by (induction p) auto

text \<open>While no listener has expired, removing a listener takes exactly its first registration away and
  keeps the order of the others; but as soon as an expired entry stands before it, that entry is removed
  instead and the listener goes on being called.\<close>

theorem removeDelegate_effect:
  assumes "\<forall>x \<in> set p. alive x \<and> x \<noteq> d" and "alive d" and "d \<notin> set q"
  shows "invoke_targets alive (removeDelegate alive d (p @ d # q)) = p @ invoke_targets alive q \<and>
    (\<forall>x. \<not> alive x \<longrightarrow>
       d \<in> set (invoke_targets alive (removeDelegate alive d (p @ x # d # q))) \<and>
       invoke_targets alive (removeDelegate alive d (p @ x # d # q)) = p @ d # invoke_targets alive q)"
proof -
  have p: "filter alive p = p"
    using assms(1) by (simp add: filter_id_conv)
  have "removeDelegate alive d (p @ d # q) = p @ q"
    using assms(1) assms(2) by (induction p) auto
  moreover have "removeDelegate alive d (p @ x # d # q) = p @ d # q" if "\<not> alive x" for x
    using removeDelegate_expired_first [OF assms(1) that] .
  ultimately show ?thesis
    using p assms(2) by (simp add: invoke_targets_def)
qed

theorem removeDelegate_effect_witness:
  "removeDelegate (\<lambda>n. n \<noteq> (7 :: nat)) 2 ([1] @ 7 # 2 # [3]) = [1, 2, 3] \<and>
   2 \<in> set (invoke_targets (\<lambda>n. n \<noteq> 7) (removeDelegate (\<lambda>n. n \<noteq> (7 :: nat)) 2 ([1] @ 7 # 2 # [3])))"
  using removeDelegate_effect [of "[1]" "\<lambda>n. n \<noteq> (7 :: nat)" 2 "[3]"] by simp

section \<open>Callbacks that change the list\<close>

text \<open>
  \<open>invoke\<close> walks over a \<open>std::deque\<close>, and takes no lock: whatever inserts into the deque or erases from it makes
  the iterator invalid, and its next increment is undefined (\<open>None\<close>). The version counts the changes.
\<close>

record 'd registry =
  reg_items :: "'d list"
  reg_version :: nat

definition registry_add :: "'d \<Rightarrow> 'd registry \<Rightarrow> 'd registry" where
  "registry_add d r = r\<lparr>reg_items := addDelegate d (reg_items r), reg_version := Suc (reg_version r)\<rparr>"

definition registry_remove :: "('d \<Rightarrow> bool) \<Rightarrow> 'd \<Rightarrow> 'd registry \<Rightarrow> 'd registry" where
  "registry_remove alive d r =
     (let items = removeDelegate alive d (reg_items r)
      in if length items = length (reg_items r) then r else r\<lparr>reg_items := items, reg_version := Suc (reg_version r)\<rparr>)"

fun invoke_from :: "('d \<Rightarrow> bool) \<Rightarrow> ('s \<Rightarrow> 'd registry) \<Rightarrow> ('d \<Rightarrow> 's \<Rightarrow> 's) \<Rightarrow> nat \<Rightarrow> 'd list \<Rightarrow> 's \<Rightarrow> 's option" where
  "invoke_from alive reg f v [] s = Some s"
| "invoke_from alive reg f v (d # ds) s =
     (let s = (if alive d then f d s else s) in if reg_version (reg s) = v then invoke_from alive reg f v ds s else None)"

definition invoke :: "('d \<Rightarrow> bool) \<Rightarrow> ('s \<Rightarrow> 'd registry) \<Rightarrow> ('d \<Rightarrow> 's \<Rightarrow> 's) \<Rightarrow> 's \<Rightarrow> 's option" where
  "invoke alive reg f s = invoke_from alive reg f (reg_version (reg s)) (reg_items (reg s)) s"

text \<open>What \<open>start\<close> of a session does to the list of its socket.\<close>

definition restart_registration :: "('d \<Rightarrow> bool) \<Rightarrow> 'd \<Rightarrow> 'd registry \<Rightarrow> 'd registry" where
  "restart_registration alive me r = registry_add me (registry_remove alive me r)"

lemma registry_items:
  "reg_items (registry_add d r) = addDelegate d (reg_items r)"
  "reg_items (registry_remove alive d r) = removeDelegate alive d (reg_items r)"
proof -
  have "removeDelegate alive d q = q" if "length (removeDelegate alive d q) = length q" for q
    using that by (induction q) (auto split: if_splits)
  from this [of "reg_items r"] show "reg_items (registry_remove alive d r) = removeDelegate alive d (reg_items r)"
    by (auto simp: registry_remove_def Let_def)
qed (simp add: registry_add_def)

lemma restart_version: "reg_version r < reg_version (restart_registration alive me r)"
  by (simp add: restart_registration_def registry_add_def registry_remove_def Let_def)

text \<open>A session that is started again in a callback of its socket registers itself anew while the socket walks over the
  list of its delegates: the rest of the walk is undefined. It is defined exactly when no callback does so, and
  then every delegate that is alive is called once, in the order of the list.\<close>

theorem invoke_reentrant:
  assumes "\<forall>d s. reg (f d s) = (if restarts d then restart_registration alive me (reg s) else reg s)"
  shows "invoke alive reg f s =
    (if \<exists>d \<in> set (invoke_targets alive (reg_items (reg s))). restarts d then None
     else Some (fold f (invoke_targets alive (reg_items (reg s))) s))"
proof -
  have "invoke_from alive reg f (reg_version (reg s)) ds s =
      (if \<exists>d \<in> set (invoke_targets alive ds). restarts d then None else Some (fold f (invoke_targets alive ds) s))" for ds
  proof (induction ds arbitrary: s)
    case (Cons d ds)
    show ?case
    proof (cases "alive d \<and> restarts d")
      case True
      then have "reg_version (reg s) < reg_version (reg (f d s))"
        using assms by (simp add: restart_version)
      with True show ?thesis by (simp add: invoke_targets_def)
    next
      case False
      then have "reg_version (reg (if alive d then f d s else s)) = reg_version (reg s)"
        using assms by simp
      with False Cons.IH [of "if alive d then f d s else s"] show ?thesis
        by (auto simp: invoke_targets_def)
    qed
  qed (simp add: invoke_targets_def)
  then show ?thesis by (simp add: invoke_def)
qed

text \<open>The session itself (0) and a delegate of it (1), which starts it again.\<close>

theorem invoke_reentrant_witness:
  "invoke (\<lambda>_. True) (\<lambda>r. r) (\<lambda>d r. if d = 1 then restart_registration (\<lambda>_. True) 0 r else r)
     \<lparr>reg_items = [0, 1 :: nat], reg_version = 2\<rparr> = None"
  using invoke_reentrant [of "\<lambda>r. r" "\<lambda>d r. if d = 1 then restart_registration (\<lambda>_. True) 0 r else r" "\<lambda>d. d = 1" "\<lambda>_. True" 0
    "\<lparr>reg_items = [0, 1 :: nat], reg_version = 2\<rparr>"]
  by simp

end
