(* ===== verification/NetMetrics.thy ===== *)
theory NetMetrics
imports Rtmp_Prelude
begin

text \<open>
  \<open>NetworkType\<close>, \<open>NetworkSpeedIndicator\<close> and \<open>NetworkPerformanceMetrics\<close>: the byte counter of a socket
  direction and the state machine that grades the network once per second. The clock is an input; a
  time point is its whole seconds and the rest, of which the code reads the seconds. Byte rates are
  64-bit; the two places that go through \<open>float\<close> round to 24 significant bits (ties to even), and the
  comparison against a third of the rate is exact for rates below 2 to the 53.
\<close>

section \<open>Network types\<close>

datatype network_type = Net_0 | VeryLow | Low | Medium | High | Highest

fun network_value :: "network_type \<Rightarrow> nat" where
  "network_value Net_0 = 0"
| "network_value VeryLow = 1"
| "network_value Low = 2"
| "network_value Medium = 3"
| "network_value High = 4"
| "network_value Highest = 5"

text \<open>An enumeration compares by its values.\<close>

lemma network_value_inj: "network_value a = network_value b \<Longrightarrow> a = b"
  by (cases a; cases b) simp_all

instantiation network_type :: linorder
begin

definition less_eq_network_type :: "network_type \<Rightarrow> network_type \<Rightarrow> bool" where
  "less_eq_network_type a b = (network_value a \<le> network_value b)"

definition less_network_type :: "network_type \<Rightarrow> network_type \<Rightarrow> bool" where
  "less_network_type a b = (network_value a < network_value b)"

instance
  by standard (auto simp: less_eq_network_type_def less_network_type_def dest: network_value_inj)

end

fun network_inc :: "network_type \<Rightarrow> network_type" where
  "network_inc Net_0 = VeryLow"
| "network_inc VeryLow = Low"
| "network_inc Low = Medium"
| "network_inc Medium = High"
| "network_inc High = Highest"
| "network_inc Highest = Highest"

text \<open>Decrementing the unknown type wraps its value around: no enumerator has it (\<open>None\<close>).\<close>

fun network_dec :: "network_type \<Rightarrow> network_type option" where
  "network_dec Net_0 = None"
| "network_dec VeryLow = Some VeryLow"
| "network_dec Low = Some VeryLow"
| "network_dec Medium = Some Low"
| "network_dec High = Some Medium"
| "network_dec Highest = Some High"

fun network_name :: "network_type \<Rightarrow> string" where
  "network_name Highest = ''Highest''"
| "network_name High = ''High''"
| "network_name Medium = ''Medium''"
| "network_name Low = ''Low''"
| "network_name VeryLow = ''VeryLow''"
| "network_name Net_0 = ''Unknown''"

section \<open>Speed indicator\<close>

type_synonym clock = "int \<times> nat"

record speed_indicator =
  si_start :: clock
  si_current :: clock
  si_bytes :: u64

definition new_speed_indicator :: "clock \<Rightarrow> speed_indicator" where
  "new_speed_indicator now = \<lparr> si_start = now, si_current = (0, 0), si_bytes = 0 \<rparr>"

definition setTransferredBytes :: "clock \<Rightarrow> u64 \<Rightarrow> speed_indicator \<Rightarrow> speed_indicator" where
  "setTransferredBytes now value s = s\<lparr>si_current := now, si_bytes := si_bytes s + value\<rparr>"

definition currentBytesPerSeconds :: "speed_indicator \<Rightarrow> u64" where
  "currentBytesPerSeconds s =
     (let diff = fst (si_current s) - fst (si_start s) in
      if diff > 0 then si_bytes s div word_of_int diff else si_bytes s)"

definition currentBitPerSeconds :: "speed_indicator \<Rightarrow> u64" where
  "currentBitPerSeconds s = currentBytesPerSeconds s * 8"

definition currentKilobytesPerSeconds :: "speed_indicator \<Rightarrow> u64" where
  "currentKilobytesPerSeconds s = currentBytesPerSeconds s div 1000"

definition speed_reset :: "clock \<Rightarrow> speed_indicator \<Rightarrow> speed_indicator" where
  "speed_reset now s = s\<lparr>si_bytes := 0, si_start := now\<rparr>"

section \<open>Performance metrics\<close>

datatype metrics_event =
    MetricsUpgraded network_type nat
  | MetricsDowngraded network_type nat
  | MetricsChanged network_type nat

record metrics =
  byteRate :: u64
  oldCbs :: u64
  stableNetCounter :: nat
  networkErrorCounter :: int
  metrics_stopped :: bool
  currentNetwork :: network_type
  nsi :: speed_indicator
  metrics_delegate :: bool
  metrics_events :: "metrics_event list"

definition NetworkErrorLimit :: int where "NetworkErrorLimit = 5"
definition StableNetworkTrigger :: nat where "StableNetworkTrigger = 30000"

definition new_metrics :: "clock \<Rightarrow> u64 \<Rightarrow> metrics" where
  "new_metrics now rate = \<lparr> byteRate = rate, oldCbs = 0, stableNetCounter = 0, networkErrorCounter = 0,
     metrics_stopped = True, currentNetwork = Highest, nsi = new_speed_indicator now,
     metrics_delegate = False, metrics_events = [] \<rparr>"

text \<open>The lock is free whenever the single-threaded model calls \<open>clear\<close>.\<close>

definition metrics_clear :: "clock \<Rightarrow> metrics \<Rightarrow> metrics" where
  "metrics_clear now m = m\<lparr>oldCbs := 0, stableNetCounter := 0, networkErrorCounter := 0, nsi := speed_reset now (nsi m)\<rparr>"

definition metrics_start :: "clock \<Rightarrow> metrics \<Rightarrow> metrics" where
  "metrics_start now m = (if \<not> metrics_stopped m then m else metrics_clear now (m\<lparr>metrics_stopped := False\<rparr>))"

definition metrics_stop :: "metrics \<Rightarrow> metrics" where
  "metrics_stop m = (if metrics_stopped m then m else m\<lparr>metrics_stopped := True\<rparr>)"

definition setByteRate :: "u64 \<Rightarrow> metrics \<Rightarrow> metrics" where
  "setByteRate value m = m\<lparr>byteRate := value\<rparr>"

definition updateData :: "clock \<Rightarrow> u64 \<Rightarrow> metrics \<Rightarrow> metrics" where
  "updateData now data m = m\<lparr>nsi := setTransferredBytes now data (nsi m)\<rparr>"

definition metrics_setDelegate :: "bool \<Rightarrow> metrics \<Rightarrow> metrics" where
  "metrics_setDelegate d m = m\<lparr>metrics_delegate := d\<rparr>"

text \<open>
  A non-negative integer as a \<open>float\<close>: 24 significant bits, to nearest, ties to even. The values of
  \<open>byteRate_ - newByteRateFromPercentage()\<close> and of the sum are integers at every step.
\<close>

fun float_exponent :: "nat \<Rightarrow> nat" where
  "float_exponent n = (if n < 2 ^ 24 then 0 else Suc (float_exponent (n div 2)))"

declare float_exponent.simps [simp del]

definition float_of_nat :: "nat \<Rightarrow> nat" where
  "float_of_nat n =
     (let e = float_exponent n; q = n div 2 ^ e; r = n mod 2 ^ e in
      if 2 * r < 2 ^ e \<or> 2 * r = 2 ^ e \<and> even q then q * 2 ^ e else (q + 1) * 2 ^ e)"

definition newByteRateFromPercentage :: "metrics \<Rightarrow> nat" where
  "newByteRateFromPercentage m = float_of_nat (unat (byteRate m * 10 div 100))"

definition byteRateShouldDrop :: "u64 \<Rightarrow> metrics \<Rightarrow> bool" where
  "byteRateShouldDrop cbs m = (unat cbs < unat (byteRate m) div 3)"

definition notifyListenersIfNeeded :: "network_type \<Rightarrow> nat \<Rightarrow> metrics \<Rightarrow> metrics" where
  "notifyListenersIfNeeded newNetworkType newByteRate m =
     (if \<not> metrics_delegate m then m
      else if newNetworkType > currentNetwork m
      then m\<lparr>metrics_events := metrics_events m @ [MetricsUpgraded newNetworkType newByteRate,
                                                  MetricsChanged newNetworkType newByteRate]\<rparr>
      else if newNetworkType < currentNetwork m
      then m\<lparr>metrics_events := metrics_events m @ [MetricsDowngraded newNetworkType newByteRate,
                                                  MetricsChanged newNetworkType newByteRate]\<rparr>
      else m)"

definition handleNetworkProfiler :: "u64 \<Rightarrow> metrics \<Rightarrow> metrics option" where
  "handleNetworkProfiler cbs m =
     do { (newNetworkType, newByteRate, m) \<leftarrow>
            (if byteRateShouldDrop cbs m \<or> cbs = oldCbs m
             then if cbs = oldCbs m \<and> networkErrorCounter m < NetworkErrorLimit
               then Some (currentNetwork m, unat (byteRate m),
                          m\<lparr>networkErrorCounter := networkErrorCounter m + 1\<rparr>)
               else do { t \<leftarrow> network_dec (currentNetwork m);
                         Some (t, float_of_nat (float_of_nat (unat (byteRate m)) - newByteRateFromPercentage m),
                               m\<lparr>stableNetCounter := 0, networkErrorCounter := 0\<rparr>) }
             else if stableNetCounter m > StableNetworkTrigger
             then Some (network_inc (currentNetwork m),
                        float_of_nat (float_of_nat (unat (byteRate m)) + newByteRateFromPercentage m),
                        m\<lparr>stableNetCounter := 0, networkErrorCounter := 0\<rparr>)
             else Some (currentNetwork m, unat (byteRate m),
                        m\<lparr>stableNetCounter := stableNetCounter m + 1000\<rparr>));
          if newByteRate < 2 ^ 64 then
            (let m = notifyListenersIfNeeded newNetworkType newByteRate m
             in Some (m\<lparr>currentNetwork := newNetworkType, oldCbs := cbs\<rparr>))
          else None }"

text \<open>One expiry of the one-second timer; behind the test of the flag, what is done with the mutex held.\<close>

definition metrics_profile :: "metrics \<Rightarrow> metrics option" where
  "metrics_profile m =
     (let cbs = currentBytesPerSeconds (nsi m) div 1 in if cbs > 0 then handleNetworkProfiler cbs m else Some m)"

definition metrics_run :: "metrics \<Rightarrow> metrics option" where
  "metrics_run m = (if metrics_stopped m then Some m else metrics_profile m)"

section \<open>Rounding\<close>

lemma float_exponent_le: "0 < float_exponent n \<Longrightarrow> 2 ^ float_exponent n \<le> n"
proof (induction n rule: float_exponent.induct)
  case (1 n)
  then have big: "\<not> n < 2 ^ 24"
    by (simp add: float_exponent.simps [of n] split: if_splits)
  then have e: "float_exponent n = Suc (float_exponent (n div 2))"
    by (simp add: float_exponent.simps [of n])
  show ?case
  proof (cases "0 < float_exponent (n div 2)")
    case True
    with "1.IH" big have "2 ^ float_exponent (n div 2) \<le> n div 2" by blast
    then show ?thesis unfolding e by (simp add: mult.commute)
  next
    case False
    with big show ?thesis unfolding e by simp
  qed
qed

lemma float_of_nat_le: "float_of_nat n \<le> 2 * n"
proof -
  define e q where "e = float_exponent n" and "q = n div 2 ^ e"
  have q: "q * 2 ^ e \<le> n"
    unfolding q_def by (rule div_times_less_eq_dividend)
  show ?thesis
  proof (cases "e = 0")
    case True
    then show ?thesis by (simp add: float_of_nat_def Let_def flip: e_def)
  next
    case False
    then have "2 ^ e \<le> n" unfolding e_def by (intro float_exponent_le) simp
    with q have "(q + 1) * 2 ^ e \<le> 2 * n" "q * 2 ^ e \<le> 2 * n" by simp_all
    then show ?thesis
      unfolding float_of_nat_def Let_def e_def [symmetric] q_def [symmetric] by simp
  qed
qed

lemma float_of_nat_exact: "n < 2 ^ 24 \<Longrightarrow> float_of_nat n = n"
  by (simp add: float_of_nat_def float_exponent.simps [of n])

section \<open>The grading invariant\<close>

definition metrics_ok :: "metrics \<Rightarrow> bool" where
  "metrics_ok m \<longleftrightarrow> currentNetwork m \<noteq> Net_0 \<and> 0 \<le> networkErrorCounter m \<and>
     networkErrorCounter m \<le> NetworkErrorLimit \<and> stableNetCounter m \<le> StableNetworkTrigger + 1000 \<and>
     unat (byteRate m) < 2 ^ 53"

lemma metrics_ok_new: "unat rate < 2 ^ 53 \<Longrightarrow> metrics_ok (new_metrics now rate)"
  by (simp add: metrics_ok_def new_metrics_def NetworkErrorLimit_def)

lemma metrics_ok_ops [simp]:
  "metrics_ok m \<Longrightarrow> metrics_ok (metrics_start now m)" "metrics_ok m \<Longrightarrow> metrics_ok (metrics_stop m)"
  "metrics_ok m \<Longrightarrow> metrics_ok (updateData now n m)" "metrics_ok m \<Longrightarrow> metrics_ok (metrics_setDelegate d m)"
  "metrics_ok m \<Longrightarrow> unat r < 2 ^ 53 \<Longrightarrow> metrics_ok (setByteRate r m)"
  by (simp_all add: metrics_ok_def metrics_start_def metrics_clear_def metrics_stop_def updateData_def
      metrics_setDelegate_def setByteRate_def NetworkErrorLimit_def)

lemma notify_fields [simp]:
  "byteRate (notifyListenersIfNeeded t r m) = byteRate m"
  "networkErrorCounter (notifyListenersIfNeeded t r m) = networkErrorCounter m"
  "stableNetCounter (notifyListenersIfNeeded t r m) = stableNetCounter m"
  "metrics_delegate (notifyListenersIfNeeded t r m) = metrics_delegate m"
  "metrics_stopped (notifyListenersIfNeeded t r m) = metrics_stopped m"
  by (simp_all add: notifyListenersIfNeeded_def)

lemma rate_bounds:
  assumes "unat (byteRate m) < 2 ^ 53"
  shows "float_of_nat (float_of_nat (unat (byteRate m)) - newByteRateFromPercentage m) < 2 ^ 64"
    and "float_of_nat (float_of_nat (unat (byteRate m)) + newByteRateFromPercentage m) < 2 ^ 64"
proof -
  let ?b = "unat (byteRate m)"
  have b10: "unat (byteRate m * 10) = ?b * 10"
    using assms by (simp add: unat_word_ariths)
  have "newByteRateFromPercentage m \<le> 2 * unat (byteRate m * 10 div 100)"
    unfolding newByteRateFromPercentage_def by (rule float_of_nat_le)
  also have "\<dots> = 2 * (?b * 10 div 100)"
    by (simp only: unat_div b10) simp
  finally have p: "newByteRateFromPercentage m \<le> 2 * (?b * 10 div 100)" .
  have f: "float_of_nat ?b \<le> 2 * ?b" by (rule float_of_nat_le)
  show "float_of_nat (float_of_nat ?b - newByteRateFromPercentage m) < 2 ^ 64"
    using float_of_nat_le [of "float_of_nat ?b - newByteRateFromPercentage m"] f assms by simp
  have "?b * 10 div 100 \<le> ?b" by simp
  then show "float_of_nat (float_of_nat ?b + newByteRateFromPercentage m) < 2 ^ 64"
    using float_of_nat_le [of "float_of_nat ?b + newByteRateFromPercentage m"] f p assms by simp
qed

lemma network_dec_step: "t \<noteq> Net_0 \<Longrightarrow> \<exists>t'. network_dec t = Some t' \<and> t' \<noteq> Net_0 \<and> t' \<le> t \<and>
    network_value t \<le> network_value t' + 1"
  by (cases t) (simp_all add: less_eq_network_type_def)

lemma network_inc_step: "network_inc t \<noteq> Net_0 \<and> t \<le> network_inc t \<and> network_value (network_inc t) \<le> network_value t + 1"
  by (cases t) (simp_all add: less_eq_network_type_def)

lemma handleNetworkProfiler_cases:
  assumes "metrics_ok m"
  shows "\<exists>t r e k. handleNetworkProfiler cbs m =
      Some ((notifyListenersIfNeeded t r (m\<lparr>stableNetCounter := k, networkErrorCounter := e\<rparr>))
        \<lparr>currentNetwork := t, oldCbs := cbs\<rparr>) \<and>
    t \<noteq> Net_0 \<and> 0 \<le> e \<and> e \<le> NetworkErrorLimit \<and> k \<le> StableNetworkTrigger + 1000 \<and>
    network_value t \<le> network_value (currentNetwork m) + 1 \<and> network_value (currentNetwork m) \<le> network_value t + 1"
proof -
  note ok = assms [unfolded metrics_ok_def]
  have rate: "unat (byteRate m) < 2 ^ 64"
    using ok by simp
  consider (same) "cbs = oldCbs m" "networkErrorCounter m < NetworkErrorLimit"
    | (down) "byteRateShouldDrop cbs m \<or> cbs = oldCbs m" "\<not> (cbs = oldCbs m \<and> networkErrorCounter m < NetworkErrorLimit)"
    | (up) "\<not> (byteRateShouldDrop cbs m \<or> cbs = oldCbs m)" "stableNetCounter m > StableNetworkTrigger"
    | (stay) "\<not> (byteRateShouldDrop cbs m \<or> cbs = oldCbs m)" "\<not> stableNetCounter m > StableNetworkTrigger"
    by blast
  then show ?thesis
  proof cases
    case same
    show ?thesis
      by (rule exI [of _ "currentNetwork m"], rule exI [of _ "unat (byteRate m)"],
          rule exI [of _ "networkErrorCounter m + 1"], rule exI [of _ "stableNetCounter m"])
         (use same ok rate in \<open>simp add: handleNetworkProfiler_def\<close>)
  next
    case down
    obtain t where t: "network_dec (currentNetwork m) = Some t" "t \<noteq> Net_0" "t \<le> currentNetwork m"
      "network_value (currentNetwork m) \<le> network_value t + 1"
      using network_dec_step ok by blast
    show ?thesis
      by (rule exI [of _ t],
          rule exI [of _ "float_of_nat (float_of_nat (unat (byteRate m)) - newByteRateFromPercentage m)"],
          rule exI [of _ "0 :: int"], rule exI [of _ "0 :: nat"])
         (use down t ok rate_bounds [of m] in \<open>auto simp: handleNetworkProfiler_def NetworkErrorLimit_def
            less_eq_network_type_def\<close>)
  next
    case up
    show ?thesis
      by (rule exI [of _ "network_inc (currentNetwork m)"],
          rule exI [of _ "float_of_nat (float_of_nat (unat (byteRate m)) + newByteRateFromPercentage m)"],
          rule exI [of _ "0 :: int"], rule exI [of _ "0 :: nat"])
         (use up ok rate_bounds [of m] network_inc_step [of "currentNetwork m"] in
           \<open>auto simp: handleNetworkProfiler_def NetworkErrorLimit_def less_eq_network_type_def\<close>)
  next
    case stay
    show ?thesis
      by (rule exI [of _ "currentNetwork m"], rule exI [of _ "unat (byteRate m)"],
          rule exI [of _ "networkErrorCounter m"], rule exI [of _ "stableNetCounter m + 1000"])
         (use stay ok rate in \<open>simp add: handleNetworkProfiler_def\<close>)
  qed
qed

lemma notify_events:
  "metrics_delegate m \<Longrightarrow>
   metrics_events (notifyListenersIfNeeded t r m) = metrics_events m \<longleftrightarrow> t = currentNetwork m"
  by (auto simp: notifyListenersIfNeeded_def)

lemma metrics_profile_ok:
  assumes "metrics_ok m"
  shows "\<exists>m'. metrics_profile m = Some m' \<and> metrics_ok m' \<and> metrics_stopped m' = metrics_stopped m"
proof (cases "currentBytesPerSeconds (nsi m) div 1 > 0")
  case True
  obtain t r e k where h: "handleNetworkProfiler (currentBytesPerSeconds (nsi m) div 1) m =
      Some ((notifyListenersIfNeeded t r (m\<lparr>stableNetCounter := k, networkErrorCounter := e\<rparr>))
        \<lparr>currentNetwork := t, oldCbs := currentBytesPerSeconds (nsi m) div 1\<rparr>)"
    and bounds: "t \<noteq> Net_0" "0 \<le> e" "e \<le> NetworkErrorLimit" "k \<le> StableNetworkTrigger + 1000"
    using handleNetworkProfiler_cases [OF assms] by metis
  from True have "metrics_profile m = handleNetworkProfiler (currentBytesPerSeconds (nsi m) div 1) m"
    by (simp add: metrics_profile_def Let_def)
  with assms bounds show ?thesis
    unfolding h by (simp add: metrics_ok_def)
qed (use assms in \<open>simp add: metrics_profile_def\<close>)

section \<open>Properties\<close>

text \<open>The rates that are reported are exact while 24 bits hold them.\<close>

lemma tenth: "unat (byteRate m) < 2 ^ 24 \<Longrightarrow> newByteRateFromPercentage m = unat (byteRate m) div 10"
proof -
  assume r: "unat (byteRate m) < 2 ^ 24"
  then have "unat (byteRate m * 10 div 100) = unat (byteRate m) * 10 div 100"
    by (simp add: unat_div unat_word_ariths)
  with r show ?thesis
    by (simp add: newByteRateFromPercentage_def) (subst float_of_nat_exact; simp)
qed

lemma exact_rates:
  "unat (byteRate m) < 2 ^ 24 \<Longrightarrow> float_of_nat (float_of_nat (unat (byteRate m)) - newByteRateFromPercentage m) =
     unat (byteRate m) - unat (byteRate m) div 10"
  "unat (byteRate m) < 2 ^ 23 \<Longrightarrow> float_of_nat (float_of_nat (unat (byteRate m)) + newByteRateFromPercentage m) =
     unat (byteRate m) + unat (byteRate m) div 10"
  by (simp_all add: tenth float_of_nat_exact)

text \<open>The two moves, in numbers.\<close>

lemma graded_down:
  assumes "metrics_delegate m" and "currentNetwork m \<noteq> Net_0"
  obtains t where "network_dec (currentNetwork m) = Some t" and "network_value t = max 1 (network_value (currentNetwork m) - 1)"
    and "metrics_events (notifyListenersIfNeeded t r m) = metrics_events m @
      (if network_value (currentNetwork m) = 1 then [] else [MetricsDowngraded t r, MetricsChanged t r])"
  using assms by (cases "currentNetwork m") (auto simp: notifyListenersIfNeeded_def less_network_type_def)

lemma graded_up:
  assumes "metrics_delegate m" and "currentNetwork m \<noteq> Net_0"
  shows "network_value (network_inc (currentNetwork m)) = min 5 (network_value (currentNetwork m) + 1)"
    and "metrics_events (notifyListenersIfNeeded (network_inc (currentNetwork m)) r m) = metrics_events m @
      (if network_value (currentNetwork m) = 5 then []
       else [MetricsUpgraded (network_inc (currentNetwork m)) r, MetricsChanged (network_inc (currentNetwork m)) r])"
  using assms by (cases "currentNetwork m"; simp add: notifyListenersIfNeeded_def less_network_type_def)+

lemma notify_record:
  "notifyListenersIfNeeded t r m = m\<lparr>metrics_events := metrics_events (notifyListenersIfNeeded t r m)\<rparr>"
  by (simp add: notifyListenersIfNeeded_def)

lemma notify_same: "t = currentNetwork m \<Longrightarrow> notifyListenersIfNeeded t r m = m"
  by (simp add: notifyListenersIfNeeded_def)

lemma notify_counters [simp]:
  "metrics_events (notifyListenersIfNeeded t r (m\<lparr>stableNetCounter := k, networkErrorCounter := e\<rparr>)) =
     metrics_events (notifyListenersIfNeeded t r m)"
  by (simp add: notifyListenersIfNeeded_def)

text \<open>C22: one tick of the metrics, for a registered delegate, in numbers: nothing happens when the metrics are
  stopped or no byte was counted; a rate equal to that of the tick before is counted as an error and else ignored,
  five times; after that, or when the rate is below a third of the configured one, the grade goes down by one unless
  it is the lowest; when the rate has held for more than 30 counted seconds, the grade goes up by one unless it is the
  highest; otherwise the second is counted. Each move resets both counters and, if it changes the grade, reports the
  new grade and the configured rate less, or plus, a tenth of it (exactly so below 2 to the 24, and 2 to the 23), as a
  downgrade, or an upgrade, and as a change, in this order; nothing else is reported, and nothing else changes.\<close>

theorem metrics_run_grading:
  assumes "metrics_ok m" and "metrics_delegate m"
  shows "\<exists>m'. metrics_run m = Some m' \<and> metrics_ok m' \<and>
    (let cbs = currentBytesPerSeconds (nsi m); rate = unat (byteRate m); level = network_value (currentNetwork m) in
     if metrics_stopped m \<or> cbs = 0 then m' = m
     else if cbs = oldCbs m \<and> networkErrorCounter m < 5 then m' = m\<lparr>networkErrorCounter := networkErrorCounter m + 1\<rparr>
     else if cbs = oldCbs m \<or> unat cbs < rate div 3 then
       \<exists>t r. network_value t = max 1 (level - 1) \<and> (rate < 2 ^ 24 \<longrightarrow> r = rate - rate div 10) \<and>
         m' = m\<lparr>oldCbs := cbs, stableNetCounter := 0, networkErrorCounter := 0, currentNetwork := t,
           metrics_events := metrics_events m @ (if level = 1 then [] else [MetricsDowngraded t r, MetricsChanged t r])\<rparr>
     else if stableNetCounter m > 30000 then
       \<exists>t r. network_value t = min 5 (level + 1) \<and> (rate < 2 ^ 23 \<longrightarrow> r = rate + rate div 10) \<and>
         m' = m\<lparr>oldCbs := cbs, stableNetCounter := 0, networkErrorCounter := 0, currentNetwork := t,
           metrics_events := metrics_events m @ (if level = 5 then [] else [MetricsUpgraded t r, MetricsChanged t r])\<rparr>
     else m' = m\<lparr>oldCbs := cbs, stableNetCounter := stableNetCounter m + 1000\<rparr>)"
proof -
  define cbs where "cbs = currentBytesPerSeconds (nsi m)"
  let ?rate = "unat (byteRate m)" and ?level = "network_value (currentNetwork m)"
  have net: "currentNetwork m \<noteq> Net_0" and rate: "?rate < 2 ^ 64" "unat (byteRate m) < 2 ^ 53"
    using assms(1) by (simp_all add: metrics_ok_def)
  from metrics_profile_ok [OF assms(1)] obtain m' where m': "metrics_profile m = Some m'" "metrics_ok m'" by blast
  consider (none) "metrics_stopped m \<or> cbs = 0" | (some) "\<not> metrics_stopped m" "cbs \<noteq> 0" by blast
  then show ?thesis
  proof cases
    case none
    then have "metrics_run m = Some m"
      by (auto simp: metrics_run_def metrics_profile_def cbs_def)
    with none assms(1) show ?thesis by (simp add: Let_def cbs_def)
  next
    case some
    then have pos: "cbs > 0" by (simp add: word_neq_0_conv)
    with some m' have run: "metrics_run m = Some m'" and h: "handleNetworkProfiler cbs m = Some m'"
      by (simp_all add: metrics_run_def metrics_profile_def cbs_def)
    have drop: "byteRateShouldDrop cbs m \<longleftrightarrow> unat cbs < ?rate div 3"
      by (simp add: byteRateShouldDrop_def)
    consider (same) "cbs = oldCbs m" "networkErrorCounter m < 5"
      | (down) "cbs = oldCbs m \<or> unat cbs < ?rate div 3" "\<not> (cbs = oldCbs m \<and> networkErrorCounter m < 5)"
      | (up) "\<not> (cbs = oldCbs m \<or> unat cbs < ?rate div 3)" "stableNetCounter m > 30000"
      | (stay) "\<not> (cbs = oldCbs m \<or> unat cbs < ?rate div 3)" "\<not> stableNetCounter m > 30000"
      by blast
    then show ?thesis
    proof cases
      case same
      with h rate have "m' = m\<lparr>networkErrorCounter := networkErrorCounter m + 1\<rparr>"
        by (cases m) (simp add: handleNetworkProfiler_def NetworkErrorLimit_def notify_same)
      with same some run m'(2) show ?thesis by (simp add: Let_def flip: cbs_def)
    next
      case down
      let ?r = "float_of_nat (float_of_nat ?rate - newByteRateFromPercentage m)"
      obtain t where t: "network_dec (currentNetwork m) = Some t" "network_value t = max 1 (?level - 1)"
          "metrics_events (notifyListenersIfNeeded t ?r m) =
             metrics_events m @ (if ?level = 1 then [] else [MetricsDowngraded t ?r, MetricsChanged t ?r])"
        by (rule graded_down [OF assms(2) net])
      have "m' = (notifyListenersIfNeeded t ?r (m\<lparr>stableNetCounter := 0, networkErrorCounter := 0\<rparr>))\<lparr>currentNetwork := t, oldCbs := cbs\<rparr>"
        using h down t(1) rate_bounds(1) [OF rate(2)] drop
        by (auto simp: handleNetworkProfiler_def NetworkErrorLimit_def Let_def split: if_splits)
      then have "m' = m\<lparr>oldCbs := cbs, stableNetCounter := 0, networkErrorCounter := 0, currentNetwork := t,
          metrics_events := metrics_events m @ (if ?level = 1 then [] else [MetricsDowngraded t ?r, MetricsChanged t ?r])\<rparr>"
        unfolding t(3) [symmetric] by (subst (asm) notify_record) simp
      moreover have "?rate < 2 ^ 24 \<longrightarrow> ?r = ?rate - ?rate div 10" using exact_rates(1) by blast
      ultimately show ?thesis
        using down some run m'(2) t(2) unfolding Let_def cbs_def [symmetric] by auto
    next
      case up
      let ?r = "float_of_nat (float_of_nat ?rate + newByteRateFromPercentage m)" and ?t = "network_inc (currentNetwork m)"
      have "m' = (notifyListenersIfNeeded ?t ?r (m\<lparr>stableNetCounter := 0, networkErrorCounter := 0\<rparr>))\<lparr>currentNetwork := ?t, oldCbs := cbs\<rparr>"
        using h up rate_bounds(2) [OF rate(2)] drop
        by (simp add: handleNetworkProfiler_def StableNetworkTrigger_def Let_def)
      then have "m' = m\<lparr>oldCbs := cbs, stableNetCounter := 0, networkErrorCounter := 0, currentNetwork := ?t,
          metrics_events := metrics_events m @ (if ?level = 5 then [] else [MetricsUpgraded ?t ?r, MetricsChanged ?t ?r])\<rparr>"
        unfolding graded_up(2) [OF assms(2) net, symmetric] by (subst (asm) notify_record) simp
      moreover have "?rate < 2 ^ 23 \<longrightarrow> ?r = ?rate + ?rate div 10" using exact_rates(2) by blast
      ultimately show ?thesis
        using up some run m'(2) graded_up(1) [OF assms(2) net] unfolding Let_def cbs_def [symmetric] by auto
    next
      case stay
      with h rate drop have "m' = m\<lparr>oldCbs := cbs, stableNetCounter := stableNetCounter m + 1000\<rparr>"
        by (cases m) (simp add: handleNetworkProfiler_def StableNetworkTrigger_def notify_same)
      with stay some run m'(2) show ?thesis by (simp add: Let_def flip: cbs_def)
    qed
  qed
qed

theorem metrics_run_grading_witness:
  "\<exists>m' t. metrics_run ((new_metrics (0, 0) 57600)\<lparr>metrics_stopped := False, metrics_delegate := True,
      nsi := \<lparr> si_start = (0, 0), si_current = (2, 0), si_bytes = 1000 \<rparr>\<rparr>) = Some m' \<and>
    network_value t = 4 \<and> metrics_events m' = [MetricsDowngraded t 51840, MetricsChanged t 51840]"
proof -
  let ?m = "(new_metrics (0, 0) 57600)\<lparr>metrics_stopped := False, metrics_delegate := True,
      nsi := \<lparr> si_start = (0, 0), si_current = (2, 0), si_bytes = 1000 \<rparr>\<rparr>"
  have "metrics_ok ?m"
    by (simp add: metrics_ok_def new_metrics_def NetworkErrorLimit_def)
  from metrics_run_grading [OF this] show ?thesis
    by (auto simp: new_metrics_def currentBytesPerSeconds_def Let_def)
qed

text \<open>A direction that measures the same rate on every tick is tolerated for five ticks and then
  downgraded, one grade every sixth tick, whatever the rate is.\<close>

theorem metrics_stalled_network:
  assumes "metrics_ok m" and "cbs = oldCbs m" and "networkErrorCounter m = 0" and "currentNetwork m > VeryLow"
  shows "\<exists>m'. ((\<lambda>s. Option.bind s (handleNetworkProfiler cbs)) ^^ 6) (Some m) = Some m' \<and>
    network_value (currentNetwork m') = network_value (currentNetwork m) - 1 \<and>
    networkErrorCounter m' = 0 \<and> stableNetCounter m' = 0 \<and> oldCbs m' = cbs"
proof -
  have rate: "unat (byteRate x) < 2 ^ 64" for x
    using unsigned_less [of "byteRate x"] by simp
  have funpow_numeral: "(f ^^ 5) x = f (f (f (f (f x))))" for f :: "metrics option \<Rightarrow> metrics option" and x
    by (simp add: numeral_eq_Suc)
  have tick: "handleNetworkProfiler cbs x = Some (x\<lparr>networkErrorCounter := networkErrorCounter x + 1\<rparr>)"
    if "cbs = oldCbs x" "networkErrorCounter x < 5" for x
    using that rate [of x] by (simp add: handleNetworkProfiler_def NetworkErrorLimit_def notifyListenersIfNeeded_def)
  obtain t where t: "network_dec (currentNetwork m) = Some t" "network_value t = network_value (currentNetwork m) - 1"
    using assms(4) by (cases "currentNetwork m") (auto simp: less_network_type_def)
  let ?m5 = "m\<lparr>networkErrorCounter := 5\<rparr>"
  have "unat (byteRate ?m5) < 2 ^ 53"
    using assms(1) by (simp add: metrics_ok_def)
  from rate_bounds(1) [OF this]
  have last: "\<exists>m'. handleNetworkProfiler cbs ?m5 = Some m' \<and> currentNetwork m' = t \<and> networkErrorCounter m' = 0 \<and>
      stableNetCounter m' = 0 \<and> oldCbs m' = cbs"
    using assms(2) t by (simp add: handleNetworkProfiler_def NetworkErrorLimit_def)
  have start: "m = m\<lparr>networkErrorCounter := 0\<rparr>"
    using assms(3) by simp
  have step: "handleNetworkProfiler cbs (m\<lparr>networkErrorCounter := e\<rparr>) = Some (m\<lparr>networkErrorCounter := e + 1\<rparr>)"
    if "e < 5" for e
    using tick [of "m\<lparr>networkErrorCounter := e\<rparr>"] that assms(2) by simp
  have "((\<lambda>s. Option.bind s (handleNetworkProfiler cbs)) ^^ 5) (Some (m\<lparr>networkErrorCounter := 0\<rparr>)) = Some ?m5"
    by (simp add: funpow_numeral step)
  then have "((\<lambda>s. Option.bind s (handleNetworkProfiler cbs)) ^^ 5) (Some m) = Some ?m5"
    by (simp only: start [symmetric])
  moreover have "(6 :: nat) = Suc 5" by simp
  ultimately have "((\<lambda>s. Option.bind s (handleNetworkProfiler cbs)) ^^ 6) (Some m) = handleNetworkProfiler cbs ?m5"
    by (simp only: funpow.simps o_apply) simp
  with last t(2) show ?thesis by auto
qed

theorem metrics_stalled_network_witness:
  "\<exists>m'. ((\<lambda>s. Option.bind s (handleNetworkProfiler 500)) ^^ 6)
      (Some ((new_metrics (0, 0) 57600)\<lparr>oldCbs := 500\<rparr>)) = Some m' \<and> network_value (currentNetwork m') = 4"
  using metrics_stalled_network [of "(new_metrics (0, 0) 57600)\<lparr>oldCbs := 500\<rparr>" 500]
  by (auto simp: new_metrics_def metrics_ok_def NetworkErrorLimit_def less_network_type_def)

end
