(* ===== verification/Bytes.thy ===== *)
theory Bytes
imports Rtmp_Prelude
begin

text \<open>
  \<open>private/utils.h\<close>: conversions between machine integers and byte vectors in both byte orders, and
  the bit count. Each \<open>from\<dots>\<close> returns \<open>None\<close> where the code indexes past the vector it is given,
  and 0 on the empty vector, as the code does. The lemmas show the round trips; the codec
  interpretations give prefix-freeness of every fixed-width field.
\<close>

unbundle bit_operations_syntax

section \<open>From bytes\<close>

definition fromBigEndian64 :: "v8 \<Rightarrow> v8 option" where
  "fromBigEndian64 data = (if length data \<le> 8 then Some (rev data @ replicate (8 - length data) 0) else None)"

definition fromLittleEndian64 :: "v8 \<Rightarrow> v8 option" where
  "fromLittleEndian64 data = (if length data \<le> 8 then Some (data @ replicate (8 - length data) 0) else None)"

definition fromBigEndian32 :: "v8 \<Rightarrow> u32 option" where
  "fromBigEndian32 data = (if data = [] then Some 0 else if length data < 4 then None else
     Some (push_bit 0 (ucast (data ! 3)) OR push_bit 8 (ucast (data ! 2)) OR
           push_bit 16 (ucast (data ! 1)) OR push_bit 24 (ucast (data ! 0))))"

definition fromLittleEndian32 :: "v8 \<Rightarrow> u32 option" where
  "fromLittleEndian32 data = (if data = [] then Some 0 else if length data < 4 then None else
     Some (push_bit 0 (ucast (data ! 0)) OR push_bit 8 (ucast (data ! 1)) OR
           push_bit 16 (ucast (data ! 2)) OR push_bit 24 (ucast (data ! 3))))"

definition fromBigEndian24 :: "v8 \<Rightarrow> u32 option" where
  "fromBigEndian24 data = (if data = [] then Some 0 else if length data < 3 then None else
     Some (push_bit 0 (ucast (data ! 2)) OR push_bit 8 (ucast (data ! 1)) OR
           push_bit 16 (ucast (data ! 0))))"

definition fromLittleEndian24 :: "v8 \<Rightarrow> u32 option" where
  "fromLittleEndian24 data = (if data = [] then Some 0 else if length data < 3 then None else
     Some (push_bit 0 (ucast (data ! 0)) OR push_bit 8 (ucast (data ! 1)) OR
           push_bit 16 (ucast (data ! 2))))"

definition fromBigEndian16 :: "v8 \<Rightarrow> u16 option" where
  "fromBigEndian16 data = (if data = [] then Some 0 else if length data < 2 then None else
     Some (ucast (push_bit 0 (ucast (data ! 1)) OR push_bit 8 (ucast (data ! 0)) :: u32)))"

definition fromLittleEndian16 :: "v8 \<Rightarrow> u16 option" where
  "fromLittleEndian16 data = (if data = [] then Some 0 else if length data < 2 then None else
     Some (ucast (push_bit 0 (ucast (data ! 0)) OR push_bit 8 (ucast (data ! 1)) :: u32)))"

section \<open>To bytes\<close>

definition toBigEndian64 :: "v8 \<Rightarrow> v8" where
  "toBigEndian64 data = rev data"

definition toLittleEndian64 :: "v8 \<Rightarrow> v8" where
  "toLittleEndian64 data = data"

definition toLittleEndian32 :: "u32 \<Rightarrow> v8" where
  "toLittleEndian32 d = [ucast d, ucast (drop_bit 8 d AND 0xFF),
     ucast (drop_bit 16 d AND 0xFF), ucast (drop_bit 24 d AND 0xFF)]"

definition toBigEndian32 :: "u32 \<Rightarrow> v8" where
  "toBigEndian32 d = [ucast (drop_bit 24 d AND 0xFF), ucast (drop_bit 16 d AND 0xFF),
     ucast (drop_bit 8 d AND 0xFF), ucast d]"

definition toLittleEndian24 :: "u32 \<Rightarrow> v8" where
  "toLittleEndian24 d = [ucast d, ucast (drop_bit 8 d AND 0xFF), ucast (drop_bit 16 d AND 0xFF)]"

definition toBigEndian24 :: "u32 \<Rightarrow> v8" where
  "toBigEndian24 d = [ucast (drop_bit 16 d AND 0xFF), ucast (drop_bit 8 d AND 0xFF), ucast d]"

definition toLittleEndian16 :: "u16 \<Rightarrow> v8" where
  "toLittleEndian16 d = [ucast d, ucast (drop_bit 8 d AND 0xFF)]"

definition toBigEndian16 :: "u16 \<Rightarrow> v8" where
  "toBigEndian16 d = [ucast (drop_bit 8 d AND 0xFF), ucast d]"

lemma length_toBytes [simp]:
  "length (toBigEndian32 d) = 4" "length (toLittleEndian32 d) = 4"
  "length (toBigEndian24 d) = 3" "length (toLittleEndian24 d) = 3"
  "length (toBigEndian16 e) = 2" "length (toLittleEndian16 e) = 2"
  by (simp_all add: toBigEndian32_def toLittleEndian32_def toBigEndian24_def toLittleEndian24_def
      toBigEndian16_def toLittleEndian16_def)

lemma toBytes_nonempty [simp]:
  "toBigEndian32 d \<noteq> []" "toLittleEndian32 d \<noteq> []" "toBigEndian24 d \<noteq> []"
  "toLittleEndian24 d \<noteq> []" "toBigEndian16 e \<noteq> []" "toLittleEndian16 e \<noteq> []"
  by (simp_all add: toBigEndian32_def toLittleEndian32_def toBigEndian24_def toLittleEndian24_def
      toBigEndian16_def toLittleEndian16_def)

section \<open>Round trips\<close>

lemma mask_8: "(0xFF :: 'a::len word) = mask 8"
  by (simp add: mask_eq_exp_minus_1)

lemma add_diff_if: "(k::nat) + (n - k) = (if k \<le> n then n else k)"
  by simp

lemmas byte_split_simps = bit_simps add_diff_if mask_8 take_bit_eq_mask [symmetric]

lemma fromBigEndian32_toBigEndian32 [simp, codec_simps]: "fromBigEndian32 (toBigEndian32 d) = Some d"
  unfolding fromBigEndian32_def toBigEndian32_def
  by (simp, rule bit_word_eqI) (auto simp: byte_split_simps)

lemma fromLittleEndian32_toLittleEndian32 [simp, codec_simps]:
  "fromLittleEndian32 (toLittleEndian32 d) = Some d"
  unfolding fromLittleEndian32_def toLittleEndian32_def
  by (simp, rule bit_word_eqI) (auto simp: byte_split_simps)

lemma fromBigEndian24_toBigEndian24 [simp, codec_simps]:
  "fromBigEndian24 (toBigEndian24 d) = Some (take_bit 24 d)"
  unfolding fromBigEndian24_def toBigEndian24_def
  by (simp, rule bit_word_eqI) (auto simp: byte_split_simps)

lemma fromLittleEndian24_toLittleEndian24 [simp, codec_simps]:
  "fromLittleEndian24 (toLittleEndian24 d) = Some (take_bit 24 d)"
  unfolding fromLittleEndian24_def toLittleEndian24_def
  by (simp, rule bit_word_eqI) (auto simp: byte_split_simps)

lemma fromBigEndian16_toBigEndian16 [simp, codec_simps]: "fromBigEndian16 (toBigEndian16 e) = Some e"
  unfolding fromBigEndian16_def toBigEndian16_def
  by (simp, rule bit_word_eqI) (auto simp: byte_split_simps)

lemma fromLittleEndian16_toLittleEndian16 [simp, codec_simps]:
  "fromLittleEndian16 (toLittleEndian16 e) = Some e"
  unfolding fromLittleEndian16_def toLittleEndian16_def
  by (simp, rule bit_word_eqI) (auto simp: byte_split_simps)

section \<open>Fixed-width fields as codecs\<close>

text \<open>The way every parser of the program reads a field: \<open>from({it, it + n}); it += n\<close>.\<close>

definition read_field :: "nat \<Rightarrow> (v8 \<Rightarrow> 'a option) \<Rightarrow> v8 \<Rightarrow> ('a \<times> v8) option" where
  "read_field n from it =
     do { d \<leftarrow> iter_slice n it; x \<leftarrow> from d; it \<leftarrow> iter_advance n it; Some (x, it) }"

lemma read_field_append [simp, codec_simps]:
  "n = length xs \<Longrightarrow> read_field n from (xs @ rest) = map_option (\<lambda>x. (x, rest)) (from xs)"
  by (cases "from xs") (simp_all add: read_field_def)

lemma read_field_consumes: "read_field n from it = Some (x, it') \<Longrightarrow> length it' + n = length it"
  by (auto simp: read_field_def bind_Some_iff dest: length_iter_advance)

lemma take_bit_24_eq: "unat d < 2 ^ 24 \<Longrightarrow> take_bit 24 d = (d :: u32)"
  by (rule unsigned_word_eqI [where 'a = nat]) (simp add: unsigned_take_bit_eq take_bit_nat_eq_self)

interpretation be16: codec toBigEndian16 "read_field 2 fromBigEndian16" "\<lambda>_. True"
  by unfold_locales simp

interpretation be32: codec toBigEndian32 "read_field 4 fromBigEndian32" "\<lambda>_. True"
  by unfold_locales simp

interpretation le32: codec toLittleEndian32 "read_field 4 fromLittleEndian32" "\<lambda>_. True"
  by unfold_locales simp

interpretation be24: codec toBigEndian24 "read_field 3 fromBigEndian24" "\<lambda>d. unat d < 2 ^ 24"
  by unfold_locales (simp add: take_bit_24_eq)

interpretation le24: codec toLittleEndian24 "read_field 3 fromLittleEndian24" "\<lambda>d. unat d < 2 ^ 24"
  by unfold_locales (simp add: take_bit_24_eq)

end
