(* ===== verification/Bit_Count.thy ===== *)
theory Bit_Count
imports Rtmp_Prelude
begin

text \<open>
  \<open>numberOfSetBits\<close> of \<open>private/utils.h\<close>: the branch-free population count that decides whether an RTMP
  header carries an extended timestamp. Its three masked folding steps and the multiplication that
  adds the bytes are shown to compute the number of set bits, by reading the 32 bits as digits in
  base 4, 16 and 256.
\<close>

unbundle bit_operations_syntax

definition numberOfSetBits :: "u32 \<Rightarrow> int" where
  "numberOfSetBits i0 =
     (let i1 = i0 - (drop_bit 1 i0 AND 0x55555555);
          i2 = (i1 AND 0x33333333) + (drop_bit 2 i1 AND 0x33333333)
      in uint (drop_bit 24 (((i2 + drop_bit 4 i2) AND 0x0F0F0F0F) * 0x01010101)))"

lemma and_low_high:
  fixes a b m c :: nat
  assumes "b < 2 ^ k" and "c < 2 ^ k"
  shows "(b + 2 ^ k * a) AND (c + 2 ^ k * m) = (b AND c) + 2 ^ k * (a AND m)"
proof -
  let ?X = "b + 2 ^ k * a" and ?Y = "c + 2 ^ k * m"
  have "?X AND ?Y = take_bit k (?X AND ?Y) + 2 ^ k * drop_bit k (?X AND ?Y)"
    using bits_ident [of k "?X AND ?Y"] by (simp add: push_bit_eq_mult mult.commute add.commute)
  moreover have "take_bit k ?X = b" "take_bit k ?Y = c" "drop_bit k ?X = a" "drop_bit k ?Y = m"
    using assms by (simp_all add: take_bit_eq_mod drop_bit_eq_div)
  ultimately show ?thesis by (simp add: take_bit_and drop_bit_and)
qed

definition popcount :: "'a::len word \<Rightarrow> nat" where
  "popcount w = length (filter (bit w) [0..<LENGTH('a)])"

text \<open>Positional notation, least significant digit first.\<close>

fun digits :: "nat \<Rightarrow> nat list \<Rightarrow> nat" where
  "digits B [] = 0"
| "digits B (d # ds) = d + B * digits B ds"

fun pairs :: "nat \<Rightarrow> nat list \<Rightarrow> nat list" where
  "pairs B (x # y # zs) = (x + B * y) # pairs B zs"
| "pairs B _ = []"

lemma digits_pairs: "even (length ds) \<Longrightarrow> digits (B * B) (pairs B ds) = digits B ds"
  by (induction B ds rule: pairs.induct) (simp_all add: algebra_simps)

lemma horner_sum_digits: "horner_sum of_bool 2 bs = digits 2 (map of_bool bs)"
  by (induction bs) simp_all

lemma digits_and_mask:
  "\<forall>d \<in> set ds. d < 2 ^ (2 * k) \<Longrightarrow>
   digits (2 ^ (2 * k)) ds AND digits (2 ^ (2 * k)) (replicate (length ds) (mask k))
     = digits (2 ^ (2 * k)) (map (\<lambda>d. d mod 2 ^ k) ds)"
proof (induction ds)
  case (Cons d ds)
  have "(mask k :: nat) < 2 ^ (2 * k)"
    by (rule order_less_le_trans [of _ "2 ^ k"]) (simp_all add: mask_nat_less_exp)
  with Cons show ?case
    by (simp add: and_low_high) (simp add: take_bit_eq_mask [symmetric] take_bit_eq_mod)
qed simp

lemma digits_div_and_mask:
  "\<forall>d \<in> set ds. d < 2 ^ (2 * k) \<Longrightarrow>
   (digits (2 ^ (2 * k)) ds div 2 ^ k) AND digits (2 ^ (2 * k)) (replicate (length ds) (mask k))
     = digits (2 ^ (2 * k)) (map (\<lambda>d. d div 2 ^ k) ds)"
proof (induction ds)
  case (Cons d ds)
  let ?X = "digits (2 ^ (2 * k)) ds" and ?M = "digits (2 ^ (2 * k)) (replicate (length ds) (mask k))"
  let ?q = "d div 2 ^ k" and ?low = "d div 2 ^ k + 2 ^ k * (?X mod 2 ^ k)"
  have m: "(mask k :: nat) < 2 ^ (2 * k)"
    by (rule order_less_le_trans [of _ "2 ^ k"]) (simp_all add: mask_nat_less_exp)
  have q: "?q < 2 ^ k"
    using Cons.prems by (simp add: less_mult_imp_div_less mult_2 power_add)
  have low: "?low < 2 ^ (2 * k)"
  proof -
    have "?X mod 2 ^ k < 2 ^ k" by simp
    then have "Suc (?X mod 2 ^ k) \<le> 2 ^ k" by (rule Suc_leI)
    then have "2 ^ k * Suc (?X mod 2 ^ k) \<le> 2 ^ k * 2 ^ k" by (rule mult_le_mono2)
    with q show ?thesis by (simp add: mult_2 power_add)
  qed
  have sq: "(2::nat) ^ (2 * k) = 2 ^ k * 2 ^ k"
    by (simp add: mult_2 power_add)
  have "(d + 2 ^ (2 * k) * ?X) div 2 ^ k = ?q + 2 ^ k * ?X"
    unfolding sq mult.assoc by simp
  also have "2 ^ k * ?X = 2 ^ k * (?X mod 2 ^ k + 2 ^ k * (?X div 2 ^ k))"
    by (simp only: mod_mult_div_eq)
  also have "?q + \<dots> = ?low + 2 ^ (2 * k) * (?X div 2 ^ k)"
    unfolding sq by (simp only: distrib_left mult.assoc add.assoc)
  finally have "(d + 2 ^ (2 * k) * ?X) div 2 ^ k AND (mask k + 2 ^ (2 * k) * ?M)
      = (?low AND mask k) + 2 ^ (2 * k) * (?X div 2 ^ k AND ?M)"
    using and_low_high [OF low m] by simp
  also have "?low AND mask k = ?q"
    using q by (simp add: take_bit_eq_mask [symmetric] take_bit_eq_mod)
  finally show ?case
    using Cons by simp
qed simp

lemma digits_add:
  "digits B (map f ds) + digits B (map g ds) = digits B (map (\<lambda>d. f d + g d) ds)"
proof (induction ds)
  case (Cons d ds)
  show ?case by (simp add: Cons.IH [symmetric] distrib_left)
qed simp

lemma digits_diff:
  assumes "\<And>d. g d \<le> d"
  shows "digits B ds - digits B (map g ds) = digits B (map (\<lambda>d. d - g d) ds)"
  using digits_add [of B "\<lambda>d. d - g d" ds g] assms by simp

lemma replicates:
  "replicate 16 x = [x, x, x, x, x, x, x, x, x, x, x, x, x, x, x, x]"
  "replicate 8 x = [x, x, x, x, x, x, x, x]" "replicate 4 x = [x, x, x, x]"
  by (simp_all add: numeral_eq_Suc)

lemma masks:
  "digits 4 (replicate 16 (mask 1)) = 0x55555555"
  "digits 16 (replicate 8 (mask 2)) = 0x33333333"
  "digits 256 (replicate 4 (mask 4)) = 0x0F0F0F0F"
  by (simp_all add: replicates mask_eq_exp_minus_1)

text \<open>The three folding steps on the digits, and the final multiplication that adds four bytes.\<close>

lemma fold_pairs:
  assumes "\<forall>d \<in> set ds. d < 4" and "length ds = 16" and "N = digits 4 ds"
  shows "N - (N div 2 AND 0x55555555) = digits 4 (map (\<lambda>d. d - d div 2) ds)"
proof -
  have "N div 2 AND 0x55555555 = digits 4 (map (\<lambda>d. d div 2) ds)"
    using digits_div_and_mask [of ds 1] assms masks(1) by simp
  then show ?thesis
    unfolding assms(3) by (simp only: digits_diff div_le_dividend)
qed

lemma fold_nibbles:
  assumes "\<forall>d \<in> set ds. d < 16" and "length ds = 8" and "N = digits 16 ds"
  shows "(N AND 0x33333333) + (N div 4 AND 0x33333333) = digits 16 (map (\<lambda>d. d mod 4 + d div 4) ds)"
proof -
  have "N AND 0x33333333 = digits 16 (map (\<lambda>d. d mod 4) ds)"
    using digits_and_mask [of ds 2] assms masks(2) by simp
  moreover have "N div 4 AND 0x33333333 = digits 16 (map (\<lambda>d. d div 4) ds)"
    using digits_div_and_mask [of ds 2] assms masks(2) by simp
  ultimately show ?thesis by (simp only: digits_add)
qed

lemma fold_bytes:
  assumes le: "a0 \<le> 4" "a1 \<le> 4" "a2 \<le> 4" "a3 \<le> 4" "a4 \<le> 4" "a5 \<le> 4" "a6 \<le> 4" "a7 \<le> (4::nat)"
    and N: "N = digits 16 [a0, a1, a2, a3, a4, a5, a6, a7]"
  shows "(N + N div 16) AND 0x0F0F0F0F = digits 256 [a0 + a1, a2 + a3, a4 + a5, a6 + a7]"
proof -
  let ?ds = "[a0 + a1 + 16 * (a1 + a2), a2 + a3 + 16 * (a3 + a4), a4 + a5 + 16 * (a5 + a6), a6 + a7 + 16 * a7]"
  have "N div 16 = digits 16 [a1, a2, a3, a4, a5, a6, a7]"
    unfolding N using le(1) by simp
  then have "N + N div 16 = digits 256 ?ds"
    unfolding N by simp
  moreover have "digits 256 ?ds AND digits 256 (replicate (length ?ds) (mask 4))
      = digits 256 (map (\<lambda>d. d mod 2 ^ 4) ?ds)"
    using digits_and_mask [of ?ds 4] le by simp
  moreover have "replicate (length ?ds) (mask 4 :: nat) = replicate 4 (mask 4)" by (simp add: numeral_eq_Suc)
  moreover have "map (\<lambda>d. d mod 2 ^ 4) ?ds = [a0 + a1, a2 + a3, a4 + a5, a6 + a7]"
  proof -
    have "(x + 16 * y) mod 2 ^ 4 = x" if "x \<le> 8" for x y :: nat
      using that by simp
    with le show ?thesis by (simp only: list.map)
  qed
  ultimately show ?thesis using masks(3) by (simp only:)
qed

lemma add_bytes:
  assumes "a \<le> 8" "b \<le> 8" "c \<le> 8" "d \<le> (8::nat)" and "N = digits 256 [a, b, c, d]"
  shows "N * 0x01010101 mod 2 ^ 32 div 2 ^ 24 = a + b + c + d"
proof -
  let ?low = "a + 256 * (a + b) + 65536 * (a + b + c)"
  let ?high = "(b + c + d) + 256 * (c + d) + 65536 * d"
  have "N * 0x01010101 = (?low + 2 ^ 24 * (a + b + c + d)) + 2 ^ 32 * ?high"
    unfolding assms(5) by simp
  moreover have "?low + 2 ^ 24 * (a + b + c + d) < 2 ^ 32" and low: "?low < 2 ^ 24"
    using assms by simp_all
  ultimately have "N * 0x01010101 mod 2 ^ 32 = ?low + 2 ^ 24 * (a + b + c + d)"
    by (simp only: mod_mult_self2 mod_less)
  then show ?thesis using low by simp
qed


lemma length_filter_sum: "length (filter P xs) = (\<Sum>x\<leftarrow>xs. of_bool (P x))"
  by (induction xs) simp_all

lemma and_le_nat: "x AND y \<le> (x::nat)"
proof -
  have "int x AND int y \<le> int x"
    by (rule AND_upper1) simp
  then show ?thesis
    by (simp flip: of_nat_and_eq)
qed

lemma unat_shiftr: "unat (drop_bit n w) = unat w div 2 ^ n"
  by (simp only: unsigned_drop_bit_eq) (simp add: drop_bit_eq_div take_bit_nat_eq_self)

lemma upt_lists:
  "[0..<8::nat] = [0, 1, 2, 3, 4, 5, 6, 7]"
  "[0..<16::nat] = [0, 1, 2, 3, 4, 5, 6, 7, 8, 9, 10, 11, 12, 13, 14, 15]"
  "[0..<32::nat] =
    [0, 1, 2, 3, 4, 5, 6, 7, 8, 9, 10, 11, 12, 13, 14, 15, 16, 17, 18, 19, 20, 21, 22, 23, 24, 25, 26, 27, 28, 29, 30, 31]"
  by code_simp+

text \<open>The number of set bits in each pair, and in each group of four; and the three words of the routine.\<close>

definition bit_at :: "u32 \<Rightarrow> nat \<Rightarrow> nat" where "bit_at i k = of_bool (bit i k)"
definition pair_at :: "u32 \<Rightarrow> nat \<Rightarrow> nat" where "pair_at i k = bit_at i (2 * k) + bit_at i (2 * k + 1)"
definition nibble_at :: "u32 \<Rightarrow> nat \<Rightarrow> nat" where "nibble_at i k = pair_at i (2 * k) + pair_at i (2 * k + 1)"

definition by_pairs :: "u32 \<Rightarrow> u32" where "by_pairs i = i - (drop_bit 1 i AND 0x55555555)"
definition by_nibbles :: "u32 \<Rightarrow> u32" where "by_nibbles i = (i AND 0x33333333) + (drop_bit 2 i AND 0x33333333)"
definition by_bytes :: "u32 \<Rightarrow> u32" where "by_bytes i = (i + drop_bit 4 i) AND 0x0F0F0F0F"

lemma bit_at_le: "bit_at i k \<le> 1"
  by (simp add: bit_at_def)

lemma pair_at_le: "pair_at i k \<le> 2"
  using bit_at_le [of i "2 * k"] bit_at_le [of i "2 * k + 1"] by (simp add: pair_at_def)

lemma nibble_at_le: "nibble_at i k \<le> 4"
  using pair_at_le [of i "2 * k"] pair_at_le [of i "2 * k + 1"] by (simp add: nibble_at_def)

lemma unat_by_bits: "unat i = digits 4 (map (\<lambda>k. bit_at i (2 * k) + 2 * bit_at i (2 * k + 1)) [0..<16])"
proof -
  have "unat i = horner_sum of_bool 2 (map (bit (unat i)) [0..<32])"
    by (simp only: horner_sum_bit_eq_take_bit) (simp flip: unsigned_take_bit_eq add: take_bit_word_eq_self)
  then have "unat i = digits 2 (map (bit_at i) [0..<32])"
    by (simp add: horner_sum_digits bit_at_def [abs_def] bit_unsigned_iff o_def)
  also have "\<dots> = digits 4 (pairs 2 (map (bit_at i) [0..<32]))"
    using digits_pairs [of "map (bit_at i) [0..<32]" 2] by simp
  finally show ?thesis by (simp add: upt_lists)
qed

lemma unat_by_pairs: "unat (by_pairs i) = digits 16 (map (\<lambda>k. pair_at i (2 * k) + 4 * pair_at i (2 * k + 1)) [0..<8])"
proof -
  let ?q = "\<lambda>k. bit_at i (2 * k) + 2 * bit_at i (2 * k + 1)"
  have "?q k < 4" "?q k - ?q k div 2 = pair_at i k" for k
    using bit_at_le [of i "2 * k"] bit_at_le [of i "2 * k + 1"] unfolding pair_at_def by (auto simp: le_Suc_eq)
  then have q: "\<forall>d \<in> set (map ?q [0..<16]). d < 4" "map (\<lambda>d. d - d div 2) (map ?q [0..<16]) = map (pair_at i) [0..<16]"
    by simp_all
  have "unat (drop_bit 1 i AND 0x55555555) = unat i div 2 AND 0x55555555"
    by (simp only: unsigned_and_eq unat_shiftr) simp
  moreover have "drop_bit 1 i AND 0x55555555 \<le> i"
    unfolding word_le_nat_alt calculation using and_le_nat [of "unat i div 2"]
    by (rule order_trans) simp
  ultimately have "unat (by_pairs i) = unat i - (unat i div 2 AND 0x55555555)" by (simp add: by_pairs_def unat_sub)
  also have "\<dots> = digits 4 (map (\<lambda>d. d - d div 2) (map ?q [0..<16]))"
    by (rule fold_pairs [OF q(1) _ unat_by_bits]) simp
  also have "\<dots> = digits 4 (map (pair_at i) [0..<16])" unfolding q(2) ..
  also have "\<dots> = digits 16 (pairs 4 (map (pair_at i) [0..<16]))"
    using digits_pairs [of "map (pair_at i) [0..<16]" 4] by simp
  finally show ?thesis by (simp add: upt_lists)
qed

lemma unat_by_nibbles: "unat (by_nibbles (by_pairs i)) = digits 16 (map (nibble_at i) [0..<8])"
proof -
  let ?i = "by_pairs i" and ?p = "\<lambda>k. pair_at i (2 * k) + 4 * pair_at i (2 * k + 1)"
  have "?p k < 16" "?p k mod 4 + ?p k div 4 = nibble_at i k" for k
    using pair_at_le [of i "2 * k"] pair_at_le [of i "2 * k + 1"] by (simp_all add: nibble_at_def)
  then have n: "(unat ?i AND 0x33333333) + (unat ?i div 4 AND 0x33333333) = digits 16 (map (nibble_at i) [0..<8])"
    using fold_nibbles [OF _ _ unat_by_pairs, of i] by (simp add: o_def)
  have "x AND m \<le> m" for x m :: nat
    using and_le_nat [of m x] by (simp add: and.commute)
  moreover have "unat (?i AND 0x33333333) = unat ?i AND 0x33333333"
    and "unat (drop_bit 2 ?i AND 0x33333333) = unat ?i div 4 AND 0x33333333"
    by (simp_all only: unsigned_and_eq unat_shiftr) simp_all
  moreover from calculation(1) [of "unat ?i" "0x33333333"] calculation(1) [of "unat ?i div 4" "0x33333333"]
  have "(unat ?i AND 0x33333333) + (unat ?i div 4 AND 0x33333333) < 2 ^ 32" by simp
  ultimately show ?thesis
    unfolding by_nibbles_def n [symmetric] by (subst unat_add_lem [THEN iffD1]) simp_all
qed

lemma unat_by_bytes:
  "unat (by_bytes (by_nibbles (by_pairs i))) = digits 256
    [nibble_at i 0 + nibble_at i 1, nibble_at i 2 + nibble_at i 3, nibble_at i 4 + nibble_at i 5, nibble_at i 6 + nibble_at i 7]"
proof -
  let ?i = "by_nibbles (by_pairs i)" and ?r = "nibble_at i"
  note r = nibble_at_le [of i]
  have u: "unat ?i = digits 16 [?r 0, ?r 1, ?r 2, ?r 3, ?r 4, ?r 5, ?r 6, ?r 7]"
    unfolding unat_by_nibbles by (simp add: upt_lists)
  have "unat ?i + unat ?i div 16 < 2 ^ 32"
    unfolding u using r [of 0] r [of 1] r [of 2] r [of 3] r [of 4] r [of 5] r [of 6] r [of 7] by simp
  then have "unat (?i + drop_bit 4 ?i) = unat ?i + unat ?i div 16"
    by (subst unat_add_lem [THEN iffD1]) (simp_all add: unat_shiftr)
  then have "unat (by_bytes ?i) = (unat ?i + unat ?i div 16) AND 0x0F0F0F0F"
    unfolding by_bytes_def by (simp add: unsigned_and_eq)
  also have "\<dots> = digits 256 [?r 0 + ?r 1, ?r 2 + ?r 3, ?r 4 + ?r 5, ?r 6 + ?r 7]"
    by (rule fold_bytes [OF r r r r r r r r u])
  finally show ?thesis .
qed

lemma numberOfSetBits_count: "numberOfSetBits i = int (popcount i)"
proof -
  let ?i = "by_bytes (by_nibbles (by_pairs i))" and ?r = "nibble_at i"
  have r8: "?r x + ?r y \<le> 8" for x y using nibble_at_le [of i x] nibble_at_le [of i y] by simp
  have "unat (drop_bit 24 (?i * 0x01010101)) = unat ?i * 0x01010101 mod 2 ^ 32 div 2 ^ 24"
    by (simp only: unat_shiftr unat_word_ariths) simp
  also have "\<dots> = (?r 0 + ?r 1) + (?r 2 + ?r 3) + (?r 4 + ?r 5) + (?r 6 + ?r 7)"
    by (rule add_bytes [OF r8 r8 r8 r8 unat_by_bytes])
  also have "\<dots> = popcount i"
    by (simp add: nibble_at_def pair_at_def popcount_def bit_at_def length_filter_sum upt_lists)
  finally have "unat (drop_bit 24 (?i * 0x01010101)) = popcount i" .
  moreover have "numberOfSetBits i = uint (drop_bit 24 (?i * 0x01010101))"
    unfolding numberOfSetBits_def Let_def by_pairs_def by_nibbles_def by_bytes_def by (rule refl)
  ultimately show ?thesis
    by (metis int_eq_iff uint_ge_0 nat_uint_eq)
qed

lemma popcount_ge_24_iff:
  assumes "unat w < 2 ^ 24"
  shows "24 \<le> popcount (w :: u32) \<longleftrightarrow> w = mask 24"
proof -
  have hi: "\<not> bit w k" if "24 \<le> k" for k
  proof -
    have "w = take_bit 24 w"
      using assms by (metis take_bit_nat_eq_self unsigned_take_bit_eq unsigned_word_eqI word_unat_eq_iff)
    then show ?thesis using that by (metis bit_take_bit_iff leD)
  qed
  have f: "filter (bit w) [0..<32] = filter (bit w) [0..<24]"
    using hi upt_add_eq_append [of 0 24 8] by (simp add: filter_empty_conv)
  show ?thesis
  proof
    assume "24 \<le> popcount w"
    then have "length (filter (bit w) [0..<24]) = length [0..<24::nat]"
      using length_filter_le [of "bit w" "[0..<24]"] by (simp add: popcount_def f)
    then have "\<forall>k < 24. bit w k"
      by (metis (no_types, lifting) atLeastLessThan_iff filter_id_conv length_filter_less less_irrefl_nat set_upt zero_le)
    with hi show "w = mask 24"
      by (intro bit_word_eqI) (auto simp: bit_simps not_le [symmetric])
  next
    assume w: "w = mask 24"
    have "popcount w = length (filter (bit w) [0..<24])"
      by (simp add: popcount_def f)
    also have "filter (bit w) [0..<24] = [0..<24]"
      unfolding w by (simp add: filter_id_conv bit_simps)
    finally show "24 \<le> popcount w" by simp
  qed
qed


section \<open>Properties\<close>

text \<open>C40: the masked folding and the multiplication compute the number of set bits, for every 32-bit
  word, with no wrap-around losing a bit.\<close>

theorem numberOfSetBits_popcount: "numberOfSetBits i = int (popcount i)"
  by (rule numberOfSetBits_count)

end
