(* ===== verification/Tags.thy ===== *)
theory Tags
imports Bytes Bit_Count
begin

text \<open>
  The tag classes: \<open>MediaTag\<close>, \<open>Typified\<close> and \<open>MediaTypedPacketTag\<close>, from which both the FLV tags and
  the RTMP messages derive, and the FLV base, audio and video tags. An enumeration with underlying
  type \<open>u8\<close> is a \<open>u8\<close>: the program casts between the two freely and compares values only. The four
  sound fields and the two video fields have no initialiser in the code: they are \<open>None\<close> until set, and
  reading them unset is undefined (\<open>None\<close> as the result).
\<close>

unbundle bit_operations_syntax

section \<open>Media tags\<close>

record media_tag =
  payload :: v8
  payloadSize :: u32
  extendedTimestamp :: u32
  timestamp :: u32
  streamID :: u32
  tag_type :: u8

definition new_media_tag :: media_tag where
  "new_media_tag = \<lparr> payload = [], payloadSize = 0, extendedTimestamp = 0, timestamp = 0,
     streamID = 0, tag_type = 0 \<rparr>"

definition tagType :: "u8 \<Rightarrow> u8" where
  "tagType p = p"

definition media_tag_size :: "'a media_tag_scheme \<Rightarrow> nat" where
  "media_tag_size t = unat (payloadSize t)"

definition media_tag_serialize :: "'a media_tag_scheme \<Rightarrow> v8" where
  "media_tag_serialize t = payload t"

definition tag_appendPayload :: "v8 \<Rightarrow> 'a media_tag_scheme \<Rightarrow> 'a media_tag_scheme" where
  "tag_appendPayload data t = (if data = [] then t else t\<lparr>payload := payload t @ data\<rparr>)"

definition hasExtendedTimestamp :: "'a media_tag_scheme \<Rightarrow> bool" where
  "hasExtendedTimestamp t = (numberOfSetBits (timestamp t) \<ge> 24)"

lemma payload_append [simp]: "payload (tag_appendPayload d t) = payload t @ d"
  by (simp add: tag_appendPayload_def)

lemma tag_append_fields [simp]:
  "payloadSize (tag_appendPayload d t) = payloadSize t" "timestamp (tag_appendPayload d t) = timestamp t"
  "streamID (tag_appendPayload d t) = streamID t" "tag_type (tag_appendPayload d t) = tag_type t"
  "extendedTimestamp (tag_appendPayload d t) = extendedTimestamp t"
  by (simp_all add: tag_appendPayload_def)

section \<open>FLV tags\<close>

abbreviation "FLV_AudioPayload \<equiv> (0x08 :: u8)"
abbreviation "FLV_VideoPayload \<equiv> (0x09 :: u8)"
abbreviation "FLV_AMFMetadata \<equiv> (0x12 :: u8)"
abbreviation "SoundFormat_AAC \<equiv> (10 :: u8)"
abbreviation "AACPacketType_Unknown \<equiv> (99 :: u8)"

record flv_tag = media_tag +
  prevTagSize :: u32

definition flv_payloadSizeAndHeader :: "'a flv_tag_scheme \<Rightarrow> u32" where
  "flv_payloadSizeAndHeader t = payloadSize t + 15"

definition flv_tag_deserialize :: "v8 \<Rightarrow> 'a flv_tag_scheme \<Rightarrow> 'a flv_tag_scheme option" where
  "flv_tag_deserialize it t =
     do { d \<leftarrow> iter_slice 4 it; prev \<leftarrow> fromBigEndian32 d;
          it \<leftarrow> iter_advance 4 it;
          ty \<leftarrow> iter_deref it;
          it \<leftarrow> iter_advance 1 it;
          d \<leftarrow> iter_slice 3 it; size \<leftarrow> fromBigEndian24 d;
          it \<leftarrow> iter_advance 3 it;
          d \<leftarrow> iter_slice 3 it; ts \<leftarrow> fromBigEndian24 d;
          it \<leftarrow> iter_advance 4 it;
          d \<leftarrow> iter_slice 3 it; sid \<leftarrow> fromBigEndian24 d;
          it \<leftarrow> iter_advance 3 it;
          p \<leftarrow> iter_slice (unat size) it;
          Some (t\<lparr>prevTagSize := prev, tag_type := ty, payloadSize := size, timestamp := ts,
                  streamID := sid, payload := p\<rparr>) }"

record flv_audio_tag = flv_tag +
  soundFormat :: "u8 option"
  soundRate :: "u8 option"
  soundSampleSize :: "u8 option"
  soundType :: "u8 option"
  aacPacketType :: "u8 option"

record flv_video_tag = flv_tag +
  codecID :: "u8 option"
  frameType :: "u8 option"

definition new_flv_audio_tag :: flv_audio_tag where
  "new_flv_audio_tag = media_tag.extend new_media_tag
     \<lparr> prevTagSize = 0, soundFormat = None, soundRate = None, soundSampleSize = None, soundType = None,
       aacPacketType = None \<rparr>"

definition new_flv_video_tag :: flv_video_tag where
  "new_flv_video_tag = media_tag.extend new_media_tag
     \<lparr> prevTagSize = 0, codecID = None, frameType = None \<rparr>"

text \<open>The first payload byte holds the codec data.\<close>

definition flv_audio_deserialize_payload :: "flv_audio_tag \<Rightarrow> flv_audio_tag" where
  "flv_audio_deserialize_payload t =
     (case payload t of
        [] \<Rightarrow> t
      | b # _ \<Rightarrow>
          let t = t\<lparr>soundFormat := Some (drop_bit 4 (b AND 0xF0)),
                    soundRate := Some (drop_bit 2 (b AND 0x0C)),
                    soundSampleSize := Some (drop_bit 1 (b AND 0x02)),
                    soundType := Some (drop_bit 0 (b AND 0x01))\<rparr>
          in t\<lparr>aacPacketType := Some (if soundFormat t = Some SoundFormat_AAC then b
                                      else AACPacketType_Unknown)\<rparr>)"

definition flv_audio_deserialize :: "v8 \<Rightarrow> flv_audio_tag \<Rightarrow> flv_audio_tag option" where
  "flv_audio_deserialize it t =
     do { t \<leftarrow> flv_tag_deserialize it t; Some (flv_audio_deserialize_payload t) }"

definition flv_audio_serialize :: "flv_audio_tag \<Rightarrow> v8" where
  "flv_audio_serialize t = payload t"

definition flv_audio_updateMedataData :: "flv_audio_tag \<Rightarrow> flv_audio_tag option" where
  "flv_audio_updateMedataData t =
     do { format \<leftarrow> soundFormat t;
          rate \<leftarrow> soundRate t;
          size \<leftarrow> soundSampleSize t;
          stereo \<leftarrow> soundType t;
          let value = push_bit 4 format OR push_bit 2 rate OR push_bit 1 size OR push_bit 0 stereo;
          let p = value # 1 # payload t;
          Some (t\<lparr>payload := p, payloadSize := word_of_nat (length p)\<rparr>) }"

definition flv_video_deserialize_payload :: "flv_video_tag \<Rightarrow> flv_video_tag" where
  "flv_video_deserialize_payload t =
     (case payload t of
        [] \<Rightarrow> t
      | b # _ \<Rightarrow> t\<lparr>codecID := Some (drop_bit 0 (b AND 0x0F)),
                     frameType := Some (drop_bit 4 (b AND 0xF0))\<rparr>)"

definition flv_video_deserialize :: "v8 \<Rightarrow> flv_video_tag \<Rightarrow> flv_video_tag option" where
  "flv_video_deserialize it t =
     do { t \<leftarrow> flv_tag_deserialize it t; Some (flv_video_deserialize_payload t) }"

definition flv_video_serialize :: "flv_video_tag \<Rightarrow> v8" where
  "flv_video_serialize t = payload t"

definition flv_video_updateMedataData :: "flv_video_tag \<Rightarrow> flv_video_tag option" where
  "flv_video_updateMedataData t =
     do { frame \<leftarrow> frameType t;
          codec \<leftarrow> codecID t;
          let value = push_bit 4 frame OR codec;
          let p = value # 1 # 0 # 0 # 0 # payload t;
          Some (t\<lparr>payload := p, payloadSize := word_of_nat (length p)\<rparr>) }"

section \<open>The extended-timestamp test\<close>

text \<open>On the 24-bit timestamps of a header the bit count asks for the value 0xFFFFFF.\<close>

lemma hasExtendedTimestamp_24:
  assumes "unat (timestamp t) < 2 ^ 24"
  shows "hasExtendedTimestamp t \<longleftrightarrow> timestamp t = 0xFFFFFF"
proof -
  have "hasExtendedTimestamp t \<longleftrightarrow> 24 \<le> popcount (timestamp t)"
    by (simp add: hasExtendedTimestamp_def numberOfSetBits_count)
  also have "\<dots> \<longleftrightarrow> timestamp t = mask 24"
    using assms by (intro popcount_ge_24_iff) (simp add: word_less_nat_alt)
  finally show ?thesis
    by (simp add: mask_eq_exp_minus_1)
qed

section \<open>Reading FLV tags\<close>

lemma byte_high_bit: "8 \<le> n \<Longrightarrow> \<not> bit (b :: u8) n"
  using bit_imp_le_length [of b n] by auto

lemma fromBigEndian24_less: "fromBigEndian24 d = Some n \<Longrightarrow> unat n < 2 ^ 24"
proof -
  assume n: "fromBigEndian24 d = Some n"
  then have "take_bit 24 n = n"
    by (auto simp: fromBigEndian24_def byte_high_bit bit_simps split: if_splits intro!: bit_word_eqI)
  then have "take_bit 24 (unat n) = unat n"
    by (metis unsigned_take_bit_eq)
  then show ?thesis
    by (metis take_bit_nat_less_exp)
qed

lemma flv_tag_deserialize_size:
  assumes "flv_tag_deserialize it t = Some t'"
  shows "unat (payloadSize t') < 2 ^ 24"
    and "15 + unat (payloadSize t') \<le> length it"
  using assms
  by (auto simp: flv_tag_deserialize_def bind_Some_iff dest: fromBigEndian24_less
      dest!: length_iter_advance iter_slice_Some)

lemma flv_audio_payload_size [simp]:
  "payloadSize (flv_audio_deserialize_payload t) = payloadSize t"
  by (simp add: flv_audio_deserialize_payload_def Let_def split: list.splits)

lemma flv_video_payload_size [simp]:
  "payloadSize (flv_video_deserialize_payload t) = payloadSize t"
  by (simp add: flv_video_deserialize_payload_def split: list.splits)

section \<open>The codec byte\<close>

lemma take_bit_byte: "unat x < 2 ^ n \<Longrightarrow> take_bit n x = (x :: u8)"
  by (rule unsigned_word_eqI [where 'a = nat]) (simp add: unsigned_take_bit_eq take_bit_nat_eq_self)

lemma byte_masks:
  "(0xF0 :: u8) = push_bit 4 (mask 4)" "(0x0F :: u8) = mask 4" "(0x0C :: u8) = push_bit 2 (mask 2)"
  "(0x02 :: u8) = push_bit 1 (mask 1)" "(0x01 :: u8) = mask 1"
  by (simp_all add: mask_eq_exp_minus_1)

lemma video_byte:
  assumes "unat f < 16" and "unat c < 16"
  shows "drop_bit 4 ((push_bit 4 f OR c) AND 0xF0) = (f :: u8)"
    and "(push_bit 4 f OR c) AND 0x0F = c"
proof -
  let ?f = "take_bit 4 f" and ?c = "take_bit 4 c"
  have "drop_bit 4 ((push_bit 4 ?f OR ?c) AND 0xF0) = ?f" "(push_bit 4 ?f OR ?c) AND 0x0F = ?c"
    unfolding byte_masks by (auto intro!: bit_word_eqI simp: bit_simps)
  then show "drop_bit 4 ((push_bit 4 f OR c) AND 0xF0) = f" and "(push_bit 4 f OR c) AND 0x0F = c"
    using assms by (simp_all add: take_bit_byte)
qed

lemma audio_byte:
  assumes "unat f < 16" and "unat r < 4" and "unat z < 2" and "unat y < 2"
  defines "b \<equiv> push_bit 4 f OR push_bit 2 r OR push_bit 1 z OR (y :: u8)"
  shows "drop_bit 4 (b AND 0xF0) = f" and "drop_bit 2 (b AND 0x0C) = r"
    and "drop_bit 1 (b AND 0x02) = z" and "b AND 0x01 = y"
proof -
  let ?f = "take_bit 4 f" and ?r = "take_bit 2 r" and ?z = "take_bit 1 z" and ?y = "take_bit 1 y"
  let ?b = "push_bit 4 ?f OR push_bit 2 ?r OR push_bit 1 ?z OR ?y"
  have "drop_bit 4 (?b AND 0xF0) = ?f" "drop_bit 2 (?b AND 0x0C) = ?r"
    "drop_bit 1 (?b AND 0x02) = ?z" "?b AND 0x01 = ?y"
    unfolding byte_masks
    by (auto intro!: bit_word_eqI simp: bit_simps simp del: push_bit_Suc drop_bit_Suc take_bit_Suc)
  moreover have "?f = f" "?r = r" "?z = z" "?y = y"
    by (rule take_bit_byte, use assms in simp)+
  ultimately show "drop_bit 4 (b AND 0xF0) = f" "drop_bit 2 (b AND 0x0C) = r"
    "drop_bit 1 (b AND 0x02) = z" "b AND 0x01 = y"
    unfolding b_def by (simp_all only:)
qed

section \<open>Properties\<close>

text \<open>The codec byte that \<open>FLVMediaVideoTag::updateMedataData\<close> puts in front of the payload is read
  back by \<open>deserialize\<close> as the same frame type and codec, and the payload size counts the five bytes.\<close>

theorem flv_video_metadata_roundtrip:
  assumes "frameType t = Some f" and "codecID t = Some c" and "unat f < 16" and "unat c < 16"
  shows "\<exists>t'. flv_video_updateMedataData t = Some t' \<and> flv_video_deserialize_payload t' = t' \<and>
    drop 5 (payload t') = payload t \<and> payloadSize t' = word_of_nat (5 + length (payload t))"
  using assms video_byte [OF assms(3,4)]
  by (simp add: flv_video_updateMedataData_def flv_video_deserialize_payload_def)

theorem flv_video_metadata_roundtrip_witness:
  "\<exists>t'. flv_video_updateMedataData (new_flv_video_tag\<lparr>codecID := Some 7, frameType := Some 1, payload := [9]\<rparr>)
      = Some t' \<and> flv_video_deserialize_payload t' = t' \<and> drop 5 (payload t') = [9] \<and> payloadSize t' = 6"
  using flv_video_metadata_roundtrip
    [of "new_flv_video_tag\<lparr>codecID := Some 7, frameType := Some 1, payload := [9]\<rparr>" 1 7] by simp

text \<open>The codec byte of an audio tag is read back field for field, except that the AAC packet type is
  taken from that same byte instead of the byte behind it, which \<open>updateMedataData\<close> sets to 1.\<close>

theorem flv_audio_metadata_roundtrip:
  assumes "soundFormat t = Some f" and "soundRate t = Some r" and "soundSampleSize t = Some z"
    and "soundType t = Some y" and "unat f < 16" and "unat r < 4" and "unat z < 2" and "unat y < 2"
  shows "\<exists>t' b. flv_audio_updateMedataData t = Some t' \<and> payload t' = b # 1 # payload t \<and>
    flv_audio_deserialize_payload t' =
      t'\<lparr>aacPacketType := Some (if f = SoundFormat_AAC then b else AACPacketType_Unknown)\<rparr>"
  using assms audio_byte [OF assms(5-8)]
  by (simp add: flv_audio_updateMedataData_def flv_audio_deserialize_payload_def Let_def)

theorem flv_audio_metadata_roundtrip_witness:
  "\<exists>t' b. flv_audio_updateMedataData (new_flv_audio_tag\<lparr>soundFormat := Some 10, soundRate := Some 3,
      soundSampleSize := Some 1, soundType := Some 1, payload := [5]\<rparr>) = Some t' \<and>
    payload t' = b # 1 # [5] \<and> flv_audio_deserialize_payload t' = t'\<lparr>aacPacketType := Some b\<rparr>"
  using flv_audio_metadata_roundtrip [of "new_flv_audio_tag\<lparr>soundFormat := Some 10, soundRate := Some 3,
      soundSampleSize := Some 1, soundType := Some 1, payload := [5]\<rparr>" 10 3 1 1] by simp

end
