(* ===== verification/Doubles.thy ===== *)
theory Doubles
imports Rtmp_Prelude
begin

text \<open>
  The C++ \<open>double\<close> as the program uses it: an IEEE-754 binary64 value, given by its 64 bits. Modelled
  are the conversions the sources perform (integers to \<open>double\<close>, \<open>static_cast\<close> back to unsigned
  integers, \<open>memcpy\<close> to and from bytes on a little-endian host, and the test \<open>d > 0\<close>). A cast of a
  value that the target type cannot hold is undefined in C++ and is \<open>None\<close> here.
\<close>

unbundle bit_operations_syntax

type_synonym double = "64 word"

section \<open>Integers to doubles\<close>

fun ilog2 :: "nat \<Rightarrow> nat" where
  "ilog2 n = (if n < 2 then 0 else Suc (ilog2 (n div 2)))"

declare ilog2.simps [simp del]

lemma ilog2_bounds: "0 < n \<Longrightarrow> 2 ^ ilog2 n \<le> n \<and> n < 2 * 2 ^ ilog2 n"
proof (induction n rule: ilog2.induct)
  case (1 n)
  show ?case
  proof (cases "n < 2")
    case True
    with "1.prems" show ?thesis by (simp add: ilog2.simps [of n])
  next
    case False
    define q :: nat where "q = 2 ^ ilog2 (n div 2)"
    from False "1.IH" have "q \<le> n div 2 \<and> n div 2 < 2 * q"
      by (simp add: q_def)
    then have "2 * q \<le> n \<and> n < 4 * q" by presburger
    with False show ?thesis by (simp add: ilog2.simps [of n] q_def)
  qed
qed

text \<open>The exact value for \<open>n < 2 ^ 53\<close>, which covers every integer the program converts.\<close>

definition double_of_nat :: "nat \<Rightarrow> double" where
  "double_of_nat n =
     (if n = 0 then 0
      else let e = ilog2 n in word_of_nat ((1023 + e) * 2 ^ 52 + (n * 2 ^ (52 - e) - 2 ^ 52)))"

definition double_of_int :: "int \<Rightarrow> double" where
  "double_of_int i = (if i < 0 then push_bit 63 1 OR double_of_nat (nat (- i)) else double_of_nat (nat i))"

section \<open>Doubles to integers\<close>

text \<open>Truncation towards zero; \<open>None\<close> for infinities and NaNs.\<close>

definition double_trunc :: "double \<Rightarrow> int option" where
  "double_trunc d =
     (let e = (unat d div 2 ^ 52) mod 2048; m = unat d mod 2 ^ 52 in
      if e = 2047 then None
      else let mag = (if e < 1023 then 0
                      else if e < 1075 then (2 ^ 52 + m) div 2 ^ (1075 - e)
                      else (2 ^ 52 + m) * 2 ^ (e - 1075))
           in Some (if bit d 63 then - int mag else int mag))"

definition double_to_word :: "double \<Rightarrow> 'a::len word option" where
  "double_to_word d = (case double_trunc d of
       None \<Rightarrow> None
     | Some k \<Rightarrow> if 0 \<le> k \<and> k < 2 ^ LENGTH('a) then Some (word_of_int k) else None)"

text \<open>\<open>d > 0\<close>: neither zero, negative, nor NaN.\<close>

definition double_pos :: "double \<Rightarrow> bool" where
  "double_pos d \<longleftrightarrow> 0 < unat d \<and> unat d \<le> 0x7FF0000000000000"

lemma unat_of_nat_64: "n < 2 ^ 64 \<Longrightarrow> unat (word_of_nat n :: 64 word) = n"
  by (simp add: unsigned_of_nat take_bit_nat_eq_self)

lemma double_of_nat_fields:
  assumes "0 < n" and "n < 2 ^ 53"
  defines "m \<equiv> n * 2 ^ (52 - ilog2 n) - 2 ^ 52"
  shows "unat (double_of_nat n) = (1023 + ilog2 n) * 2 ^ 52 + m"
    and "m < 2 ^ 52" and "2 ^ 52 + m = n * 2 ^ (52 - ilog2 n)" and "ilog2 n \<le> 52"
proof -
  from ilog2_bounds [OF assms(1)] have lo: "2 ^ ilog2 n \<le> n" and hi: "n < 2 * 2 ^ ilog2 n"
    by simp_all
  show e: "ilog2 n \<le> 52"
  proof (rule ccontr)
    assume "\<not> ilog2 n \<le> 52"
    then have "(2::nat) ^ 53 \<le> 2 ^ ilog2 n" by (intro power_increasing) simp_all
    with lo assms(2) show False by simp
  qed
  have p: "(2::nat) ^ 52 = 2 ^ ilog2 n * 2 ^ (52 - ilog2 n)"
    using e by (simp only: power_add [symmetric]) simp
  have "2 ^ 52 \<le> n * 2 ^ (52 - ilog2 n)"
    unfolding p by (rule mult_le_mono1 [OF lo])
  then show s: "2 ^ 52 + m = n * 2 ^ (52 - ilog2 n)"
    by (simp add: m_def)
  have "n * 2 ^ (52 - ilog2 n) < 2 * 2 ^ ilog2 n * 2 ^ (52 - ilog2 n)"
    by (rule mult_less_mono1 [OF hi]) simp
  also have "\<dots> = 2 * 2 ^ 52"
    unfolding p by simp
  finally show m: "m < 2 ^ 52"
    using s by simp
  have "(1023 + ilog2 n) * 2 ^ 52 + m < 2 ^ 64"
  proof -
    have "(1023 + ilog2 n) * 2 ^ 52 \<le> (1023 + 52) * 2 ^ 52"
      using e by (intro mult_le_mono1) simp
    with m show ?thesis by simp
  qed
  then show "unat (double_of_nat n) = (1023 + ilog2 n) * 2 ^ 52 + m"
    unfolding double_of_nat_def Let_def m_def [symmetric]
    using assms(1) by (simp only: unat_of_nat_64 if_False less_numeral_extra(3) not_gr_zero if_not_P split: if_split)
qed

lemma double_trunc_of_nat:
  assumes "n < 2 ^ 53"
  shows "double_trunc (double_of_nat n) = Some (int n)"
proof (cases "n = 0")
  case True
  then show ?thesis by (simp add: double_of_nat_def double_trunc_def Let_def)
next
  case False
  define m where "m = n * 2 ^ (52 - ilog2 n) - 2 ^ 52"
  define e where "e = ilog2 n"
  have pos: "0 < n" using False by simp
  note f = double_of_nat_fields [OF pos assms, folded m_def e_def]
  have d: "unat (double_of_nat n) div 2 ^ 52 = 1023 + e"
    unfolding f(1) using f(2) by (simp only: div_mult_self3 div_less)
  have r: "unat (double_of_nat n) mod 2 ^ 52 = m"
    unfolding f(1) using f(2) by (simp only: mod_mult_self3 mod_less)
  have "unat (double_of_nat n) < 2 ^ 63"
  proof -
    have "(1023 + e) * 2 ^ 52 \<le> (1023 + 52) * 2 ^ 52"
      using f(4) by (intro mult_le_mono1) simp
    with f(1,2) show ?thesis by simp
  qed
  then have "\<not> bit (unat (double_of_nat n)) 63"
    by (simp only: bit_iff_odd div_less) simp
  then have s: "\<not> bit (double_of_nat n) 63"
    by (simp add: bit_unsigned_iff)
  show ?thesis
  proof (cases "e = 52")
    case True
    with f(3) show ?thesis
      using d r s by (simp add: double_trunc_def Let_def)
  next
    case False
    with f(4) have "e < 52" by simp
    then show ?thesis
      using d r s f(3) by (simp add: double_trunc_def Let_def)
  qed
qed

lemma double_to_word_of_nat:
  "n < 2 ^ 53 \<Longrightarrow> n < 2 ^ LENGTH('a) \<Longrightarrow>
   double_to_word (double_of_nat n) = Some (word_of_nat n :: 'a::len word)"
  by (simp add: double_to_word_def double_trunc_of_nat)

lemma double_pos_of_nat: "0 < n \<Longrightarrow> n < 2 ^ 53 \<Longrightarrow> double_pos (double_of_nat n)"
  using double_of_nat_fields [of n] unfolding double_pos_def by simp

lemma double_pos_zero [simp]: "\<not> double_pos 0"
  by (simp add: double_pos_def)

section \<open>The bytes of a double\<close>

definition double_bytes :: "double \<Rightarrow> v8" where
  "double_bytes d = map (\<lambda>k. ucast (drop_bit (8 * k) d)) [0..<8]"

definition double_of_bytes :: "v8 \<Rightarrow> double" where
  "double_of_bytes bs = foldr (\<lambda>b d. ucast b OR push_bit 8 d) bs 0"

lemma length_double_bytes [simp]: "length (double_bytes d) = 8"
  by (simp add: double_bytes_def)

lemma double_bytes_list:
  "double_bytes d = [ucast d, ucast (drop_bit 8 d), ucast (drop_bit 16 d), ucast (drop_bit 24 d),
     ucast (drop_bit 32 d), ucast (drop_bit 40 d), ucast (drop_bit 48 d), ucast (drop_bit 56 d)]"
  by (simp add: double_bytes_def upt_rec)

lemma join_byte: "ucast (ucast (drop_bit n d) :: u8) OR push_bit 8 (drop_bit (n + 8) d) = drop_bit n (d :: double)"
proof (rule bit_word_eqI)
  fix k assume "k < LENGTH(64)"
  moreover have "n + 8 + (k - 8) = n + k" if "\<not> k < 8" using that by simp
  ultimately show "bit (ucast (ucast (drop_bit n d) :: u8) OR push_bit 8 (drop_bit (n + 8) d)) k
      \<longleftrightarrow> bit (drop_bit n d) k"
    by (cases "k < 8") (simp_all add: bit_simps)
qed

lemma double_of_bytes_bytes [simp, codec_simps]: "double_of_bytes (double_bytes d) = d"
proof -
  have top: "drop_bit (56 + 8) d = 0"
    by (rule bit_word_eqI) (simp add: bit_simps)
  show ?thesis
    using join_byte [of 56 d, unfolded top] join_byte [of 48 d] join_byte [of 40 d] join_byte [of 32 d]
      join_byte [of 24 d] join_byte [of 16 d] join_byte [of 8 d] join_byte [of 0 d]
    by (simp add: double_of_bytes_def double_bytes_list)
qed

end
