(* ===== verification/Amf0.thy ===== *)
theory Amf0
imports Bytes Doubles
begin

text \<open>
  AMF version 0: the value types of \<open>private/amf/types.h\<close>, the helpers of \<open>private/amf/amf.h\<close>, and the
  serializer and deserializer of \<open>src/amf/0\<close>. The deserializer threads the iterator: each reader
  takes the bytes left and returns its value with the bytes left after it. Warnings are logged only
  and have no other effect; in \<open>deserializeString\<close> the value built next to the warning is discarded
  by the code, which then reads on, so a short buffer is read past its end (\<open>None\<close>).
\<close>

section \<open>Values\<close>

datatype subset =
    BooleanVariant bool
  | StringVariant string
  | NumberVariant double
  | NullObjectVariant
  | UndefinedVariant

datatype variant =
    Subset subset
  | EcmaArrayVariant "subset dict"
  | ObjectVariant "subset dict"

abbreviation "NumberMarker \<equiv> (0x00 :: u8)"
abbreviation "BooleanMarker \<equiv> (0x01 :: u8)"
abbreviation "StringMarker \<equiv> (0x02 :: u8)"
abbreviation "ObjectMarker \<equiv> (0x03 :: u8)"
abbreviation "NullMarker \<equiv> (0x05 :: u8)"
abbreviation "EcmaArrayMarker \<equiv> (0x08 :: u8)"
abbreviation "ObjectEndMarker \<equiv> (0x09 :: u8)"

section \<open>Helpers of the base class\<close>

definition amf_toString :: "v8 \<Rightarrow> nat \<Rightarrow> string option" where
  "amf_toString data lenght = map_option (map char_of_byte) (iter_slice lenght data)"

definition amf_fromString :: "string \<Rightarrow> v8" where
  "amf_fromString data = map byte_of_char data"

definition amf_toBoolean :: "u8 \<Rightarrow> bool" where
  "amf_toBoolean value = (value > 0)"

definition amf_fromBoolean :: "bool \<Rightarrow> u8" where
  "amf_fromBoolean value = (if value then 1 else 0)"

definition amf_fromNumber :: "double \<Rightarrow> v8" where
  "amf_fromNumber data = double_bytes data"

definition amf_toNumber :: "v8 \<Rightarrow> nat \<Rightarrow> double option" where
  "amf_toNumber data lenght =
     do { res \<leftarrow> fromBigEndian64 data;
          raw \<leftarrow> iter_slice lenght res;
          if lenght \<le> 8 then Some (double_of_bytes (raw @ replicate (8 - lenght) 0)) else None }"

definition length16 :: "v8 \<Rightarrow> u32 option" where
  "length16 data = (if length data < 2 then Some 0
     else do { d \<leftarrow> iter_slice 2 data; n \<leftarrow> fromBigEndian16 d; Some (ucast n) })"

definition length24 :: "v8 \<Rightarrow> u32 option" where
  "length24 data = (if length data < 3 then Some 0
     else do { d \<leftarrow> iter_slice 3 data; fromBigEndian24 d })"

definition length32 :: "v8 \<Rightarrow> u32 option" where
  "length32 data = (if length data < 4 then Some 0
     else do { d \<leftarrow> iter_slice 4 data; fromBigEndian32 d })"

section \<open>Serializer\<close>

definition serializeString :: "string \<Rightarrow> bool \<Rightarrow> v8" where
  "serializeString data includeMarker =
     (if includeMarker then [StringMarker] else [])
     @ toBigEndian16 (word_of_nat (length data)) @ amf_fromString data"

definition serializeNumber :: "double \<Rightarrow> v8" where
  "serializeNumber data = NumberMarker # rev (amf_fromNumber data)"

definition serializeBoolean :: "bool \<Rightarrow> v8" where
  "serializeBoolean data = [BooleanMarker, amf_fromBoolean data]"

definition serializeNullObject :: v8 where
  "serializeNullObject = [NullMarker]"

definition serializeEcmaArray :: "subset dict \<Rightarrow> v8" where
  "serializeEcmaArray data = []"

definition serializeSubset :: "subset \<Rightarrow> v8" where
  "serializeSubset data = []"

text \<open>
  \<open>serializeObject\<close> passes each property to \<open>serializeVariant\<close>, where the \<open>TVariantSubset\<close> converts to
  a \<open>TVariant\<close>: the branches that apply to a property are those of \<open>serializeScalar\<close>.
\<close>

fun serializeScalar :: "subset \<Rightarrow> v8" where
  "serializeScalar (StringVariant s) = serializeString s True"
| "serializeScalar (NumberVariant d) = serializeNumber d"
| "serializeScalar (BooleanVariant b) = serializeBoolean b"
| "serializeScalar NullObjectVariant = serializeNullObject"
| "serializeScalar UndefinedVariant = []"

definition serializeObject :: "subset dict \<Rightarrow> v8" where
  "serializeObject properties =
     [ObjectMarker]
     @ concat (map (\<lambda>(k, v). serializeString k False @ serializeScalar v) properties)
     @ serializeString '''' False @ [ObjectEndMarker]"

fun serializeVariant :: "variant \<Rightarrow> v8" where
  "serializeVariant (EcmaArrayVariant d) = serializeEcmaArray d"
| "serializeVariant (ObjectVariant d) = serializeObject d"
| "serializeVariant (Subset s) = serializeScalar s"

text \<open>\<open>Serializer::serialize\<close>: the values of a dictionary, in its iteration order.\<close>

definition serialize :: "variant dict \<Rightarrow> v8" where
  "serialize data = concat (map (\<lambda>(k, v). serializeVariant v) data)"

section \<open>Deserializer\<close>

definition deserializeString :: "v8 \<Rightarrow> (string \<times> v8) option" where
  "deserializeString it =
     do { d \<leftarrow> iter_slice 2 it;
          lenght \<leftarrow> length16 d;
          it \<leftarrow> iter_advance 2 it;
          s \<leftarrow> iter_slice (unat lenght) it;
          value \<leftarrow> amf_toString s (unat lenght);
          it \<leftarrow> iter_advance (unat lenght) it;
          Some (value, it) }"

definition deserializeNumber :: "v8 \<Rightarrow> (double \<times> v8) option" where
  "deserializeNumber it =
     (if it = [] \<or> length it < 8 then Some (0, it)
      else do { d \<leftarrow> iter_slice 8 it;
                number \<leftarrow> amf_toNumber d 8;
                it \<leftarrow> iter_advance 8 it;
                Some (number, it) })"

definition deserializeBoolean :: "v8 \<Rightarrow> (bool \<times> v8) option" where
  "deserializeBoolean it =
     (if it = [] then Some (False, it)
      else do { b \<leftarrow> iter_deref it; it \<leftarrow> iter_advance 1 it; Some (amf_toBoolean b, it) })"

definition deserializeSubset :: "v8 \<Rightarrow> (subset \<times> v8) option" where
  "deserializeSubset it =
     (if it = [] then Some (UndefinedVariant, it)
      else do { marker \<leftarrow> iter_deref it;
                it \<leftarrow> iter_advance 1 it;
                if marker = StringMarker then map_option (map_prod StringVariant id) (deserializeString it)
                else if marker = NumberMarker then map_option (map_prod NumberVariant id) (deserializeNumber it)
                else if marker = BooleanMarker then map_option (map_prod BooleanVariant id) (deserializeBoolean it)
                else if marker = NullMarker then Some (NullObjectVariant, it)
                else Some (UndefinedVariant, it) })"

text \<open>The loop over the \<open>size\<close> entries an ECMA array announces.\<close>

fun deserializeEcmaArray :: "nat \<Rightarrow> subset dict \<Rightarrow> v8 \<Rightarrow> (subset dict \<times> v8) option" where
  "deserializeEcmaArray 0 result it = Some (result, it)"
| "deserializeEcmaArray (Suc n) result it =
     (if it = [] \<or> length it < 2 then Some (result, it)
      else do { d \<leftarrow> iter_slice 2 it;
                lenght \<leftarrow> length16 d;
                it \<leftarrow> iter_advance 2 it;
                if it = [] \<or> length it < unat lenght then Some (result, it)
                else do { s \<leftarrow> iter_slice (unat lenght) it;
                          key \<leftarrow> amf_toString s (unat lenght);
                          it \<leftarrow> iter_advance (unat lenght) it;
                          (value, it) \<leftarrow> deserializeSubset it;
                          deserializeEcmaArray n (AList.update key value result) it } })"

lemma deserializeString_consumes:
  "deserializeString it = Some (s, it') \<Longrightarrow> length it' + 2 \<le> length it"
  by (auto simp: deserializeString_def bind_Some_iff dest!: length_iter_advance)

lemma deserializeNumber_consumes: "deserializeNumber it = Some (x, it') \<Longrightarrow> length it' \<le> length it"
  by (auto simp: deserializeNumber_def bind_Some_iff dest!: length_iter_advance split: if_splits)

lemma deserializeBoolean_consumes: "deserializeBoolean it = Some (b, it') \<Longrightarrow> length it' \<le> length it"
  by (auto simp: deserializeBoolean_def bind_Some_iff dest!: length_iter_advance split: if_splits)

lemma deserializeSubset_consumes:
  assumes "deserializeSubset it = Some (v, it')"
  shows "length it' \<le> length it"
proof (cases it)
  case Nil
  with assms show ?thesis by (simp add: deserializeSubset_def)
next
  case (Cons b r)
  have "length it' \<le> length r"
    using assms
    by (auto simp: Cons deserializeSubset_def split: if_splits
        dest: deserializeString_consumes deserializeNumber_consumes deserializeBoolean_consumes)
  then show ?thesis by (simp add: Cons)
qed

text \<open>The property loop of \<open>deserializeObject\<close>.\<close>

function deserializeProperties :: "subset dict \<Rightarrow> v8 \<Rightarrow> (subset dict \<times> v8) option" where
  "deserializeProperties dict it =
     (case iter_deref it of
        None \<Rightarrow> None
      | Some b \<Rightarrow>
          if b = ObjectEndMarker then Some (dict, it)
          else (case deserializeString it of
                  None \<Rightarrow> None
                | Some (key, it) \<Rightarrow>
                    if key \<noteq> []
                    then (case deserializeSubset it of
                            None \<Rightarrow> None
                          | Some (value, it) \<Rightarrow> deserializeProperties (AList.update key value dict) it)
                    else deserializeProperties dict it))"
  by pat_completeness auto
termination
  by (relation "measure (\<lambda>(dict, it). length it)")
     (auto dest!: deserializeString_consumes deserializeSubset_consumes)

declare deserializeProperties.simps [simp del]

definition deserializeObject :: "v8 \<Rightarrow> (subset dict \<times> v8) option" where
  "deserializeObject it =
     do { (dict, it) \<leftarrow> deserializeProperties [] it;
          it \<leftarrow> iter_advance 1 it;
          Some (dict, it) }"

definition deserializeValue :: "v8 \<Rightarrow> (variant \<times> v8) option" where
  "deserializeValue it =
     (if it = [] then Some (Subset UndefinedVariant, it)
      else do { marker \<leftarrow> iter_deref it;
                it \<leftarrow> iter_advance 1 it;
                if marker = StringMarker then map_option (map_prod (Subset \<circ> StringVariant) id) (deserializeString it)
                else if marker = NumberMarker then map_option (map_prod (Subset \<circ> NumberVariant) id) (deserializeNumber it)
                else if marker = BooleanMarker then map_option (map_prod (Subset \<circ> BooleanVariant) id) (deserializeBoolean it)
                else if marker = ObjectMarker then map_option (map_prod ObjectVariant id) (deserializeObject it)
                else if marker = NullMarker then Some (Subset NullObjectVariant, it)
                else if marker = EcmaArrayMarker then
                  (if it = [] \<or> length it < 4 then Some (Subset UndefinedVariant, it)
                   else do { d \<leftarrow> iter_slice 4 it;
                             associativeCount \<leftarrow> length32 d;
                             it \<leftarrow> iter_advance 4 it;
                             map_option (map_prod EcmaArrayVariant id)
                               (deserializeEcmaArray (unat associativeCount) [] it) })
                else Some (Subset UndefinedVariant, it) })"

lemma deserializeEcmaArray_consumes:
  "deserializeEcmaArray n d it = Some (r, it') \<Longrightarrow> length it' \<le> length it"
proof (induction n arbitrary: d it)
  case (Suc n)
  from Suc.prems show ?case
    by (auto simp: bind_Some_iff simp del: length_greater_0_conv split: if_splits
        dest!: length_iter_advance deserializeSubset_consumes Suc.IH)
qed simp

lemma deserializeProperties_consumes:
  "deserializeProperties d it = Some (r, it') \<Longrightarrow> length it' \<le> length it"
proof (induction d it rule: deserializeProperties.induct)
  case (1 d it)
  from "1.prems" obtain b where b: "iter_deref it = Some b"
    by (auto simp: deserializeProperties.simps [of d it] split: option.splits)
  show ?case
  proof (cases "b = ObjectEndMarker")
    case True
    with "1.prems" b show ?thesis by (simp add: deserializeProperties.simps [of d it])
  next
    case False
    with "1.prems" b obtain k r1 where k: "deserializeString it = Some (k, r1)"
      by (auto simp: deserializeProperties.simps [of d it] split: option.splits)
    note len = deserializeString_consumes [OF k]
    show ?thesis
    proof (cases "k = []")
      case True
      with "1.prems" b False k have "deserializeProperties d r1 = Some (r, it')"
        by (simp add: deserializeProperties.simps [of d it])
      with "1.IH"(2) [OF b False k] True len show ?thesis by simp
    next
      case ne: False
      with "1.prems" b False k obtain v r2 where v: "deserializeSubset r1 = Some (v, r2)"
        and "deserializeProperties (AList.update k v d) r2 = Some (r, it')"
        by (auto simp: deserializeProperties.simps [of d it] split: option.splits)
      with "1.IH"(1) [OF b False k _ ne v] len deserializeSubset_consumes [OF v] show ?thesis by simp
    qed
  qed
qed

lemma deserializeObject_consumes: "deserializeObject it = Some (d, it') \<Longrightarrow> length it' < length it"
  by (auto simp: deserializeObject_def bind_Some_iff
      dest!: length_iter_advance deserializeProperties_consumes)

lemma deserializeValue_consumes:
  assumes "deserializeValue it = Some (v, it')" and "it \<noteq> []"
  shows "length it' < length it"
proof -
  from assms(2) obtain b r where it: "it = b # r" by (cases it) auto
  have "length it' \<le> length r"
    using assms(1) unfolding it
    by (auto simp: deserializeValue_def bind_Some_iff split: if_splits
        dest!: deserializeString_consumes deserializeNumber_consumes deserializeBoolean_consumes
          deserializeObject_consumes deserializeEcmaArray_consumes length_iter_advance)
  then show ?thesis by (simp add: it)
qed

text \<open>\<open>Deserializer::deserialize(data)\<close>: values until the buffer is used up.\<close>

function deserialize :: "v8 \<Rightarrow> variant list option" where
  "deserialize it =
     (if it = [] then Some []
      else (case deserializeValue it of
              None \<Rightarrow> None
            | Some (item, it) \<Rightarrow> map_option ((#) item) (deserialize it)))"
  by pat_completeness auto
termination
  by (relation "measure length") (auto dest: deserializeValue_consumes)

declare deserialize.simps [simp del]

lemma deserialize_Nil [simp]: "deserialize [] = Some []"
  by (simp add: deserialize.simps)

lemma deserialize_step:
  "it \<noteq> [] \<Longrightarrow> deserializeValue it = Some (x, it') \<Longrightarrow>
   deserialize it = map_option ((#) x) (deserialize it')"
  by (simp add: deserialize.simps [of it])

end
