(* ===== verification/Amf0_Roundtrip.thy ===== *)
theory Amf0_Roundtrip
imports Amf0
begin

text \<open>
  What the AMF0 deserializer makes of what the serializer wrote: the value is returned and the
  iterator stands right behind it, for every value within the bounds the format and the code put on
  it (\<open>variant_ok\<close>). The interpretation of \<open>stream_codec\<close> lifts this to whole payloads.
\<close>

section \<open>The values the serializer can write back\<close>

text \<open>A length that a 16-bit field holds.\<close>

definition string_ok :: "string \<Rightarrow> bool" where
  "string_ok s \<longleftrightarrow> length s < 2 ^ 16"

fun scalar_ok :: "subset \<Rightarrow> bool" where
  "scalar_ok (StringVariant s) = string_ok s"
| "scalar_ok UndefinedVariant = False"
| "scalar_ok _ = True"

text \<open>
  A property name: not empty (the loop takes an empty name for the start of the end marker) and
  without the end marker as the first byte of its length.
\<close>

definition key_ok :: "string \<Rightarrow> bool" where
  "key_ok k \<longleftrightarrow> k \<noteq> [] \<and> string_ok k \<and> length k div 256 \<noteq> 9"

definition object_ok :: "subset dict \<Rightarrow> bool" where
  "object_ok d \<longleftrightarrow> dict_ok d \<and> (\<forall>(k, v) \<in> set d. key_ok k \<and> scalar_ok v)"

fun variant_ok :: "variant \<Rightarrow> bool" where
  "variant_ok (Subset s) = scalar_ok s"
| "variant_ok (ObjectVariant d) = object_ok d"
| "variant_ok (EcmaArrayVariant d) = False"

section \<open>Scalars\<close>

lemma length16_be16 [simp, codec_simps]: "length16 (toBigEndian16 n) = Some (ucast n)"
  by (simp add: length16_def)

lemma string_length_word: "length s < 2 ^ 16 \<Longrightarrow> unat (ucast (word_of_nat (length s) :: u16) :: u32) = length s"
  by (simp add: unsigned_ucast_eq unsigned_of_nat take_bit_nat_eq_self take_bit_eq_mod)

lemma amf_toString_fromString [simp, codec_simps]:
  "n = length s \<Longrightarrow> amf_toString (amf_fromString s) n = Some s"
  by (simp add: amf_toString_def amf_fromString_def)

lemma length_amf_fromString [simp]: "length (amf_fromString s) = length s"
  by (simp add: amf_fromString_def)

lemma deserializeString_serializeString [codec_simps]:
  "string_ok s \<Longrightarrow> deserializeString (serializeString s False @ rest) = Some (s, rest)"
  by (simp add: deserializeString_def serializeString_def string_ok_def string_length_word)

lemma serializeString_marker: "serializeString s True = StringMarker # serializeString s False"
  by (simp add: serializeString_def)

lemma amf_toNumber_fromNumber [codec_simps]: "amf_toNumber (rev (amf_fromNumber d)) 8 = Some d"
  by (simp add: amf_toNumber_def amf_fromNumber_def fromBigEndian64_def)

lemma deserializeNumber_bytes [codec_simps]:
  "deserializeNumber (rev (amf_fromNumber d) @ rest) = Some (d, rest)"
proof -
  have "length (rev (amf_fromNumber d)) = 8" by (simp add: amf_fromNumber_def)
  then show ?thesis
    by (auto simp: deserializeNumber_def amf_toNumber_fromNumber)
qed

lemma deserializeBoolean_byte [codec_simps]:
  "deserializeBoolean (amf_fromBoolean b # rest) = Some (b, rest)"
  by (simp add: deserializeBoolean_def amf_toBoolean_def amf_fromBoolean_def)

lemma serializeScalar_nonempty: "scalar_ok v \<Longrightarrow> serializeScalar v \<noteq> []"
  by (cases v) (simp_all add: serializeString_def serializeNumber_def serializeBoolean_def
      serializeNullObject_def)

lemmas serialize_scalar_defs = serializeString_marker serializeNumber_def serializeBoolean_def
  serializeNullObject_def

lemma deserializeSubset_serializeScalar:
  "scalar_ok v \<Longrightarrow> deserializeSubset (serializeScalar v @ rest) = Some (v, rest)"
  by (cases v) (simp_all add: deserializeSubset_def serialize_scalar_defs codec_simps)

section \<open>Objects\<close>

lemma key_length_byte:
  assumes "key_ok k"
  shows "\<exists>b r. serializeString k False @ rest = b # r \<and> b \<noteq> ObjectEndMarker"
proof -
  let ?n = "word_of_nat (length k) :: u16"
  have n: "unat ?n = length k"
    using assms by (simp add: key_ok_def string_ok_def unsigned_of_nat take_bit_nat_eq_self)
  have "unat (ucast (drop_bit 8 ?n AND 0xFF) :: u8) = length k div 256"
  proof -
    have "length k div 256 < 256"
      using assms by (simp add: key_ok_def string_ok_def less_mult_imp_div_less)
    then show ?thesis
      using n by (simp add: mask_8 take_bit_eq_mask [symmetric] unsigned_ucast_eq unsigned_take_bit_eq
          unsigned_drop_bit_eq drop_bit_eq_div take_bit_nat_eq_self unat_div)
  qed
  moreover have "unat ObjectEndMarker = 9" by simp
  ultimately have "(ucast (drop_bit 8 ?n AND 0xFF) :: u8) \<noteq> ObjectEndMarker"
    using assms unfolding key_ok_def by metis
  then show ?thesis
    by (simp add: serializeString_def toBigEndian16_def)
qed

lemma deserializeProperties_end:
  "deserializeProperties d (serializeString '''' False @ ObjectEndMarker # rest)
     = Some (d, ObjectEndMarker # rest)"
proof -
  let ?it = "serializeString '''' False @ ObjectEndMarker # rest"
  have str: "deserializeString ?it = Some ('''', ObjectEndMarker # rest)"
    by (rule deserializeString_serializeString) (simp add: string_ok_def)
  have hd: "iter_deref ?it = Some 0"
    by (simp add: serializeString_def toBigEndian16_def)
  have stop: "deserializeProperties d (ObjectEndMarker # rest) = Some (d, ObjectEndMarker # rest)"
    by (simp add: deserializeProperties.simps [of d "ObjectEndMarker # rest"])
  show ?thesis
    by (subst deserializeProperties.simps) (simp add: str hd stop)
qed

lemma deserializeProperties_step:
  assumes "key_ok k" and "scalar_ok v"
  shows "deserializeProperties d (serializeString k False @ serializeScalar v @ rest)
    = deserializeProperties (AList.update k v d) rest"
proof -
  let ?it = "serializeString k False @ serializeScalar v @ rest"
  have "deserializeString ?it = Some (k, serializeScalar v @ rest)"
    using assms(1) by (intro deserializeString_serializeString) (simp add: key_ok_def)
  moreover obtain b r where "?it = b # r" and "b \<noteq> ObjectEndMarker"
    using key_length_byte [OF assms(1)] by blast
  ultimately show ?thesis
    using assms by (subst deserializeProperties.simps)
      (simp add: deserializeSubset_serializeScalar key_ok_def)
qed

lemma deserializeProperties_serialized:
  "dict_ok (d @ kvs) \<Longrightarrow> \<forall>(k, v) \<in> set kvs. key_ok k \<and> scalar_ok v \<Longrightarrow>
   deserializeProperties d
     (concat (map (\<lambda>(k, v). serializeString k False @ serializeScalar v) kvs)
        @ serializeString '''' False @ ObjectEndMarker # rest)
     = Some (d @ kvs, ObjectEndMarker # rest)"
proof (induction kvs arbitrary: d)
  case Nil
  then show ?case by (simp add: deserializeProperties_end)
next
  case (Cons kv kvs)
  obtain k v where kv: "kv = (k, v)" by (cases kv)
  have "k \<notin> fst ` set d"
    using Cons.prems(1) by (auto simp: dict_ok_def kv)
  then have "AList.update k v d = d @ [(k, v)]" by simp
  with Cons.prems Cons.IH [of "d @ [(k, v)]"] show ?case
    by (simp add: kv deserializeProperties_step)
qed

lemma deserializeObject_serialized:
  assumes "object_ok d"
  shows "deserializeObject (tl (serializeObject d) @ rest) = Some (d, rest)"
  using deserializeProperties_serialized [of "[]" d rest] assms
  by (simp add: deserializeObject_def serializeObject_def object_ok_def)

lemma deserializeValue_serializeVariant:
  assumes "variant_ok x"
  shows "deserializeValue (serializeVariant x @ rest) = Some (x, rest)"
proof (cases x)
  case (Subset s)
  with assms show ?thesis
    by (cases s) (simp_all add: deserializeValue_def serialize_scalar_defs codec_simps)
next
  case (ObjectVariant d)
  obtain r where r: "serializeObject d = ObjectMarker # r"
    by (simp add: serializeObject_def)
  then have "deserializeObject (r @ rest) = Some (d, rest)"
    using assms deserializeObject_serialized [of d rest] by (simp add: ObjectVariant)
  then show ?thesis
    by (simp add: ObjectVariant deserializeValue_def r)
next
  case (EcmaArrayVariant d)
  with assms show ?thesis by simp
qed

lemma serializeVariant_nonempty: "variant_ok x \<Longrightarrow> serializeVariant x \<noteq> []"
  by (cases x) (simp_all add: serializeScalar_nonempty serializeObject_def)

interpretation amf0: stream_codec serializeVariant deserializeValue variant_ok deserialize
proof unfold_locales
  fix x :: variant and rest
  assume "variant_ok x"
  then show "deserializeValue (serializeVariant x @ rest) = Some (x, rest)"
    by (rule deserializeValue_serializeVariant)
next
  fix x assume "variant_ok x"
  then show "serializeVariant x \<noteq> []"
    by (rule serializeVariant_nonempty)
next
  show "deserialize [] = Some []"
    by simp
next
  fix it x it'
  assume "it \<noteq> []" and "deserializeValue it = Some (x, it')"
  then show "deserialize it = map_option ((#) x) (deserialize it')"
    by (rule deserialize_step)
qed

section \<open>ECMA arrays\<close>

text \<open>The entries of an ECMA array or of an object, in the order of the dictionary.\<close>

definition entries :: "subset dict \<Rightarrow> v8" where
  "entries kvs = concat (map (\<lambda>(k, v). serializeString k False @ serializeScalar v) kvs)"

definition ecma_ok :: "subset dict \<Rightarrow> bool" where
  "ecma_ok d \<longleftrightarrow> dict_ok d \<and> (\<forall>(k, v) \<in> set d. string_ok k \<and> scalar_ok v)"

lemma deserializeEcmaArray_step:
  assumes "string_ok k" and "scalar_ok v"
  shows "deserializeEcmaArray (Suc n) d (serializeString k False @ serializeScalar v @ rest)
    = deserializeEcmaArray n (AList.update k v d) rest"
  using assms serializeScalar_nonempty [OF assms(2)] string_length_word [of k]
  by (simp add: serializeString_def string_ok_def deserializeSubset_serializeScalar)

lemma deserializeEcmaArray_entries:
  "ecma_ok (d @ kvs) \<Longrightarrow>
   deserializeEcmaArray (length kvs) d (entries kvs @ rest) = Some (d @ kvs, rest)"
proof (induction kvs arbitrary: d)
  case Nil
  then show ?case by (simp add: entries_def)
next
  case (Cons kv kvs)
  obtain k v where kv: "kv = (k, v)" by (cases kv)
  from Cons.prems have "k \<notin> fst ` set d"
    by (auto simp: ecma_ok_def dict_ok_def kv)
  then have "AList.update k v d = d @ [(k, v)]" by simp
  with Cons.prems Cons.IH [of "d @ [(k, v)]"]
    deserializeEcmaArray_step [of k v "length kvs" d "entries kvs @ rest"]
  show ?case
    by (simp add: kv entries_def ecma_ok_def del: deserializeEcmaArray.simps)
qed

lemma deserializeValue_ecma:
  assumes "ecma_ok d" and "length d < 2 ^ 32"
  shows "deserializeValue (EcmaArrayMarker # toBigEndian32 (word_of_nat (length d)) @ entries d @ rest)
    = Some (EcmaArrayVariant d, rest)"
proof -
  have "unat (word_of_nat (length d) :: u32) = length d"
    using assms(2) by (simp add: unsigned_of_nat take_bit_nat_eq_self)
  then show ?thesis
    using assms(1) deserializeEcmaArray_entries [of "[]" d rest]
    by (simp add: deserializeValue_def length32_def)
qed

text \<open>The end marker behind an ECMA array is not consumed: it is read as three more values.\<close>

lemma deserialize_end_marker:
  "deserialize [0, 0, ObjectEndMarker]
     = Some [Subset (NumberVariant 0), Subset (NumberVariant 0), Subset UndefinedVariant]"
  by (simp add: deserialize_step [where x = "Subset (NumberVariant 0)" and it' = "[0, ObjectEndMarker]"]
      deserialize_step [where x = "Subset (NumberVariant 0)" and it' = "[ObjectEndMarker]"]
      deserialize_step [where x = "Subset UndefinedVariant" and it' = "[]"]
      deserializeValue_def deserializeNumber_def)

section \<open>Bounds\<close>

definition string_field_length :: "v8 \<Rightarrow> nat" where
  "string_field_length it = 256 * unat (it ! 0) + unat (it ! 1)"

lemma unat_join_u16: "unat ((push_bit 0 (ucast lo) OR push_bit 8 (ucast hi)) :: u32) = unat lo + 256 * unat (hi :: u8)"
  for lo :: u8
proof -
  have l: "unat lo < 256" and h: "unat hi < 256"
    using unsigned_less [of lo] unsigned_less [of hi] by simp_all
  have "(push_bit 0 (ucast lo) OR push_bit 8 (ucast hi)) = (ucast lo + push_bit 8 (ucast hi) :: u32)"
    by (subst disjunctive_add) (auto simp: bit_simps dest: bit_imp_le_length)
  moreover have "unat (push_bit 8 (ucast hi) :: u32) = 256 * unat hi"
    using h by (simp add: push_bit_eq_mult unat_word_ariths unsigned_ucast_eq take_bit_nat_eq_self)
  moreover have "unat (ucast lo :: u32) = unat lo"
    using l by (simp add: unsigned_ucast_eq take_bit_nat_eq_self)
  ultimately show ?thesis
    using l h by (simp add: unat_word_ariths)
qed

lemma length16_two: "length16 [hi, lo] = Some n \<Longrightarrow> unat n = 256 * unat hi + unat lo"
proof -
  assume "length16 [hi, lo] = Some n"
  moreover define w :: u32 where "w = push_bit 0 (ucast lo) OR push_bit 8 (ucast hi)"
  ultimately have n: "n = ucast (ucast w :: u16)"
    by (simp add: length16_def fromBigEndian16_def)
  have w: "unat w = unat lo + 256 * unat hi"
    unfolding w_def by (rule unat_join_u16)
  have "unat lo < 256" and "unat hi < 256"
    using unsigned_less [of lo] unsigned_less [of hi] by simp_all
  then show ?thesis
    by (simp add: n unsigned_ucast_eq unsigned_take_bit_eq w take_bit_nat_eq_self)
qed

lemma deserializeString_short: "length it < 2 \<Longrightarrow> deserializeString it = None"
  by (simp add: deserializeString_def iter_slice_def)

lemma deserializeString_defined:
  "(\<exists>s it'. deserializeString it = Some (s, it'))
     \<longleftrightarrow> 2 \<le> length it \<and> 2 + string_field_length it \<le> length it"
proof (cases "2 \<le> length it")
  case True
  then obtain hi lo r where it: "it = hi # lo # r"
    by (cases it; cases "tl it") auto
  obtain n where n: "length16 [hi, lo] = Some n"
    by (simp add: length16_def fromBigEndian16_def)
  from length16_two [OF n] have "unat n = string_field_length it"
    by (simp add: string_field_length_def it)
  then show ?thesis
    by (simp add: it deserializeString_def n iter_slice_def iter_advance_def amf_toString_def)
next
  case False
  then show ?thesis by (simp add: deserializeString_short)
qed

section \<open>Properties\<close>

text \<open>C13: whatever values a payload holds, in whatever order the dictionary iterates over them, the
  deserializer returns exactly the values the serializer wrote, none merged, lost or left over, as
  long as each is within the bounds of the format and the code (\<open>variant_ok\<close>).\<close>

theorem amf0_deserialize_serialize:
  assumes "\<forall>(k, v) \<in> set d. variant_ok v"
  shows "deserialize (serialize d) = Some (map snd d)"
proof -
  have "serialize d = concat (map serializeVariant (map snd d))"
    by (simp add: serialize_def split_def o_def)
  then show ?thesis
    using amf0.decs_encs [of "map snd d"] assms by (simp add: split_def)
qed

theorem amf0_deserialize_serialize_witness:
  "deserialize (serialize [(''o'', ObjectVariant [(''app'', StringVariant ''live''), (''n'', NumberVariant 0)]),
      (''b'', Subset (BooleanVariant True))])
    = Some [ObjectVariant [(''app'', StringVariant ''live''), (''n'', NumberVariant 0)], Subset (BooleanVariant True)]"
  using amf0_deserialize_serialize [of "[(''o'', ObjectVariant [(''app'', StringVariant ''live''), (''n'', NumberVariant 0)]),
      (''b'', Subset (BooleanVariant True))]"]
  by (simp add: object_ok_def dict_ok_def key_ok_def string_ok_def)

text \<open>No serialized value is a proper prefix of another: two buffers that begin with serialized
  values agree only if the values and the bytes behind them agree.\<close>

theorem amf0_prefix_free:
  assumes "variant_ok x" and "variant_ok y" and "serializeVariant x @ r = serializeVariant y @ s"
  shows "x = y \<and> r = s"
  using amf0.enc_prefix_free assms by blast

theorem amf0_prefix_free_witness:
  "serializeVariant (Subset (BooleanVariant True)) @ [7] = [1, 1, 7] \<and>
   Subset (BooleanVariant True) = Subset (BooleanVariant True) \<and> [7 :: u8] = [7]"
  using amf0_prefix_free [of "Subset (BooleanVariant True)" "Subset (BooleanVariant True)" "[7]" "[7]"]
  by (simp add: serializeBoolean_def amf_fromBoolean_def)

text \<open>Reading a string is defined behaviour exactly when the buffer holds the two length bytes and
  as many bytes as they announce; the check in the code that would reject a short buffer discards the
  value it builds and lets the read go past the end.\<close>

theorem deserializeString_bounds:
  "deserializeString it \<noteq> None
     \<longleftrightarrow> 2 \<le> length it \<and> 2 + string_field_length it \<le> length it"
  using deserializeString_defined [of it] by auto

text \<open>An ECMA array with its announced number of entries is read back entry for entry, and its end
  marker (00 00 09), which the AMF0 format puts behind the entries, is not consumed: it comes out as
  three further values.\<close>

theorem ecma_array_end_marker:
  assumes "ecma_ok d" and "length d < 2 ^ 32"
  shows "deserialize (EcmaArrayMarker # toBigEndian32 (word_of_nat (length d)) @ entries d
           @ [0, 0, ObjectEndMarker])
    = Some [EcmaArrayVariant d, Subset (NumberVariant 0), Subset (NumberVariant 0), Subset UndefinedVariant]"
  by (simp add: deserialize_step [OF _ deserializeValue_ecma [OF assms]] deserialize_end_marker)

theorem ecma_array_end_marker_witness:
  "deserialize [8, 0, 0, 0, 1, 0, 1, 97, 1, 1, 0, 0, 9]
    = Some [EcmaArrayVariant [(''a'', BooleanVariant True)], Subset (NumberVariant 0),
        Subset (NumberVariant 0), Subset UndefinedVariant]"
  using ecma_array_end_marker [of "[(''a'', BooleanVariant True)]"]
  by (simp add: ecma_ok_def dict_ok_def string_ok_def entries_def serializeString_def
      toBigEndian16_def toBigEndian32_def amf_fromString_def byte_of_char_def serializeBoolean_def
      amf_fromBoolean_def)

end
