(* ===== verification/RtmpMessage.thy ===== *)
theory RtmpMessage
imports Tags Amf0_Roundtrip
begin

text \<open>
  \<open>RtmpMessage\<close> and \<open>RtmpMediaMessage\<close>: the chunk header in its four types, the header size, and the
  split of a serialized message into chunks. \<open>serialize\<close> fills \<open>payload_\<close> and returns it, so it is a
  function from message to message; \<open>trunkToSize\<close> calls it through the virtual table, so the override
  is its parameter \<open>ser\<close>. The lemmas show that the header written is the header read, and that the
  chunks, put together, are the serialized message.
\<close>

unbundle bit_operations_syntax

section \<open>Messages\<close>

datatype chunk_stream_type = Type0 | Type1 | Type2 | Type3

fun chunk_type_code :: "chunk_stream_type \<Rightarrow> u8" where
  "chunk_type_code Type0 = 0x00"
| "chunk_type_code Type1 = 0x01"
| "chunk_type_code Type2 = 0x02"
| "chunk_type_code Type3 = 0x03"

text \<open>\<open>static_cast<RtmpChunkStreamType>((b & 0xff) >> 6)\<close>, which has the four values only.\<close>

definition chunk_type_of_byte :: "u8 \<Rightarrow> chunk_stream_type" where
  "chunk_type_of_byte b =
     (let c = drop_bit 6 (b AND 0xFF) in
      if c = 0 then Type0 else if c = 1 then Type1 else if c = 2 then Type2 else Type3)"

abbreviation "Fmt_ControlMessage \<equiv> (0x02 :: u8)"
abbreviation "Fmt_AMF_Object \<equiv> (0x03 :: u8)"
abbreviation "Fmt_AudioMessage \<equiv> (0x04 :: u8)"
abbreviation "Fmt_VideoMessage \<equiv> (0x05 :: u8)"

abbreviation "Msg_Unknown \<equiv> (0x00 :: u8)"
abbreviation "Msg_SetChunkSizeMessage \<equiv> (0x01 :: u8)"
abbreviation "Msg_AbortMessage \<equiv> (0x02 :: u8)"
abbreviation "Msg_AcknowledgementMessage \<equiv> (0x03 :: u8)"
abbreviation "Msg_UserControlMessage \<equiv> (0x04 :: u8)"
abbreviation "Msg_WindowAcknowledgementSizeMessage \<equiv> (0x05 :: u8)"
abbreviation "Msg_SetPeerBandwidth \<equiv> (0x06 :: u8)"
abbreviation "Msg_AudioMessage \<equiv> (0x08 :: u8)"
abbreviation "Msg_VideoMessage \<equiv> (0x09 :: u8)"
abbreviation "Msg_DataMessage_AMF3 \<equiv> (0x0F :: u8)"
abbreviation "Msg_CommandMessage_AMF3 \<equiv> (0x11 :: u8)"
abbreviation "Msg_DataMessage_AMF0 \<equiv> (0x12 :: u8)"
abbreviation "Msg_CommandMessage_AMF0 \<equiv> (0x14 :: u8)"

record rtmp_message = media_tag +
  chunkStreamType :: chunk_stream_type
  commandObject :: "subset dict"
  chunkStreamId :: u8

definition new_rtmp_message :: rtmp_message where
  "new_rtmp_message = media_tag.extend new_media_tag
     \<lparr> chunkStreamType = Type0, commandObject = [], chunkStreamId = Fmt_AMF_Object \<rparr>"

definition chunkStreamID :: "chunk_stream_type \<Rightarrow> 'a rtmp_message_scheme \<Rightarrow> u8" where
  "chunkStreamID ty m = push_bit 6 (chunk_type_code ty) OR chunkStreamId m"

definition addCommandObjectProperty :: "string \<Rightarrow> subset \<Rightarrow> 'a rtmp_message_scheme \<Rightarrow> 'a rtmp_message_scheme" where
  "addCommandObjectProperty key value m = m\<lparr>commandObject := dict_insert key value (commandObject m)\<rparr>"

definition rtmp_message_size :: "'a rtmp_message_scheme \<Rightarrow> nat" where
  "rtmp_message_size m = length (payload m)"

definition rtmp_message_trunkToSize :: "u32 \<Rightarrow> 'a rtmp_message_scheme \<Rightarrow> v8 list" where
  "rtmp_message_trunkToSize maxSize m = [payload m]"

definition rtmp_message_delay :: "'a rtmp_message_scheme \<Rightarrow> u32 option" where
  "rtmp_message_delay m =
     (if length (payload m) < 5 then Some 0
      else do { it \<leftarrow> iter_advance 2 (payload m); d \<leftarrow> iter_slice 3 it; fromBigEndian24 d })"

fun header_base :: "chunk_stream_type \<Rightarrow> nat" where
  "header_base Type0 = 12" | "header_base Type1 = 8" | "header_base Type2 = 4" | "header_base Type3 = 1"

definition hSize_of :: "'a rtmp_message_scheme \<Rightarrow> nat" where
  "hSize_of m = (if hasExtendedTimestamp m then header_base (chunkStreamType m) + 4
                 else header_base (chunkStreamType m))"

definition rtmp_message_deserialize :: "v8 \<Rightarrow> 'a rtmp_message_scheme \<Rightarrow> 'a rtmp_message_scheme option" where
  "rtmp_message_deserialize it m =
     do { b \<leftarrow> iter_deref it;
          let m = m\<lparr>chunkStreamType := chunk_type_of_byte b\<rparr>;
          it \<leftarrow> iter_advance 1 it;
          (ts, it) \<leftarrow> read_field 3 fromBigEndian24 it;
          let m = m\<lparr>timestamp := ts\<rparr>;
          (size, it) \<leftarrow> read_field 3 fromBigEndian24 it;
          let m = m\<lparr>payloadSize := size\<rparr>;
          ty \<leftarrow> iter_deref it;
          let m = m\<lparr>tag_type := ty\<rparr>;
          it \<leftarrow> iter_advance 1 it;
          (m, it) \<leftarrow> (if hasExtendedTimestamp m
                      then do { (x, it) \<leftarrow> read_field 4 fromLittleEndian32 it; Some (m\<lparr>extendedTimestamp := x\<rparr>, it) }
                      else Some (m, it));
          (m, it) \<leftarrow> (case chunkStreamType m of
                        Type0 \<Rightarrow> do { (s, it) \<leftarrow> read_field 4 fromLittleEndian32 it; Some (m\<lparr>streamID := s\<rparr>, it) }
                      | _ \<Rightarrow> Some (m, it));
          p \<leftarrow> iter_slice (unat (payloadSize m)) it;
          Some (m\<lparr>payload := p\<rparr>) }"

section \<open>Media messages\<close>

text \<open>The header \<open>RtmpMediaMessage::serialize\<close> appends.\<close>

definition media_header :: "'a rtmp_message_scheme \<Rightarrow> v8" where
  "media_header m =
     [chunkStreamID (chunkStreamType m) m]
     @ (case chunkStreamType m of
          Type3 \<Rightarrow> []
        | Type2 \<Rightarrow> toBigEndian24 (timestamp m)
        | Type1 \<Rightarrow> toBigEndian24 (timestamp m) @ toBigEndian24 (payloadSize m) @ [tag_type m]
        | Type0 \<Rightarrow> toBigEndian24 (timestamp m) @ toBigEndian24 (payloadSize m) @ [tag_type m]
                   @ toLittleEndian32 (streamID m))"

definition media_serialize :: "'a rtmp_message_scheme \<Rightarrow> 'a rtmp_message_scheme" where
  "media_serialize m = (if payload m \<noteq> [] then m else m\<lparr>payload := media_header m\<rparr>)"

text \<open>Reads the header only; the message is left alone when it already has a payload.\<close>

definition media_deserialize_from :: "v8 \<Rightarrow> 'a rtmp_message_scheme \<Rightarrow> ('a rtmp_message_scheme \<times> v8) option" where
  "media_deserialize_from it m =
     do { b \<leftarrow> iter_deref it;
          let m = m\<lparr>chunkStreamType := chunk_type_of_byte b\<rparr>;
          it \<leftarrow> iter_advance 1 it;
          if chunkStreamType m = Type3 then Some (m, it)
          else do {
            (ts, it) \<leftarrow> read_field 3 fromBigEndian24 it;
            let m = m\<lparr>timestamp := ts\<rparr>;
            if chunkStreamType m = Type2 then Some (m, it)
            else do {
              (size, it) \<leftarrow> read_field 3 fromBigEndian24 it;
              let m = m\<lparr>payloadSize := size\<rparr>;
              ty \<leftarrow> iter_deref it;
              let m = m\<lparr>tag_type := ty\<rparr>;
              it \<leftarrow> iter_advance 1 it;
              (m, it) \<leftarrow> (if hasExtendedTimestamp m
                          then do { (x, it) \<leftarrow> read_field 4 fromLittleEndian32 it; Some (m\<lparr>extendedTimestamp := x\<rparr>, it) }
                          else Some (m, it));
              if chunkStreamType m = Type0
              then do { (s, it) \<leftarrow> read_field 4 fromLittleEndian32 it; Some (m\<lparr>streamID := s\<rparr>, it) }
              else Some (m, it) } } }"

definition media_deserialize :: "v8 \<Rightarrow> 'a rtmp_message_scheme \<Rightarrow> 'a rtmp_message_scheme option" where
  "media_deserialize it m =
     (if payload m \<noteq> [] then Some m else map_option fst (media_deserialize_from it m))"

text \<open>
  The loop that cuts the bytes behind the first chunk into pieces. The size of the next piece is
  computed from the distance to the end in the same way before the loop and at the end of its body;
  \<open>defaultCopySize\<close> is the signed cast of the maximal size.
\<close>

definition next_chunkSize :: "int \<Rightarrow> v8 \<Rightarrow> int" where
  "next_chunkSize defaultCopySize it =
     (if int (length it) \<ge> defaultCopySize then defaultCopySize else int (length it))"

function trunk_loop :: "int \<Rightarrow> v8 \<Rightarrow> v8 list" where
  "trunk_loop defaultCopySize it =
     (let chunkSize = next_chunkSize defaultCopySize it in
      if chunkSize > 0
      then take (nat chunkSize) it # trunk_loop defaultCopySize (drop (nat chunkSize) it)
      else [])"
  by pat_completeness auto
termination
  by (relation "measure (\<lambda>(defaultCopySize, it). length it)") (auto simp: next_chunkSize_def split: if_splits)

declare trunk_loop.simps [simp del]

definition media_trunkToSize ::
  "('a rtmp_message_scheme \<Rightarrow> 'a rtmp_message_scheme) \<Rightarrow> u32 \<Rightarrow> 'a rtmp_message_scheme
    \<Rightarrow> (v8 list \<times> 'a rtmp_message_scheme) option" where
  "media_trunkToSize ser maxSize m =
     (let m = (if payload m = [] then ser m else m) in
      if payload m = [] then Some ([], m)
      else let currentSize = word_of_nat (length (payload m)) - word_of_nat (hSize_of m) :: u64 in
      if currentSize \<le> ucast maxSize then Some ([], m)
      else do { it \<leftarrow> iter_advance (hSize_of m + unat maxSize) (payload m);
                Some (trunk_loop (sint maxSize) it,
                      m\<lparr>payload := take (hSize_of m + unat maxSize) (payload m)\<rparr>) })"

definition updatePayloadSize :: "u32 \<Rightarrow> 'a rtmp_message_scheme \<Rightarrow> 'a rtmp_message_scheme option" where
  "updatePayloadSize n m =
     (if payload m = [] \<or> length (payload m) < hSize_of m then Some m
      else do { let m = m\<lparr>payloadSize := n\<rparr>;
                rest \<leftarrow> iter_advance 7 (payload m);
                Some (m\<lparr>payload := take 4 (payload m) @ toBigEndian24 n @ rest\<rparr>) })"

definition updateChunkStreamId :: "u8 \<Rightarrow> 'a rtmp_message_scheme \<Rightarrow> 'a rtmp_message_scheme" where
  "updateChunkStreamId fmt m =
     (case payload m of
        [] \<Rightarrow> m
      | b # bs \<Rightarrow> let m = m\<lparr>chunkStreamId := fmt\<rparr>
                  in m\<lparr>payload := chunkStreamID (chunkStreamType m) m # bs\<rparr>)"

section \<open>The header\<close>

lemma length_media_header: "length (media_header m) = header_base (chunkStreamType m)"
  by (cases "chunkStreamType m") (simp_all add: media_header_def)

lemma header_base_le: "header_base ty \<le> 12"
  by (cases ty) simp_all

lemma media_header_nonempty [simp]: "media_header m \<noteq> []"
  by (simp add: media_header_def)

lemma payload_media_serialize: "payload m = [] \<Longrightarrow> payload (media_serialize m) = media_header m"
  by (simp add: media_serialize_def)

lemma take_bit_6_byte: "unat x < 64 \<Longrightarrow> take_bit 6 x = (x :: u8)"
  using take_bit_byte [of x 6] by simp

lemma drop_first_byte:
  assumes "unat x < 64"
  shows "drop_bit 6 ((push_bit 6 c OR x) AND 0xFF) = take_bit 2 (c :: u8)"
proof -
  have "drop_bit 6 ((push_bit 6 c OR take_bit 6 x) AND mask 8) = take_bit 2 c"
    by (rule bit_word_eqI) (auto simp: bit_simps)
  then show ?thesis
    using assms by (simp only: mask_8 take_bit_6_byte)
qed

lemma chunk_type_of_chunkStreamID:
  assumes "unat (chunkStreamId m) < 64"
  shows "chunk_type_of_byte (chunkStreamID ty m) = ty"
  unfolding chunk_type_of_byte_def chunkStreamID_def drop_first_byte [OF assms]
  by (cases ty) simp_all

definition header_ok :: "'a rtmp_message_scheme \<Rightarrow> bool" where
  "header_ok m \<longleftrightarrow> unat (timestamp m) < 2 ^ 24 \<and> unat (payloadSize m) < 2 ^ 24 \<and>
     \<not> hasExtendedTimestamp m \<and> unat (chunkStreamId m) < 64"

lemma hasExtendedTimestamp_cong: "timestamp m = timestamp m' \<Longrightarrow> hasExtendedTimestamp m = hasExtendedTimestamp m'"
  by (simp add: hasExtendedTimestamp_def)

text \<open>The fields a chunk header of the type carries, copied from the sender's message \<open>m\<close>.\<close>

definition header_fields :: "'a rtmp_message_scheme \<Rightarrow> 'b rtmp_message_scheme \<Rightarrow> 'b rtmp_message_scheme" where
  "header_fields m m0 =
     (let m0 = m0\<lparr>chunkStreamType := chunkStreamType m\<rparr> in
      case chunkStreamType m of
        Type3 \<Rightarrow> m0
      | Type2 \<Rightarrow> m0\<lparr>timestamp := timestamp m\<rparr>
      | Type1 \<Rightarrow> m0\<lparr>timestamp := timestamp m, payloadSize := payloadSize m, tag_type := tag_type m\<rparr>
      | Type0 \<Rightarrow> m0\<lparr>timestamp := timestamp m, payloadSize := payloadSize m, tag_type := tag_type m,
                     streamID := streamID m\<rparr>)"

lemma media_deserialize_header:
  assumes "header_ok m"
  shows "media_deserialize_from (media_header m @ rest) m0 = Some (header_fields m m0, rest)"
proof -
  have ne: "\<not> 24 \<le> numberOfSetBits (timestamp m)"
    using assms by (simp add: header_ok_def hasExtendedTimestamp_def)
  have ty: "chunk_type_of_byte (chunkStreamID (chunkStreamType m) m) = chunkStreamType m"
    using assms by (simp add: header_ok_def chunk_type_of_chunkStreamID)
  show ?thesis
    using assms ne ty unfolding media_deserialize_from_def media_header_def
    by (cases "chunkStreamType m")
       (simp_all add: header_ok_def header_fields_def take_bit_24_eq hasExtendedTimestamp_def)
qed

text \<open>The full headers, which start a message, form a codec over the fields they carry.\<close>

definition full_header_ok :: "rtmp_message \<Rightarrow> bool" where
  "full_header_ok m \<longleftrightarrow> header_ok m \<and> chunkStreamType m = Type0 \<and> m = header_fields m new_rtmp_message"

interpretation full_header: codec media_header "\<lambda>it. media_deserialize_from it new_rtmp_message" full_header_ok
  by unfold_locales (simp add: full_header_ok_def media_deserialize_header)

section \<open>The chunks\<close>

lemma trunk_loop_concat: "0 < d \<Longrightarrow> concat (trunk_loop d it) = it"
proof (induction d it rule: trunk_loop.induct)
  case (1 d it)
  show ?case
  proof (cases "0 < next_chunkSize d it")
    case True
    with 1 show ?thesis
      by (simp add: trunk_loop.simps [of d it] Let_def)
  next
    case False
    with "1.prems" show ?thesis
      by (simp add: trunk_loop.simps [of d it] next_chunkSize_def split: if_splits)
  qed
qed

lemma trunk_loop_first: "0 < n \<Longrightarrow> body \<noteq> [] \<Longrightarrow> \<exists>qs. trunk_loop (int n) body = take n body # qs"
  by (subst trunk_loop.simps) (auto simp: Let_def next_chunkSize_def)

lemma trunk_loop_sizes:
  "0 < d \<Longrightarrow> c \<in> set (trunk_loop d it) \<Longrightarrow> c \<noteq> [] \<and> int (length c) \<le> d"
proof (induction d it rule: trunk_loop.induct)
  case (1 d it)
  from "1.prems" have pos: "0 < next_chunkSize d it"
    by (auto simp: trunk_loop.simps [of d it] Let_def split: if_splits)
  from "1.prems"(2) pos consider "c = take (nat (next_chunkSize d it)) it"
    | "c \<in> set (trunk_loop d (drop (nat (next_chunkSize d it)) it))"
    by (auto simp: trunk_loop.simps [of d it] Let_def)
  then show ?case
  proof cases
    case 1
    with pos show ?thesis by (auto simp: next_chunkSize_def split: if_splits)
  next
    case 2
    with "1.IH" [OF refl pos "1.prems"(1)] show ?thesis by blast
  qed
qed

text \<open>All chunks but the last are full: a chunk is shorter only when nothing follows it.\<close>

fun full_chunks :: "nat \<Rightarrow> v8 list \<Rightarrow> bool" where
  "full_chunks d [] = True"
| "full_chunks d [c] = (0 < length c \<and> length c \<le> d)"
| "full_chunks d (c # cs) = (length c = d \<and> full_chunks d cs)"

lemma full_chunks_Cons: "cs \<noteq> [] \<Longrightarrow> full_chunks d (c # cs) = (length c = d \<and> full_chunks d cs)"
  by (cases cs) simp_all

lemma trunk_loop_Nil [simp]: "0 < d \<Longrightarrow> trunk_loop d [] = []"
  by (simp add: trunk_loop.simps [of d "[]"] next_chunkSize_def)

lemma trunk_loop_full: "0 < d \<Longrightarrow> full_chunks (nat d) (trunk_loop d it)"
proof (induction d it rule: trunk_loop.induct)
  case (1 d it)
  let ?c = "nat (next_chunkSize d it)"
  show ?case
  proof (cases "0 < next_chunkSize d it")
    case False
    then show ?thesis by (simp add: trunk_loop.simps [of d it] Let_def)
  next
    case True
    note IH = "1.IH" [OF refl True "1.prems"]
    show ?thesis
    proof (cases "trunk_loop d (drop ?c it) = []")
      case last: True
      with True "1.prems" show ?thesis
        by (auto simp: trunk_loop.simps [of d it] Let_def next_chunkSize_def split: if_splits)
    next
      case False
      have "drop ?c it \<noteq> []"
        using False trunk_loop_Nil [OF "1.prems"] by metis
      then have "length it > ?c" by simp
      then have "length (take ?c it) = nat d"
        by (auto simp: next_chunkSize_def split: if_splits)
      with True IH False show ?thesis
        by (simp add: trunk_loop.simps [of d it] Let_def full_chunks_Cons)
    qed
  qed
qed

section \<open>Splitting a message\<close>

lemma unat_of_nat_u64: "n < 2 ^ 64 \<Longrightarrow> unat (word_of_nat n :: u64) = n"
  by (simp add: unsigned_of_nat take_bit_nat_eq_self)

lemma unat_ucast_u64: "unat (ucast (x :: u32) :: u64) = unat x"
proof -
  have "unat x < 2 ^ 32"
    using unsigned_less [of x] by simp
  then show ?thesis
    by (simp add: unsigned_ucast_eq take_bit_nat_eq_self)
qed

lemma sint_pos: "unat x < 2 ^ 31 \<Longrightarrow> sint (x :: u32) = int (unat x)"
proof -
  assume "unat x < 2 ^ 31"
  then have "int (unat x) < int (2 ^ 31)"
    by (simp only: of_nat_less_iff)
  then have "uint x < 2 ^ 31"
    by simp
  moreover have "- (2 ^ 31) \<le> uint x"
    by (rule order_trans [of _ 0]) simp_all
  ultimately show "sint x = int (unat x)"
    unfolding sint_uint by (subst signed_take_bit_int_eq_self) simp_all
qed

lemma trunkToSize_compare:
  assumes "n < 2 ^ 64" and "h \<le> n"
  shows "(word_of_nat n - word_of_nat h :: u64) \<le> ucast (x :: u32) \<longleftrightarrow> n - h \<le> unat x"
proof -
  have "(word_of_nat n - word_of_nat h :: u64) = word_of_nat (n - h)"
    using assms(2) by (simp add: of_nat_diff)
  moreover have "unat (word_of_nat (n - h) :: u64) = n - h"
    using assms by (intro unat_of_nat_u64) simp
  ultimately show ?thesis
    by (simp add: word_le_nat_alt unat_ucast_u64)
qed

lemma media_trunkToSize_split:
  assumes ms: "ms = (if payload m = [] then ser m else m)"
    and body: "payload ms = hdr @ body" "length hdr = hSize_of ms" "hdr \<noteq> []"
    and bounds: "unat maxSize < 2 ^ 31" "length (payload ms) < 2 ^ 64"
  shows "media_trunkToSize ser maxSize m =
    Some (if length body \<le> unat maxSize then [] else trunk_loop (int (unat maxSize)) (drop (unat maxSize) body),
          ms\<lparr>payload := hdr @ take (unat maxSize) body\<rparr>)"
proof (cases "length body \<le> unat maxSize")
  case True
  then have "(word_of_nat (length (payload ms)) - word_of_nat (hSize_of ms) :: u64) \<le> ucast maxSize"
    using bounds(2) body by (subst trunkToSize_compare) simp_all
  moreover have "ms\<lparr>payload := hdr @ body\<rparr> = ms"
    by (simp flip: body(1))
  ultimately show ?thesis
    using True body unfolding media_trunkToSize_def ms [symmetric] Let_def by simp
next
  case False
  then have "\<not> (word_of_nat (length (payload ms)) - word_of_nat (hSize_of ms) :: u64) \<le> ucast maxSize"
    using bounds(2) body by (subst trunkToSize_compare) simp_all
  moreover have "iter_advance (hSize_of ms + unat maxSize) (payload ms) = Some (drop (unat maxSize) body)"
    using body False by (simp add: iter_advance_def)
  ultimately show ?thesis
    using False body sint_pos [OF bounds(1)] unfolding media_trunkToSize_def ms [symmetric] Let_def
    by (simp add: Let_def)
qed

lemma unat_diff_wrap:
  assumes "n < h" and "h \<le> 2 ^ 64"
  shows "unat (word_of_nat n - word_of_nat h :: u64) = 2 ^ 64 + n - h"
proof -
  have "(word_of_nat n - word_of_nat h :: u64) = word_of_nat (2 ^ 64 + n - h)"
    using assms by (subst of_nat_diff) simp_all
  then show ?thesis
    using assms by (simp only: unat_of_nat_u64)
qed

lemma trunked_full:
  "0 < n \<Longrightarrow> full_chunks n (if length body \<le> n then [] else trunk_loop (int n) (drop n body))"
  using trunk_loop_full [of "int n" "drop n body"] by simp

lemma trunked_body:
  assumes "0 < n"
  shows "take n body @ concat (if length body \<le> n then [] else trunk_loop (int n) (drop n body)) = body"
  using assms by (simp add: trunk_loop_concat)

section \<open>Properties\<close>

text \<open>C16: a chunk header that fits the format (24-bit fields, no extended timestamp, a one-byte chunk
  stream id) is read back field for field, in each of the four header types, and the reader stops
  right behind it.\<close>

theorem rtmp_header_roundtrip:
  assumes "header_ok m"
  shows "media_deserialize_from (media_header m @ rest) m0 = Some (header_fields m m0, rest)"
  using assms by (rule media_deserialize_header)

theorem rtmp_header_roundtrip_witness:
  "media_deserialize_from [0x44, 0, 0, 40, 0, 0, 5, 8, 0xAF] new_rtmp_message
    = Some (new_rtmp_message\<lparr>chunkStreamType := Type1, timestamp := 40, payloadSize := 5, tag_type := 8\<rparr>, [0xAF])"
proof -
  let ?m = "new_rtmp_message\<lparr>chunkStreamType := Type1, timestamp := 40, payloadSize := 5, tag_type := 8, chunkStreamId := 4\<rparr>"
  have "header_ok ?m"
    by (simp add: header_ok_def new_rtmp_message_def media_tag.extend_def hasExtendedTimestamp_24)
  from rtmp_header_roundtrip [OF this, of "[0xAF]" new_rtmp_message] show ?thesis
    by (simp add: media_header_def chunkStreamID_def toBigEndian24_def header_fields_def)
qed

text \<open>C15: the split of a serialized message into chunks loses and reorders nothing: the body of the first
  packet followed by the other chunks is the body, the header stays on the first packet only, every
  chunk but the last has the maximal size, and none is empty.\<close>

theorem trunkToSize_chunks:
  assumes "ms = (if payload m = [] then ser m else m)" and "payload ms = hdr @ body"
    and "length hdr = hSize_of ms" and "hdr \<noteq> []" and "0 < unat maxSize" and "unat maxSize < 2 ^ 31"
    and "length (payload ms) < 2 ^ 64"
  shows "\<exists>first chunks. media_trunkToSize ser maxSize m = Some (chunks, ms\<lparr>payload := hdr @ first\<rparr>) \<and>
    first @ concat chunks = body \<and> length first \<le> unat maxSize \<and>
    (chunks \<noteq> [] \<longrightarrow> length first = unat maxSize) \<and> full_chunks (unat maxSize) chunks"
proof -
  let ?n = "unat maxSize"
  let ?cs = "if length body \<le> ?n then [] else trunk_loop (int ?n) (drop ?n body)"
  have "full_chunks ?n ?cs"
    by (rule trunked_full [OF assms(5)])
  moreover have "media_trunkToSize ser maxSize m = Some (?cs, ms\<lparr>payload := hdr @ take ?n body\<rparr>)"
    by (rule media_trunkToSize_split [where ser = ser and m = m, OF assms(1-4) assms(6,7)])
  ultimately show ?thesis
    using trunked_body [OF assms(5), of body] by (intro exI [of _ "take ?n body"] exI [of _ ?cs]) auto
qed

theorem trunkToSize_chunks_witness:
  "\<exists>first chunks. media_trunkToSize media_serialize 2
      (new_rtmp_message\<lparr>chunkStreamType := Type3, payload := [0xC4, 1, 2, 3, 4, 5]\<rparr>)
    = Some (chunks, new_rtmp_message\<lparr>chunkStreamType := Type3, payload := [0xC4] @ first\<rparr>) \<and>
    first @ concat chunks = [1, 2, 3, 4, 5] \<and> length first \<le> 2 \<and>
    (chunks \<noteq> [] \<longrightarrow> length first = 2) \<and> full_chunks 2 chunks"
  using trunkToSize_chunks [OF refl, of "new_rtmp_message\<lparr>chunkStreamType := Type3, payload := [0xC4, 1, 2, 3, 4, 5]\<rparr>"
      media_serialize "[0xC4]" "[1, 2, 3, 4, 5]" 2]
  by (simp add: hSize_of_def hasExtendedTimestamp_24 new_rtmp_message_def new_media_tag_def media_tag.extend_def)

text \<open>With the timestamp 0xFFFFFF the header size counts an extended timestamp that \<open>serialize\<close> never
  writes, so the cut lands four bytes too far: the first packet carries four bytes more than the
  maximal chunk size, and a body of fewer than four bytes is cut outside the buffer.\<close>

theorem trunkToSize_extended_timestamp:
  assumes "payload m = media_header m @ body" and "hasExtendedTimestamp m"
    and "unat maxSize < 2 ^ 31" and "length (payload m) < 2 ^ 64"
  shows "(length body < 4 \<longrightarrow> media_trunkToSize ser maxSize m = None) \<and>
    (unat maxSize + 4 < length body \<longrightarrow>
      (\<exists>chunks m'. media_trunkToSize ser maxSize m = Some (chunks, m') \<and>
         payload m' = media_header m @ take (unat maxSize + 4) body))"
proof -
  let ?n = "unat maxSize"
  have ne: "payload m \<noteq> []" using assms(1) by simp
  have h: "hSize_of m = length (media_header m) + 4"
    using assms(2) by (simp add: hSize_of_def length_media_header)
  show ?thesis
  proof (intro conjI impI)
    assume short: "length body < 4"
    have "unat (word_of_nat (length (payload m)) - word_of_nat (hSize_of m) :: u64)
        = 2 ^ 64 + length (payload m) - hSize_of m"
      using short header_base_le [of "chunkStreamType m"]
      by (intro unat_diff_wrap) (simp_all add: h assms(1) length_media_header)
    moreover have "unat maxSize < 2 ^ 64 + length (payload m) - hSize_of m"
      using assms(3) short by (simp add: h assms(1))
    ultimately show "media_trunkToSize ser maxSize m = None"
      using ne short by (simp add: media_trunkToSize_def word_le_nat_alt unat_ucast_u64 iter_advance_def h assms(1))
  next
    assume long: "?n + 4 < length body"
    have "length (media_header m @ take 4 body) = hSize_of m" "payload m = (media_header m @ take 4 body) @ drop 4 body"
      using long by (simp_all add: h assms(1))
    from media_trunkToSize_split [where m = m and ms = m and ser = ser, OF _ this(2,1) _ assms(3,4)] ne long
    show "\<exists>chunks m'. media_trunkToSize ser maxSize m = Some (chunks, m') \<and>
        payload m' = media_header m @ take (?n + 4) body"
      by (simp add: take_add add.commute [of ?n])
  qed
qed

theorem trunkToSize_extended_timestamp_witness:
  "media_trunkToSize media_serialize 128 (media_serialize (new_rtmp_message\<lparr>timestamp := 0xFFFFFF\<rparr>)) = None"
proof -
  let ?m = "new_rtmp_message\<lparr>timestamp := 0xFFFFFF\<rparr>"
  have "hasExtendedTimestamp (media_serialize ?m)"
    by (simp add: media_serialize_def hasExtendedTimestamp_24)
  moreover have "payload (media_serialize ?m) = media_header (media_serialize ?m) @ []"
    by (simp add: media_serialize_def media_header_def chunkStreamID_def new_rtmp_message_def new_media_tag_def
        media_tag.extend_def)
  ultimately show ?thesis
    using trunkToSize_extended_timestamp [of "media_serialize ?m" "[]" 128 media_serialize]
    by (simp add: length_media_header media_serialize_def new_rtmp_message_def new_media_tag_def media_tag.extend_def)
qed

end
