(* ===== verification/ControlMessages.thy ===== *)
theory ControlMessages
imports RtmpMessage
begin

text \<open>
  The protocol control messages under \<open>message/control\<close>: set chunk size, window acknowledgement size and
  set peer bandwidth, and the 12-byte header that they, the user control message and every command
  response read. A peer's message is read with no check of the size it announces: \<open>None\<close> is the read
  past the end of the bytes that were received.
\<close>

section \<open>The full header\<close>

text \<open>The header every \<open>deserialize(begin, end)\<close> of these classes reads: the first byte is skipped.\<close>

definition read_header12 :: "v8 \<Rightarrow> 'a rtmp_message_scheme \<Rightarrow> ('a rtmp_message_scheme \<times> v8) option" where
  "read_header12 it m =
     do { it \<leftarrow> iter_advance 1 it;
          (ts, it) \<leftarrow> read_field 3 fromBigEndian24 it;
          (size, it) \<leftarrow> read_field 3 fromBigEndian24 it;
          ty \<leftarrow> iter_deref it;
          it \<leftarrow> iter_advance 1 it;
          (sid, it) \<leftarrow> read_field 4 fromLittleEndian32 it;
          Some (m\<lparr>timestamp := ts, payloadSize := size, tag_type := ty, streamID := sid\<rparr>, it) }"

definition write_header12 :: "'a rtmp_message_scheme \<Rightarrow> u32 \<Rightarrow> v8" where
  "write_header12 m n = [chunkStreamID (chunkStreamType m) m] @ toBigEndian24 (timestamp m)
     @ toBigEndian24 n @ [tag_type m] @ toLittleEndian32 (streamID m)"

text \<open>\<open>payload_.insert(payload_.begin() + 4, size)\<close>, after the body has been appended.\<close>

definition insert_payloadSize :: "u32 \<Rightarrow> 'a rtmp_message_scheme \<Rightarrow> 'a rtmp_message_scheme" where
  "insert_payloadSize n m =
     m\<lparr>payloadSize := n, payload := take 4 (payload m) @ toBigEndian24 n @ drop 4 (payload m)\<rparr>"

text \<open>The header without its size field.\<close>

definition header_no_size :: "'a rtmp_message_scheme \<Rightarrow> v8" where
  "header_no_size m = [chunkStreamID (chunkStreamType m) m] @ toBigEndian24 (timestamp m)
     @ [tag_type m] @ toLittleEndian32 (streamID m)"

lemma length_write_header12 [simp]: "length (write_header12 m n) = 12"
  by (simp add: write_header12_def)

lemma insert_payloadSize_header:
  "payload m = header_no_size m0 @ body \<Longrightarrow> payload (insert_payloadSize n m) = write_header12 m0 n @ body"
  by (simp add: insert_payloadSize_def header_no_size_def write_header12_def)

lemma read_header12_write:
  assumes "unat (timestamp m) < 2 ^ 24" and "unat n < 2 ^ 24"
  shows "read_header12 (write_header12 m n @ rest) m0
    = Some (m0\<lparr>timestamp := timestamp m, payloadSize := n, tag_type := tag_type m, streamID := streamID m\<rparr>, rest)"
  using assms by (simp add: read_header12_def write_header12_def take_bit_24_eq)

lemma read_header12_short: "length it < 12 \<Longrightarrow> read_header12 it m = None"
  by (auto simp: read_header12_def not_Some_eq [symmetric] bind_Some_iff simp del: not_Some_eq
      dest!: length_iter_advance read_field_consumes)

section \<open>Set chunk size\<close>

text \<open>\<open>chunkSize_\<close> has no initialiser: it is \<open>None\<close> in a default-constructed message.\<close>

record rtmp_set_chunk_size_message = rtmp_message +
  scs_chunkSize :: "u32 option"

definition new_set_chunk_size_message :: rtmp_set_chunk_size_message where
  "new_set_chunk_size_message = rtmp_message.extend new_rtmp_message \<lparr> scs_chunkSize = None \<rparr>"

definition set_chunk_size_message :: "u32 \<Rightarrow> rtmp_set_chunk_size_message" where
  "set_chunk_size_message n = new_set_chunk_size_message
     \<lparr>scs_chunkSize := Some n, tag_type := Msg_SetChunkSizeMessage, streamID := 0, timestamp := 0, payloadSize := 4\<rparr>"

definition set_chunk_size_serialize :: "rtmp_set_chunk_size_message \<Rightarrow> rtmp_set_chunk_size_message option" where
  "set_chunk_size_serialize m =
     do { n \<leftarrow> scs_chunkSize m;
          Some (m\<lparr>payload := [chunkStreamID (chunkStreamType m) m] @ toBigEndian24 (timestamp m)
                   @ toBigEndian24 (payloadSize m) @ [tag_type m] @ toLittleEndian32 (streamID m)
                   @ toBigEndian32 n\<rparr>) }"

definition set_chunk_size_deserialize ::
  "v8 \<Rightarrow> rtmp_set_chunk_size_message \<Rightarrow> rtmp_set_chunk_size_message option" where
  "set_chunk_size_deserialize it m =
     do { (m, it) \<leftarrow> read_header12 it m;
          p \<leftarrow> iter_slice (unat (payloadSize m)) it;
          let m = m\<lparr>payload := p\<rparr>;
          n \<leftarrow> fromBigEndian32 (payload m);
          Some (m\<lparr>scs_chunkSize := Some n\<rparr>) }"

definition set_chunk_size_defaultSize :: nat where
  "set_chunk_size_defaultSize = 4 + 12"

section \<open>Window acknowledgement size\<close>

record rtmp_window_ack_message = rtmp_message +
  windowAcknowledgementSize :: u32

definition new_window_ack_message :: rtmp_window_ack_message where
  "new_window_ack_message =
     (rtmp_message.extend new_rtmp_message \<lparr> windowAcknowledgementSize = 0 \<rparr>)\<lparr>chunkStreamId := Fmt_ControlMessage\<rparr>"

definition window_ack_message :: "u32 \<Rightarrow> rtmp_window_ack_message" where
  "window_ack_message n = new_window_ack_message
     \<lparr>windowAcknowledgementSize := n, chunkStreamId := Fmt_ControlMessage,
      tag_type := Msg_WindowAcknowledgementSizeMessage\<rparr>"

definition window_ack_serialize :: "rtmp_window_ack_message \<Rightarrow> rtmp_window_ack_message" where
  "window_ack_serialize m =
     (let m = m\<lparr>payload := header_no_size m\<rparr>;
          m = m\<lparr>payload := payload m @ toBigEndian32 (windowAcknowledgementSize m)\<rparr>
      in insert_payloadSize 4 m)"

definition window_ack_deserialize ::
  "v8 \<Rightarrow> 'a rtmp_window_ack_message_scheme \<Rightarrow> 'a rtmp_window_ack_message_scheme option" where
  "window_ack_deserialize it m =
     do { (m, it) \<leftarrow> read_header12 it m;
          p \<leftarrow> iter_slice (unat (payloadSize m)) it;
          let m = m\<lparr>payload := p\<rparr>;
          n \<leftarrow> fromBigEndian32 (payload m);
          Some (m\<lparr>windowAcknowledgementSize := n\<rparr>) }"

definition window_ack_defaultSize :: nat where
  "window_ack_defaultSize = 4 + 12"

section \<open>Set peer bandwidth\<close>

abbreviation "Limit_Hard \<equiv> (0 :: u8)"
abbreviation "Limit_Soft \<equiv> (1 :: u8)"
abbreviation "Limit_Dynamic \<equiv> (2 :: u8)"

record rtmp_set_peer_bandwidth_message = rtmp_window_ack_message +
  limitType :: u8

definition new_set_peer_bandwidth_message :: rtmp_set_peer_bandwidth_message where
  "new_set_peer_bandwidth_message = rtmp_window_ack_message.extend new_window_ack_message \<lparr> limitType = Limit_Dynamic \<rparr>"

text \<open>\<open>payload_.back()\<close> of an empty payload is undefined.\<close>

definition set_peer_bandwidth_deserialize ::
  "v8 \<Rightarrow> rtmp_set_peer_bandwidth_message \<Rightarrow> rtmp_set_peer_bandwidth_message option" where
  "set_peer_bandwidth_deserialize it m =
     do { m \<leftarrow> window_ack_deserialize it m;
          if payload m = [] then None else Some (m\<lparr>limitType := last (payload m)\<rparr>) }"

definition set_peer_bandwidth_defaultSize :: nat where
  "set_peer_bandwidth_defaultSize = 4 + 1 + 12"

section \<open>Properties\<close>

lemmas control_defs = new_rtmp_message_def new_media_tag_def media_tag.extend_def rtmp_message.extend_def

lemma iter_slice_4 [simp]: "iter_slice 4 (toBigEndian32 n @ r) = Some (toBigEndian32 n)"
  by (rule iter_slice_append) simp

text \<open>A set-chunk-size message is read back with the size it was built with, for every 32-bit size,
  and its header announces the four bytes of its body.\<close>

theorem set_chunk_size_roundtrip:
  "\<exists>m bytes. set_chunk_size_serialize (set_chunk_size_message n) = Some m \<and>
    payload m = bytes \<and> length bytes = set_chunk_size_defaultSize \<and>
    map_option scs_chunkSize (set_chunk_size_deserialize bytes m0) = Some (Some n) \<and>
    map_option payloadSize (set_chunk_size_deserialize bytes m0) = Some 4"
proof -
  let ?m = "set_chunk_size_message n"
  have ok: "read_header12 (write_header12 ?m 4 @ toBigEndian32 n) m0
      = Some (m0\<lparr>timestamp := timestamp ?m, payloadSize := 4, tag_type := tag_type ?m, streamID := streamID ?m\<rparr>,
              toBigEndian32 n)"
    by (rule read_header12_write) (simp_all add: set_chunk_size_message_def)
  have s: "set_chunk_size_serialize ?m = Some (?m\<lparr>payload := write_header12 ?m 4 @ toBigEndian32 n\<rparr>)"
    by (simp add: set_chunk_size_serialize_def write_header12_def set_chunk_size_message_def
        new_set_chunk_size_message_def control_defs)
  show ?thesis
    unfolding s by (simp add: set_chunk_size_deserialize_def ok set_chunk_size_defaultSize_def)
qed

text \<open>Reading a window-acknowledgement-size message is defined exactly when the peer announces no
  more payload than was received and a payload of no or at least four bytes; nothing in the code
  checks either, so a peer can make the client read past its buffer.\<close>

theorem window_ack_deserialize_bounds:
  assumes "unat (timestamp m) < 2 ^ 24" and "unat n < 2 ^ 24"
  shows "window_ack_deserialize (write_header12 m n @ body) m0 \<noteq> None
    \<longleftrightarrow> unat n \<le> length body \<and> (unat n = 0 \<or> 4 \<le> unat n)"
  by (auto simp: window_ack_deserialize_def read_header12_write [OF assms] iter_slice_def fromBigEndian32_def
      unat_eq_zero Let_def split: if_splits)

theorem window_ack_deserialize_bounds_witness:
  "window_ack_deserialize (write_header12 new_window_ack_message 9 @ [0, 0, 1, 0]) new_window_ack_message = None"
  using window_ack_deserialize_bounds [of new_window_ack_message 9 "[0, 0, 1, 0]" new_window_ack_message]
  by (simp add: new_window_ack_message_def control_defs)

text \<open>A set-peer-bandwidth message is read back with its window size and limit type.\<close>

theorem set_peer_bandwidth_read:
  assumes "unat (timestamp m) < 2 ^ 24"
  shows "set_peer_bandwidth_deserialize (write_header12 m 5 @ toBigEndian32 n @ [limit] @ rest) m0
    = Some (m0\<lparr>timestamp := timestamp m, payloadSize := 5, tag_type := tag_type m, streamID := streamID m,
               payload := toBigEndian32 n @ [limit], windowAcknowledgementSize := n, limitType := limit\<rparr>)"
proof -
  have "iter_slice 5 (toBigEndian32 n @ limit # rest) = Some (toBigEndian32 n @ [limit])"
    using iter_slice_append [of 5 "toBigEndian32 n @ [limit]" rest] by simp
  moreover have "fromBigEndian32 (toBigEndian32 n @ [limit]) = fromBigEndian32 (toBigEndian32 n)"
    by (simp add: fromBigEndian32_def nth_append)
  ultimately show ?thesis
    using assms by (cases m0) (simp add: set_peer_bandwidth_deserialize_def window_ack_deserialize_def read_header12_write)
qed

theorem set_peer_bandwidth_read_witness:
  "map_option limitType (set_peer_bandwidth_deserialize
      (write_header12 new_rtmp_message 5 @ toBigEndian32 2500000 @ [2]) new_set_peer_bandwidth_message) = Some Limit_Dynamic"
  using set_peer_bandwidth_read [of new_rtmp_message 2500000 2 "[]" new_set_peer_bandwidth_message]
  by (simp add: control_defs)

end
