(* ===== verification/FlvAmf.thy ===== *)
theory FlvAmf
imports Tags Amf0_Roundtrip "HOL-Library.Multiset"
begin

text \<open>
  \<open>FLVMediaAMFTag\<close>: the \<open>onMetaData\<close> tag, its properties as an AMF0 object. \<open>serialize\<close> collects the
  properties in a \<open>std::unordered_map\<close> and writes them in the map's iteration order, which the
  standard leaves open: it is the parameter \<open>ord\<close>, of which only \<open>order_ok\<close> is used (an iteration
  visits every entry once). The theorem shows which metadata survive the round trip, for every order.
\<close>

section \<open>State\<close>

record flv_amf_tag = flv_tag +
  duration :: double
  width :: double
  height :: double
  videoframerate :: double
  videodatarate :: double
  framerate :: double
  videocodecid :: double
  videocodecidStr :: string
  audiodatarate :: double
  audiosamplerate :: double
  audiosamplesize :: double
  stereo :: bool
  audiocodecid :: double
  audiochannels :: double
  audiocodecidStr :: string
  encoder :: string
  filesize :: double
  avcLevel :: double
  avcProfile :: double

definition new_flv_amf_tag :: flv_amf_tag where
  "new_flv_amf_tag = media_tag.extend new_media_tag
     \<lparr> prevTagSize = 0, duration = 0, width = double_of_nat 1280, height = double_of_nat 720,
       videoframerate = 0, videodatarate = double_of_nat 850, framerate = double_of_nat 30,
       videocodecid = 0, videocodecidStr = ''avc'', audiodatarate = double_of_nat 60,
       audiosamplerate = double_of_nat 48000, audiosamplesize = 0, stereo = False, audiocodecid = 0,
       audiochannels = double_of_nat 1, audiocodecidStr = ''aac'', encoder = [], filesize = 0,
       avcLevel = double_of_nat 41, avcProfile = double_of_nat 100 \<rparr>"

section \<open>Reading the properties\<close>

text \<open>The shape of every block of \<open>deserializeFromDict\<close>: look the key up, use a value of the right type.\<close>

definition on_number :: "string \<Rightarrow> (double \<Rightarrow> 'a \<Rightarrow> 'a) \<Rightarrow> subset dict \<Rightarrow> 'a \<Rightarrow> 'a" where
  "on_number key setter dict t = (case map_of dict key of Some (NumberVariant d) \<Rightarrow> setter d t | _ \<Rightarrow> t)"

definition on_boolean :: "string \<Rightarrow> (bool \<Rightarrow> 'a \<Rightarrow> 'a) \<Rightarrow> subset dict \<Rightarrow> 'a \<Rightarrow> 'a" where
  "on_boolean key setter dict t = (case map_of dict key of Some (BooleanVariant b) \<Rightarrow> setter b t | _ \<Rightarrow> t)"

definition on_string :: "string \<Rightarrow> (string \<Rightarrow> 'a \<Rightarrow> 'a) \<Rightarrow> subset dict \<Rightarrow> 'a \<Rightarrow> 'a" where
  "on_string key setter dict t = (case map_of dict key of Some (StringVariant s) \<Rightarrow> setter s t | _ \<Rightarrow> t)"

text \<open>The timestamp is the one property that converts a \<open>double\<close> to an unsigned integer.\<close>

definition on_timestamp :: "subset dict \<Rightarrow> flv_amf_tag \<Rightarrow> flv_amf_tag option" where
  "on_timestamp dict t =
     (case map_of dict ''timestamp'' of
        Some (NumberVariant d) \<Rightarrow> map_option (\<lambda>n. t\<lparr>timestamp := n\<rparr>) (double_to_word d)
      | _ \<Rightarrow> Some t)"

definition deserializeFromDict :: "subset dict \<Rightarrow> flv_amf_tag \<Rightarrow> flv_amf_tag option" where
  "deserializeFromDict dict t =
    (let t = on_number ''duration'' (\<lambda>d t. t\<lparr>duration := d\<rparr>) dict t;
         t = on_number ''height'' (\<lambda>d t. t\<lparr>height := d\<rparr>) dict t;
         t = on_number ''width'' (\<lambda>d t. t\<lparr>width := d\<rparr>) dict t;
         t = on_number ''videodatarate'' (\<lambda>d t. t\<lparr>videodatarate := d\<rparr>) dict t;
         t = on_number ''framerate'' (\<lambda>d t. t\<lparr>framerate := d\<rparr>) dict t;
         t = on_number ''videocodecid'' (\<lambda>d t. t\<lparr>videocodecid := d\<rparr>) dict t;
         t = on_number ''audiodatarate'' (\<lambda>d t. t\<lparr>audiodatarate := d\<rparr>) dict t;
         t = on_number ''audiosamplerate'' (\<lambda>d t. t\<lparr>audiosamplerate := d\<rparr>) dict t;
         t = on_number ''audiosamplesize'' (\<lambda>d t. t\<lparr>audiosamplesize := d\<rparr>) dict t;
         t = on_boolean ''stereo'' (\<lambda>b t. t\<lparr>stereo := b\<rparr>) dict t;
         t = on_number ''audiocodecid'' (\<lambda>d t. t\<lparr>audiocodecid := d\<rparr>) dict t;
         t = on_string ''encoder'' (\<lambda>s t. t\<lparr>encoder := s\<rparr>) dict t;
         t = on_number ''filesize'' (\<lambda>d t. t\<lparr>filesize := d\<rparr>) dict t;
         t = on_number ''avclevel'' (\<lambda>d t. t\<lparr>avcLevel := d\<rparr>) dict t;
         t = on_number ''avcprofile'' (\<lambda>d t. t\<lparr>avcProfile := d\<rparr>) dict t;
         t = on_number ''audiochannels'' (\<lambda>d t. t\<lparr>audiochannels := d\<rparr>) dict t;
         t = on_number ''videoframerate'' (\<lambda>d t. t\<lparr>videoframerate := d\<rparr>) dict t
     in on_timestamp dict t)"

text \<open>The loop over the values of the payload: objects and ECMA arrays are read, all else skipped.\<close>

fun flv_amf_read_values :: "variant list \<Rightarrow> flv_amf_tag \<Rightarrow> flv_amf_tag option" where
  "flv_amf_read_values [] t = Some t"
| "flv_amf_read_values (EcmaArrayVariant dict # vs) t =
     Option.bind (deserializeFromDict dict t) (flv_amf_read_values vs)"
| "flv_amf_read_values (ObjectVariant dict # vs) t =
     Option.bind (deserializeFromDict dict t) (flv_amf_read_values vs)"
| "flv_amf_read_values (Subset v # vs) t = flv_amf_read_values vs t"

definition flv_amf_deserialize_payload :: "flv_amf_tag \<Rightarrow> flv_amf_tag option" where
  "flv_amf_deserialize_payload t =
     do { result \<leftarrow> deserialize (payload t); flv_amf_read_values result t }"

definition flv_amf_deserialize :: "v8 \<Rightarrow> flv_amf_tag \<Rightarrow> flv_amf_tag option" where
  "flv_amf_deserialize it t =
     do { t \<leftarrow> flv_tag_deserialize it t;
          if length (payload t) \<le> 0 then Some t else flv_amf_deserialize_payload t }"

section \<open>Writing the properties\<close>

text \<open>\<open>if (c) props[key] = value;\<close>\<close>

definition put_when :: "bool \<Rightarrow> string \<Rightarrow> subset \<Rightarrow> subset dict \<Rightarrow> subset dict" where
  "put_when c key value props = (if c then AList.update key value props else props)"

definition flv_amf_props :: "flv_amf_tag \<Rightarrow> subset dict" where
  "flv_amf_props t =
    (let props = AList.update ''stereo'' (BooleanVariant (stereo t)) [];
         props = put_when (double_pos (duration t)) ''duration'' (NumberVariant (duration t)) props;
         props = put_when (double_pos (width t)) ''width'' (NumberVariant (width t)) props;
         props = put_when (double_pos (height t)) ''height'' (NumberVariant (height t)) props;
         props = put_when (double_pos (videodatarate t)) ''videodatarate'' (NumberVariant (videodatarate t)) props;
         props = put_when (double_pos (framerate t)) ''framerate'' (NumberVariant (framerate t)) props;
         props = put_when (double_pos (audiodatarate t)) ''audiodatarate'' (NumberVariant (audiodatarate t)) props;
         props = put_when (double_pos (audiosamplesize t)) ''audiosamplesize'' (NumberVariant (audiosamplesize t)) props;
         props = put_when (double_pos (audiosamplerate t)) ''audiosamplerate'' (NumberVariant (audiosamplerate t)) props;
         props = put_when (encoder t \<noteq> []) ''encoder'' (StringVariant (encoder t)) props;
         props = put_when (double_pos (filesize t)) ''filesize'' (NumberVariant (filesize t)) props;
         props = put_when (double_pos (videocodecid t)) ''videocodecid'' (NumberVariant (videocodecid t)) props;
         props = put_when (videocodecidStr t \<noteq> []) ''videocodecid'' (StringVariant (videocodecidStr t)) props;
         props = put_when (audiocodecidStr t \<noteq> []) ''audiocodecid'' (StringVariant (audiocodecidStr t)) props;
         props = put_when (double_pos (audiochannels t)) ''audiochannels'' (NumberVariant (audiochannels t)) props;
         props = put_when (double_pos (videoframerate t)) ''videoframerate'' (NumberVariant (videoframerate t)) props;
         props = put_when (timestamp t > 0) ''timestamp'' (NumberVariant (double_of_nat (unat (timestamp t)))) props;
         props = put_when (double_pos (avcLevel t) \<and> (videocodecidStr t \<noteq> [] \<and> videocodecidStr t = ''avc1''))
           ''avclevel'' (NumberVariant (avcLevel t)) props;
         props = put_when (double_pos (avcProfile t) \<and> (videocodecidStr t \<noteq> [] \<and> videocodecidStr t = ''avc1''))
           ''avcprofile'' (NumberVariant (avcProfile t)) props
     in props)"

definition flv_amf_serialize :: "(subset dict \<Rightarrow> subset dict) \<Rightarrow> flv_amf_tag \<Rightarrow> flv_amf_tag" where
  "flv_amf_serialize ord t =
     t\<lparr>payload := serializeString ''onMetaData'' True @ serializeObject (ord (flv_amf_props t))\<rparr>"

definition order_ok :: "(subset dict \<Rightarrow> subset dict) \<Rightarrow> bool" where
  "order_ok ord \<longleftrightarrow> (\<forall>d. mset (ord d) = mset d)"

section \<open>Lookups\<close>

lemma order_ok_id [simp]: "order_ok (\<lambda>d. d)"
  by (simp add: order_ok_def)

lemma order_ok_rev: "order_ok rev"
  by (simp add: order_ok_def)

lemma set_ord: "order_ok ord \<Longrightarrow> set (ord d) = set d"
  unfolding order_ok_def by (metis set_mset_mset)

lemma dict_ok_ord: "order_ok ord \<Longrightarrow> dict_ok d \<Longrightarrow> dict_ok (ord d)"
  unfolding order_ok_def dict_ok_def by (metis mset_eq_imp_distinct_iff mset_map)

lemma map_of_ord:
  assumes "order_ok ord" and "dict_ok d"
  shows "map_of (ord d) = map_of d"
  using assms dict_ok_ord [OF assms] set_ord [OF assms(1), of d]
  by (intro map_of_inject_set [THEN iffD2]) (simp_all add: dict_ok_def)

lemma map_of_update_if: "map_of (AList.update k v d) k' = (if k' = k then Some v else map_of d k')"
  by (simp add: update_conv')

lemma map_of_put_when:
  "map_of (put_when c k v d) k' = (if k' = k \<and> c then Some v else map_of d k')"
  by (simp add: put_when_def map_of_update_if)

lemma dict_ok_put [simp]: "dict_ok d \<Longrightarrow> dict_ok (put_when c k v d)"
  by (simp add: put_when_def)

lemma dict_ok_single [simp]: "dict_ok [e]"
  by (simp add: dict_ok_def)

lemma dict_ok_props: "dict_ok (flv_amf_props t)"
  by (simp add: flv_amf_props_def Let_def)

lemma object_ok_update:
  "object_ok d \<Longrightarrow> key_ok k \<Longrightarrow> scalar_ok v \<Longrightarrow> object_ok (AList.update k v d)"
proof -
  assume a: "object_ok d" "key_ok k" "scalar_ok v"
  have "set (AList.update k v d) \<subseteq> insert (k, v) (set d)"
    by (induction d) auto
  with a show ?thesis
    by (auto simp: object_ok_def)
qed

lemma object_ok_put [simp]:
  "object_ok d \<Longrightarrow> key_ok k \<Longrightarrow> c \<longrightarrow> scalar_ok v \<Longrightarrow> object_ok (put_when c k v d)"
  by (simp add: put_when_def object_ok_update)

definition strings_ok :: "flv_amf_tag \<Rightarrow> bool" where
  "strings_ok t \<longleftrightarrow> string_ok (encoder t) \<and> string_ok (videocodecidStr t) \<and> string_ok (audiocodecidStr t)"

lemma object_ok_props:
  assumes "strings_ok t"
  shows "object_ok (flv_amf_props t)"
proof -
  have start: "object_ok [(''stereo'', BooleanVariant (stereo t))]"
    by (simp add: object_ok_def key_ok_def string_ok_def)
  show ?thesis
    using assms start by (simp add: flv_amf_props_def Let_def strings_ok_def key_ok_def string_ok_def)
qed

lemma object_ok_ord: "order_ok ord \<Longrightarrow> object_ok d \<Longrightarrow> object_ok (ord d)"
  by (simp add: object_ok_def dict_ok_ord set_ord)

definition keep :: "double \<Rightarrow> double \<Rightarrow> double" where
  "keep new old = (if double_pos new then new else old)"

lemmas props_lookup = flv_amf_props_def Let_def map_of_put_when map_of_update_if

text \<open>What each block of \<open>deserializeFromDict\<close> finds in the properties of \<open>t\<close>.\<close>

lemma read_back:
  assumes L: "map_of dict = map_of (flv_amf_props t)"
  shows rb_duration: "on_number ''duration'' (\<lambda>d t. t\<lparr>duration := d\<rparr>) dict t0 = t0\<lparr>duration := keep (duration t) (duration t0)\<rparr>"
    and rb_height: "on_number ''height'' (\<lambda>d t. t\<lparr>height := d\<rparr>) dict t0 = t0\<lparr>height := keep (height t) (height t0)\<rparr>"
    and rb_width: "on_number ''width'' (\<lambda>d t. t\<lparr>width := d\<rparr>) dict t0 = t0\<lparr>width := keep (width t) (width t0)\<rparr>"
    and rb_videodatarate: "on_number ''videodatarate'' (\<lambda>d t. t\<lparr>videodatarate := d\<rparr>) dict t0 = t0\<lparr>videodatarate := keep (videodatarate t) (videodatarate t0)\<rparr>"
    and rb_framerate: "on_number ''framerate'' (\<lambda>d t. t\<lparr>framerate := d\<rparr>) dict t0 = t0\<lparr>framerate := keep (framerate t) (framerate t0)\<rparr>"
    and rb_audiodatarate: "on_number ''audiodatarate'' (\<lambda>d t. t\<lparr>audiodatarate := d\<rparr>) dict t0 = t0\<lparr>audiodatarate := keep (audiodatarate t) (audiodatarate t0)\<rparr>"
    and rb_audiosamplerate: "on_number ''audiosamplerate'' (\<lambda>d t. t\<lparr>audiosamplerate := d\<rparr>) dict t0 = t0\<lparr>audiosamplerate := keep (audiosamplerate t) (audiosamplerate t0)\<rparr>"
    and rb_audiosamplesize: "on_number ''audiosamplesize'' (\<lambda>d t. t\<lparr>audiosamplesize := d\<rparr>) dict t0 = t0\<lparr>audiosamplesize := keep (audiosamplesize t) (audiosamplesize t0)\<rparr>"
    and rb_filesize: "on_number ''filesize'' (\<lambda>d t. t\<lparr>filesize := d\<rparr>) dict t0 = t0\<lparr>filesize := keep (filesize t) (filesize t0)\<rparr>"
    and rb_audiochannels: "on_number ''audiochannels'' (\<lambda>d t. t\<lparr>audiochannels := d\<rparr>) dict t0 = t0\<lparr>audiochannels := keep (audiochannels t) (audiochannels t0)\<rparr>"
    and rb_videoframerate: "on_number ''videoframerate'' (\<lambda>d t. t\<lparr>videoframerate := d\<rparr>) dict t0 = t0\<lparr>videoframerate := keep (videoframerate t) (videoframerate t0)\<rparr>"
    and rb_stereo: "on_boolean ''stereo'' (\<lambda>b t. t\<lparr>stereo := b\<rparr>) dict t0 = t0\<lparr>stereo := stereo t\<rparr>"
    and rb_encoder: "on_string ''encoder'' (\<lambda>s t. t\<lparr>encoder := s\<rparr>) dict t0
      = t0\<lparr>encoder := if encoder t \<noteq> [] then encoder t else encoder t0\<rparr>"
    and rb_videocodecid: "on_number ''videocodecid'' (\<lambda>d t. t\<lparr>videocodecid := d\<rparr>) dict t0
      = t0\<lparr>videocodecid := if videocodecidStr t = [] then keep (videocodecid t) (videocodecid t0) else videocodecid t0\<rparr>"
    and rb_audiocodecid: "on_number ''audiocodecid'' (\<lambda>d t. t\<lparr>audiocodecid := d\<rparr>) dict t0 = t0"
    and rb_avcLevel: "on_number ''avclevel'' (\<lambda>d t. t\<lparr>avcLevel := d\<rparr>) dict t0
      = t0\<lparr>avcLevel := if videocodecidStr t = ''avc1'' then keep (avcLevel t) (avcLevel t0) else avcLevel t0\<rparr>"
    and rb_avcProfile: "on_number ''avcprofile'' (\<lambda>d t. t\<lparr>avcProfile := d\<rparr>) dict t0
      = t0\<lparr>avcProfile := if videocodecidStr t = ''avc1'' then keep (avcProfile t) (avcProfile t0) else avcProfile t0\<rparr>"
    and rb_timestamp: "on_timestamp dict t0
      = Some (t0\<lparr>timestamp := if timestamp t > 0 then timestamp t else timestamp t0\<rparr>)"
proof -
  have ts: "unat (timestamp t) < 2 ^ 32"
    using unsigned_less [of "timestamp t"] by simp
  then have "double_to_word (double_of_nat (unat (timestamp t))) = Some (timestamp t)"
    by (subst double_to_word_of_nat) simp_all
  then show "on_timestamp dict t0
      = Some (t0\<lparr>timestamp := if timestamp t > 0 then timestamp t else timestamp t0\<rparr>)"
    by (simp add: on_timestamp_def L props_lookup)
qed (simp_all add: on_number_def on_boolean_def on_string_def L props_lookup keep_def)

lemma flv_amf_payload_values:
  assumes "order_ok ord" and "strings_ok t"
  shows "deserialize (payload (flv_amf_serialize ord t))
    = Some [Subset (StringVariant ''onMetaData''), ObjectVariant (ord (flv_amf_props t))]"
proof -
  let ?vs = "[Subset (StringVariant ''onMetaData''), ObjectVariant (ord (flv_amf_props t))]"
  have "\<forall>x \<in> set ?vs. variant_ok x"
    using object_ok_ord [OF assms(1) object_ok_props [OF assms(2)]] by (simp add: string_ok_def)
  from amf0.decs_encs [OF this] show ?thesis
    by (simp add: flv_amf_serialize_def)
qed

section \<open>Properties\<close>

text \<open>C23: the metadata an \<open>onMetaData\<close> tag serializes are read back whatever the iteration order of the
  map: every positive number, the stereo flag, the encoder and the timestamp replace those of the
  reading tag, a property that was not positive leaves the reading tag's value, and the codec
  identifiers written as strings are not read at all.\<close>

theorem flv_amf_roundtrip:
  assumes "order_ok ord" and "strings_ok t" and "payload t0 = payload (flv_amf_serialize ord t)"
  shows "flv_amf_deserialize_payload t0 = Some (t0
    \<lparr>duration := keep (duration t) (duration t0), height := keep (height t) (height t0),
     width := keep (width t) (width t0), videodatarate := keep (videodatarate t) (videodatarate t0),
     framerate := keep (framerate t) (framerate t0),
     videocodecid := (if videocodecidStr t = [] then keep (videocodecid t) (videocodecid t0) else videocodecid t0),
     audiodatarate := keep (audiodatarate t) (audiodatarate t0),
     audiosamplerate := keep (audiosamplerate t) (audiosamplerate t0),
     audiosamplesize := keep (audiosamplesize t) (audiosamplesize t0),
     stereo := stereo t, encoder := (if encoder t \<noteq> [] then encoder t else encoder t0),
     filesize := keep (filesize t) (filesize t0),
     avcLevel := (if videocodecidStr t = ''avc1'' then keep (avcLevel t) (avcLevel t0) else avcLevel t0),
     avcProfile := (if videocodecidStr t = ''avc1'' then keep (avcProfile t) (avcProfile t0) else avcProfile t0),
     audiochannels := keep (audiochannels t) (audiochannels t0),
     videoframerate := keep (videoframerate t) (videoframerate t0),
     timestamp := (if timestamp t > 0 then timestamp t else timestamp t0)\<rparr>)"
proof -
  have L: "map_of (ord (flv_amf_props t)) = map_of (flv_amf_props t)"
    by (rule map_of_ord [OF assms(1) dict_ok_props])
  show ?thesis
    by (simp add: flv_amf_deserialize_payload_def assms(3) flv_amf_payload_values [OF assms(1,2)]
        deserializeFromDict_def read_back [OF L])
qed

theorem flv_amf_roundtrip_witness:
  "flv_amf_deserialize_payload (flv_amf_serialize rev (new_flv_amf_tag\<lparr>videocodecidStr := ''avc1''\<rparr>))
     \<noteq> None"
  using flv_amf_roundtrip [OF order_ok_rev _ refl, of "new_flv_amf_tag\<lparr>videocodecidStr := ''avc1''\<rparr>"]
  by (simp add: strings_ok_def string_ok_def new_flv_amf_tag_def media_tag.extend_def new_media_tag_def)

end
