(* ===== verification/CommandMessages.thy ===== *)
theory CommandMessages
imports ControlMessages FlvAmf
begin

text \<open>
  The command messages under \<open>message/command\<close>: the commands the client sends, each an AMF0 payload
  behind a header whose size field is inserted last, and the responses it reads. The command object is
  an unordered map, written in the iteration order \<open>ord\<close>. The lemmas show what a peer reads from each
  command, and what the client concludes from each response.
\<close>

section \<open>Commands\<close>

record rtmp_command_message = rtmp_message +
  commandName :: string
  transactionID :: u8

definition new_command_message :: rtmp_command_message where
  "new_command_message = rtmp_message.extend new_rtmp_message \<lparr> commandName = [], transactionID = 0 \<rparr>"

text \<open>The first two values of every command.\<close>

definition serialize_name_and_id :: "'a rtmp_command_message_scheme \<Rightarrow> v8" where
  "serialize_name_and_id m = serializeString (commandName m) True
     @ serializeNumber (double_of_nat (unat (transactionID m)))"

text \<open>Header, body and size field; \<open>header\<close> is the header without the size field.\<close>

definition finish_command :: "v8 \<Rightarrow> v8 \<Rightarrow> 'a rtmp_message_scheme \<Rightarrow> 'a rtmp_message_scheme" where
  "finish_command header body m =
     insert_payloadSize (word_of_nat (length body)) (m\<lparr>payload := header @ body\<rparr>)"

subsection \<open>connect\<close>

record rtmp_connect_message = rtmp_command_message +
  optionalUserArguments :: "subset dict"

definition new_connect_message :: rtmp_connect_message where
  "new_connect_message = rtmp_command_message.extend new_command_message \<lparr> optionalUserArguments = [] \<rparr>"

definition tcUrl :: "string \<Rightarrow> string \<Rightarrow> string \<Rightarrow> string" where
  "tcUrl address port appName = ''rtmp://'' @ address @ '':'' @ port @ ''/'' @ appName"

definition connect_message :: "string \<Rightarrow> string \<Rightarrow> string \<Rightarrow> rtmp_connect_message" where
  "connect_message address port appName =
    (let m = new_connect_message\<lparr>tag_type := Msg_CommandMessage_AMF0, commandName := ''connect'',
               transactionID := 1, streamID := 0, timestamp := 0\<rparr>;
         m = addCommandObjectProperty ''fpad'' (BooleanVariant False) m;
         m = addCommandObjectProperty ''objectEncoding'' (NumberVariant (double_of_nat 0)) m;
         m = addCommandObjectProperty ''app'' (StringVariant appName) m
     in addCommandObjectProperty ''tcUrl'' (StringVariant (tcUrl address port appName)) m)"

definition addOptionalUserArgumentsProperty ::
  "string \<Rightarrow> subset \<Rightarrow> rtmp_connect_message \<Rightarrow> rtmp_connect_message" where
  "addOptionalUserArgumentsProperty key value m =
     m\<lparr>optionalUserArguments := dict_insert key value (optionalUserArguments m)\<rparr>"

definition connect_serialize :: "(subset dict \<Rightarrow> subset dict) \<Rightarrow> rtmp_connect_message \<Rightarrow> rtmp_connect_message" where
  "connect_serialize ord m =
     finish_command (header_no_size m)
       (serialize_name_and_id m
        @ (if commandObject m \<noteq> [] then serializeObject (ord (commandObject m)) else [])
        @ (if optionalUserArguments m \<noteq> [] then serializeObject (ord (optionalUserArguments m)) else [])) m"

subsection \<open>createStream and closeStream\<close>

definition create_stream_message :: rtmp_command_message where
  "create_stream_message = new_command_message\<lparr>tag_type := Msg_CommandMessage_AMF0, chunkStreamType := Type1,
     commandName := ''createStream'', transactionID := 2, streamID := 0, timestamp := 0\<rparr>"

definition object_or_null :: "(subset dict \<Rightarrow> subset dict) \<Rightarrow> 'a rtmp_message_scheme \<Rightarrow> v8" where
  "object_or_null ord m =
     (if commandObject m \<noteq> [] then serializeObject (ord (commandObject m)) else serializeNullObject)"

definition create_stream_serialize ::
  "(subset dict \<Rightarrow> subset dict) \<Rightarrow> rtmp_command_message \<Rightarrow> rtmp_command_message" where
  "create_stream_serialize ord m =
     finish_command
       ([chunkStreamID (chunkStreamType m) m] @ toBigEndian24 (timestamp m) @ [tag_type m])
       (serialize_name_and_id m @ object_or_null ord m) m"

definition close_stream_message :: rtmp_command_message where
  "close_stream_message = new_command_message\<lparr>tag_type := Msg_CommandMessage_AMF0, chunkStreamType := Type0,
     commandName := ''closeStream'', transactionID := 1, streamID := 0, timestamp := 0\<rparr>"

definition close_stream_serialize ::
  "(subset dict \<Rightarrow> subset dict) \<Rightarrow> rtmp_command_message \<Rightarrow> rtmp_command_message" where
  "close_stream_serialize ord m =
     finish_command
       ([chunkStreamID (chunkStreamType m) m] @ toBigEndian24 (timestamp m) @ [tag_type m]
        @ (if chunkStreamType m = Type0 then toLittleEndian32 (streamID m) else []))
       (serialize_name_and_id m @ object_or_null ord m) m"

subsection \<open>FCPublish, releaseStream, publish and play\<close>

record rtmp_publishing_message = rtmp_command_message +
  publishingName :: string

definition new_publishing_message :: "string \<Rightarrow> rtmp_publishing_message" where
  "new_publishing_message name = rtmp_command_message.extend new_command_message \<lparr> publishingName = name \<rparr>"

definition fcpublish_message :: "string \<Rightarrow> rtmp_publishing_message" where
  "fcpublish_message name = (new_publishing_message name)
     \<lparr>transactionID := 2, commandName := ''FCPublish'', tag_type := Msg_CommandMessage_AMF0\<rparr>"

definition fcpublish_serialize :: "rtmp_publishing_message \<Rightarrow> rtmp_publishing_message" where
  "fcpublish_serialize m =
     finish_command (header_no_size m)
       (serialize_name_and_id m @ serializeNullObject @ serializeString (publishingName m) True) m"

definition release_stream_message :: "string \<Rightarrow> rtmp_publishing_message" where
  "release_stream_message name = (new_publishing_message name)
     \<lparr>transactionID := 1, commandName := ''releaseStream'', tag_type := Msg_CommandMessage_AMF0\<rparr>"

definition release_stream_serialize :: "rtmp_publishing_message \<Rightarrow> rtmp_publishing_message" where
  "release_stream_serialize m =
     finish_command (header_no_size m)
       (serialize_name_and_id m @ serializeNullObject @ serializeString (publishingName m) True) m"

record rtmp_publish_message = rtmp_publishing_message +
  publishingType :: string

definition publish_message :: "string \<Rightarrow> rtmp_publish_message" where
  "publish_message name =
     (rtmp_publishing_message.extend (new_publishing_message name) \<lparr> publishingType = ''live'' \<rparr>)
     \<lparr>commandName := ''publish'', tag_type := Msg_CommandMessage_AMF0\<rparr>"

definition publish_serialize :: "rtmp_publish_message \<Rightarrow> rtmp_publish_message" where
  "publish_serialize m =
     finish_command (header_no_size m)
       (serialize_name_and_id m @ serializeNullObject @ serializeString (publishingName m) True
        @ serializeString (publishingType m) True) m"

record rtmp_play_message = rtmp_command_message +
  streamName :: string

definition play_message :: "string \<Rightarrow> rtmp_play_message" where
  "play_message name = (rtmp_command_message.extend new_command_message \<lparr> streamName = name \<rparr>)
     \<lparr>commandName := ''play'', tag_type := Msg_CommandMessage_AMF0\<rparr>"

definition play_serialize :: "rtmp_play_message \<Rightarrow> rtmp_play_message" where
  "play_serialize m =
     finish_command (header_no_size m)
       (serialize_name_and_id m @ serializeNullObject @ serializeString (streamName m) True
        @ serializeNumber (double_of_int (- 1000))) m"

section \<open>Responses\<close>

text \<open>A loop over the values of a response, whose step may be undefined.\<close>

fun for_each :: "('x \<Rightarrow> 's \<Rightarrow> 's option) \<Rightarrow> 'x list \<Rightarrow> 's \<Rightarrow> 's option" where
  "for_each f [] s = Some s"
| "for_each f (x # xs) s = Option.bind (f x s) (for_each f xs)"

lemma for_each_end [simp]: "Option.bind r (for_each f []) = r"
  by (cases r) simp_all

text \<open>\<open>static_cast<u8>\<close> of a number that does not fit is undefined.\<close>

definition setTransactionID :: "double \<Rightarrow> 'a rtmp_command_message_scheme \<Rightarrow> 'a rtmp_command_message_scheme option" where
  "setTransactionID d m = map_option (\<lambda>n. m\<lparr>transactionID := n\<rparr>) (double_to_word d)"

definition response_value ::
  "variant \<Rightarrow> 'a rtmp_command_message_scheme \<Rightarrow> 'a rtmp_command_message_scheme option" where
  "response_value item m =
     (case item of
        Subset (StringVariant s) \<Rightarrow> Some (m\<lparr>commandName := s\<rparr>)
      | Subset (NumberVariant d) \<Rightarrow> setTransactionID d m
      | ObjectVariant props \<Rightarrow> Some (if commandObject m = [] then m\<lparr>commandObject := props\<rparr> else m)
      | _ \<Rightarrow> Some m)"

definition connect_response_value :: "variant \<Rightarrow> rtmp_connect_message \<Rightarrow> rtmp_connect_message option" where
  "connect_response_value item m =
     (case item of
        Subset (StringVariant s) \<Rightarrow> Some (m\<lparr>commandName := s\<rparr>)
      | Subset (NumberVariant d) \<Rightarrow> setTransactionID d m
      | ObjectVariant props \<Rightarrow>
          Some (if commandObject m = [] then m\<lparr>commandObject := props\<rparr>
                else if optionalUserArguments m = [] then m\<lparr>optionalUserArguments := props\<rparr>
                else m)
      | _ \<Rightarrow> Some m)"

definition connect_response_deserialize_payload :: "rtmp_connect_message \<Rightarrow> rtmp_connect_message option" where
  "connect_response_deserialize_payload m =
     do { values \<leftarrow> deserialize (payload m); for_each connect_response_value values m }"

definition find_string :: "string \<Rightarrow> subset dict \<Rightarrow> string option" where
  "find_string key d = (case map_of d key of Some (StringVariant s) \<Rightarrow> Some s | _ \<Rightarrow> None)"

definition connect_response_isSuccessfull :: "rtmp_connect_message \<Rightarrow> bool" where
  "connect_response_isSuccessfull m =
     (if optionalUserArguments m = [] then False
      else (case map_of (optionalUserArguments m) ''code'' of
              Some v \<Rightarrow> (case v of StringVariant s \<Rightarrow> s \<noteq> ''error'' | _ \<Rightarrow> False)
            | None \<Rightarrow> False))"

definition connect_response_description :: "rtmp_connect_message \<Rightarrow> string" where
  "connect_response_description m =
     (if optionalUserArguments m = [] then []
      else case find_string ''description'' (optionalUserArguments m) of Some s \<Rightarrow> s | None \<Rightarrow> [])"

definition create_stream_response_deserialize_payload :: "rtmp_command_message \<Rightarrow> rtmp_command_message option" where
  "create_stream_response_deserialize_payload m =
     do { values \<leftarrow> deserialize (payload m); for_each response_value values m }"

definition create_stream_response_isSuccessfull :: "rtmp_command_message \<Rightarrow> bool" where
  "create_stream_response_isSuccessfull m = True"

definition onfcpublish_response_deserialize_payload :: "rtmp_publishing_message \<Rightarrow> rtmp_publishing_message option" where
  "onfcpublish_response_deserialize_payload m =
     do { values \<leftarrow> deserialize (payload m); for_each response_value values m }"

definition onfcpublish_response_isSuccessfull :: "rtmp_publishing_message \<Rightarrow> bool" where
  "onfcpublish_response_isSuccessfull m = True"

definition onstatus_response_deserialize_payload :: "rtmp_command_message \<Rightarrow> rtmp_command_message option" where
  "onstatus_response_deserialize_payload m =
     do { values \<leftarrow> deserialize (payload m); for_each response_value values m }"

definition onstatus_response_isSuccessfull :: "rtmp_command_message \<Rightarrow> bool" where
  "onstatus_response_isSuccessfull m =
     (if commandObject m = [] then False
      else (case map_of (commandObject m) ''level'' of
              Some v \<Rightarrow> (case v of StringVariant s \<Rightarrow> s \<noteq> ''error'' | _ \<Rightarrow> False)
            | None \<Rightarrow> False))"

definition onstatus_response_description :: "rtmp_command_message \<Rightarrow> string" where
  "onstatus_response_description m =
     (if commandObject m = [] then []
      else case find_string ''description'' (commandObject m) of Some s \<Rightarrow> s | None \<Rightarrow> [])"

text \<open>The header of each response, which they all read alike, and the size the socket then asks for.\<close>

definition response_deserialize :: "v8 \<Rightarrow> 'a rtmp_message_scheme \<Rightarrow> 'a rtmp_message_scheme option" where
  "response_deserialize it m = map_option fst (read_header12 it m)"

definition response_size :: "'a rtmp_message_scheme \<Rightarrow> nat" where
  "response_size m = unat (payloadSize m)"

definition response_headerSize :: nat where
  "response_headerSize = 12"

subsection \<open>Sample access\<close>

record rtmp_sample_access_message = rtmp_command_message +
  isAudioAllowed :: bool
  isAudioAllowedSet :: bool
  isVideoAllowed :: bool
  isVideoAllowedSet :: bool

definition new_sample_access_message :: rtmp_sample_access_message where
  "new_sample_access_message = rtmp_command_message.extend new_command_message
     \<lparr> isAudioAllowed = False, isAudioAllowedSet = False, isVideoAllowed = False, isVideoAllowedSet = False \<rparr>"

definition sample_access_value ::
  "variant \<Rightarrow> rtmp_sample_access_message \<Rightarrow> rtmp_sample_access_message option" where
  "sample_access_value item m =
     (case item of
        Subset (StringVariant s) \<Rightarrow> Some (m\<lparr>commandName := s\<rparr>)
      | Subset (NumberVariant d) \<Rightarrow> setTransactionID d m
      | Subset (BooleanVariant b) \<Rightarrow>
          Some (if \<not> isAudioAllowedSet m then m\<lparr>isAudioAllowedSet := True, isAudioAllowed := b\<rparr>
                else if \<not> isVideoAllowedSet m then m\<lparr>isVideoAllowedSet := True, isAudioAllowed := b\<rparr>
                else m)
      | _ \<Rightarrow> Some m)"

definition sample_access_deserialize_payload :: "rtmp_sample_access_message \<Rightarrow> rtmp_sample_access_message option" where
  "sample_access_deserialize_payload m =
     do { values \<leftarrow> deserialize (payload m); for_each sample_access_value values m }"

definition sample_access_isSuccessfull :: "rtmp_sample_access_message \<Rightarrow> bool" where
  "sample_access_isSuccessfull m = (isVideoAllowed m \<or> isAudioAllowed m)"

subsection \<open>Stream begin\<close>

text \<open>The user control message that announces a stream; its payload is not parsed.\<close>

definition new_stream_begin_message :: rtmp_command_message where
  "new_stream_begin_message = new_command_message\<lparr>chunkStreamId := Fmt_ControlMessage\<rparr>"

definition stream_begin_deserialize :: "v8 \<Rightarrow> rtmp_command_message \<Rightarrow> rtmp_command_message option" where
  "stream_begin_deserialize it m = map_option fst (read_header12 it m)"

definition stream_begin_deserialize_payload :: "rtmp_command_message \<Rightarrow> rtmp_command_message option" where
  "stream_begin_deserialize_payload m = Some m"

section \<open>What a peer reads from a command\<close>

lemma finish_command_full:
  "payload (finish_command (header_no_size m) body m) = write_header12 m (word_of_nat (length body)) @ body"
  unfolding finish_command_def by (rule insert_payloadSize_header) simp

lemma payloadSize_finish_command [simp]: "payloadSize (finish_command h body m) = word_of_nat (length body)"
  by (simp add: finish_command_def insert_payloadSize_def)

lemma finish_command_type1:
  "payload (finish_command ([b] @ toBigEndian24 ts @ [ty] @ r) body m)
     = [b] @ toBigEndian24 ts @ toBigEndian24 (word_of_nat (length body)) @ [ty] @ r @ body"
  by (simp add: finish_command_def insert_payloadSize_def)

abbreviation val_string :: "string \<Rightarrow> variant" where "val_string s \<equiv> Subset (StringVariant s)"
abbreviation val_number :: "double \<Rightarrow> variant" where "val_number d \<equiv> Subset (NumberVariant d)"
abbreviation val_null :: variant where "val_null \<equiv> Subset NullObjectVariant"

definition name_and_id_values :: "'a rtmp_command_message_scheme \<Rightarrow> variant list" where
  "name_and_id_values m = [val_string (commandName m), val_number (double_of_nat (unat (transactionID m)))]"

lemma deserialize_body:
  assumes "string_ok (commandName m)" and "\<forall>v \<in> set vs. variant_ok v"
    and "body = serialize_name_and_id m @ concat (map serializeVariant vs)"
  shows "deserialize body = Some (name_and_id_values m @ vs)"
proof -
  have "\<forall>v \<in> set (name_and_id_values m @ vs). variant_ok v"
    using assms(1,2) by (auto simp: name_and_id_values_def)
  moreover have "body = concat (map serializeVariant (name_and_id_values m @ vs))"
    by (simp add: assms(3) name_and_id_values_def serialize_name_and_id_def)
  ultimately show ?thesis
    using amf0.decs_encs by metis
qed

lemma read_message_header:
  assumes "unat (timestamp m) < 2 ^ 24" and "length body < 2 ^ 24"
  shows "map_option (\<lambda>(m', it). (unat (payloadSize m'), tag_type m', streamID m', it))
     (read_header12 (write_header12 m (word_of_nat (length body)) @ body) m0)
   = Some (length body, tag_type m, streamID m, body)"
proof -
  have "unat (word_of_nat (length body) :: u32) = length body"
    using assms(2) by (simp add: unsigned_of_nat take_bit_nat_eq_self)
  then show ?thesis
    using assms by (simp add: read_header12_write)
qed

text \<open>A well-formed command on the wire: the header announces the body and the body holds the values.\<close>

definition wire_command :: "'a rtmp_command_message_scheme \<Rightarrow> v8 \<Rightarrow> variant list \<Rightarrow> bool" where
  "wire_command m bytes vs \<longleftrightarrow>
     (\<exists>body. bytes = write_header12 m (word_of_nat (length body)) @ body \<and>
        deserialize body = Some (name_and_id_values m @ vs))"

lemma wire_commandI:
  assumes "body = serialize_name_and_id m @ concat (map serializeVariant vs)"
    and "string_ok (commandName m)" and "\<forall>v \<in> set vs. variant_ok v"
  shows "wire_command m (payload (finish_command (header_no_size m) body m)) vs"
  using deserialize_body [OF assms(2,3,1)] by (auto simp: wire_command_def finish_command_full)

lemmas command_defs = new_command_message_def new_publishing_message_def new_connect_message_def
  control_defs rtmp_command_message.extend_def rtmp_publishing_message.extend_def

section \<open>Properties\<close>

text \<open>The publish command is a full header that announces its body, followed by the AMF0 values
  publish, transaction, null, stream name, publishing type: a peer reads exactly those.\<close>

theorem publish_wire:
  assumes "string_ok (commandName m)" and "string_ok (publishingName m)" and "string_ok (publishingType m)"
  shows "wire_command m (payload (publish_serialize m))
    [val_null, val_string (publishingName m), val_string (publishingType m)]"
  unfolding publish_serialize_def by (rule wire_commandI) (use assms in simp_all)

theorem publish_wire_witness:
  "wire_command (publish_message ''cam'') (payload (publish_serialize (publish_message ''cam'')))
    [val_null, val_string ''cam'', val_string ''live'']"
  using publish_wire [of "publish_message ''cam''"]
  by (simp add: publish_message_def string_ok_def command_defs)

text \<open>The play command carries the stream name and the starting point -1000, which makes the server
  play the live stream or else the recorded one.\<close>

theorem play_wire:
  assumes "string_ok (commandName m)" and "string_ok (streamName m)"
  shows "wire_command m (payload (play_serialize m))
    [val_null, val_string (streamName m), val_number (double_of_int (- 1000))]"
  unfolding play_serialize_def by (rule wire_commandI) (use assms in simp_all)

theorem play_wire_witness:
  "wire_command (play_message ''cam'') (payload (play_serialize (play_message ''cam'')))
    [val_null, val_string ''cam'', val_number (double_of_int (- 1000))]"
  using play_wire [of "play_message ''cam''"]
  by (simp add: play_message_def string_ok_def command_defs)

text \<open>The connect command a session sends carries one command object with the application name and
  the connection URL, in whatever order the map iterates, and no second object.\<close>

theorem connect_wire:
  assumes "order_ok ord" and "string_ok appName" and "string_ok (tcUrl address port appName)"
  shows "\<exists>d. wire_command (connect_message address port appName)
      (payload (connect_serialize ord (connect_message address port appName))) [ObjectVariant d] \<and>
    map_of d ''app'' = Some (StringVariant appName) \<and>
    map_of d ''tcUrl'' = Some (StringVariant (tcUrl address port appName)) \<and> length d = 4"
proof -
  let ?m = "connect_message address port appName"
  have co: "commandObject ?m = [(''fpad'', BooleanVariant False), (''objectEncoding'', NumberVariant (double_of_nat 0)),
      (''app'', StringVariant appName), (''tcUrl'', StringVariant (tcUrl address port appName))]"
    by (simp add: connect_message_def addCommandObjectProperty_def dict_insert_def command_defs Let_def)
  have name: "commandName ?m = ''connect''" "optionalUserArguments ?m = []"
    by (simp_all add: connect_message_def addCommandObjectProperty_def command_defs Let_def)
  have ok: "object_ok (commandObject ?m)"
    using assms(2,3) by (simp add: co object_ok_def dict_ok_def key_ok_def string_ok_def)
  have "wire_command ?m (payload (connect_serialize ord ?m)) [ObjectVariant (ord (commandObject ?m))]"
    unfolding connect_serialize_def
    by (rule wire_commandI) (simp_all add: co name string_ok_def object_ok_ord [OF assms(1) ok, unfolded co])
  moreover have "map_of (ord (commandObject ?m)) = map_of (commandObject ?m)"
    using ok by (intro map_of_ord [OF assms(1)]) (simp add: object_ok_def)
  moreover have "length (ord (commandObject ?m)) = length (commandObject ?m)"
    using assms(1) unfolding order_ok_def by (metis size_mset)
  ultimately show ?thesis
    by (intro exI [of _ "ord (commandObject ?m)"]) (simp add: co)
qed

theorem connect_wire_witness:
  "\<exists>d. wire_command (connect_message ''host'' ''1935'' ''live'')
      (payload (connect_serialize rev (connect_message ''host'' ''1935'' ''live''))) [ObjectVariant d] \<and>
    map_of d ''app'' = Some (StringVariant ''live'') \<and>
    map_of d ''tcUrl'' = Some (StringVariant ''rtmp://host:1935/live'') \<and> length d = 4"
  using connect_wire [OF order_ok_rev, of "''live''" "''host''" "''1935''"]
  by (simp add: string_ok_def tcUrl_def)

text \<open>A response to connect is taken for a success whenever its information object has a \<open>code\<close>
  string other than ``error'': the command name (\<open>_result\<close> or \<open>_error\<close>) and the \<open>level\<close> property,
  which say whether the server accepted the connection, are not looked at.\<close>

theorem connect_response_success:
  assumes "string_ok name" and "tx < 256" and "object_ok props" and "props \<noteq> []" and "object_ok info" and "info \<noteq> []"
    and "payload m = concat (map serializeVariant
      [val_string name, val_number (double_of_nat tx), ObjectVariant props, ObjectVariant info])"
    and "commandObject m = []" and "optionalUserArguments m = []"
  shows "\<exists>r. connect_response_deserialize_payload m = Some r \<and> commandName r = name \<and>
    transactionID r = word_of_nat tx \<and> commandObject r = props \<and> optionalUserArguments r = info \<and>
    (connect_response_isSuccessfull r \<longleftrightarrow> (\<exists>c. map_of info ''code'' = Some (StringVariant c) \<and> c \<noteq> ''error''))"
proof -
  let ?vs = "[val_string name, val_number (double_of_nat tx), ObjectVariant props, ObjectVariant info]"
  have d: "deserialize (payload m) = Some ?vs"
    unfolding assms(7) using assms by (intro amf0.decs_encs) simp
  have tx: "(double_to_word (double_of_nat tx) :: u8 option) = Some (word_of_nat tx)"
    using assms(2) by (intro double_to_word_of_nat) simp_all
  let ?r = "m\<lparr>commandName := name, transactionID := word_of_nat tx, commandObject := props, optionalUserArguments := info\<rparr>"
  have "connect_response_deserialize_payload m = Some ?r"
    using d assms(4,8,9)
    by (cases m) (simp add: connect_response_deserialize_payload_def connect_response_value_def setTransactionID_def tx)
  moreover have "optionalUserArguments ?r = info" "commandName ?r = name" "transactionID ?r = word_of_nat tx"
    "commandObject ?r = props" by (cases m, simp)+
  ultimately show ?thesis
    using assms(6) by (intro exI [of _ ?r]) (auto simp: connect_response_isSuccessfull_def split: option.splits subset.splits)
qed

theorem connect_response_success_witness:
  "\<exists>r. connect_response_deserialize_payload (new_connect_message\<lparr>payload := concat (map serializeVariant
      [val_string ''_error'', val_number (double_of_nat 1), ObjectVariant [(''fmsVer'', StringVariant ''FMS'')],
       ObjectVariant [(''level'', StringVariant ''error''),
         (''code'', StringVariant ''NetConnection.Connect.Rejected'')]])\<rparr>) = Some r \<and>
    commandName r = ''_error'' \<and> connect_response_isSuccessfull r"
  using connect_response_success [of "''_error''" 1 "[(''fmsVer'', StringVariant ''FMS'')]"
      "[(''level'', StringVariant ''error''), (''code'', StringVariant ''NetConnection.Connect.Rejected'')]"
      "new_connect_message\<lparr>payload := concat (map serializeVariant
      [val_string ''_error'', val_number (double_of_nat 1), ObjectVariant [(''fmsVer'', StringVariant ''FMS'')],
       ObjectVariant [(''level'', StringVariant ''error''),
         (''code'', StringVariant ''NetConnection.Connect.Rejected'')]])\<rparr>"]
  by (auto simp: string_ok_def object_ok_def dict_ok_def key_ok_def command_defs simp del: serializeVariant.simps)

text \<open>An \<open>onStatus\<close> response is a success exactly when its object has a \<open>level\<close> string other than
  ``error''.\<close>

theorem onstatus_response_success:
  assumes "string_ok name" and "tx < 256" and "object_ok info" and "info \<noteq> []"
    and "payload m = concat (map serializeVariant
      [val_string name, val_number (double_of_nat tx), val_null, ObjectVariant info])"
    and "commandObject m = []"
  shows "\<exists>r. onstatus_response_deserialize_payload m = Some r \<and> commandName r = name \<and>
    (onstatus_response_isSuccessfull r \<longleftrightarrow> (\<exists>l. map_of info ''level'' = Some (StringVariant l) \<and> l \<noteq> ''error''))"
proof -
  let ?vs = "[val_string name, val_number (double_of_nat tx), val_null, ObjectVariant info]"
  have d: "deserialize (payload m) = Some ?vs"
    unfolding assms(5) using assms by (intro amf0.decs_encs) simp
  have tx: "(double_to_word (double_of_nat tx) :: u8 option) = Some (word_of_nat tx)"
    using assms(2) by (intro double_to_word_of_nat) simp_all
  let ?r = "m\<lparr>commandName := name, transactionID := word_of_nat tx, commandObject := info\<rparr>"
  have "onstatus_response_deserialize_payload m = Some ?r"
    using d assms(6)
    by (cases m) (simp add: onstatus_response_deserialize_payload_def response_value_def setTransactionID_def tx)
  moreover have "commandObject ?r = info" "commandName ?r = name"
    by (cases m, simp)+
  ultimately show ?thesis
    using assms(4) by (intro exI [of _ ?r]) (auto simp: onstatus_response_isSuccessfull_def split: option.splits subset.splits)
qed

theorem onstatus_response_success_witness:
  "\<exists>r. onstatus_response_deserialize_payload (new_command_message\<lparr>payload := concat (map serializeVariant
      [val_string ''onStatus'', val_number (double_of_nat 0), val_null,
       ObjectVariant [(''level'', StringVariant ''status'')]])\<rparr>) = Some r \<and> onstatus_response_isSuccessfull r"
  using onstatus_response_success [of "''onStatus''" 0 "[(''level'', StringVariant ''status'')]"
      "new_command_message\<lparr>payload := concat (map serializeVariant
      [val_string ''onStatus'', val_number (double_of_nat 0), val_null,
       ObjectVariant [(''level'', StringVariant ''status'')]])\<rparr>"]
  by (auto simp: string_ok_def object_ok_def dict_ok_def key_ok_def command_defs simp del: serializeVariant.simps)

text \<open>The stream identifier in a createStream response ends up in the transaction identifier, and an
  identifier above 255 makes the conversion undefined.\<close>

theorem create_stream_response_id:
  assumes "string_ok name" and "tx < 256" and "sid < 2 ^ 32"
    and "payload m = concat (map serializeVariant
      [val_string name, val_number (double_of_nat tx), val_null, val_number (double_of_nat sid)])"
  shows "create_stream_response_deserialize_payload m
    = (if sid < 256 then Some (m\<lparr>commandName := name, transactionID := word_of_nat sid\<rparr>) else None)"
proof -
  let ?vs = "[val_string name, val_number (double_of_nat tx), val_null, val_number (double_of_nat sid)]"
  have d: "deserialize (payload m) = Some ?vs"
    unfolding assms(4) using assms by (intro amf0.decs_encs) simp
  have tx: "(double_to_word (double_of_nat tx) :: u8 option) = Some (word_of_nat tx)"
    using assms(2) by (intro double_to_word_of_nat) simp_all
  have sid: "(double_to_word (double_of_nat sid) :: u8 option) = (if sid < 256 then Some (word_of_nat sid) else None)"
    using assms(3) by (simp add: double_to_word_def double_trunc_of_nat)
  show ?thesis
    using d by (cases m) (simp add: create_stream_response_deserialize_payload_def response_value_def setTransactionID_def tx sid)
qed

theorem create_stream_response_id_witness:
  "create_stream_response_deserialize_payload (create_stream_message\<lparr>payload := concat (map serializeVariant
      [val_string ''_result'', val_number (double_of_nat 2), val_null, val_number (double_of_nat 300)])\<rparr>) = None"
  using create_stream_response_id [of "''_result''" 2 300 "create_stream_message\<lparr>payload := concat (map serializeVariant
      [val_string ''_result'', val_number (double_of_nat 2), val_null, val_number (double_of_nat 300)])\<rparr>"]
  by (simp add: string_ok_def create_stream_message_def command_defs)

text \<open>Of the two flags of a sample-access message the second, the permission for video, overwrites the
  first, and the video flag is never set.\<close>

theorem sample_access_flags:
  assumes "string_ok name"
    and "payload m = concat (map serializeVariant
      [val_string name, Subset (BooleanVariant audio), Subset (BooleanVariant video)])"
    and "\<not> isAudioAllowedSet m" and "\<not> isVideoAllowedSet m" and "\<not> isVideoAllowed m"
  shows "\<exists>r. sample_access_deserialize_payload m = Some r \<and> isAudioAllowed r = video \<and> \<not> isVideoAllowed r \<and>
    sample_access_isSuccessfull r = video"
proof -
  let ?vs = "[val_string name, Subset (BooleanVariant audio), Subset (BooleanVariant video)]"
  have d: "deserialize (payload m) = Some ?vs"
    unfolding assms(2) using assms by (intro amf0.decs_encs) simp
  show ?thesis
    using d assms(3-5)
    by (cases m) (simp add: sample_access_deserialize_payload_def sample_access_value_def sample_access_isSuccessfull_def)
qed

theorem sample_access_flags_witness:
  "\<exists>r. sample_access_deserialize_payload (new_sample_access_message\<lparr>payload := concat (map serializeVariant
      [val_string ''|RtmpSampleAccess'', Subset (BooleanVariant True), Subset (BooleanVariant False)])\<rparr>) = Some r \<and>
    \<not> isAudioAllowed r \<and> \<not> sample_access_isSuccessfull r"
  using sample_access_flags [of "''|RtmpSampleAccess''" "new_sample_access_message\<lparr>payload := concat (map serializeVariant
      [val_string ''|RtmpSampleAccess'', Subset (BooleanVariant True), Subset (BooleanVariant False)])\<rparr>" True False]
  by (auto simp: string_ok_def new_sample_access_message_def command_defs simp del: serializeVariant.simps)

end
