(* ===== verification/Socket.thy ===== *)
theory Socket
imports Delegates NetMetrics CommandMessages
begin

text \<open>
  \<open>BaseSocket\<close>. Boost.Asio is the parameter \<open>tr\<close>: what a resolve, a connect, a write and a read with the
  five-second timer return, and the state \<open>'w\<close> of the network behind them. The loops around \<open>run_one\<close> in
  \<open>readWithTimeout\<close> and \<open>writeWithTimeout\<close> only wait for that result. The operations call back exactly
  once, as their last action: they return what the callback is given. A delegate is notified through
  the handler \<open>h\<close>, which dispatches like the virtual table; the thread of \<open>connect\<close> runs to its end.
\<close>

section \<open>The network\<close>

text \<open>The error codes the code distinguishes; every other code is \<open>OtherError\<close>.\<close>

datatype error_code =
    NoError
  | ConnectionAborted
  | ConnectionReset
  | ConnectionRefused
  | OperationAborted
  | OperationNotSupported
  | TimedOut
  | EndOfFile
  | BrokenPipe
  | InvalidArgument
  | OtherError nat

record 'w transport =
  tr_now :: "'w \<Rightarrow> clock"
  tr_message :: "error_code \<Rightarrow> string"
  tr_resolve :: "string \<Rightarrow> string \<Rightarrow> 'w \<Rightarrow> error_code \<times> 'w"
  tr_connect :: "'w \<Rightarrow> error_code \<times> bool \<times> 'w"
  tr_write :: "v8 \<Rightarrow> 'w \<Rightarrow> error_code \<times> nat \<times> 'w"
  tr_read :: "nat \<Rightarrow> 'w \<Rightarrow> error_code \<times> v8 \<times> 'w"
  tr_close :: "'w \<Rightarrow> 'w"

section \<open>State and notifications\<close>

datatype delegate = SessionDelegate | UserDelegate nat

datatype socket_event =
    WillConnect
  | DidConnect
  | WillClose
  | DidClose
  | FailedToConnect string
  | ReconnectionRequired

record 'w socket =
  sock_world :: 'w
  sock_open :: bool
  sock_address :: string
  sock_port :: string
  npmD :: metrics
  npmU :: metrics
  sock_delegates :: "delegate list"

definition new_socket :: "'w transport \<Rightarrow> 'w \<Rightarrow> 'w socket" where
  "new_socket tr w = \<lparr> sock_world = w, sock_open = False, sock_address = [], sock_port = [],
     npmD = new_metrics (tr_now tr w) 57600, npmU = new_metrics (tr_now tr w) 57600, sock_delegates = [] \<rparr>"

type_synonym ('w, 'a) handler = "delegate \<Rightarrow> socket_event \<Rightarrow> ('w, 'a) socket_scheme \<Rightarrow> ('w, 'a) socket_scheme"

text \<open>A registered delegate is kept alive by its owner.\<close>

definition notify :: "('w, 'a) handler \<Rightarrow> socket_event \<Rightarrow> ('w, 'a) socket_scheme \<Rightarrow> ('w, 'a) socket_scheme" where
  "notify h e s = fold (\<lambda>d. h d e) (invoke_targets (\<lambda>_. True) (sock_delegates s)) s"

definition socket_addDelegate :: "delegate \<Rightarrow> ('w, 'a) socket_scheme \<Rightarrow> ('w, 'a) socket_scheme" where
  "socket_addDelegate d s = s\<lparr>sock_delegates := addDelegate d (sock_delegates s)\<rparr>"

definition socket_removeDelegate :: "delegate \<Rightarrow> ('w, 'a) socket_scheme \<Rightarrow> ('w, 'a) socket_scheme" where
  "socket_removeDelegate d s = s\<lparr>sock_delegates := removeDelegate (\<lambda>_. True) d (sock_delegates s)\<rparr>"

section \<open>Closing and errors\<close>

definition socket_close :: "('w, 'a) handler \<Rightarrow> 'w transport \<Rightarrow> ('w, 'a) socket_scheme \<Rightarrow> ('w, 'a) socket_scheme" where
  "socket_close h tr s =
     (if sock_open s then
        let s = notify h WillClose s;
            s = s\<lparr>sock_open := False, sock_world := tr_close tr (sock_world s)\<rparr>;
            s = notify h DidClose s
        in s\<lparr>npmD := metrics_stop (npmD s), npmU := metrics_stop (npmU s)\<rparr>
      else s)"

definition shouldCloseTheSocket :: "error_code \<Rightarrow> bool" where
  "shouldCloseTheSocket ec \<longleftrightarrow> ec = ConnectionAborted \<or> ec = ConnectionReset \<or> ec = ConnectionRefused \<or>
     ec = OperationAborted \<or> ec = OperationNotSupported \<or> ec = TimedOut \<or> ec = EndOfFile \<or> ec = BrokenPipe"

definition asksReconnection :: "error_code \<Rightarrow> bool" where
  "asksReconnection ec \<longleftrightarrow> ec = ConnectionReset \<or> ec = OperationAborted \<or> ec = TimedOut \<or>
     ec = EndOfFile \<or> ec = BrokenPipe"

definition checkError ::
  "('w, 'a) handler \<Rightarrow> 'w transport \<Rightarrow> error_code \<Rightarrow> ('w, 'a) socket_scheme \<Rightarrow> bool \<times> ('w, 'a) socket_scheme" where
  "checkError h tr ec s =
     (let s = (if asksReconnection ec then notify h ReconnectionRequired s else s);
          s = (if shouldCloseTheSocket ec then socket_close h tr s else s)
      in (shouldCloseTheSocket ec, s))"

section \<open>Connecting\<close>

definition resolve_failed :: "'w transport \<Rightarrow> error_code \<Rightarrow> ('w, 'a) socket_scheme \<Rightarrow> string" where
  "resolve_failed tr ec s = ''Failed to resolve '' @ sock_address s @ '':'' @ sock_port s
     @ '', error code: '' @ tr_message tr ec"

definition connect_failed :: "'w transport \<Rightarrow> error_code \<Rightarrow> ('w, 'a) socket_scheme \<Rightarrow> string" where
  "connect_failed tr ec s = ''Failed to connect to '' @ sock_address s @ '':'' @ sock_port s
     @ '', error code: '' @ tr_message tr ec"

text \<open>The three calls on every delegate when the connection fails.\<close>

definition notify_failure :: "('w, 'a) handler \<Rightarrow> string \<Rightarrow> ('w, 'a) socket_scheme \<Rightarrow> ('w, 'a) socket_scheme" where
  "notify_failure h msg s =
     fold (\<lambda>d s. h d DidClose (h d ReconnectionRequired (h d (FailedToConnect msg) s)))
       (invoke_targets (\<lambda>_. True) (sock_delegates s)) s"

text \<open>\<open>did\<close> is what a delegate does when the socket is connected: the session starts its handshake there.\<close>

definition connectImpl ::
  "('w, 'a) handler \<Rightarrow> 'w transport \<Rightarrow> (delegate \<Rightarrow> ('w, 'a) socket_scheme \<Rightarrow> ('w, 'a) socket_scheme option)
    \<Rightarrow> ('w, 'a) socket_scheme \<Rightarrow> ('w, 'a) socket_scheme option" where
  "connectImpl h tr did s =
     (case tr_connect tr (sock_world s) of
        (ec, is_open, w) \<Rightarrow>
          let s = s\<lparr>sock_world := w, sock_open := is_open\<rparr> in
          if ec = NoError \<and> sock_open s
          then for_each did (invoke_targets (\<lambda>_. True) (sock_delegates s)) s
          else Some (notify_failure h (connect_failed tr ec s) s))"

definition resolve ::
  "('w, 'a) handler \<Rightarrow> 'w transport \<Rightarrow> (delegate \<Rightarrow> ('w, 'a) socket_scheme \<Rightarrow> ('w, 'a) socket_scheme option)
    \<Rightarrow> ('w, 'a) socket_scheme \<Rightarrow> ('w, 'a) socket_scheme option" where
  "resolve h tr did s =
     (let s = notify h WillConnect s in
      case tr_resolve tr (sock_address s) (sock_port s) (sock_world s) of
        (ec, w) \<Rightarrow>
          let s = s\<lparr>sock_world := w\<rparr> in
          if ec = NoError then connectImpl h tr did s
          else Some (notify_failure h (resolve_failed tr ec s) s))"

definition socket_connect ::
  "('w, 'a) handler \<Rightarrow> 'w transport \<Rightarrow> (delegate \<Rightarrow> ('w, 'a) socket_scheme \<Rightarrow> ('w, 'a) socket_scheme option)
    \<Rightarrow> string \<Rightarrow> string \<Rightarrow> ('w, 'a) socket_scheme \<Rightarrow> ('w, 'a) socket_scheme option" where
  "socket_connect h tr did address port s =
     (if address = [] \<or> port = [] then Some s
      else let s = socket_close h tr s;
               s = s\<lparr>sock_address := address, sock_port := port\<rparr>
           in resolve h tr did s)"

section \<open>Data\<close>

definition sendDataImpl ::
  "('w, 'a) handler \<Rightarrow> 'w transport \<Rightarrow> v8 \<Rightarrow> ('w, 'a) socket_scheme \<Rightarrow> error_code \<times> nat \<times> ('w, 'a) socket_scheme" where
  "sendDataImpl h tr rawData s =
     (case tr_write tr rawData (sock_world s) of
        (ec, bytes_transferred, w) \<Rightarrow>
          let s = s\<lparr>sock_world := w, npmU := updateData (tr_now tr w) (word_of_nat bytes_transferred) (npmU s)\<rparr>;
              s = snd (checkError h tr ec s)
          in (ec, bytes_transferred, s))"

definition sendData_byte ::
  "('w, 'a) handler \<Rightarrow> 'w transport \<Rightarrow> u8 \<Rightarrow> ('w, 'a) socket_scheme \<Rightarrow> error_code \<times> nat \<times> ('w, 'a) socket_scheme" where
  "sendData_byte h tr b s = sendDataImpl h tr [b] s"

definition sendData ::
  "('w, 'a) handler \<Rightarrow> 'w transport \<Rightarrow> v8 \<Rightarrow> ('w, 'a) socket_scheme \<Rightarrow> error_code \<times> nat \<times> ('w, 'a) socket_scheme" where
  "sendData h tr value s = sendDataImpl h tr value s"

text \<open>The buffer has the size that was asked for, whatever arrived: the rest of it is zero.\<close>

definition receiveData ::
  "('w, 'a) handler \<Rightarrow> 'w transport \<Rightarrow> nat \<Rightarrow> ('w, 'a) socket_scheme
    \<Rightarrow> error_code \<times> nat \<times> v8 \<times> ('w, 'a) socket_scheme" where
  "receiveData h tr n s =
     (case tr_read tr n (sock_world s) of
        (ec, got, w) \<Rightarrow>
          let rawData = take n (got @ replicate n 0);
              s = s\<lparr>sock_world := w, npmD := updateData (tr_now tr w) (word_of_nat (length got)) (npmD s)\<rparr>;
              s = snd (checkError h tr ec s)
          in (ec, length got, rawData, s))"

section \<open>What the code relies on\<close>

text \<open>
  \<open>delivers tr pending\<close>: the network delivers the bytes \<open>pending\<close> that are under way, in order, to reads
  that ask for no more than there is, as \<open>async_read\<close> with \<open>transfer_exactly\<close> documents.
\<close>

definition delivers :: "'w transport \<Rightarrow> ('w \<Rightarrow> v8) \<Rightarrow> bool" where
  "delivers tr pending \<longleftrightarrow>
     (\<forall>w n. n \<le> length (pending w) \<longrightarrow>
        (\<exists>w'. tr_read tr n w = (NoError, take n (pending w), w') \<and> pending w' = drop n (pending w)))"

text \<open>\<open>dead tr gone\<close>: in a state of the set \<open>gone\<close> every read of at least a byte fails, and the network
  stays there.\<close>

definition dead :: "'w transport \<Rightarrow> ('w \<Rightarrow> bool) \<Rightarrow> bool" where
  "dead tr gone \<longleftrightarrow>
     (\<forall>w n. gone w \<and> 0 < n \<longrightarrow> gone (tr_close tr w) \<and>
        (\<exists>ec got w'. tr_read tr n w = (ec, got, w') \<and> ec \<noteq> NoError \<and> gone w'))"

text \<open>
  \<open>logs tr writes\<close>: \<open>writes\<close> is the sequence of the buffers the network was asked to write; \<open>reliable\<close>
  adds that every write succeeds and disturbs neither what is under way nor the connection.
\<close>

definition logs :: "'w transport \<Rightarrow> ('w \<Rightarrow> v8 list) \<Rightarrow> bool" where
  "logs tr writes \<longleftrightarrow>
     (\<forall>w n data. writes (snd (snd (tr_write tr data w))) = writes w @ [data] \<and>
        writes (snd (snd (tr_read tr n w))) = writes w \<and> writes (tr_close tr w) = writes w)"

definition reliable :: "'w transport \<Rightarrow> ('w \<Rightarrow> v8) \<Rightarrow> ('w \<Rightarrow> v8 list) \<Rightarrow> bool" where
  "reliable tr pending writes \<longleftrightarrow> delivers tr pending \<and> logs tr writes \<and>
     (\<forall>w data. fst (tr_write tr data w) = NoError \<and> pending (snd (snd (tr_write tr data w))) = pending w)"

text \<open>A handler that only records what it is told leaves the connection alone.\<close>

definition inert :: "('w, 'a) handler \<Rightarrow> bool" where
  "inert h \<longleftrightarrow> (\<forall>d e s. sock_world (h d e s) = sock_world s \<and> sock_open (h d e s) = sock_open s)"

section \<open>Facts\<close>

lemma checkError_NoError [simp]: "checkError h tr NoError s = (False, s)"
  by (simp add: checkError_def asksReconnection_def shouldCloseTheSocket_def)

lemma notify_inert:
  assumes "inert h"
  shows "sock_world (notify h e s) = sock_world s \<and> sock_open (notify h e s) = sock_open s"
proof -
  have "sock_world (fold (\<lambda>d. h d e) q s) = sock_world s \<and> sock_open (fold (\<lambda>d. h d e) q s) = sock_open s" for q
    using assms by (induction q arbitrary: s) (simp_all add: inert_def)
  then show ?thesis by (simp add: notify_def)
qed

lemma socket_close_inert:
  "inert h \<Longrightarrow> sock_world (socket_close h tr s) = (if sock_open s then tr_close tr (sock_world s) else sock_world s)"
  by (simp add: socket_close_def Let_def notify_inert)

lemma socket_close_closed [simp]: "inert h \<Longrightarrow> \<not> sock_open (socket_close h tr s)"
  by (simp add: socket_close_def Let_def notify_inert)

lemma checkError_world:
  assumes "inert h"
  shows "sock_world (snd (checkError h tr ec s)) = sock_world s \<or>
    sock_world (snd (checkError h tr ec s)) = tr_close tr (sock_world s)"
  using assms by (simp add: checkError_def Let_def socket_close_inert notify_inert)

lemma checkError_open:
  assumes "inert h"
  shows "sock_open (snd (checkError h tr ec s)) = (sock_open s \<and> \<not> shouldCloseTheSocket ec)"
  using assms by (auto simp: checkError_def Let_def socket_close_inert notify_inert)

text \<open>What an operation that meets no error leaves alone.\<close>

definition frame :: "('w, 'a) socket_scheme \<Rightarrow> ('w, 'a) socket_scheme \<Rightarrow> bool" where
  "frame s s' \<longleftrightarrow> sock_open s' = sock_open s \<and> sock_address s' = sock_address s \<and> sock_port s' = sock_port s \<and>
     sock_delegates s' = sock_delegates s \<and> socket.more s' = socket.more s"

lemma frame_refl [simp]: "frame s s"
  by (simp add: frame_def)

lemma frame_trans: "frame s s1 \<Longrightarrow> frame s1 s2 \<Longrightarrow> frame s s2"
  by (simp add: frame_def)

text \<open>A read that the network can serve.\<close>

lemma receiveData_delivered:
  assumes "delivers tr pending" and "n \<le> length (pending (sock_world s))"
  shows "\<exists>s'. receiveData h tr n s = (NoError, n, take n (pending (sock_world s)), s') \<and>
    pending (sock_world s') = drop n (pending (sock_world s)) \<and> frame s s'"
proof -
  from assms obtain w' where r: "tr_read tr n (sock_world s) = (NoError, take n (pending (sock_world s)), w')"
    and w': "pending w' = drop n (pending (sock_world s))"
    by (auto simp: delivers_def)
  show ?thesis
    using assms(2) r w' by (simp add: receiveData_def Let_def frame_def)
qed

lemma receiveData_dead:
  assumes "dead tr gone" and "inert h" and "gone (sock_world s)" and "0 < n"
  shows "\<exists>ec k data s'. receiveData h tr n s = (ec, k, data, s') \<and> ec \<noteq> NoError \<and> gone (sock_world s')"
proof -
  from assms(1,3,4) obtain ec got w' where r: "tr_read tr n (sock_world s) = (ec, got, w')"
    and ec: "ec \<noteq> NoError" and w': "gone w'"
    by (auto simp: dead_def) metis
  let ?s = "s\<lparr>sock_world := w', npmD := updateData (tr_now tr w') (word_of_nat (length got)) (npmD s)\<rparr>"
  have "sock_world (snd (checkError h tr ec ?s)) = w' \<or> sock_world (snd (checkError h tr ec ?s)) = tr_close tr w'"
    using checkError_world [OF assms(2), of tr ec ?s] by simp
  then have "gone (sock_world (snd (checkError h tr ec ?s)))"
    using assms(1,4) w' by (auto simp: dead_def)
  with r ec show ?thesis
    by (simp add: receiveData_def Let_def)
qed

text \<open>Writing, and what is logged.\<close>

lemma writes_checkError:
  assumes "logs tr writes" and "inert h"
  shows "writes (sock_world (snd (checkError h tr ec s))) = writes (sock_world s)"
  using assms checkError_world [OF assms(2), of tr ec s] by (auto simp: logs_def)

lemma writes_receiveData:
  assumes "logs tr writes" and "inert h" and "receiveData h tr n s = (ec, k, data, s')"
  shows "writes (sock_world s') = writes (sock_world s)"
proof -
  obtain e got w where r: "tr_read tr n (sock_world s) = (e, got, w)"
    by (metis prod_cases3)
  have "writes w = writes (sock_world s)"
    using assms(1) r unfolding logs_def by (metis snd_conv)
  with assms(3) show ?thesis
    by (auto simp: receiveData_def r Let_def writes_checkError [OF assms(1,2)])
qed

lemma writes_sendData:
  assumes "logs tr writes" and "inert h" and "sendData h tr data s = (ec, k, s')"
  shows "writes (sock_world s') = writes (sock_world s) @ [data]"
proof -
  obtain e n w where r: "tr_write tr data (sock_world s) = (e, n, w)"
    by (metis prod_cases3)
  have "writes w = writes (sock_world s) @ [data]"
    using assms(1) r unfolding logs_def by (metis snd_conv)
  with assms(3) show ?thesis
    by (auto simp: sendData_def sendDataImpl_def r Let_def writes_checkError [OF assms(1,2)])
qed

lemma sendData_reliable:
  assumes "reliable tr pending writes"
  shows "\<exists>n s'. sendData h tr data s = (NoError, n, s') \<and> pending (sock_world s') = pending (sock_world s) \<and>
    writes (sock_world s') = writes (sock_world s) @ [data] \<and> frame s s'"
proof -
  obtain e n w where r: "tr_write tr data (sock_world s) = (e, n, w)"
    by (metis prod_cases3)
  with assms have "e = NoError" "pending w = pending (sock_world s)" "writes w = writes (sock_world s) @ [data]"
    unfolding reliable_def logs_def by (metis fst_conv snd_conv)+
  with r show ?thesis
    by (simp add: sendData_def sendDataImpl_def Let_def frame_def)
qed

lemma receiveData_reliable:
  assumes "reliable tr pending writes" and "pending (sock_world s) = xs @ tail" and "n = length xs"
  shows "\<exists>s'. receiveData h tr n s = (NoError, n, xs, s') \<and> pending (sock_world s') = tail \<and>
    writes (sock_world s') = writes (sock_world s) \<and> frame s s'"
proof -
  have "delivers tr pending" "logs tr writes"
    using assms(1) by (simp_all add: reliable_def)
  moreover have "n \<le> length (pending (sock_world s))"
    using assms(2,3) by simp
  ultimately obtain w where "tr_read tr n (sock_world s) = (NoError, xs, w)" "pending w = tail"
    unfolding delivers_def using assms(2,3) by (metis append_eq_conv_conj)
  moreover from this(1) have "writes w = writes (sock_world s)"
    using \<open>logs tr writes\<close> unfolding logs_def by (metis snd_conv)
  ultimately show ?thesis
    using assms(3) by (simp add: receiveData_def Let_def frame_def)
qed

section \<open>A scripted peer\<close>

text \<open>The peer of the examples: its bytes are waiting in \<open>inbox\<close>, what it is sent ends up in \<open>outbox\<close>,
  one entry for each write.\<close>

record script =
  inbox :: v8
  outbox :: "v8 list"

definition script_transport :: "script transport" where
  "script_transport = \<lparr> tr_now = (\<lambda>_. (0, 0)), tr_message = (\<lambda>_. []),
     tr_resolve = (\<lambda>_ _ w. (NoError, w)), tr_connect = (\<lambda>w. (NoError, True, w)),
     tr_write = (\<lambda>data w. (NoError, length data, w\<lparr>outbox := outbox w @ [data]\<rparr>)),
     tr_read = (\<lambda>n w. if n \<le> length (inbox w) then (NoError, take n (inbox w), w\<lparr>inbox := drop n (inbox w)\<rparr>)
                      else (EndOfFile, inbox w, w\<lparr>inbox := []\<rparr>)),
     tr_close = (\<lambda>w. w\<lparr>inbox := []\<rparr>) \<rparr>"

lemma script_delivers: "delivers script_transport inbox"
  by (simp add: delivers_def script_transport_def)

lemma script_reliable: "reliable script_transport inbox outbox"
  by (simp add: reliable_def script_delivers) (simp add: logs_def script_transport_def)

lemma script_dead: "dead script_transport (\<lambda>w. inbox w = [])"
  by (simp add: dead_def script_transport_def)

end
