(* ===== verification/MediaMessages.thy ===== *)
theory MediaMessages
imports RtmpMessage FlvAmf
begin

text \<open>
  \<open>RtmpAudioMessage\<close>, \<open>RtmpVideoMessage\<close> and \<open>RtmpMetadataMessage\<close>, each a media message around an FLV
  tag, and \<open>RtmpPacketGenerator::newChunkedPacket\<close>, which turns a tag into the packets that carry it.
\<close>

section \<open>Audio\<close>

record rtmp_audio_message = rtmp_message +
  audioTag :: flv_audio_tag

definition new_rtmp_audio_message :: rtmp_audio_message where
  "new_rtmp_audio_message = rtmp_message.extend new_rtmp_message \<lparr> audioTag = new_flv_audio_tag \<rparr>"

definition audio_message_of_data :: "u8 \<Rightarrow> v8 \<Rightarrow> rtmp_audio_message" where
  "audio_message_of_data csid data =
     new_rtmp_audio_message\<lparr>chunkStreamId := csid, chunkStreamType := Type3, tag_type := Msg_AudioMessage,
       payloadSize := word_of_nat (length data),
       audioTag := flv_audio_deserialize_payload (new_flv_audio_tag\<lparr>payload := data\<rparr>)\<rparr>"

definition audio_message_of_tag :: "flv_audio_tag \<Rightarrow> rtmp_audio_message" where
  "audio_message_of_tag tag =
     new_rtmp_audio_message\<lparr>audioTag := tag, chunkStreamId := Fmt_AudioMessage, timestamp := timestamp tag,
       payloadSize := payloadSize tag, tag_type := Msg_AudioMessage\<rparr>"

definition audio_message_serialize :: "rtmp_audio_message \<Rightarrow> rtmp_audio_message" where
  "audio_message_serialize m =
     (if payload m \<noteq> [] then m
      else let m = media_serialize m in m\<lparr>payload := payload m @ flv_audio_serialize (audioTag m)\<rparr>)"

definition audio_message_deserialize_payload :: "rtmp_audio_message \<Rightarrow> rtmp_audio_message" where
  "audio_message_deserialize_payload m =
     (let m = (if payload (audioTag m) = []
               then m\<lparr>audioTag := flv_audio_deserialize_payload
                        (tag_appendPayload (payload m) ((audioTag m)\<lparr>payloadSize := payloadSize m\<rparr>))\<rparr>
               else m)
      in m\<lparr>payload := []\<rparr>)"

definition audio_message_appendPayload :: "v8 \<Rightarrow> rtmp_audio_message \<Rightarrow> rtmp_audio_message" where
  "audio_message_appendPayload data m = m\<lparr>audioTag := tag_appendPayload data (audioTag m)\<rparr>"

definition audio_message_deserialize :: "v8 \<Rightarrow> rtmp_audio_message \<Rightarrow> rtmp_audio_message option" where
  "audio_message_deserialize it m = media_deserialize it m"

definition audio_message_delay :: "rtmp_audio_message \<Rightarrow> u32" where
  "audio_message_delay m = 0"

definition audio_message_data :: "rtmp_audio_message \<Rightarrow> v8" where
  "audio_message_data m = payload (audioTag m)"

definition audio_message_size :: "rtmp_audio_message \<Rightarrow> nat" where
  "audio_message_size m = unat (payloadSize m)"

definition audio_message_setSoundFormat :: "u8 \<Rightarrow> rtmp_audio_message \<Rightarrow> rtmp_audio_message" where
  "audio_message_setSoundFormat v m = m\<lparr>audioTag := (audioTag m)\<lparr>soundFormat := Some v\<rparr>\<rparr>"

definition audio_message_setSoundRate :: "u8 \<Rightarrow> rtmp_audio_message \<Rightarrow> rtmp_audio_message" where
  "audio_message_setSoundRate v m = m\<lparr>audioTag := (audioTag m)\<lparr>soundRate := Some v\<rparr>\<rparr>"

definition audio_message_setSoundSampleSize :: "u8 \<Rightarrow> rtmp_audio_message \<Rightarrow> rtmp_audio_message" where
  "audio_message_setSoundSampleSize v m = m\<lparr>audioTag := (audioTag m)\<lparr>soundSampleSize := Some v\<rparr>\<rparr>"

definition audio_message_setSoundType :: "u8 \<Rightarrow> rtmp_audio_message \<Rightarrow> rtmp_audio_message" where
  "audio_message_setSoundType v m = m\<lparr>audioTag := (audioTag m)\<lparr>soundType := Some v\<rparr>\<rparr>"

definition audio_message_setAACPacketType :: "u8 \<Rightarrow> rtmp_audio_message \<Rightarrow> rtmp_audio_message" where
  "audio_message_setAACPacketType v m = m\<lparr>audioTag := (audioTag m)\<lparr>aacPacketType := Some v\<rparr>\<rparr>"

section \<open>Video\<close>

record rtmp_video_message = rtmp_message +
  videoTag :: flv_video_tag

definition new_rtmp_video_message :: rtmp_video_message where
  "new_rtmp_video_message = rtmp_message.extend new_rtmp_message \<lparr> videoTag = new_flv_video_tag \<rparr>"

definition video_message_of_data :: "u8 \<Rightarrow> v8 \<Rightarrow> rtmp_video_message" where
  "video_message_of_data csid data =
     new_rtmp_video_message\<lparr>chunkStreamId := csid, chunkStreamType := Type3, tag_type := Msg_VideoMessage,
       payloadSize := word_of_nat (length data),
       videoTag := flv_video_deserialize_payload (new_flv_video_tag\<lparr>payload := data\<rparr>)\<rparr>"

definition video_message_of_tag :: "flv_video_tag \<Rightarrow> rtmp_video_message" where
  "video_message_of_tag tag =
     new_rtmp_video_message\<lparr>videoTag := tag, chunkStreamId := Fmt_VideoMessage, timestamp := timestamp tag,
       payloadSize := payloadSize tag, tag_type := Msg_VideoMessage\<rparr>"

definition video_message_serialize :: "rtmp_video_message \<Rightarrow> rtmp_video_message" where
  "video_message_serialize m =
     (if payload m \<noteq> [] then m
      else let m = media_serialize m in m\<lparr>payload := payload m @ flv_video_serialize (videoTag m)\<rparr>)"

definition video_message_deserialize_payload :: "rtmp_video_message \<Rightarrow> rtmp_video_message" where
  "video_message_deserialize_payload m =
     (let m = (if payload (videoTag m) = []
               then m\<lparr>videoTag := flv_video_deserialize_payload
                        (tag_appendPayload (payload m) ((videoTag m)\<lparr>payloadSize := payloadSize m\<rparr>))\<rparr>
               else m)
      in m\<lparr>payload := []\<rparr>)"

definition video_message_appendPayload :: "v8 \<Rightarrow> rtmp_video_message \<Rightarrow> rtmp_video_message" where
  "video_message_appendPayload data m = m\<lparr>videoTag := tag_appendPayload data (videoTag m)\<rparr>"

definition video_message_deserialize :: "v8 \<Rightarrow> rtmp_video_message \<Rightarrow> rtmp_video_message option" where
  "video_message_deserialize it m = media_deserialize it m"

definition video_message_data :: "rtmp_video_message \<Rightarrow> v8" where
  "video_message_data m = payload (videoTag m)"

definition video_message_size :: "rtmp_video_message \<Rightarrow> nat" where
  "video_message_size m = unat (payloadSize m)"

text \<open>\<open>delay()\<close> of the base class reads the body through \<open>data()\<close>, the composition time of AVC.\<close>

definition video_message_delay :: "rtmp_video_message \<Rightarrow> u32 option" where
  "video_message_delay m =
     (if length (video_message_data m) < 5 then Some 0
      else do { it \<leftarrow> iter_advance 2 (video_message_data m); d \<leftarrow> iter_slice 3 it; fromBigEndian24 d })"

definition video_message_setCodecId :: "u8 \<Rightarrow> rtmp_video_message \<Rightarrow> rtmp_video_message" where
  "video_message_setCodecId v m = m\<lparr>videoTag := (videoTag m)\<lparr>codecID := Some v\<rparr>\<rparr>"

definition video_message_setFrameType :: "u8 \<Rightarrow> rtmp_video_message \<Rightarrow> rtmp_video_message" where
  "video_message_setFrameType v m = m\<lparr>videoTag := (videoTag m)\<lparr>frameType := Some v\<rparr>\<rparr>"

section \<open>Metadata\<close>

record rtmp_metadata_message = rtmp_message +
  metadata :: flv_amf_tag

definition new_rtmp_metadata_message :: rtmp_metadata_message where
  "new_rtmp_metadata_message =
     (rtmp_message.extend new_rtmp_message \<lparr> metadata = new_flv_amf_tag \<rparr>)\<lparr>tag_type := Msg_DataMessage_AMF0\<rparr>"

definition metadata_message_of_tag :: "flv_amf_tag \<Rightarrow> rtmp_metadata_message" where
  "metadata_message_of_tag tag =
     (rtmp_message.extend new_rtmp_message \<lparr> metadata = tag \<rparr>)\<lparr>tag_type := Msg_DataMessage_AMF0\<rparr>"

text \<open>
  The size field is inserted at offset 4 once the body is known; the header always has the full form,
  whatever the chunk stream type.
\<close>

definition metadata_message_serialize ::
  "(subset dict \<Rightarrow> subset dict) \<Rightarrow> rtmp_metadata_message \<Rightarrow> rtmp_metadata_message" where
  "metadata_message_serialize ord m =
     (let m = m\<lparr>payload := [chunkStreamID (chunkStreamType m) m] @ toBigEndian24 (timestamp m)
                           @ [tag_type m] @ toLittleEndian32 (streamID m)\<rparr>;
          setDataFrame = serializeString ''@setDataFrame'' True;
          m = m\<lparr>payload := payload m @ setDataFrame\<rparr>;
          m = m\<lparr>metadata := flv_amf_serialize ord (metadata m)\<rparr>;
          serialized = payload (metadata m);
          m = m\<lparr>payload := payload m @ serialized\<rparr>;
          m = m\<lparr>payloadSize := word_of_nat (length setDataFrame + length serialized)\<rparr>
      in m\<lparr>payload := take 4 (payload m) @ toBigEndian24 (payloadSize m) @ drop 4 (payload m)\<rparr>)"

definition metadata_message_size :: "rtmp_metadata_message \<Rightarrow> nat" where
  "metadata_message_size m = unat (payloadSize m)"

definition metadata_message_deserialize_payload :: "rtmp_metadata_message \<Rightarrow> rtmp_metadata_message option" where
  "metadata_message_deserialize_payload m =
     do { let t = (metadata m)\<lparr>payloadSize := payloadSize m, payload := payload m\<rparr>;
          t \<leftarrow> flv_amf_deserialize_payload t;
          rest \<leftarrow> iter_advance 1 (payload m);
          Some (m\<lparr>metadata := t, payload := rest\<rparr>) }"

definition metadata_message_deserialize :: "v8 \<Rightarrow> rtmp_metadata_message \<Rightarrow> rtmp_metadata_message option" where
  "metadata_message_deserialize it m = media_deserialize it m"

text \<open>Four of the setters pass the current value on instead of their argument.\<close>

definition metadata_setWidth :: "double \<Rightarrow> rtmp_metadata_message \<Rightarrow> rtmp_metadata_message" where
  "metadata_setWidth v m = m\<lparr>metadata := (metadata m)\<lparr>width := v\<rparr>\<rparr>"

definition metadata_setHeight :: "double \<Rightarrow> rtmp_metadata_message \<Rightarrow> rtmp_metadata_message" where
  "metadata_setHeight v m = m\<lparr>metadata := (metadata m)\<lparr>height := v\<rparr>\<rparr>"

definition metadata_setVideoDataRate :: "double \<Rightarrow> rtmp_metadata_message \<Rightarrow> rtmp_metadata_message" where
  "metadata_setVideoDataRate v m = m\<lparr>metadata := (metadata m)\<lparr>videodatarate := videodatarate (metadata m)\<rparr>\<rparr>"

definition metadata_setVideoFrameRate :: "double \<Rightarrow> rtmp_metadata_message \<Rightarrow> rtmp_metadata_message" where
  "metadata_setVideoFrameRate v m = m\<lparr>metadata := (metadata m)\<lparr>videoframerate := v\<rparr>\<rparr>"

definition metadata_setFrameRate :: "double \<Rightarrow> rtmp_metadata_message \<Rightarrow> rtmp_metadata_message" where
  "metadata_setFrameRate v m = m\<lparr>metadata := (metadata m)\<lparr>framerate := framerate (metadata m)\<rparr>\<rparr>"

definition metadata_setVideoCodecId :: "string \<Rightarrow> rtmp_metadata_message \<Rightarrow> rtmp_metadata_message" where
  "metadata_setVideoCodecId v m = m\<lparr>metadata := (metadata m)\<lparr>videocodecidStr := v\<rparr>\<rparr>"

definition metadata_setAudioDataRate :: "double \<Rightarrow> rtmp_metadata_message \<Rightarrow> rtmp_metadata_message" where
  "metadata_setAudioDataRate v m = m\<lparr>metadata := (metadata m)\<lparr>audiodatarate := audiodatarate (metadata m)\<rparr>\<rparr>"

definition metadata_setAudioSampleRate :: "double \<Rightarrow> rtmp_metadata_message \<Rightarrow> rtmp_metadata_message" where
  "metadata_setAudioSampleRate v m = m\<lparr>metadata := (metadata m)\<lparr>audiosamplerate := audiosamplerate (metadata m)\<rparr>\<rparr>"

definition metadata_setAudioChannels :: "double \<Rightarrow> rtmp_metadata_message \<Rightarrow> rtmp_metadata_message" where
  "metadata_setAudioChannels v m = m\<lparr>metadata := (metadata m)\<lparr>audiochannels := v\<rparr>\<rparr>"

definition metadata_setAudioCodecId :: "string \<Rightarrow> rtmp_metadata_message \<Rightarrow> rtmp_metadata_message" where
  "metadata_setAudioCodecId v m = m\<lparr>metadata := (metadata m)\<lparr>audiocodecidStr := v\<rparr>\<rparr>"

section \<open>Packets of a tag\<close>

text \<open>\<open>newChunkedPacket<T>\<close>: the head packet keeps the header and the first piece of the body, every
  other piece becomes a continuation packet on the same chunk stream.\<close>

definition newChunkedPacket ::
  "('m rtmp_message_scheme \<Rightarrow> 'm rtmp_message_scheme) \<Rightarrow> (u8 \<Rightarrow> v8 \<Rightarrow> 'm rtmp_message_scheme) \<Rightarrow> u32
     \<Rightarrow> 'm rtmp_message_scheme \<Rightarrow> 'm rtmp_message_scheme list option" where
  "newChunkedPacket ser of_data maxSize head =
     do { (remainingData, head) \<leftarrow> media_trunkToSize ser maxSize head;
          Some (head # map (of_data (chunkStreamId head)) remainingData) }"

definition newChunkedAudio :: "u32 \<Rightarrow> flv_audio_tag \<Rightarrow> rtmp_audio_message list option" where
  "newChunkedAudio maxSize tag =
     newChunkedPacket audio_message_serialize audio_message_of_data maxSize (audio_message_of_tag tag)"

definition newChunkedVideo :: "u32 \<Rightarrow> flv_video_tag \<Rightarrow> rtmp_video_message list option" where
  "newChunkedVideo maxSize tag =
     newChunkedPacket video_message_serialize video_message_of_data maxSize (video_message_of_tag tag)"

section \<open>Serialized packets\<close>

lemmas new_message_defs = new_rtmp_message_def new_media_tag_def media_tag.extend_def rtmp_message.extend_def
  new_rtmp_audio_message_def new_rtmp_video_message_def new_rtmp_metadata_message_def

lemma payload_of_tag [simp]:
  "payload (audio_message_of_tag a) = []" "payload (video_message_of_tag v) = []"
  "payload (audio_message_of_data c d) = []" "payload (video_message_of_data c d) = []"
  by (simp_all add: audio_message_of_tag_def video_message_of_tag_def audio_message_of_data_def
      video_message_of_data_def new_message_defs)

text \<open>The header of a fresh audio or video message: full form, message stream 0.\<close>

definition fresh_header :: "u8 \<Rightarrow> u8 \<Rightarrow> u32 \<Rightarrow> u32 \<Rightarrow> rtmp_message" where
  "fresh_header csid ty ts n = new_rtmp_message\<lparr>chunkStreamId := csid, tag_type := ty, timestamp := ts, payloadSize := n\<rparr>"

lemma audio_serialize_of_tag:
  "payload (audio_message_serialize (audio_message_of_tag a))
     = media_header (fresh_header Fmt_AudioMessage Msg_AudioMessage (timestamp a) (payloadSize a)) @ payload a"
  by (simp add: audio_message_serialize_def media_serialize_def audio_message_of_tag_def new_message_defs
      flv_audio_serialize_def fresh_header_def media_header_def chunkStreamID_def)

lemma video_serialize_of_tag:
  "payload (video_message_serialize (video_message_of_tag v))
     = media_header (fresh_header Fmt_VideoMessage Msg_VideoMessage (timestamp v) (payloadSize v)) @ payload v"
  by (simp add: video_message_serialize_def media_serialize_def video_message_of_tag_def new_message_defs
      flv_video_serialize_def fresh_header_def media_header_def chunkStreamID_def)

text \<open>A continuation packet is the one-byte header and its data.\<close>

lemma audio_serialize_of_data:
  "payload (audio_message_serialize (audio_message_of_data c d)) = (push_bit 6 3 OR c) # d"
  by (simp add: audio_message_serialize_def media_serialize_def audio_message_of_data_def new_message_defs
      flv_audio_serialize_def flv_audio_deserialize_payload_def media_header_def chunkStreamID_def Let_def
      split: list.splits)

lemma video_serialize_of_data:
  "payload (video_message_serialize (video_message_of_data c d)) = (push_bit 6 3 OR c) # d"
  by (simp add: video_message_serialize_def media_serialize_def video_message_of_data_def new_message_defs
      flv_video_serialize_def flv_video_deserialize_payload_def media_header_def chunkStreamID_def
      split: list.splits)

section \<open>Properties\<close>

text \<open>The metadata message announces exactly the bytes of its body: the size field inserted at offset
  4 is the length of what follows the 12-byte header (in its 24 bits), whatever the metadata and the
  order of the properties.\<close>

theorem metadata_message_layout:
  "\<exists>body. payload (metadata_message_serialize ord m)
      = [chunkStreamID (chunkStreamType m) m] @ toBigEndian24 (timestamp m)
        @ toBigEndian24 (word_of_nat (length body)) @ [tag_type m] @ toLittleEndian32 (streamID m) @ body \<and>
    body = serializeString ''@setDataFrame'' True @ serializeString ''onMetaData'' True
           @ serializeObject (ord (flv_amf_props (metadata m))) \<and>
    payloadSize (metadata_message_serialize ord m) = word_of_nat (length body)"
  by (cases m) (simp add: metadata_message_serialize_def Let_def flv_amf_serialize_def chunkStreamID_def)

text \<open>Four of the metadata setters change nothing: they store the current value in place of their
  argument.\<close>

theorem metadata_setters_ignored:
  "metadata_setVideoDataRate v m = m \<and> metadata_setFrameRate v m = m \<and>
   metadata_setAudioDataRate v m = m \<and> metadata_setAudioSampleRate v m = m"
  by (simp add: metadata_setVideoDataRate_def metadata_setFrameRate_def metadata_setAudioDataRate_def
      metadata_setAudioSampleRate_def)

end
