(* ===== verification/Handshake.thy ===== *)
theory Handshake
imports Bytes
begin

text \<open>
  The handshake packets under \<open>handshake/\<close>. The bytes \<open>boost::random\<close> generates are the parameter
  \<open>rnd\<close> (byte \<open>i\<close> of the sequence), the clock in milliseconds is an input. S0 is C0; S1 and S2 are C1.
\<close>

definition RtmpProtocolVersion :: u8 where "RtmpProtocolVersion = 3"

section \<open>C0 and S0\<close>

record handshake_c0 =
  c0_version :: u8
  c0_data :: v8

definition new_c0 :: handshake_c0 where
  "new_c0 = \<lparr> c0_version = RtmpProtocolVersion, c0_data = [RtmpProtocolVersion] \<rparr>"

definition c0_serialize :: "handshake_c0 \<Rightarrow> handshake_c0" where
  "c0_serialize p = p\<lparr>c0_data := [c0_version p]\<rparr>"

definition c0_deserialize :: "v8 \<Rightarrow> handshake_c0 \<Rightarrow> handshake_c0" where
  "c0_deserialize it p =
     (let p = p\<lparr>c0_data := []\<rparr> in
      case it of [] \<Rightarrow> p | b # _ \<Rightarrow> p\<lparr>c0_version := b, c0_data := [b]\<rparr>)"

definition c0_defaultSize :: nat where "c0_defaultSize = 1"

section \<open>C1, S1 and S2\<close>

record handshake_c1 =
  c1_data :: v8
  c1_epoc :: int
  c1_time :: v8
  c1_zeros :: v8
  c1_random :: v8

definition c1_defaultSize :: nat where "c1_defaultSize = 1536"

definition new_c1 :: handshake_c1 where
  "new_c1 = \<lparr> c1_data = replicate c1_defaultSize 0, c1_epoc = 0, c1_time = toBigEndian32 (word_of_int 0),
     c1_zeros = replicate 4 0, c1_random = replicate (c1_defaultSize - 4 - 4) 0 \<rparr>"

definition generate :: "(nat \<Rightarrow> u8) \<Rightarrow> nat \<Rightarrow> v8" where
  "generate rnd n = map rnd [0..<n]"

definition c1_serialize :: "(nat \<Rightarrow> u8) \<Rightarrow> handshake_c1 \<Rightarrow> handshake_c1" where
  "c1_serialize rnd p =
     (let p = p\<lparr>c1_time := toBigEndian32 (word_of_int (c1_epoc p))\<rparr>;
          p = p\<lparr>c1_zeros := replicate 4 0\<rparr>;
          p = p\<lparr>c1_random := generate rnd (c1_defaultSize - length (c1_time p) - length (c1_zeros p))\<rparr>
      in p\<lparr>c1_data := c1_time p @ c1_zeros p @ c1_random p\<rparr>)"

definition c1_deserialize :: "v8 \<Rightarrow> handshake_c1 \<Rightarrow> handshake_c1 option" where
  "c1_deserialize it p =
     (if it = [] then Some p
      else do { t \<leftarrow> iter_slice (length (c1_time p)) it;
                it \<leftarrow> iter_advance (length (c1_time p)) it;
                z \<leftarrow> iter_slice (length (c1_zeros p)) it;
                it \<leftarrow> iter_advance (length (c1_zeros p)) it;
                Some (p\<lparr>c1_time := t, c1_zeros := z, c1_random := it\<rparr>) })"

section \<open>C2\<close>

definition new_c2 :: "int \<Rightarrow> handshake_c1 \<Rightarrow> handshake_c1" where
  "new_c2 nowMillis s1 = s1\<lparr>c1_epoc := nowMillis\<rparr>"

definition c2_serialize :: "(nat \<Rightarrow> u8) \<Rightarrow> handshake_c1 \<Rightarrow> handshake_c1" where
  "c2_serialize rnd p =
     (let p = p\<lparr>c1_zeros := toBigEndian32 (word_of_int (c1_epoc p))\<rparr>;
          p = p\<lparr>c1_random := generate rnd (c1_defaultSize - length (c1_time p) - length (c1_zeros p))\<rparr>
      in p\<lparr>c1_data := c1_time p @ c1_zeros p @ c1_random p\<rparr>)"

lemma length_generate [simp]: "length (generate rnd n) = n"
  by (simp add: generate_def)

lemma c1_deserialize_1536:
  assumes "length it = c1_defaultSize" and "length (c1_time p) = 4" and "length (c1_zeros p) = 4"
  shows "c1_deserialize it p = Some (p\<lparr>c1_time := take 4 it, c1_zeros := take 4 (drop 4 it), c1_random := drop 8 it\<rparr>)"
proof -
  from assms(1) have "it \<noteq> []" by (auto simp: c1_defaultSize_def)
  with assms show ?thesis
    by (simp add: c1_deserialize_def iter_slice_def iter_advance_def c1_defaultSize_def)
qed

lemma new_c1_lengths [simp]: "length (c1_time new_c1) = 4" "length (c1_zeros new_c1) = 4"
  by (simp_all add: new_c1_def)

section \<open>Properties\<close>

text \<open>The client's C1 and C2 have the 1536 bytes the handshake asks for, C2 returns the time of S1 in
  its first four bytes and its own time in the next four; but what follows is fresh random data, so two
  servers that sent different random bytes receive the same C2.\<close>

theorem handshake_c2_layout:
  assumes "length it = c1_defaultSize"
  shows "length (c1_data (c1_serialize rnd new_c1)) = c1_defaultSize \<and>
    (\<exists>s1. c1_deserialize it new_c1 = Some s1 \<and>
       c1_data (c2_serialize rnd (new_c2 now s1)) =
         take 4 it @ toBigEndian32 (word_of_int now) @ generate rnd (c1_defaultSize - 8) \<and>
       length (c1_data (c2_serialize rnd (new_c2 now s1))) = c1_defaultSize)"
  using assms
  by (simp add: c1_deserialize_1536 c1_serialize_def c2_serialize_def new_c2_def c1_defaultSize_def Let_def)

theorem handshake_c2_layout_witness:
  "\<exists>s1. c1_deserialize (replicate c1_defaultSize 7) new_c1 = Some s1 \<and>
     c1_data (c2_serialize (\<lambda>_. 1) (new_c2 5 s1)) =
       take 4 (replicate c1_defaultSize 7) @ toBigEndian32 (word_of_int 5) @ generate (\<lambda>_. 1) (c1_defaultSize - 8)"
proof -
  have "length (replicate c1_defaultSize (7 :: u8)) = c1_defaultSize"
    by (rule length_replicate)
  from handshake_c2_layout [OF this, of "\<lambda>_. 1" 5] show ?thesis
    by blast
qed

end
