(* ===== verification/RtmpSocket.thy ===== *)
theory RtmpSocket
imports Socket MediaMessages Handshake
begin

text \<open>
  \<open>RtmpSocket\<close>: packets over the socket, and the reader of chunked media packets. Each \<open>receive\<dots>\<close> step
  returns what its callback is given, with the chunk buffer and the socket. The inner \<open>None\<close> is undefined
  behaviour (a read past a buffer); the loop over the continuation chunks is a partial function, and its
  outer \<open>None\<close> says that it does not return. The theorems show that the chunks a sender cuts a media tag
  into are put together again, and that a connection that fails inside a packet makes the loop spin.
\<close>

section \<open>Packets\<close>

definition sendPacket ::
  "('w, 'a) handler \<Rightarrow> 'w transport \<Rightarrow> ('p \<Rightarrow> v8) \<Rightarrow> 'p \<Rightarrow> ('w, 'a) socket_scheme
    \<Rightarrow> error_code \<times> nat \<times> ('w, 'a) socket_scheme" where
  "sendPacket h tr ser packet s = sendData h tr (ser packet) s"

text \<open>The packet is read from the buffer whatever the error code says.\<close>

definition receivePacket ::
  "('w, 'a) handler \<Rightarrow> 'w transport \<Rightarrow> nat \<Rightarrow> (v8 \<Rightarrow> 'p option) \<Rightarrow> ('w, 'a) socket_scheme
    \<Rightarrow> (error_code \<times> nat \<times> 'p \<times> ('w, 'a) socket_scheme) option" where
  "receivePacket h tr defaultSize deser s =
     (case receiveData h tr defaultSize s of
        (ec, n, data, s) \<Rightarrow> do { packet \<leftarrow> deser data; Some (ec, n, packet, s) })"

text \<open>\<open>deser\<close> reads the header, \<open>parse\<close> the payload the packet was given; the error of the first read is lost.\<close>

definition receiveDynamicPacket ::
  "('w, 'a) handler \<Rightarrow> 'w transport \<Rightarrow> nat \<Rightarrow> (v8 \<Rightarrow> 'm rtmp_message_scheme option)
    \<Rightarrow> ('m rtmp_message_scheme \<Rightarrow> 'm rtmp_message_scheme option) \<Rightarrow> ('w, 'a) socket_scheme
    \<Rightarrow> (error_code \<times> nat \<times> 'm rtmp_message_scheme \<times> ('w, 'a) socket_scheme) option" where
  "receiveDynamicPacket h tr headerSize deser parse s =
     (case receiveData h tr headerSize s of
        (ec, n, data, s) \<Rightarrow>
          do { packet \<leftarrow> deser data;
               (case receiveData h tr (unat (payloadSize packet)) s of
                  (ec_, size_, data_, s) \<Rightarrow>
                    do { p \<leftarrow> parse (packet\<lparr>payload := data_\<rparr>); Some (ec_, size_, p, s) }) })"

section \<open>Chunks\<close>

datatype media_packet =
    BlankPacket
  | MetadataPacket rtmp_metadata_message
  | AudioPacket rtmp_audio_message
  | VideoPacket rtmp_video_message

text \<open>\<open>RtmpChunk\<close>: the continuation data, the total size and the size of the current chunk.\<close>

record rtmp_chunk =
  rc_data :: v8
  rc_total :: u32
  rc_size :: u32

definition new_rtmp_chunk :: rtmp_chunk where
  "new_rtmp_chunk = \<lparr> rc_data = [], rc_total = 0, rc_size = 0 \<rparr>"

type_synonym ('w, 'a) received = "error_code \<times> nat \<times> media_packet \<times> rtmp_chunk \<times> ('w, 'a) socket_scheme"

definition min_size :: "u32 \<Rightarrow> u32 \<Rightarrow> u32" where
  "min_size n maxSize = (if n > maxSize then maxSize else n)"

text \<open>The header of a full chunk: the sizes, and the packet of its type, or the error of an unknown type.\<close>

definition start_packet :: "u32 \<Rightarrow> v8 \<Rightarrow> rtmp_chunk \<Rightarrow> (media_packet option \<times> rtmp_chunk) option" where
  "start_packet maxSize header chunk =
     do { mediaPacket \<leftarrow> media_deserialize header new_rtmp_message;
          let chunk = chunk\<lparr>rc_total := payloadSize mediaPacket, rc_size := min_size (payloadSize mediaPacket) maxSize\<rparr>;
          let messageType = tag_type mediaPacket;
          if messageType = Msg_VideoMessage then
            do { p \<leftarrow> video_message_deserialize header
                   (new_rtmp_video_message\<lparr>chunkStreamType := chunkStreamType mediaPacket\<rparr>);
                 Some (Some (VideoPacket p), chunk) }
          else if messageType = Msg_AudioMessage then
            do { p \<leftarrow> audio_message_deserialize header
                   (new_rtmp_audio_message\<lparr>chunkStreamType := chunkStreamType mediaPacket\<rparr>);
                 Some (Some (AudioPacket p), chunk) }
          else if messageType = Msg_DataMessage_AMF0 then
            do { p \<leftarrow> metadata_message_deserialize header
                   (new_rtmp_metadata_message\<lparr>chunkStreamType := chunkStreamType mediaPacket\<rparr>);
                 Some (Some (MetadataPacket p), chunk) }
          else Some (None, chunk) }"

text \<open>What is done with the bytes of a chunk.\<close>

definition take_payload :: "media_packet \<Rightarrow> v8 \<Rightarrow> rtmp_chunk \<Rightarrow> (media_packet \<times> rtmp_chunk) option" where
  "take_payload p data chunk =
     (case p of
        AudioPacket a \<Rightarrow> Some (AudioPacket (audio_message_deserialize_payload (a\<lparr>payload := data\<rparr>)), chunk)
      | VideoPacket v \<Rightarrow> Some (VideoPacket (video_message_deserialize_payload (v\<lparr>payload := data\<rparr>)), chunk)
      | MetadataPacket m \<Rightarrow>
          do { m \<leftarrow> metadata_message_deserialize_payload (m\<lparr>payload := data\<rparr>); Some (MetadataPacket m, chunk) }
      | BlankPacket \<Rightarrow>
          Some (BlankPacket, chunk\<lparr>rc_size := word_of_nat (length data), rc_data := rc_data chunk @ data\<rparr>))"

definition receivePayload ::
  "('w, 'a) handler \<Rightarrow> 'w transport \<Rightarrow> chunk_stream_type \<Rightarrow> u32 \<Rightarrow> v8 \<Rightarrow> rtmp_chunk \<Rightarrow> ('w, 'a) socket_scheme
    \<Rightarrow> ('w, 'a) received option" where
  "receivePayload h tr ty maxSize header chunk s =
     do { (variant, chunk) \<leftarrow>
            (if ty = Type0 \<or> ty = Type1 then start_packet maxSize header chunk else Some (Some BlankPacket, chunk));
          (case variant of
             None \<Rightarrow> Some (InvalidArgument, length header, BlankPacket, chunk, s)
           | Some p \<Rightarrow>
               (case receiveData h tr (unat (rc_size chunk)) s of
                  (ec, n, data, s) \<Rightarrow>
                    if ec = NoError
                    then do { (p, chunk) \<leftarrow> take_payload p data chunk; Some (ec, n, p, chunk, s) }
                    else Some (ec, n, BlankPacket, chunk, s))) }"

definition receiveStreamID ::
  "('w, 'a) handler \<Rightarrow> 'w transport \<Rightarrow> chunk_stream_type \<Rightarrow> u32 \<Rightarrow> v8 \<Rightarrow> rtmp_chunk \<Rightarrow> ('w, 'a) socket_scheme
    \<Rightarrow> ('w, 'a) received option" where
  "receiveStreamID h tr ty maxSize header chunk s =
     (case receiveData h tr 4 s of
        (ec, n, data, s) \<Rightarrow>
          if ec = NoError then receivePayload h tr ty maxSize (header @ data) chunk s
          else Some (ec, n, BlankPacket, chunk, s))"

definition receiveExtentedTimestamp ::
  "('w, 'a) handler \<Rightarrow> 'w transport \<Rightarrow> chunk_stream_type \<Rightarrow> u32 \<Rightarrow> v8 \<Rightarrow> rtmp_chunk \<Rightarrow> ('w, 'a) socket_scheme
    \<Rightarrow> ('w, 'a) received option" where
  "receiveExtentedTimestamp h tr ty maxSize header chunk s =
     (case receiveData h tr 4 s of
        (ec, n, data, s) \<Rightarrow>
          if ec = NoError then
            (let header = header @ data in
             case ty of
               Type0 \<Rightarrow> receiveStreamID h tr ty maxSize header chunk s
             | Type1 \<Rightarrow> receivePayload h tr ty maxSize header chunk s
             | _ \<Rightarrow> Some (ec, n, BlankPacket, chunk, s))
          else Some (ec, n, BlankPacket, chunk, s))"

definition receiveMessageType ::
  "('w, 'a) handler \<Rightarrow> 'w transport \<Rightarrow> chunk_stream_type \<Rightarrow> u32 \<Rightarrow> bool \<Rightarrow> v8 \<Rightarrow> rtmp_chunk
    \<Rightarrow> ('w, 'a) socket_scheme \<Rightarrow> ('w, 'a) received option" where
  "receiveMessageType h tr ty maxSize hasExtTimestamp header chunk s =
     (case receiveData h tr 1 s of
        (ec, n, data, s) \<Rightarrow>
          if ec = NoError then
            (let header = header @ data in
             if hasExtTimestamp then receiveExtentedTimestamp h tr ty maxSize header chunk s
             else case ty of
               Type0 \<Rightarrow> receiveStreamID h tr ty maxSize header chunk s
             | Type1 \<Rightarrow> receivePayload h tr ty maxSize header chunk s
             | _ \<Rightarrow> Some (ec, n, BlankPacket, chunk, s))
          else Some (ec, n, BlankPacket, chunk, s))"

definition receiveBodySize ::
  "('w, 'a) handler \<Rightarrow> 'w transport \<Rightarrow> chunk_stream_type \<Rightarrow> u32 \<Rightarrow> bool \<Rightarrow> v8 \<Rightarrow> rtmp_chunk
    \<Rightarrow> ('w, 'a) socket_scheme \<Rightarrow> ('w, 'a) received option" where
  "receiveBodySize h tr ty maxSize hasExtTimestamp header chunk s =
     (case receiveData h tr 3 s of
        (ec, n, data, s) \<Rightarrow>
          if ec = NoError then receiveMessageType h tr ty maxSize hasExtTimestamp (header @ data) chunk s
          else Some (ec, n, BlankPacket, chunk, s))"

definition receiveTimestamp ::
  "('w, 'a) handler \<Rightarrow> 'w transport \<Rightarrow> chunk_stream_type \<Rightarrow> u32 \<Rightarrow> v8 \<Rightarrow> rtmp_chunk \<Rightarrow> ('w, 'a) socket_scheme
    \<Rightarrow> ('w, 'a) received option" where
  "receiveTimestamp h tr ty maxSize header chunk s =
     (case receiveData h tr 3 s of
        (ec, n, data, s) \<Rightarrow>
          if ec = NoError then
            do { ts \<leftarrow> fromBigEndian24 data;
                 let header = header @ data;
                 if ty = Type0 \<or> ty = Type1
                 then receiveBodySize h tr ty maxSize (numberOfSetBits ts \<ge> 24) header chunk s
                 else receivePayload h tr ty maxSize header chunk s }
          else Some (ec, n, BlankPacket, chunk, s))"

definition receiveChunk ::
  "('w, 'a) handler \<Rightarrow> 'w transport \<Rightarrow> u32 \<Rightarrow> rtmp_chunk \<Rightarrow> ('w, 'a) socket_scheme \<Rightarrow> ('w, 'a) received option" where
  "receiveChunk h tr maxSize chunk s =
     (case receiveData h tr 1 s of
        (ec, n, data, s) \<Rightarrow>
          if ec = NoError \<and> length data = 1 then
            do { b \<leftarrow> iter_deref data;
                 let fmt = chunk_type_of_byte b;
                 if fmt = Type3 then receivePayload h tr fmt maxSize data chunk s
                 else receiveTimestamp h tr fmt maxSize data chunk s }
          else Some (ec, n, BlankPacket, chunk, s))"

section \<open>The loop over the continuation chunks\<close>

partial_function (option) continuation_loop ::
  "('w, 'a) handler \<Rightarrow> 'w transport \<Rightarrow> u32 \<Rightarrow> error_code \<Rightarrow> u32 \<Rightarrow> rtmp_chunk \<Rightarrow> ('w, 'a) socket_scheme
    \<Rightarrow> (error_code \<times> rtmp_chunk \<times> ('w, 'a) socket_scheme) option option" where
  "continuation_loop h tr maxSize error nextChunkSize chunk s =
     (if rc_size chunk > 0 then
        (case receiveChunk h tr maxSize (chunk\<lparr>rc_total := nextChunkSize\<rparr>) s of
           None \<Rightarrow> Some None
         | Some (ec, n, packet, chunk, s) \<Rightarrow>
             let chunk = (if ec = NoError then chunk else chunk\<lparr>rc_size := 0\<rparr>);
                 error = (if ec = NoError then error else ec);
                 nextChunkSize = rc_total chunk - rc_size chunk;
                 chunk = chunk\<lparr>rc_size := min_size nextChunkSize maxSize\<rparr>
             in continuation_loop h tr maxSize error nextChunkSize chunk s)
      else Some (Some (error, chunk, s)))"


text \<open>The continuation data goes to the packet of the first chunk.\<close>

definition append_continuation :: "v8 \<Rightarrow> media_packet \<Rightarrow> media_packet option" where
  "append_continuation data packet =
     (if data = [] then Some packet
      else case packet of
        AudioPacket p \<Rightarrow> Some (AudioPacket (audio_message_deserialize_payload (audio_message_appendPayload data p)))
      | VideoPacket p \<Rightarrow> Some (VideoPacket (video_message_deserialize_payload (video_message_appendPayload data p)))
      | MetadataPacket p \<Rightarrow>
          map_option MetadataPacket (metadata_message_deserialize_payload (tag_appendPayload data p))
      | BlankPacket \<Rightarrow> Some BlankPacket)"

definition receiveDynamicPacketWithDynamicHeader ::
  "('w, 'a) handler \<Rightarrow> 'w transport \<Rightarrow> u32 \<Rightarrow> ('w, 'a) socket_scheme
    \<Rightarrow> (error_code \<times> nat \<times> media_packet \<times> ('w, 'a) socket_scheme) option option" where
  "receiveDynamicPacketWithDynamicHeader h tr maxSize s =
     (case receiveChunk h tr maxSize new_rtmp_chunk s of
        None \<Rightarrow> Some None
      | Some (ec, n, packet, chunk, s) \<Rightarrow>
          if ec = NoError then
            let nextChunkSize = rc_total chunk - rc_size chunk;
                chunk = chunk\<lparr>rc_size := min_size nextChunkSize maxSize\<rparr>
            in (case continuation_loop h tr maxSize ec nextChunkSize chunk s of
                  None \<Rightarrow> None
                | Some None \<Rightarrow> Some None
                | Some (Some (error, chunk, s)) \<Rightarrow>
                    Some (do { packet \<leftarrow> append_continuation (rc_data chunk) packet;
                               Some (error, n, packet, s) }))
          else Some (Some (ec, n, packet, s)))"

section \<open>Reading from a network that delivers\<close>

lemma receiveData_prefix:
  assumes "delivers tr pending" and "pending (sock_world s) = xs @ tail" and "n = length xs"
  shows "\<exists>s'. receiveData h tr n s = (NoError, n, xs, s') \<and> pending (sock_world s') = tail \<and> frame s s'"
  using receiveData_delivered [OF assms(1), of n s h] assms(2,3) by simp

text \<open>A full header is read piece by piece and reaches \<open>receivePayload\<close> whole.\<close>

lemma receiveChunk_full_header:
  assumes d: "delivers tr pending" and ok: "header_ok m" "chunkStreamType m = Type0"
    and p: "pending (sock_world s) = media_header m @ tail"
  shows "\<exists>s'. receiveChunk h tr maxSize chunk s = receivePayload h tr Type0 maxSize (media_header m) chunk s' \<and>
    pending (sock_world s') = tail \<and> frame s s'"
proof -
  let ?b = "chunkStreamID Type0 m" and ?ts = "toBigEndian24 (timestamp m)" and ?n = "toBigEndian24 (payloadSize m)"
    and ?sid = "toLittleEndian32 (streamID m)"
  have hd: "media_header m = [?b] @ ?ts @ ?n @ [tag_type m] @ ?sid"
    using ok(2) by (simp add: media_header_def)
  have ty: "chunk_type_of_byte ?b = Type0"
    using ok(1) by (simp add: header_ok_def chunk_type_of_chunkStreamID)
  have ts: "fromBigEndian24 ?ts = Some (timestamp m)"
    using ok(1) be24.dec_enc_exact [of "timestamp m"] by (simp add: header_ok_def take_bit_24_eq)
  have ext: "\<not> 24 \<le> numberOfSetBits (timestamp m)"
    using ok(1) by (simp add: header_ok_def hasExtendedTimestamp_def)
  have t24: "take_bit 24 (timestamp m) = timestamp m"
    using ok(1) by (simp add: header_ok_def take_bit_24_eq)
  have "pending (sock_world s) = [?b] @ ?ts @ ?n @ [tag_type m] @ ?sid @ tail"
    using p by (simp add: hd)
  from receiveData_prefix [OF d this, of 1 h] obtain s1 where
    s1: "receiveData h tr 1 s = (NoError, 1, [?b], s1)" "frame s s1"
      "pending (sock_world s1) = ?ts @ ?n @ [tag_type m] @ ?sid @ tail" by auto
  from receiveData_prefix [OF d s1(3), of 3 h] obtain s2 where
    s2: "receiveData h tr 3 s1 = (NoError, 3, ?ts, s2)" "frame s s2"
      "pending (sock_world s2) = ?n @ [tag_type m] @ ?sid @ tail" using s1 by (auto simp: frame_def)
  from receiveData_prefix [OF d s2(3), of 3 h] obtain s3 where
    s3: "receiveData h tr 3 s2 = (NoError, 3, ?n, s3)" "frame s s3"
      "pending (sock_world s3) = [tag_type m] @ ?sid @ tail" using s2 by (auto simp: frame_def)
  from receiveData_prefix [OF d s3(3), of 1 h] obtain s4 where
    s4: "receiveData h tr 1 s3 = (NoError, 1, [tag_type m], s4)" "frame s s4"
      "pending (sock_world s4) = ?sid @ tail" using s3 by (auto simp: frame_def)
  from receiveData_prefix [OF d s4(3), of 4 h] obtain s5 where
    s5: "receiveData h tr 4 s4 = (NoError, 4, ?sid, s5)" "frame s s5"
      "pending (sock_world s5) = tail" using s4 by (auto simp: frame_def)
  have "receiveChunk h tr maxSize chunk s = receivePayload h tr Type0 maxSize (media_header m) chunk s5"
    using ext t24 by (simp add: Let_def receiveChunk_def receiveTimestamp_def receiveBodySize_def receiveMessageType_def
        receiveStreamID_def s1(1) s2(1) s3(1) s4(1) s5(1) ty ts hd del: One_nat_def)
  with s5 show ?thesis by blast
qed

text \<open>A one-byte header and its data are appended to the chunk buffer.\<close>

lemma receiveChunk_continuation:
  assumes d: "delivers tr pending" and c: "unat c < 64"
    and p: "pending (sock_world s) = (push_bit 6 3 OR c) # data @ tail" and n: "length data = unat (rc_size chunk)"
  shows "\<exists>s'. receiveChunk h tr maxSize chunk s
      = Some (NoError, length data, BlankPacket, chunk\<lparr>rc_data := rc_data chunk @ data\<rparr>, s') \<and>
    pending (sock_world s') = tail \<and> frame s s'"
proof -
  define b where "b = push_bit 6 3 OR c"
  have ty: "chunk_type_of_byte b = Type3"
    unfolding chunk_type_of_byte_def b_def drop_first_byte [OF c] by simp
  have "pending (sock_world s) = [b] @ data @ tail"
    using p by (simp add: b_def)
  from receiveData_prefix [OF d this, of 1 h] obtain s1 where
    s1: "receiveData h tr 1 s = (NoError, 1, [b], s1)" "frame s s1"
      "pending (sock_world s1) = data @ tail" by auto
  from receiveData_prefix [OF d s1(3) n [symmetric], of h] obtain s2 where
    s2: "receiveData h tr (unat (rc_size chunk)) s1 = (NoError, length data, data, s2)" "frame s s2"
      "pending (sock_world s2) = tail" using s1 n by (auto simp: frame_def)
  have "word_of_nat (length data) = rc_size chunk"
    by (simp add: n)
  then have "chunk\<lparr>rc_size := word_of_nat (length data), rc_data := rc_data chunk @ data\<rparr>
      = chunk\<lparr>rc_data := rc_data chunk @ data\<rparr>"
    by simp
  then have "receiveChunk h tr maxSize chunk s
      = Some (NoError, length data, BlankPacket, chunk\<lparr>rc_data := rc_data chunk @ data\<rparr>, s2)"
    by (simp add: receiveChunk_def receivePayload_def s1(1) s2(1) ty take_payload_def Let_def
        del: One_nat_def)
  with s2 show ?thesis by blast
qed

text \<open>The loop collects the pieces of a body, and ends when the last one has been read.\<close>

lemma full_chunks_bound: "full_chunks n (c # cs) \<Longrightarrow> 0 < n \<Longrightarrow>
    length c = (if n < length c + length (concat cs) then n else length c + length (concat cs)) \<and>
    full_chunks n cs \<and> 0 < length c"
  by (cases cs) (auto split: if_splits)

lemma continuation_loop_pieces:
  assumes d: "delivers tr pending" and c: "unat c < 64" and n: "0 < maxSize"
  shows "full_chunks (unat maxSize) pieces \<Longrightarrow> length (concat pieces) < 2 ^ 32 \<Longrightarrow>
    next = word_of_nat (length (concat pieces)) \<Longrightarrow> rc_size chunk = min_size next maxSize \<Longrightarrow>
    pending (sock_world s) = concat (map (\<lambda>d. (push_bit 6 3 OR c) # d) pieces) @ tail \<Longrightarrow>
    \<exists>chunk' s'. continuation_loop h tr maxSize error next chunk s = Some (Some (error, chunk', s')) \<and>
      rc_data chunk' = rc_data chunk @ concat pieces \<and> pending (sock_world s') = tail \<and> frame s s'"
proof (induction pieces arbitrary: "next" chunk s)
  case Nil
  then have "rc_size chunk = 0" by (simp add: min_size_def)
  with Nil show ?case
    by (subst continuation_loop.simps) simp
next
  case (Cons x xs)
  let ?r = "length (concat xs)"
  have nat: "unat (word_of_nat k :: u32) = k" if "k \<le> length (concat (x # xs))" for k
    using that Cons.prems(2) by (simp add: unsigned_of_nat take_bit_nat_eq_self)
  have "unat maxSize > 0" using n by (simp add: word_gt_0 unat_gt_0)
  from full_chunks_bound [OF Cons.prems(1) this]
  have x: "length x = (if unat maxSize < length x + ?r then unat maxSize else length x + ?r)" "0 < length x"
    and fc: "full_chunks (unat maxSize) xs" by blast+
  have nx: "unat next = length x + ?r"
    using Cons.prems(3) nat [of "length x + ?r"] by simp
  have "unat (rc_size chunk) = (if unat maxSize < unat next then unat maxSize else unat next)"
    unfolding Cons.prems(4) min_size_def by (simp add: word_less_nat_alt)
  then have sz: "unat (rc_size chunk) = length x"
    unfolding nx using x(1) by presburger
  have pos: "rc_size chunk > 0"
    using sz x(2) by (simp add: word_gt_0 unat_gt_0 [symmetric])
  let ?chunk = "chunk\<lparr>rc_total := next\<rparr>"
  have "pending (sock_world s) = (push_bit 6 3 OR c) # x @ concat (map (\<lambda>d. (push_bit 6 3 OR c) # d) xs) @ tail"
    using Cons.prems(5) by simp
  from receiveChunk_continuation [OF d c this, of ?chunk h maxSize] obtain s1 where
    s1: "receiveChunk h tr maxSize ?chunk s
          = Some (NoError, length x, BlankPacket, ?chunk\<lparr>rc_data := rc_data chunk @ x\<rparr>, s1)"
      "pending (sock_world s1) = concat (map (\<lambda>d. (push_bit 6 3 OR c) # d) xs) @ tail" "frame s s1"
    using sz by auto
  have rest: "next - rc_size chunk = word_of_nat ?r"
  proof (rule word_unat_eq_iff [THEN iffD2])
    have "rc_size chunk \<le> next" using nx sz by (simp add: word_le_nat_alt)
    then show "unat (next - rc_size chunk) = unat (word_of_nat ?r :: u32)"
      using nx sz nat [of ?r] by (simp add: unat_sub)
  qed
  let ?chunk1 = "chunk\<lparr>rc_total := next, rc_data := rc_data chunk @ x, rc_size := min_size (word_of_nat ?r) maxSize\<rparr>"
  have "length (concat xs) < 2 ^ 32"
    using Cons.prems(2) by simp
  from Cons.IH [OF fc this refl _ s1(2), of ?chunk1] obtain chunk' s' where
    IH: "continuation_loop h tr maxSize error (word_of_nat ?r) ?chunk1 s1 = Some (Some (error, chunk', s'))"
      "rc_data chunk' = (rc_data chunk @ x) @ concat xs" "pending (sock_world s') = tail" "frame s1 s'"
    by auto
  have "continuation_loop h tr maxSize error next chunk s = Some (Some (error, chunk', s'))"
    using pos by (subst continuation_loop.simps) (simp add: s1(1) rest IH(1) Let_def)
  with IH s1(3) show ?case by (simp add: frame_def)
qed

section \<open>The packets of a media tag on the wire\<close>

text \<open>The pieces behind the first chunk of a body.\<close>

definition later_pieces :: "nat \<Rightarrow> v8 \<Rightarrow> v8 list" where
  "later_pieces n body = (if length body \<le> n then [] else trunk_loop (int n) (drop n body))"

lemma later_pieces_concat: "0 < n \<Longrightarrow> concat (later_pieces n body) = drop n body"
  by (simp add: later_pieces_def trunk_loop_concat)

lemma later_pieces_full: "0 < n \<Longrightarrow> full_chunks n (later_pieces n body)"
  unfolding later_pieces_def by (rule trunked_full)

text \<open>The senders' assumptions: sizes that fit the format, and no extended timestamp.\<close>

definition sendable :: "u32 \<Rightarrow> 'a media_tag_scheme \<Rightarrow> bool" where
  "sendable maxSize tag \<longleftrightarrow> 0 < maxSize \<and> unat maxSize < 2 ^ 31 \<and> length (payload tag) < 2 ^ 24 \<and>
     payloadSize tag = word_of_nat (length (payload tag)) \<and> unat (timestamp tag) < 2 ^ 24 \<and>
     \<not> hasExtendedTimestamp tag"

lemma sendable_size: "sendable maxSize tag \<Longrightarrow> unat (payloadSize tag) = length (payload tag)"
  by (simp add: sendable_def unsigned_of_nat take_bit_nat_eq_self)

lemma header_ok_fresh:
  "sendable maxSize tag \<Longrightarrow> unat csid < 64 \<Longrightarrow> header_ok (fresh_header csid ty (timestamp tag) (payloadSize tag))"
  by (simp add: header_ok_def fresh_header_def sendable_size hasExtendedTimestamp_def)
     (simp add: sendable_def hasExtendedTimestamp_def)

lemma hSize_fresh: "chunkStreamType m = Type0 \<Longrightarrow> timestamp m = timestamp tag \<Longrightarrow> sendable maxSize tag \<Longrightarrow> hSize_of m = 12"
  by (simp add: hSize_of_def sendable_def hasExtendedTimestamp_def)

lemma length_fresh_header [simp]: "length (media_header (fresh_header csid ty ts n)) = 12"
  by (simp add: length_media_header fresh_header_def new_message_defs)

lemma chunked_wire:
  fixes ser :: "'m rtmp_message_scheme \<Rightarrow> 'm rtmp_message_scheme" and head :: "'m rtmp_message_scheme"
  assumes ok: "sendable maxSize tag" and new: "payload head = []"
    and ser: "payload (ser head) = media_header (fresh_header csid ty (timestamp tag) (payloadSize tag)) @ payload tag"
      "chunkStreamType (ser head) = Type0" "timestamp (ser head) = timestamp tag" "chunkStreamId (ser head) = csid"
    and again: "\<And>m. payload m \<noteq> [] \<Longrightarrow> ser m = m"
    and cont: "\<And>d. payload (ser (of_data csid d)) = (push_bit 6 3 OR csid) # d"
  shows "\<exists>packets. newChunkedPacket ser of_data maxSize head = Some packets \<and>
    map (\<lambda>p. payload (ser p)) packets =
      (media_header (fresh_header csid ty (timestamp tag) (payloadSize tag)) @ take (unat maxSize) (payload tag))
      # map (\<lambda>d. (push_bit 6 3 OR csid) # d) (later_pieces (unat maxSize) (payload tag))"
proof -
  let ?H = "media_header (fresh_header csid ty (timestamp tag) (payloadSize tag))"
  have ms: "ser head = (if payload head = [] then ser head else head)"
    using new by simp
  have "length ?H = hSize_of (ser head)"
    using hSize_fresh [OF ser(2,3) ok] by simp
  from media_trunkToSize_split [where ser = ser and m = head and maxSize = maxSize, OF ms ser(1) this] ok
  have "media_trunkToSize ser maxSize head
      = Some (later_pieces (unat maxSize) (payload tag), (ser head)\<lparr>payload := ?H @ take (unat maxSize) (payload tag)\<rparr>)"
    by (simp add: sendable_def ser(1) later_pieces_def)
  then show ?thesis
    by (simp add: newChunkedPacket_def ser(4) cont o_def again)
qed

lemma chunked_video_wire:
  assumes "sendable maxSize tag"
  shows "\<exists>packets. newChunkedVideo maxSize tag = Some packets \<and>
    map (\<lambda>p. payload (video_message_serialize p)) packets =
      (media_header (fresh_header Fmt_VideoMessage Msg_VideoMessage (timestamp tag) (payloadSize tag))
        @ take (unat maxSize) (payload tag))
      # map (\<lambda>d. (push_bit 6 3 OR Fmt_VideoMessage) # d) (later_pieces (unat maxSize) (payload tag))"
  unfolding newChunkedVideo_def
  by (rule chunked_wire [OF assms])
     (simp_all only: payload_of_tag video_serialize_of_tag video_serialize_of_data,
      simp_all add: video_message_serialize_def media_serialize_def video_message_of_tag_def new_message_defs)

lemma chunked_audio_wire:
  assumes "sendable maxSize tag"
  shows "\<exists>packets. newChunkedAudio maxSize tag = Some packets \<and>
    map (\<lambda>p. payload (audio_message_serialize p)) packets =
      (media_header (fresh_header Fmt_AudioMessage Msg_AudioMessage (timestamp tag) (payloadSize tag))
        @ take (unat maxSize) (payload tag))
      # map (\<lambda>d. (push_bit 6 3 OR Fmt_AudioMessage) # d) (later_pieces (unat maxSize) (payload tag))"
  unfolding newChunkedAudio_def
  by (rule chunked_wire [OF assms])
     (simp_all only: payload_of_tag audio_serialize_of_tag audio_serialize_of_data,
      simp_all add: audio_message_serialize_def media_serialize_def audio_message_of_tag_def new_message_defs)

text \<open>The head of a message, as the first chunk or in the place of a continuation.\<close>

lemma receive_head:
  assumes d: "delivers tr pending" and ok: "sendable maxSize tag" and csid: "unat csid < 64"
    and H: "H = fresh_header csid ty (timestamp tag) (payloadSize tag)"
    and start: "start_packet maxSize (media_header H) chunk
      = Some (Some start, chunk\<lparr>rc_total := payloadSize tag, rc_size := min_size (payloadSize tag) maxSize\<rparr>)"
    and take_p: "\<And>chunk. take_payload start (take (unat maxSize) (payload tag)) chunk = Some (p, chunk)"
    and wire: "pending (sock_world s) = media_header H @ take (unat maxSize) (payload tag) @ tail"
  shows "\<exists>s'. receiveChunk h tr maxSize chunk s = Some (NoError, min (unat maxSize) (length (payload tag)), p,
      chunk\<lparr>rc_total := payloadSize tag, rc_size := min_size (payloadSize tag) maxSize\<rparr>, s') \<and>
    pending (sock_world s') = tail \<and> frame s s'"
proof -
  let ?data = "take (unat maxSize) (payload tag)"
  have H_ok: "header_ok H" "chunkStreamType H = Type0"
    using header_ok_fresh [OF ok csid] by (simp_all add: H fresh_header_def new_message_defs)
  from receiveChunk_full_header [OF d H_ok wire, of h maxSize chunk] obtain s1 where
    s1: "receiveChunk h tr maxSize chunk s = receivePayload h tr Type0 maxSize (media_header H) chunk s1"
      "pending (sock_world s1) = ?data @ tail" "frame s s1" by auto
  have sz: "unat (min_size (payloadSize tag) maxSize) = length ?data"
    by (simp add: min_size_def word_less_nat_alt sendable_size [OF ok])
  from receiveData_prefix [OF d s1(2) sz, of h] obtain s2 where
    s2: "receiveData h tr (unat (min_size (payloadSize tag) maxSize)) s1
          = (NoError, unat (min_size (payloadSize tag) maxSize), ?data, s2)"
      "pending (sock_world s2) = tail" "frame s1 s2" by auto
  have "receiveChunk h tr maxSize chunk s = Some (NoError, unat (min_size (payloadSize tag) maxSize), p,
      chunk\<lparr>rc_total := payloadSize tag, rc_size := min_size (payloadSize tag) maxSize\<rparr>, s2)"
    by (simp add: s1(1) receivePayload_def start s2(1) take_p)
  moreover have "unat (min_size (payloadSize tag) maxSize) = min (unat maxSize) (length (payload tag))"
    unfolding sz by (simp add: min.commute)
  ultimately show ?thesis using s1(3) s2 by (auto simp: frame_def)
qed

text \<open>
  The receiver's side: the head chunk becomes the packet \<open>p\<close>, and the pieces are appended to it. \<open>start\<close>
  is what the header alone makes of the packet.
\<close>

lemma receive_chunked:
  assumes d: "delivers tr pending" and ok: "sendable maxSize tag" and csid: "unat csid < 64"
    and H: "H = fresh_header csid ty (timestamp tag) (payloadSize tag)"
    and start: "\<And>chunk. start_packet maxSize (media_header H) chunk
      = Some (Some start, chunk\<lparr>rc_total := payloadSize tag, rc_size := min_size (payloadSize tag) maxSize\<rparr>)"
    and take_p: "\<And>chunk. take_payload start (take (unat maxSize) (payload tag)) chunk = Some (p, chunk)"
    and app: "append_continuation (drop (unat maxSize) (payload tag)) p = Some q"
    and wire: "pending (sock_world s) = media_header H @ take (unat maxSize) (payload tag)
      @ concat (map (\<lambda>d. (push_bit 6 3 OR csid) # d) (later_pieces (unat maxSize) (payload tag))) @ tail"
  shows "\<exists>s'. receiveDynamicPacketWithDynamicHeader h tr maxSize s
      = Some (Some (NoError, min (unat maxSize) (length (payload tag)), q, s')) \<and>
    pending (sock_world s') = tail \<and> frame s s'"
proof -
  let ?k = "unat maxSize" and ?pl = "payload tag"
  let ?pieces = "later_pieces ?k ?pl"
  have k: "0 < maxSize" "0 < ?k"
    using ok by (simp_all add: sendable_def word_gt_0 unat_gt_0)
  let ?chunk = "new_rtmp_chunk\<lparr>rc_total := payloadSize tag, rc_size := min_size (payloadSize tag) maxSize\<rparr>"
  from receive_head [OF d ok csid H start take_p wire, of h] obtain s2 where
    first: "receiveChunk h tr maxSize new_rtmp_chunk s = Some (NoError, min ?k (length ?pl), p, ?chunk, s2)"
    and s2: "pending (sock_world s2) = concat (map (\<lambda>d. (push_bit 6 3 OR csid) # d) ?pieces) @ tail" "frame s s2" by blast
  define nxt where "nxt = payloadSize tag - min_size (payloadSize tag) maxSize"
  have len: "unat nxt = length (drop ?k ?pl)"
  proof -
    have "min_size (payloadSize tag) maxSize \<le> payloadSize tag"
      by (auto simp: min_size_def word_less_nat_alt word_le_nat_alt)
    then show ?thesis
      unfolding nxt_def unat_sub [OF \<open>min_size (payloadSize tag) maxSize \<le> payloadSize tag\<close>]
      by (simp add: sendable_size [OF ok] min_size_def word_less_nat_alt)
  qed
  have nxt: "nxt = word_of_nat (length (concat ?pieces))"
    unfolding later_pieces_concat [OF k(2)] len [symmetric] by simp
  have "length (concat ?pieces) < 2 ^ 32"
    unfolding later_pieces_concat [OF k(2)] length_drop
    by (rule le_less_trans [OF diff_le_self]) (use ok in \<open>simp add: sendable_def\<close>)
  from continuation_loop_pieces [OF d csid k(1) later_pieces_full [OF k(2)] this nxt, where error = NoError and h = h
      and chunk = "?chunk\<lparr>rc_size := min_size nxt maxSize\<rparr>" and s = s2, OF _ s2(1)]
  obtain chunk' s' where
    loop: "continuation_loop h tr maxSize NoError nxt (?chunk\<lparr>rc_size := min_size nxt maxSize\<rparr>) s2
        = Some (Some (NoError, chunk', s'))"
      "rc_data chunk' = concat ?pieces" "pending (sock_world s') = tail" "frame s2 s'"
    by (auto simp: new_rtmp_chunk_def)
  have "receiveDynamicPacketWithDynamicHeader h tr maxSize s = Some (Some (NoError, min ?k (length ?pl), q, s'))"
    using loop(1) unfolding nxt_def
    by (simp add: receiveDynamicPacketWithDynamicHeader_def first Let_def loop(2) later_pieces_concat [OF k(2)] app)
  then show ?thesis
    using loop(3,4) s2(2) by (auto simp: frame_def)
qed

lemma start_header:
  assumes "header_ok H" and "payload m0 = []"
  shows "media_deserialize (media_header H) m0 = Some (header_fields H m0)"
  using assms media_deserialize_header [OF assms(1), of "[]" m0] by (simp add: media_deserialize_def)

lemma flv_payload_kept [simp]:
  "payload (flv_video_deserialize_payload v) = payload v" "payload (flv_audio_deserialize_payload a) = payload a"
  by (simp_all add: flv_video_deserialize_payload_def flv_audio_deserialize_payload_def Let_def split: list.splits)

text \<open>Appending continuation data to a packet whose tag is filled already, or not.\<close>

lemma video_continuation:
  "video_message_data (video_message_deserialize_payload (m\<lparr>payload := x\<rparr>))
     = (if payload (videoTag m) = [] then x else payload (videoTag m))"
  "timestamp (video_message_deserialize_payload m) = timestamp m"
  "payloadSize (video_message_deserialize_payload m) = payloadSize m"
  "d \<noteq> [] \<Longrightarrow> video_message_data (video_message_deserialize_payload (video_message_appendPayload d m))
     = video_message_data m @ d"
  "timestamp (video_message_appendPayload d m) = timestamp m"
  "payloadSize (video_message_appendPayload d m) = payloadSize m"
  "chunkStreamType (video_message_deserialize_payload m) = chunkStreamType m"
  "chunkStreamType (video_message_appendPayload d m) = chunkStreamType m"
  by (cases m, simp add: video_message_deserialize_payload_def video_message_data_def
      video_message_appendPayload_def Let_def)+

lemma audio_continuation:
  "audio_message_data (audio_message_deserialize_payload (m\<lparr>payload := x\<rparr>))
     = (if payload (audioTag m) = [] then x else payload (audioTag m))"
  "timestamp (audio_message_deserialize_payload m) = timestamp m"
  "payloadSize (audio_message_deserialize_payload m) = payloadSize m"
  "d \<noteq> [] \<Longrightarrow> audio_message_data (audio_message_deserialize_payload (audio_message_appendPayload d m))
     = audio_message_data m @ d"
  "timestamp (audio_message_appendPayload d m) = timestamp m"
  "payloadSize (audio_message_appendPayload d m) = payloadSize m"
  "chunkStreamType (audio_message_deserialize_payload m) = chunkStreamType m"
  "chunkStreamType (audio_message_appendPayload d m) = chunkStreamType m"
  by (cases m, simp add: audio_message_deserialize_payload_def audio_message_data_def
      audio_message_appendPayload_def Let_def)+

section \<open>Properties\<close>

lemma video_reassembled:
  assumes "delivers tr pending" and "sendable maxSize tag"
    and "newChunkedVideo maxSize tag = Some packets"
    and "pending (sock_world s) = concat (map (\<lambda>p. payload (video_message_serialize p)) packets) @ tail"
  shows "\<exists>m s'. receiveDynamicPacketWithDynamicHeader h tr maxSize s 
      = Some (Some (NoError, min (unat maxSize) (length (payload tag)), VideoPacket m, s')) \<and>
    video_message_data m = payload tag \<and> timestamp m = timestamp tag \<and> payloadSize m = payloadSize tag \<and>
    chunkStreamType m = Type0 \<and>
    pending (sock_world s') = tail \<and> frame s s'"
proof -
  let ?k = "unat maxSize" and ?pl = "payload tag"
  define H where "H = fresh_header Fmt_VideoMessage Msg_VideoMessage (timestamp tag) (payloadSize tag)"
  have H_ok: "header_ok H"
    unfolding H_def by (rule header_ok_fresh [OF assms(2)]) simp
  let ?start = "header_fields H (new_rtmp_video_message\<lparr>chunkStreamType := Type0\<rparr>)"
  define p where "p = video_message_deserialize_payload (?start\<lparr>payload := take ?k ?pl\<rparr>)"
  define q where "q = (if drop ?k ?pl = [] then p
    else video_message_deserialize_payload (video_message_appendPayload (drop ?k ?pl) p))"
  note H_simps = H_def fresh_header_def header_fields_def new_message_defs
  have start: "start_packet maxSize (media_header H) chunk = Some (Some (VideoPacket ?start),
      chunk\<lparr>rc_total := payloadSize tag, rc_size := min_size (payloadSize tag) maxSize\<rparr>)" for chunk
    by (simp add: start_packet_def start_header [OF H_ok] video_message_deserialize_def new_message_defs Let_def)
       (simp add: H_simps)
  from chunked_video_wire [OF assms(2)] assms(3)
  have wire: "pending (sock_world s) = media_header H @ take ?k ?pl
      @ concat (map (\<lambda>d. (push_bit 6 3 OR Fmt_VideoMessage) # d) (later_pieces ?k ?pl)) @ tail"
    by (clarsimp simp: assms(4) H_def)
  have "video_message_data p = take ?k ?pl" "timestamp p = timestamp tag" "payloadSize p = payloadSize tag"
    "chunkStreamType p = Type0"
    unfolding p_def video_continuation by (simp_all add: H_simps new_flv_video_tag_def)
  then have "video_message_data q = ?pl" "timestamp q = timestamp tag" "payloadSize q = payloadSize tag"
    "chunkStreamType q = Type0"
    by (auto simp: q_def video_continuation)
  moreover have "\<exists>s'. receiveDynamicPacketWithDynamicHeader h tr maxSize s
      = Some (Some (NoError, min (unat maxSize) (length (payload tag)), VideoPacket q, s')) \<and>
      pending (sock_world s') = tail \<and> frame s s'"
    by (rule receive_chunked [OF assms(1,2) _ H_def start _ _ wire, where p = "VideoPacket p"])
       (simp_all add: take_payload_def p_def append_continuation_def q_def)
  ultimately show ?thesis by blast
qed

text \<open>A tag of five bytes, sent in chunks of two, as the examples use it.\<close>

definition sample_video :: flv_video_tag where
  "sample_video = new_flv_video_tag\<lparr>payload := [0x17, 1, 2, 3, 4], payloadSize := 5, timestamp := 40\<rparr>"

definition sample_audio :: flv_audio_tag where
  "sample_audio = new_flv_audio_tag\<lparr>payload := [0xAF, 1, 2, 3, 4], payloadSize := 5, timestamp := 40\<rparr>"

lemma sample_sendable: "sendable 2 sample_video" "sendable 2 sample_audio"
  by (simp_all add: sendable_def sample_video_def sample_audio_def new_flv_video_tag_def new_flv_audio_tag_def
      new_media_tag_def media_tag.extend_def hasExtendedTimestamp_24)

lemma sample_pieces: "later_pieces 2 [a, b, c, d, e] = [[c, d], [e]]"
  by (simp add: later_pieces_def trunk_loop.simps [of 2 "_ # _"] next_chunkSize_def)

definition scripted_socket :: "v8 \<Rightarrow> script socket" where
  "scripted_socket bytes = new_socket script_transport \<lparr> inbox = bytes, outbox = [] \<rparr>"

lemma inbox_scripted [simp]: "inbox (sock_world (scripted_socket bytes)) = bytes"
  by (simp add: scripted_socket_def new_socket_def)

text \<open>C12: a video tag that is cut into chunks by the sender (\<open>newChunkedVideo\<close>), serialized and sent is put
  together again by the reader that uses the same chunk size, whatever follows on the wire: no error,
  the body byte for byte, the timestamp and the announced size, and the reader stops exactly behind the
  last chunk. In particular the loop over the continuation chunks returns.\<close>

theorem chunked_video_reassembled:
  assumes "delivers tr pending" and "sendable maxSize tag"
    and "newChunkedVideo maxSize tag = Some packets"
    and "pending (sock_world s) = concat (map (\<lambda>p. payload (video_message_serialize p)) packets) @ tail"
  shows "\<exists>n m s'. receiveDynamicPacketWithDynamicHeader h tr maxSize s = Some (Some (NoError, n, VideoPacket m, s')) \<and>
    video_message_data m = payload tag \<and> timestamp m = timestamp tag \<and> payloadSize m = payloadSize tag \<and>
    pending (sock_world s') = tail \<and> sock_open s' = sock_open s"
  using video_reassembled [OF assms, of h] by (auto simp: frame_def)

theorem chunked_video_reassembled_witness:
  "\<exists>n m s'. receiveDynamicPacketWithDynamicHeader (\<lambda>_ _ s. s) script_transport 2
      (scripted_socket [0x05, 0, 0, 40, 0, 0, 5, 9, 0, 0, 0, 0, 0x17, 1, 0xC5, 2, 3, 0xC5, 4, 0xAA])
      = Some (Some (NoError, n, VideoPacket m, s')) \<and>
    video_message_data m = [0x17, 1, 2, 3, 4] \<and> inbox (sock_world s') = [0xAA]"
proof -
  let ?bytes = "[0x05, 0, 0, 40, 0, 0, 5, 9, 0, 0, 0, 0, 0x17, 1, 0xC5, 2, 3, 0xC5, 4, 0xAA]"
  from chunked_video_wire [OF sample_sendable(1)] obtain packets where
    p: "newChunkedVideo 2 sample_video = Some packets"
      "map (\<lambda>p. payload (video_message_serialize p)) packets =
        [[0x05, 0, 0, 40, 0, 0, 5, 9, 0, 0, 0, 0, 0x17, 1], [0xC5, 2, 3], [0xC5, 4]]"
    by (auto simp: sample_video_def new_flv_video_tag_def new_media_tag_def media_tag.extend_def sample_pieces
        fresh_header_def new_rtmp_message_def media_header_def chunkStreamID_def toBigEndian24_def toLittleEndian32_def)
  have w: "inbox (sock_world (scripted_socket ?bytes))
      = concat (map (\<lambda>p. payload (video_message_serialize p)) packets) @ [0xAA]"
    by (simp add: p(2))
  from chunked_video_reassembled [OF script_delivers sample_sendable(1) p(1) w, of "\<lambda>_ _ s. s"] show ?thesis
    by (auto simp: sample_video_def)
qed

lemma audio_reassembled:
  assumes "delivers tr pending" and "sendable maxSize tag"
    and "newChunkedAudio maxSize tag = Some packets"
    and "pending (sock_world s) = concat (map (\<lambda>p. payload (audio_message_serialize p)) packets) @ tail"
  shows "\<exists>m s'. receiveDynamicPacketWithDynamicHeader h tr maxSize s 
      = Some (Some (NoError, min (unat maxSize) (length (payload tag)), AudioPacket m, s')) \<and>
    audio_message_data m = payload tag \<and> timestamp m = timestamp tag \<and> payloadSize m = payloadSize tag \<and>
    chunkStreamType m = Type0 \<and>
    pending (sock_world s') = tail \<and> frame s s'"
proof -
  let ?k = "unat maxSize" and ?pl = "payload tag"
  define H where "H = fresh_header Fmt_AudioMessage Msg_AudioMessage (timestamp tag) (payloadSize tag)"
  have H_ok: "header_ok H"
    unfolding H_def by (rule header_ok_fresh [OF assms(2)]) simp
  let ?start = "header_fields H (new_rtmp_audio_message\<lparr>chunkStreamType := Type0\<rparr>)"
  define p where "p = audio_message_deserialize_payload (?start\<lparr>payload := take ?k ?pl\<rparr>)"
  define q where "q = (if drop ?k ?pl = [] then p
    else audio_message_deserialize_payload (audio_message_appendPayload (drop ?k ?pl) p))"
  note H_simps = H_def fresh_header_def header_fields_def new_message_defs
  have start: "start_packet maxSize (media_header H) chunk = Some (Some (AudioPacket ?start),
      chunk\<lparr>rc_total := payloadSize tag, rc_size := min_size (payloadSize tag) maxSize\<rparr>)" for chunk
    by (simp add: start_packet_def start_header [OF H_ok] audio_message_deserialize_def new_message_defs Let_def)
       (simp add: H_simps)
  from chunked_audio_wire [OF assms(2)] assms(3)
  have wire: "pending (sock_world s) = media_header H @ take ?k ?pl
      @ concat (map (\<lambda>d. (push_bit 6 3 OR Fmt_AudioMessage) # d) (later_pieces ?k ?pl)) @ tail"
    by (clarsimp simp: assms(4) H_def)
  have "audio_message_data p = take ?k ?pl" "timestamp p = timestamp tag" "payloadSize p = payloadSize tag"
    "chunkStreamType p = Type0"
    unfolding p_def audio_continuation by (simp_all add: H_simps new_flv_audio_tag_def)
  then have "audio_message_data q = ?pl" "timestamp q = timestamp tag" "payloadSize q = payloadSize tag"
    "chunkStreamType q = Type0"
    by (auto simp: q_def audio_continuation)
  moreover have "\<exists>s'. receiveDynamicPacketWithDynamicHeader h tr maxSize s
      = Some (Some (NoError, min (unat maxSize) (length (payload tag)), AudioPacket q, s')) \<and>
      pending (sock_world s') = tail \<and> frame s s'"
    by (rule receive_chunked [OF assms(1,2) _ H_def start _ _ wire, where p = "AudioPacket p"])
       (simp_all add: take_payload_def p_def append_continuation_def q_def)
  ultimately show ?thesis by blast
qed

text \<open>The same for audio tags.\<close>

theorem chunked_audio_reassembled:
  assumes "delivers tr pending" and "sendable maxSize tag"
    and "newChunkedAudio maxSize tag = Some packets"
    and "pending (sock_world s) = concat (map (\<lambda>p. payload (audio_message_serialize p)) packets) @ tail"
  shows "\<exists>n m s'. receiveDynamicPacketWithDynamicHeader h tr maxSize s = Some (Some (NoError, n, AudioPacket m, s')) \<and>
    audio_message_data m = payload tag \<and> timestamp m = timestamp tag \<and> payloadSize m = payloadSize tag \<and>
    pending (sock_world s') = tail \<and> sock_open s' = sock_open s"
  using audio_reassembled [OF assms, of h] by (auto simp: frame_def)

theorem chunked_audio_reassembled_witness:
  "\<exists>n m s'. receiveDynamicPacketWithDynamicHeader (\<lambda>_ _ s. s) script_transport 2
      (scripted_socket [0x04, 0, 0, 40, 0, 0, 5, 8, 0, 0, 0, 0, 0xAF, 1, 0xC4, 2, 3, 0xC4, 4, 0xAA])
      = Some (Some (NoError, n, AudioPacket m, s')) \<and>
    audio_message_data m = [0xAF, 1, 2, 3, 4] \<and> inbox (sock_world s') = [0xAA]"
proof -
  let ?bytes = "[0x04, 0, 0, 40, 0, 0, 5, 8, 0, 0, 0, 0, 0xAF, 1, 0xC4, 2, 3, 0xC4, 4, 0xAA]"
  from chunked_audio_wire [OF sample_sendable(2)] obtain packets where
    p: "newChunkedAudio 2 sample_audio = Some packets"
      "map (\<lambda>p. payload (audio_message_serialize p)) packets =
        [[0x04, 0, 0, 40, 0, 0, 5, 8, 0, 0, 0, 0, 0xAF, 1], [0xC4, 2, 3], [0xC4, 4]]"
    by (auto simp: sample_audio_def new_flv_audio_tag_def new_media_tag_def media_tag.extend_def sample_pieces
        fresh_header_def new_rtmp_message_def media_header_def chunkStreamID_def toBigEndian24_def toLittleEndian32_def)
  have w: "inbox (sock_world (scripted_socket ?bytes))
      = concat (map (\<lambda>p. payload (audio_message_serialize p)) packets) @ [0xAA]"
    by (simp add: p(2))
  from chunked_audio_reassembled [OF script_delivers sample_sendable(2) p(1) w, of "\<lambda>_ _ s. s"] show ?thesis
    by (auto simp: sample_audio_def)
qed

section \<open>A connection that fails inside a packet\<close>

lemma receiveChunk_dead:
  assumes "dead tr gone" and "inert h" and "gone (sock_world s)"
  shows "\<exists>ec n s'. receiveChunk h tr maxSize chunk s = Some (ec, n, BlankPacket, chunk, s') \<and>
    ec \<noteq> NoError \<and> gone (sock_world s')"
  using receiveData_dead [OF assms, of 1] by (auto simp: receiveChunk_def simp del: One_nat_def)

lemma min_size_pos: "0 < n \<Longrightarrow> 0 < maxSize \<Longrightarrow> 0 < min_size n maxSize"
  by (simp add: min_size_def)

lemma continuation_loop_dead:
  assumes "continuation_loop h tr maxSize error next chunk s = Some r"
  shows "dead tr gone \<and> inert h \<and> 0 < maxSize \<longrightarrow> \<not> (gone (sock_world s) \<and> 0 < next \<and> 0 < rc_size chunk)"
proof (rule continuation_loop.raw_induct [OF _ assms], goal_cases)
  case (1 loop h tr maxSize error nextChunkSize chunk s r)
  show ?case
  proof (rule impI, rule notI)
    assume ok: "dead tr gone \<and> inert h \<and> 0 < maxSize"
      and bad: "gone (sock_world s) \<and> 0 < nextChunkSize \<and> 0 < rc_size chunk"
    from receiveChunk_dead [of tr gone h s maxSize "chunk\<lparr>rc_total := nextChunkSize\<rparr>"] ok bad
    obtain ec n s' where r: "receiveChunk h tr maxSize (chunk\<lparr>rc_total := nextChunkSize\<rparr>) s
        = Some (ec, n, BlankPacket, chunk\<lparr>rc_total := nextChunkSize\<rparr>, s')" "ec \<noteq> NoError" "gone (sock_world s')"
      by blast
    let ?chunk = "chunk\<lparr>rc_total := nextChunkSize, rc_size := min_size nextChunkSize maxSize\<rparr>"
    have "loop h tr maxSize ec nextChunkSize ?chunk s' = Some r"
      using 1(2) bad r by (simp add: Let_def)
    from 1(1) [OF this] ok r(3) bad show False
      by (simp add: min_size_pos)
  qed
qed

text \<open>C38: if the connection fails for good after the first chunk of a packet that has more, the loop over the
  continuation chunks never ends: the error handler sets the chunk size to 0 "to end the loop", but the
  size is computed again from the total right behind it.\<close>

theorem continuation_loop_spins:
  assumes "dead tr gone" and "inert h" and "0 < maxSize"
    and "receiveChunk h tr maxSize new_rtmp_chunk s = Some (NoError, n, packet, chunk, s1)"
    and "gone (sock_world s1)" and "rc_size chunk < rc_total chunk"
  shows "receiveDynamicPacketWithDynamicHeader h tr maxSize s = None"
proof -
  let ?next = "rc_total chunk - rc_size chunk"
  let ?chunk = "chunk\<lparr>rc_size := min_size ?next maxSize\<rparr>"
  have "0 < ?next"
    using assms(6) by (simp add: word_gt_0)
  with continuation_loop_dead [of h tr maxSize NoError ?next ?chunk s1 _ gone] assms(1-3,5)
  have "continuation_loop h tr maxSize NoError ?next ?chunk s1 = None"
    by (cases "continuation_loop h tr maxSize NoError ?next ?chunk s1") (auto simp: min_size_pos)
  then show ?thesis
    by (simp add: receiveDynamicPacketWithDynamicHeader_def assms(4) Let_def)
qed

text \<open>A peer that closes the connection after two of five bytes.\<close>

theorem continuation_loop_spins_witness:
  "receiveDynamicPacketWithDynamicHeader (\<lambda>_ _ s. s) script_transport 2
    (scripted_socket [0x05, 0, 0, 40, 0, 0, 5, 9, 0, 0, 0, 0, 0x17, 1]) = None"
proof -
  let ?s = "scripted_socket [0x05, 0, 0, 40, 0, 0, 5, 9, 0, 0, 0, 0, 0x17, 1]"
  let ?H = "fresh_header 5 9 40 5"
  have hd: "media_header ?H = [0x05, 0, 0, 40, 0, 0, 5, 9, 0, 0, 0, 0]"
    by (simp add: fresh_header_def new_rtmp_message_def new_media_tag_def media_tag.extend_def media_header_def
        chunkStreamID_def toBigEndian24_def toLittleEndian32_def)
  have ok: "header_ok ?H" "chunkStreamType ?H = Type0"
    by (simp_all add: header_ok_def fresh_header_def new_message_defs hasExtendedTimestamp_24)
  have "inbox (sock_world ?s) = media_header ?H @ [0x17, 1]"
    by (simp add: hd)
  from receiveChunk_full_header [OF script_delivers ok this, of "\<lambda>_ _ s. s" 2 new_rtmp_chunk] obtain s1 where
    s1: "receiveChunk (\<lambda>_ _ s. s) script_transport 2 new_rtmp_chunk ?s
          = receivePayload (\<lambda>_ _ s. s) script_transport Type0 2 (media_header ?H) new_rtmp_chunk s1"
      "inbox (sock_world s1) = [0x17, 1] @ []"
    by auto
  from receiveData_prefix [OF script_delivers s1(2), of 2 "\<lambda>_ _ s. s"] obtain s2 where
    s2: "receiveData (\<lambda>_ _ s. s) script_transport 2 s1 = (NoError, 2, [0x17, 1], s2)" "inbox (sock_world s2) = []"
    by auto
  have "\<exists>n packet chunk. receiveChunk (\<lambda>_ _ s. s) script_transport 2 new_rtmp_chunk ?s
      = Some (NoError, n, packet, chunk, s2) \<and> rc_size chunk < rc_total chunk"
    unfolding s1(1) receivePayload_def start_packet_def
    by (simp add: start_header [OF ok(1)] video_message_deserialize_def new_message_defs Let_def)
       (simp add: header_fields_def fresh_header_def new_message_defs min_size_def s2(1) take_payload_def)
  then obtain n packet chunk where
    c: "receiveChunk (\<lambda>_ _ s. s) script_transport 2 new_rtmp_chunk ?s = Some (NoError, n, packet, chunk, s2)"
      "rc_size chunk < rc_total chunk" by blast
  have "inert (\<lambda>_ _ s :: script socket. s)" "(0 :: u32) < 2"
    by (simp_all add: inert_def)
  from continuation_loop_spins [OF script_dead this c(1) s2(2) c(2)] show ?thesis .
qed

end
