(* ===== verification/Session.thy ===== *)
theory Session
imports RtmpSocket
begin

text \<open>
  \<open>RtmpSession\<close> and \<open>RtmpClientSession\<close>: the delegates, the start and the end of a session, and the
  client's side of the handshake. Every callback is called before the operation that takes it returns,
  so the chain of callbacks is a chain of calls here. A user delegate is a number; it records what it is
  told in \<open>calls\<close>. The clock, the random generator and the order of an unordered map belong to \<open>host\<close>.
\<close>

section \<open>State\<close>

datatype notification =
    SocketEvent socket_event
  | HandshakeDone
  | SessionStarted
  | MetadataReceived rtmp_metadata_message
  | VideoReceived rtmp_video_message
  | AudioReceived rtmp_audio_message
  | NetworkMetricsChanged network_type nat

record 'w host =
  net :: "'w transport"
  random_bytes :: "int \<Rightarrow> nat \<Rightarrow> u8"
  dict_order :: "subset dict \<Rightarrow> subset dict"

record 'w rtmp_session = "'w socket" +
  appName :: string
  session_streamName :: string
  session_delegates :: "nat list"
  calls :: "(nat \<times> notification) list"

definition new_rtmp_session :: "'w transport \<Rightarrow> 'w \<Rightarrow> 'w rtmp_session" where
  "new_rtmp_session tr w = socket.extend (new_socket tr w)
     \<lparr> appName = [], session_streamName = [], session_delegates = [], calls = [] \<rparr>"

section \<open>Delegates\<close>

definition call :: "nat \<Rightarrow> notification \<Rightarrow> ('w, 'a) rtmp_session_scheme \<Rightarrow> ('w, 'a) rtmp_session_scheme" where
  "call n e s = s\<lparr>calls := calls s @ [(n, e)]\<rparr>"

definition notify_session :: "notification \<Rightarrow> ('w, 'a) rtmp_session_scheme \<Rightarrow> ('w, 'a) rtmp_session_scheme" where
  "notify_session e s = fold (\<lambda>n. call n e) (invoke_targets (\<lambda>_. True) (session_delegates s)) s"

definition session_addDelegate :: "nat \<Rightarrow> ('w, 'a) rtmp_session_scheme \<Rightarrow> ('w, 'a) rtmp_session_scheme" where
  "session_addDelegate n s =
     socket_addDelegate (UserDelegate n) (s\<lparr>session_delegates := addDelegate n (session_delegates s)\<rparr>)"

definition session_removeDelegate :: "nat \<Rightarrow> ('w, 'a) rtmp_session_scheme \<Rightarrow> ('w, 'a) rtmp_session_scheme" where
  "session_removeDelegate n s =
     socket_removeDelegate (UserDelegate n)
       (s\<lparr>session_delegates := removeDelegate (\<lambda>_. True) n (session_delegates s)\<rparr>)"

definition socketWillConnect :: "('w, 'a) rtmp_session_scheme \<Rightarrow> ('w, 'a) rtmp_session_scheme" where
  "socketWillConnect s =
     (let s = s\<lparr>npmU := metrics_setDelegate True (npmU s)\<rparr>
      in s\<lparr>npmD := metrics_setDelegate True (npmD s)\<rparr>)"

definition session_reconnectionRequired :: "('w, 'a) rtmp_session_scheme \<Rightarrow> ('w, 'a) rtmp_session_scheme" where
  "session_reconnectionRequired s = notify_session (SocketEvent ReconnectionRequired) s"

text \<open>The virtual calls of the socket on its delegates; \<open>socketDidConnect\<close> is in \<open>session_didConnect\<close>.\<close>

definition session_handler :: "delegate \<Rightarrow> socket_event \<Rightarrow> ('w, 'a) rtmp_session_scheme \<Rightarrow> ('w, 'a) rtmp_session_scheme" where
  "session_handler d e s =
     (case d of
        UserDelegate n \<Rightarrow> call n (SocketEvent e) s
      | SessionDelegate \<Rightarrow>
          (case e of
             WillConnect \<Rightarrow> socketWillConnect s
           | ReconnectionRequired \<Rightarrow> session_reconnectionRequired s
           | _ \<Rightarrow> s))"

text \<open>\<open>handshake\<close> is virtual.\<close>

definition session_didConnect ::
  "(('w, 'a) rtmp_session_scheme \<Rightarrow> ('w, 'a) rtmp_session_scheme option) \<Rightarrow> delegate
    \<Rightarrow> ('w, 'a) rtmp_session_scheme \<Rightarrow> ('w, 'a) rtmp_session_scheme option" where
  "session_didConnect handshake d s =
     (case d of UserDelegate n \<Rightarrow> Some (call n (SocketEvent DidConnect) s) | SessionDelegate \<Rightarrow> handshake s)"

section \<open>Start and end\<close>

text \<open>\<open>boost::split\<close> at every slash.\<close>

fun split_slash :: "string \<Rightarrow> string list" where
  "split_slash [] = [[]]"
| "split_slash (c # cs) =
     (if c = CHR ''/'' then [] # split_slash cs
      else case split_slash cs of [] \<Rightarrow> [[c]] | t # ts \<Rightarrow> (c # t) # ts)"

definition extractAppNameAndStreamID :: "string \<Rightarrow> ('w, 'a) rtmp_session_scheme \<Rightarrow> ('w, 'a) rtmp_session_scheme" where
  "extractAppNameAndStreamID stream s =
     (let splitted = split_slash stream in
      s\<lparr>appName := (if splitted \<noteq> [] then hd splitted else stream),
        session_streamName := (if splitted \<noteq> [] then last splitted else stream)\<rparr>)"

definition start_connection ::
  "'w host \<Rightarrow> (('w, 'a) rtmp_session_scheme \<Rightarrow> ('w, 'a) rtmp_session_scheme option) \<Rightarrow> string \<Rightarrow> string
    \<Rightarrow> ('w, 'a) rtmp_session_scheme \<Rightarrow> ('w, 'a) rtmp_session_scheme option" where
  "start_connection e handshake address port s =
     (let s = socket_removeDelegate SessionDelegate s;
          s = socket_addDelegate SessionDelegate s
      in socket_connect session_handler (net e) (session_didConnect handshake) address port s)"

definition session_start ::
  "'w host \<Rightarrow> (('w, 'a) rtmp_session_scheme \<Rightarrow> ('w, 'a) rtmp_session_scheme option) \<Rightarrow> string \<Rightarrow> string \<Rightarrow> string
    \<Rightarrow> string \<Rightarrow> ('w, 'a) rtmp_session_scheme \<Rightarrow> ('w, 'a) rtmp_session_scheme option" where
  "session_start e handshake address port app stream s =
     start_connection e handshake address port (s\<lparr>appName := app, session_streamName := stream\<rparr>)"

definition session_start_joined ::
  "'w host \<Rightarrow> (('w, 'a) rtmp_session_scheme \<Rightarrow> ('w, 'a) rtmp_session_scheme option) \<Rightarrow> string \<Rightarrow> string \<Rightarrow> string
    \<Rightarrow> ('w, 'a) rtmp_session_scheme \<Rightarrow> ('w, 'a) rtmp_session_scheme option" where
  "session_start_joined e handshake address port streamAndAppName s =
     start_connection e handshake address port (extractAppNameAndStreamID streamAndAppName s)"

definition session_end :: "'w host \<Rightarrow> ('w, 'a) rtmp_session_scheme \<Rightarrow> ('w, 'a) rtmp_session_scheme" where
  "session_end e s = socket_close session_handler (net e) s"

definition session_version :: u8 where
  "session_version = RtmpProtocolVersion"

definition updateCurrentMetrics :: "u64 \<Rightarrow> ('w, 'a) socket_scheme \<Rightarrow> ('w, 'a) socket_scheme" where
  "updateCurrentMetrics currentByteRate s =
     (if currentByteRate > 0
      then s\<lparr>npmU := setByteRate currentByteRate (npmU s), npmD := setByteRate currentByteRate (npmD s)\<rparr>
      else s)"

definition sendCloseStream :: "'w host \<Rightarrow> ('w, 'a) rtmp_session_scheme \<Rightarrow> ('w, 'a) rtmp_session_scheme" where
  "sendCloseStream e s =
     (if \<not> sock_open s then session_end e s
      else (case sendPacket session_handler (net e) (\<lambda>m. payload (close_stream_serialize (dict_order e) m))
                   close_stream_message s of
              (ec, n, s) \<Rightarrow> session_end e s))"

section \<open>Requests with a callback\<close>

text \<open>\<open>if (!socket_->isOpen()) return;\<close>\<close>

definition if_open ::
  "(('w, 'a) socket_scheme \<Rightarrow> ('w, 'a) socket_scheme option) \<Rightarrow> ('w, 'a) socket_scheme \<Rightarrow> ('w, 'a) socket_scheme option" where
  "if_open f s = (if sock_open s then f s else Some s)"

text \<open>Send a packet and go on if there was no error; the same for the two ways to receive one.\<close>

definition send_then ::
  "'w host \<Rightarrow> ('p \<Rightarrow> v8) \<Rightarrow> 'p \<Rightarrow> (('w, 'a) rtmp_session_scheme \<Rightarrow> ('w, 'a) rtmp_session_scheme option)
    \<Rightarrow> ('w, 'a) rtmp_session_scheme \<Rightarrow> ('w, 'a) rtmp_session_scheme option" where
  "send_then e ser packet next s =
     (case sendPacket session_handler (net e) ser packet s of
        (ec, n, s) \<Rightarrow> if ec = NoError then next s else Some s)"

definition receive_then ::
  "'w host \<Rightarrow> nat \<Rightarrow> (v8 \<Rightarrow> 'p option) \<Rightarrow> ('p \<Rightarrow> ('w, 'a) rtmp_session_scheme \<Rightarrow> ('w, 'a) rtmp_session_scheme option)
    \<Rightarrow> ('w, 'a) rtmp_session_scheme \<Rightarrow> ('w, 'a) rtmp_session_scheme option" where
  "receive_then e n deser next s =
     do { (ec, k, packet, s) \<leftarrow> receivePacket session_handler (net e) n deser s;
          if ec = NoError then next packet s else Some s }"

definition receive_dynamic_then ::
  "'w host \<Rightarrow> nat \<Rightarrow> (v8 \<Rightarrow> 'm rtmp_message_scheme option)
    \<Rightarrow> ('m rtmp_message_scheme \<Rightarrow> 'm rtmp_message_scheme option)
    \<Rightarrow> ('m rtmp_message_scheme \<Rightarrow> ('w, 'a) rtmp_session_scheme \<Rightarrow> ('w, 'a) rtmp_session_scheme option)
    \<Rightarrow> ('w, 'a) rtmp_session_scheme \<Rightarrow> ('w, 'a) rtmp_session_scheme option" where
  "receive_dynamic_then e n deser parse next s =
     do { (ec, k, packet, s) \<leftarrow> receiveDynamicPacket session_handler (net e) n deser parse s;
          if ec = NoError then next packet s else Some s }"

section \<open>The handshake of the client\<close>

definition currentTimeMillis :: "'w host \<Rightarrow> 'w \<Rightarrow> int" where
  "currentTimeMillis e w = (case tr_now (net e) w of (seconds, nanos) \<Rightarrow> seconds * 1000 + int (nanos div 10 ^ 6))"

definition rng :: "'w host \<Rightarrow> 'w \<Rightarrow> nat \<Rightarrow> u8" where
  "rng e w = random_bytes e (fst (tr_now (net e) w))"

text \<open>\<open>completed\<close> is the virtual \<open>handshakeCompleted\<close>.\<close>

definition receiveS2 ::
  "'w host \<Rightarrow> (('w, 'a) rtmp_session_scheme \<Rightarrow> ('w, 'a) rtmp_session_scheme option)
    \<Rightarrow> ('w, 'a) rtmp_session_scheme \<Rightarrow> ('w, 'a) rtmp_session_scheme option" where
  "receiveS2 e completed s =
     receive_then e c1_defaultSize (\<lambda>data. c1_deserialize data new_c1)
       (\<lambda>s2 s. do { s \<leftarrow> completed s; Some (notify_session HandshakeDone s) }) s"

definition sendC2 ::
  "'w host \<Rightarrow> (('w, 'a) rtmp_session_scheme \<Rightarrow> ('w, 'a) rtmp_session_scheme option) \<Rightarrow> handshake_c1
    \<Rightarrow> ('w, 'a) rtmp_session_scheme \<Rightarrow> ('w, 'a) rtmp_session_scheme option" where
  "sendC2 e completed s1 s =
     (let w = sock_world s in
      send_then e (\<lambda>p. c1_data (c2_serialize (rng e w) p)) (new_c2 (currentTimeMillis e w) s1) (receiveS2 e completed) s)"

definition receiveS1 ::
  "'w host \<Rightarrow> (('w, 'a) rtmp_session_scheme \<Rightarrow> ('w, 'a) rtmp_session_scheme option)
    \<Rightarrow> ('w, 'a) rtmp_session_scheme \<Rightarrow> ('w, 'a) rtmp_session_scheme option" where
  "receiveS1 e completed s =
     receive_then e c1_defaultSize (\<lambda>data. c1_deserialize data new_c1) (sendC2 e completed) s"

definition receiveS0 ::
  "'w host \<Rightarrow> (('w, 'a) rtmp_session_scheme \<Rightarrow> ('w, 'a) rtmp_session_scheme option)
    \<Rightarrow> ('w, 'a) rtmp_session_scheme \<Rightarrow> ('w, 'a) rtmp_session_scheme option" where
  "receiveS0 e completed s =
     receive_then e c0_defaultSize (\<lambda>data. Some (c0_deserialize data new_c0))
       (\<lambda>s0 s. if c0_version s0 = session_version then receiveS1 e completed s else Some s) s"

definition sendC1 ::
  "'w host \<Rightarrow> (('w, 'a) rtmp_session_scheme \<Rightarrow> ('w, 'a) rtmp_session_scheme option)
    \<Rightarrow> ('w, 'a) rtmp_session_scheme \<Rightarrow> ('w, 'a) rtmp_session_scheme option" where
  "sendC1 e completed s =
     send_then e (\<lambda>p. c1_data (c1_serialize (rng e (sock_world s)) p)) new_c1 (receiveS0 e completed) s"

definition sendC0 ::
  "'w host \<Rightarrow> (('w, 'a) rtmp_session_scheme \<Rightarrow> ('w, 'a) rtmp_session_scheme option)
    \<Rightarrow> ('w, 'a) rtmp_session_scheme \<Rightarrow> ('w, 'a) rtmp_session_scheme option" where
  "sendC0 e completed s =
     send_then e (\<lambda>p. c0_data (c0_serialize p)) new_c0 (sendC1 e completed) s"

definition client_handshake ::
  "'w host \<Rightarrow> (('w, 'a) rtmp_session_scheme \<Rightarrow> ('w, 'a) rtmp_session_scheme option)
    \<Rightarrow> ('w, 'a) rtmp_session_scheme \<Rightarrow> ('w, 'a) rtmp_session_scheme option" where
  "client_handshake e completed s = sendC0 e completed s"

end
