(* ===== verification/ClientSession.thy ===== *)
theory ClientSession
imports Session
begin

text \<open>
  What the two client sessions share: the settings, the members both declare, the byte rate they compute
  for the metrics, and the lemmas about the requests with a callback. \<open>follows\<close> says how far a plan of
  packets has been sent; it needs nothing from the server.
\<close>

section \<open>Settings\<close>

record session_settings =
  cfg_chunkSize :: u32
  cfg_videoCodecId :: u8
  cfg_soundFormat :: u8
  cfg_soundRate :: u8
  cfg_soundSampleSize :: u8
  cfg_soundType :: u8
  cfg_frameRate :: double
  cfg_audioChannels :: double
  cfg_videoDataRate :: double
  cfg_videoFrameRate :: double
  cfg_width :: double
  cfg_height :: double

definition new_session_settings :: session_settings where
  "new_session_settings = \<lparr> cfg_chunkSize = 16384, cfg_videoCodecId = 7, cfg_soundFormat = 10, cfg_soundRate = 3,
     cfg_soundSampleSize = 1, cfg_soundType = 1, cfg_frameRate = double_of_nat 30,
     cfg_audioChannels = double_of_nat 1, cfg_videoDataRate = double_of_nat (350 * 1024),
     cfg_videoFrameRate = double_of_nat 0, cfg_width = double_of_nat 1280, cfg_height = double_of_nat 720 \<rparr>"

record 'w client_session = "'w rtmp_session" +
  windowAck :: u32
  settings :: session_settings
  media_delegate :: "nat option"

definition new_client_session :: "'w transport \<Rightarrow> 'w \<Rightarrow> session_settings \<Rightarrow> 'w client_session" where
  "new_client_session tr w cfg = rtmp_session.extend (new_rtmp_session tr w)
     \<lparr> windowAck = 0, settings = cfg, media_delegate = None \<rparr>"

definition call_media_delegate :: "notification \<Rightarrow> ('w, 'a) client_session_scheme \<Rightarrow> ('w, 'a) client_session_scheme" where
  "call_media_delegate e s = (case media_delegate s of None \<Rightarrow> s | Some n \<Rightarrow> call n e s)"

definition addMediaDelegate :: "nat \<Rightarrow> ('w, 'a) client_session_scheme \<Rightarrow> ('w, 'a) client_session_scheme" where
  "addMediaDelegate n s = (session_addDelegate n s)\<lparr>media_delegate := Some n\<rparr>"

definition removeMediaDelegate :: "nat \<Rightarrow> ('w, 'a) client_session_scheme \<Rightarrow> ('w, 'a) client_session_scheme" where
  "removeMediaDelegate n s = (session_removeDelegate n s)\<lparr>media_delegate := None\<rparr>"

section \<open>The byte rate\<close>

text \<open>
  \<open>static_cast<std::size_t>(std::ceil((d * 1024) / 8))\<close>: the two factors are powers of two, so the quotient is
  exactly \<open>d * 128\<close>, below the overflow that the cast does not survive either. A negative quotient, an
  infinity and a NaN cannot be cast.
\<close>

definition ceil_div :: "nat \<Rightarrow> nat \<Rightarrow> nat" where
  "ceil_div n k = (n + k - 1) div k"

definition byte_rate :: "double \<Rightarrow> u64 option" where
  "byte_rate d =
     (let x = (unat d div 2 ^ 52) mod 2048; m = unat d mod 2 ^ 52;
          sig = (if x = 0 then m else 2 ^ 52 + m); x = (if x = 0 then 1 else x) in
      if x = 2047 then None
      else if bit d 63 then
        (if sig = 0 \<or> x < 1068 \<and> sig < 2 ^ (1068 - x) then Some 0 else None)
      else let n = (if x < 1068 then ceil_div sig (2 ^ (1068 - x)) else sig * 2 ^ (x - 1068))
           in if n < 2 ^ 64 then Some (word_of_nat n) else None)"

lemma ceil_div_exact: "0 < k \<Longrightarrow> ceil_div (a * k) k = a"
proof -
  assume "0 < k"
  then have "a * k + k - 1 = (k - 1) + a * k" "(k - 1) div k = 0" by simp_all
  with \<open>0 < k\<close> show ?thesis
    unfolding ceil_div_def by (simp only: div_mult_self1 [OF less_imp_neq [THEN not_sym]])
qed

lemma byte_rate_of_nat:
  assumes "n < 2 ^ 53"
  shows "byte_rate (double_of_nat n) = Some (word_of_nat (n * 128))"
proof (cases "n = 0")
  case True
  then show ?thesis by (simp add: byte_rate_def double_of_nat_def ceil_div_def Let_def)
next
  case False
  define m x where "m = n * 2 ^ (52 - ilog2 n) - 2 ^ 52" and "x = ilog2 n"
  have pos: "0 < n" using False by simp
  note f = double_of_nat_fields [OF pos assms, folded m_def x_def]
  have d: "unat (double_of_nat n) div 2 ^ 52 = 1023 + x" and r: "unat (double_of_nat n) mod 2 ^ 52 = m"
    unfolding f(1) using f(2) by (simp_all only: div_mult_self3 div_less mod_mult_self3 mod_less)
  have "unat (double_of_nat n) < 2 ^ 63"
  proof -
    have "(1023 + x) * 2 ^ 52 \<le> (1023 + 52) * 2 ^ 52"
      using f(4) by (intro mult_le_mono1) simp
    with f(1,2) show ?thesis by simp
  qed
  then have "\<not> bit (unat (double_of_nat n)) 63"
    by (simp only: bit_iff_odd div_less) simp
  then have s: "\<not> bit (double_of_nat n) 63"
    by (simp add: bit_unsigned_iff)
  have n: "(if 1023 + x < 1068 then ceil_div (2 ^ 52 + m) (2 ^ (1068 - (1023 + x)))
      else (2 ^ 52 + m) * 2 ^ (1023 + x - 1068)) = n * 128"
  proof (cases "x < 45")
    case True
    then have "52 - x = 7 + (45 - x)" by simp
    then have "2 ^ 52 + m = (n * 128) * 2 ^ (45 - x)"
      unfolding f(3) by (simp only: power_add) simp
    then show ?thesis
      using True by (simp add: ceil_div_exact)
  next
    case False
    have "(52 - x) + (x - 45) = 7" using False f(4) by simp
    then have p: "(2 :: nat) ^ (52 - x) * 2 ^ (x - 45) = 2 ^ 7"
      by (simp only: power_add [symmetric])
    have "(2 ^ 52 + m) * 2 ^ (x - 45) = n * (2 ^ (52 - x) * 2 ^ (x - 45))"
      unfolding f(3) by (simp only: mult.assoc)
    with False show ?thesis
      unfolding p by simp
  qed
  have b: "n * 128 < 2 ^ 64" using assms by simp
  have e: "(unat (double_of_nat n) div 2 ^ 52) mod 2048 = 1023 + x"
    unfolding d using f(4) by simp
  have c: "(1023 + x = 0) = False" "(1023 + x = 2047) = False"
    using f(4) by simp_all
  show ?thesis
    unfolding byte_rate_def Let_def e r by (simp only: c s if_False n b if_True)
qed

section \<open>Notifications leave the connection alone\<close>

lemma session_update_fields [simp]:
  fixes s :: "('w, 'a) rtmp_session_scheme"
  shows "calls (s\<lparr>sock_world := w\<rparr>) = calls s" "calls (s\<lparr>sock_open := b\<rparr>) = calls s"
    "calls (s\<lparr>npmU := m\<rparr>) = calls s" "calls (s\<lparr>npmD := m\<rparr>) = calls s"
    "session_delegates (s\<lparr>npmU := m\<rparr>) = session_delegates s" "session_delegates (s\<lparr>npmD := m\<rparr>) = session_delegates s"
  by (cases s, simp)+

lemma call_fields [simp]:
  fixes s :: "('w, 'a) rtmp_session_scheme"
  shows "sock_world (call n e s) = sock_world s" "sock_open (call n e s) = sock_open s"
    "calls (call n e s) = calls s @ [(n, e)]" "session_delegates (call n e s) = session_delegates s"
    "sock_delegates (call n e s) = sock_delegates s" "npmU (call n e s) = npmU s" "npmD (call n e s) = npmD s"
  by (cases s, simp add: call_def)+

lemma notify_session_fields [simp]:
  fixes s :: "('w, 'a) rtmp_session_scheme"
  shows "sock_world (notify_session e s) = sock_world s" "sock_open (notify_session e s) = sock_open s"
    "calls (notify_session e s) = calls s @ map (\<lambda>n. (n, e)) (session_delegates s)"
    "session_delegates (notify_session e s) = session_delegates s"
proof -
  have "sock_world (fold (\<lambda>n. call n e) q s) = sock_world s \<and> sock_open (fold (\<lambda>n. call n e) q s) = sock_open s \<and>
      calls (fold (\<lambda>n. call n e) q s) = calls s @ map (\<lambda>n. (n, e)) q \<and>
      session_delegates (fold (\<lambda>n. call n e) q s) = session_delegates s" for q
    by (induction q arbitrary: s) simp_all
  then show "sock_world (notify_session e s) = sock_world s" "sock_open (notify_session e s) = sock_open s"
    "calls (notify_session e s) = calls s @ map (\<lambda>n. (n, e)) (session_delegates s)"
    "session_delegates (notify_session e s) = session_delegates s"
    by (simp_all add: notify_session_def)
qed

lemma inert_session_handler: "inert (session_handler :: delegate \<Rightarrow> socket_event \<Rightarrow> ('w, 'a) rtmp_session_scheme \<Rightarrow> _)"
  by (simp add: inert_def session_handler_def session_reconnectionRequired_def socketWillConnect_def Let_def
      split: delegate.split socket_event.split)

section \<open>Socket operations tell the delegates about the socket only\<close>

text \<open>What a socket operation does not touch: the delegates, where the session is connected to, its stream, and its own
  members; and it may close the socket but does not open it.\<close>

definition kept :: "('w, 'a) rtmp_session_scheme
    \<Rightarrow> delegate list \<times> string \<times> string \<times> string \<times> string \<times> nat list \<times> 'a" where
  "kept s = (sock_delegates s, sock_address s, sock_port s, appName s, session_streamName s, session_delegates s,
     rtmp_session.more s)"

definition quiet :: "('w, 'a) rtmp_session_scheme \<Rightarrow> ('w, 'a) rtmp_session_scheme \<Rightarrow> bool" where
  "quiet s s' \<longleftrightarrow> kept s' = kept s \<and> (sock_open s' \<longrightarrow> sock_open s) \<and>
     (\<exists>cs. calls s' = calls s @ cs \<and> (\<forall>(n, e) \<in> set cs. \<exists>ev. e = SocketEvent ev))"

lemma kept_update [simp]:
  fixes s :: "('w, 'a) rtmp_session_scheme"
  shows "kept (s\<lparr>sock_world := w\<rparr>) = kept s" "kept (s\<lparr>sock_open := b\<rparr>) = kept s"
    "kept (s\<lparr>npmU := m\<rparr>) = kept s" "kept (s\<lparr>npmD := m\<rparr>) = kept s" "kept (call n e s) = kept s"
  by (cases s, simp add: kept_def call_def)+

lemma kept_notify_session [simp]: "kept (notify_session e s) = kept s"
proof -
  have "kept (fold (\<lambda>n. call n e) q s) = kept s" for q
    by (induction q arbitrary: s) simp_all
  then show ?thesis by (simp add: notify_session_def)
qed

lemma quiet_refl [simp]: "quiet s s"
  by (simp add: quiet_def)

lemma quiet_same: "calls s' = calls s \<Longrightarrow> kept s' = kept s \<Longrightarrow> (sock_open s' \<Longrightarrow> sock_open s) \<Longrightarrow> quiet s s'"
  by (simp add: quiet_def)

lemma quiet_trans [trans]:
  assumes "quiet s s1" and "quiet s1 s2"
  shows "quiet s s2"
proof -
  from assms obtain c1 c2 where "calls s1 = calls s @ c1" "calls s2 = calls s1 @ c2" "kept s2 = kept s" "sock_open s2 \<longrightarrow> sock_open s"
      "\<forall>(n, e) \<in> set c1. \<exists>ev. e = SocketEvent ev" "\<forall>(n, e) \<in> set c2. \<exists>ev. e = SocketEvent ev"
    unfolding quiet_def by auto
  then show ?thesis
    unfolding quiet_def by (intro conjI exI [of _ "c1 @ c2"]) auto
qed

lemma quiet_handler: "quiet s (session_handler d e s)"
proof (cases d)
  case SessionDelegate
  then show ?thesis
    by (cases e) (simp_all add: session_handler_def session_reconnectionRequired_def socketWillConnect_def Let_def quiet_def)
next
  case (UserDelegate n)
  then show ?thesis by (simp add: session_handler_def quiet_def)
qed

lemma quiet_notify: "quiet s (notify session_handler e s)"
proof -
  have "quiet s (fold (\<lambda>d. session_handler d e) q s)" for q
    by (induction q arbitrary: s) (auto intro: quiet_trans quiet_handler)
  then show ?thesis by (simp add: notify_def)
qed

lemma quiet_close: "quiet s (socket_close session_handler tr s)"
proof (cases "sock_open s")
  case True
  let ?s1 = "notify session_handler WillClose s"
  let ?s2 = "?s1\<lparr>sock_open := False, sock_world := tr_close tr (sock_world ?s1)\<rparr>"
  let ?s3 = "notify session_handler DidClose ?s2"
  have "quiet s ?s1" by (rule quiet_notify)
  also have "quiet ?s1 ?s2" by (rule quiet_same) simp_all
  also have "quiet ?s2 ?s3" by (rule quiet_notify)
  also have "quiet ?s3 (socket_close session_handler tr s)"
    by (rule quiet_same) (simp_all add: socket_close_def True Let_def)
  finally show ?thesis .
qed (simp add: socket_close_def)

lemma quiet_checkError: "quiet s (snd (checkError session_handler tr ec s))"
proof -
  have "quiet s (if asksReconnection ec then notify session_handler ReconnectionRequired s else s)" (is "quiet s ?s1")
    by (simp add: quiet_notify)
  also have "quiet ?s1 (if shouldCloseTheSocket ec then socket_close session_handler tr ?s1 else ?s1)"
    by (simp add: quiet_close)
  finally show ?thesis
    unfolding checkError_def Let_def by simp
qed

lemma quiet_sendData: "sendData session_handler tr data s = (ec, n, s') \<Longrightarrow> quiet s s'"
  by (auto simp: sendData_def sendDataImpl_def Let_def split: prod.splits
      intro: quiet_trans [OF quiet_same quiet_checkError])

lemma quiet_receiveData: "receiveData session_handler tr n s = (ec, k, data, s') \<Longrightarrow> quiet s s'"
  by (auto simp: receiveData_def Let_def split: prod.splits intro: quiet_trans [OF quiet_same quiet_checkError])

section \<open>How far a plan has been sent\<close>

definition started :: "('w, 'a) rtmp_session_scheme \<Rightarrow> nat" where
  "started s = length (filter (\<lambda>c. snd c = SessionStarted) (calls s))"

lemma quiet_started: "quiet s s' \<Longrightarrow> started s' = started s"
  by (fastforce simp: quiet_def started_def filter_empty_conv)

text \<open>
  The packets sent are a prefix of one of the plans, one write each, and the session has not been announced as
  started before all of it had been sent.
\<close>

definition follows ::
  "('w \<Rightarrow> v8 list) \<Rightarrow> v8 list set \<Rightarrow> ('w, 'a) rtmp_session_scheme \<Rightarrow> ('w, 'a) rtmp_session_scheme \<Rightarrow> bool" where
  "follows writes plans s s' \<longleftrightarrow>
     (\<exists>plan \<in> plans. \<exists>k. writes (sock_world s') = writes (sock_world s) @ take k plan \<and>
          (started s' \<noteq> started s \<longrightarrow> take k plan = plan))"

lemma follows_mono: "follows writes plans s s' \<Longrightarrow> plans \<subseteq> plans' \<Longrightarrow> follows writes plans' s s'"
  unfolding follows_def by blast

lemma follows_stop:
  assumes "writes (sock_world s') = writes (sock_world s)" and "quiet s s'" and "plans \<noteq> {}"
  shows "follows writes plans s s'"
proof -
  from assms(3) obtain plan where "plan \<in> plans" by blast
  with assms(1,2) show ?thesis
    unfolding follows_def by (intro bexI [of _ plan] exI [of _ 0]) (simp_all add: quiet_started)
qed

lemma follows_end: "writes (sock_world s') = writes (sock_world s) \<Longrightarrow> follows writes {[]} s s'"
  by (simp add: follows_def)

lemma follows_pre:
  assumes "writes (sock_world s1) = writes (sock_world s)" and "quiet s s1" and "follows writes plans s1 s2"
  shows "follows writes plans s s2"
  using assms by (auto simp: follows_def quiet_started)

lemma follows_send:
  assumes "logs (net e) writes" and "send_then e ser p next s = Some s'" and "plans \<noteq> {}"
    and "\<And>s1. quiet s s1 \<Longrightarrow> next s1 = Some s' \<Longrightarrow> follows writes plans s1 s'"
  shows "follows writes ((#) (ser p) ` plans) s s'"
proof -
  obtain ec n s1 where r: "sendData session_handler (net e) (ser p) s = (ec, n, s1)"
    by (metis prod_cases3)
  have w: "writes (sock_world s1) = writes (sock_world s) @ [ser p]"
    by (rule writes_sendData [OF assms(1) inert_session_handler r])
  have q: "quiet s s1"
    by (rule quiet_sendData [OF r])
  show ?thesis
  proof (cases "ec = NoError")
    case True
    with assms(2) r have "next s1 = Some s'"
      by (simp add: send_then_def sendPacket_def)
    from assms(4) [OF q this] obtain plan k where "plan \<in> plans"
      "writes (sock_world s') = writes (sock_world s1) @ take k plan" "started s' \<noteq> started s1 \<longrightarrow> take k plan = plan"
      unfolding follows_def by blast
    with w quiet_started [OF q] show ?thesis
      unfolding follows_def by (intro bexI [of _ "ser p # plan"] exI [of _ "Suc k"]) simp_all
  next
    case False
    with assms(2) r have "s' = s1"
      by (simp add: send_then_def sendPacket_def)
    moreover from assms(3) obtain plan where "plan \<in> plans" by blast
    ultimately show ?thesis
      using w quiet_started [OF q] unfolding follows_def
      by (intro bexI [of _ "ser p # plan"] exI [of _ 1]) simp_all
  qed
qed

text \<open>Receiving sends nothing; what is sent afterwards may depend on what was received.\<close>

lemma follows_receive:
  assumes "logs (net e) writes" and "receive_then e n deser next s = Some s'" and "plans \<noteq> {}"
    and "\<And>p s1. quiet s s1 \<Longrightarrow> next p s1 = Some s' \<Longrightarrow> follows writes plans s1 s'"
  shows "follows writes plans s s'"
proof -
  obtain ec k data s1 where r: "receiveData session_handler (net e) n s = (ec, k, data, s1)"
    by (metis prod_cases4)
  note w = writes_receiveData [OF assms(1) inert_session_handler r] and q = quiet_receiveData [OF r]
  from assms(2) r obtain p where "(if ec = NoError then next p s1 else Some s1) = Some s'"
    by (auto simp: receive_then_def receivePacket_def bind_Some_iff)
  then show ?thesis
    using follows_pre [OF w q assms(4) [OF q]] follows_stop [OF w q assms(3)] by (simp split: if_splits)
qed

lemma follows_receive_dynamic:
  assumes "logs (net e) writes" and "receive_dynamic_then e n deser parse next s = Some s'" and "plans \<noteq> {}"
    and "\<And>p s1. quiet s s1 \<Longrightarrow> next p s1 = Some s' \<Longrightarrow> follows writes plans s1 s'"
  shows "follows writes plans s s'"
proof -
  obtain ec k data s1 where r: "receiveData session_handler (net e) n s = (ec, k, data, s1)"
    by (metis prod_cases4)
  from assms(2) r obtain m where
    m: "(case receiveData session_handler (net e) m s1 of (ec, n, data, s2) \<Rightarrow>
          \<exists>p. (if ec = NoError then next p s2 else Some s2) = Some s')"
    by (auto simp: receive_dynamic_then_def receiveDynamicPacket_def bind_Some_iff split: prod.splits) blast
  obtain ec' k' data' s2 where r': "receiveData session_handler (net e) m s1 = (ec', k', data', s2)"
    by (metis prod_cases4)
  have w: "writes (sock_world s2) = writes (sock_world s)" and q: "quiet s s2"
    using writes_receiveData [OF assms(1) inert_session_handler r] writes_receiveData [OF assms(1) inert_session_handler r']
      quiet_trans [OF quiet_receiveData [OF r] quiet_receiveData [OF r']] by simp_all
  from m r' obtain p where "(if ec' = NoError then next p s2 else Some s2) = Some s'"
    by auto
  then show ?thesis
    using follows_pre [OF w q assms(4) [OF q]] follows_stop [OF w q assms(3)] by (simp split: if_splits)
qed

lemma follows_if_open:
  assumes "if_open f s = Some s'" and "plans \<noteq> {}" and "f s = Some s' \<Longrightarrow> follows writes plans s s'"
  shows "follows writes plans s s'"
  using assms follows_stop [of writes s s plans] by (simp add: if_open_def split: if_splits)

text \<open>The handshake in front of what \<open>completed\<close> sends.\<close>

definition handshake_plans :: "v8 list set \<Rightarrow> v8 list set" where
  "handshake_plans plans =
     {[RtmpProtocolVersion] # c1 # c2 # plan | c1 c2 plan. length c1 = c1_defaultSize \<and> plan \<in> plans}"

lemma follows_handshake:
  assumes l: "logs (net e) writes" and ne: "plans \<noteq> {}"
    and fin: "\<And>s1 s'. kept s1 = kept s \<Longrightarrow> completed s1 = Some s' \<Longrightarrow> follows writes plans s1 s'"
    and run: "client_handshake e completed s = Some s'"
  shows "follows writes (handshake_plans plans) s s'"
proof -
  have k: "kept s1 = kept s" if "quiet s s1" for s1
    using that by (simp add: quiet_def)
  have s2: "follows writes plans s1 s'" if "quiet s s1" "receiveS2 e completed s1 = Some s'" for s1
  proof (rule follows_receive [OF l that(2) [unfolded receiveS2_def] ne])
    fix p s2
    assume "quiet s1 s2" and r: "do { s \<leftarrow> completed s2; Some (notify_session HandshakeDone s) } = Some s'"
    then obtain t where "completed s2 = Some t" and s': "s' = notify_session HandshakeDone t"
      by (auto simp: bind_Some_iff)
    with fin [OF k [OF quiet_trans [OF that(1) \<open>quiet s1 s2\<close>]]] have "follows writes plans s2 t" by blast
    moreover have "started s' = started t"
      unfolding s' by (simp add: started_def)
    ultimately show "follows writes plans s2 s'"
      by (simp add: follows_def s')
  qed
  let ?p2 = "{c2 # plan | c2 plan. plan \<in> plans}"
  have ne2: "?p2 \<noteq> {}" using ne by auto
  have c2: "follows writes ?p2 s1 s'" if "quiet s s1" "sendC2 e completed p s1 = Some s'" for p s1
    by (rule follows_mono [OF follows_send [OF l that(2) [unfolded sendC2_def Let_def] ne]])
       (auto intro: s2 quiet_trans [OF that(1)])
  have s1: "follows writes ?p2 s1 s'" if "quiet s s1" "receiveS1 e completed s1 = Some s'" for s1
    by (rule follows_receive [OF l that(2) [unfolded receiveS1_def] ne2]) (auto intro: c2 quiet_trans [OF that(1)])
  have s0: "follows writes ?p2 s1 s'" if "quiet s s1" "receiveS0 e completed s1 = Some s'" for s1
    by (rule follows_receive [OF l that(2) [unfolded receiveS0_def] ne2])
       (auto split: if_splits intro: s1 quiet_trans [OF that(1)] follows_stop [OF refl quiet_refl ne2])
  let ?p1 = "{c1 # c2 # plan | c1 c2 plan. length c1 = c1_defaultSize \<and> plan \<in> plans}"
  have ne1: "?p1 \<noteq> {}"
    using ne length_replicate [of c1_defaultSize "0 :: u8"] by blast
  have len: "length (c1_data (c1_serialize (rng e w) new_c1)) = c1_defaultSize" for w
    by (simp add: c1_serialize_def c1_defaultSize_def Let_def)
  have c1: "follows writes ?p1 s1 s'" if "quiet s s1" "sendC1 e completed s1 = Some s'" for s1
    by (rule follows_mono [OF follows_send [OF l that(2) [unfolded sendC1_def] ne2]])
       (use len in \<open>auto intro: s0 quiet_trans [OF that(1)]\<close>)
  have "follows writes ((#) (c0_data (c0_serialize new_c0)) ` ?p1) s s'"
    by (rule follows_send [OF l run [unfolded client_handshake_def sendC0_def] ne1]) (rule c1)
  then show ?thesis
    by (rule follows_mono) (auto simp: handshake_plans_def c0_serialize_def new_c0_def)
qed

end
