(* ===== verification/ClientSetup.thy ===== *)
theory ClientSetup
imports ClientSession
begin

text \<open>
  The requests both client sessions run after the handshake, as one chain. \<open>follows_setup\<close>: whatever the server
  answers and whatever fails, what is sent is a prefix of one plan of packets, in its order, and the session is
  not announced as started before all of it has been sent.
\<close>

section \<open>The plans\<close>

definition chunk_size_packet :: "u32 \<Rightarrow> v8" where
  "chunk_size_packet n = payload (the (set_chunk_size_serialize (set_chunk_size_message n)))"

definition connect_packet :: "'w host \<Rightarrow> string \<Rightarrow> string \<Rightarrow> string \<Rightarrow> v8" where
  "connect_packet e address port app = payload (connect_serialize (dict_order e) (connect_message address port app))"

definition window_ack_packet :: "u32 \<Rightarrow> v8" where
  "window_ack_packet n = payload (window_ack_serialize (window_ack_message n))"

definition create_stream_packet :: "'w host \<Rightarrow> v8" where
  "create_stream_packet e = payload (create_stream_serialize (dict_order e) create_stream_message)"

text \<open>The commands up to the request for the stream, which is \<open>request\<close>.\<close>

definition setup_commands :: "'w host \<Rightarrow> ('w, 'a) client_session_scheme \<Rightarrow> u32 \<Rightarrow> v8 \<Rightarrow> v8 list" where
  "setup_commands e s ack request =
     [chunk_size_packet (cfg_chunkSize (settings s)), connect_packet e (sock_address s) (sock_port s) (appName s),
      window_ack_packet ack, create_stream_packet e, request]"

definition setup_plans :: "'w host \<Rightarrow> ('w, 'a) client_session_scheme \<Rightarrow> v8 \<Rightarrow> v8 list set" where
  "setup_plans e s request = {setup_commands e s ack request | ack. 0 < ack}"

lemma chunk_size_packet: "set_chunk_size_serialize (set_chunk_size_message n) = Some m \<Longrightarrow> payload m = chunk_size_packet n"
  by (simp add: chunk_size_packet_def)

lemma kept_settings:
  fixes s t :: "('w, 'a) client_session_scheme"
  assumes "kept s = kept t"
  shows "settings s = settings t" "session_streamName s = session_streamName t" "sock_address s = sock_address t"
    "sock_port s = sock_port t" "appName s = appName t" "session_delegates s = session_delegates t"
  using assms by (cases s; cases t; simp add: kept_def)+

lemma quiet_kept: "quiet s s1 \<Longrightarrow> kept s1 = kept s"
  by (simp add: quiet_def)

lemma client_update_fields [simp]:
  fixes s :: "('w, 'a) client_session_scheme"
  shows "sock_world (s\<lparr>windowAck := n\<rparr>) = sock_world s" "session_streamName (s\<lparr>windowAck := n\<rparr>) = session_streamName s"
    "calls (s\<lparr>windowAck := n\<rparr>) = calls s" "sock_world (s\<lparr>settings := cfg\<rparr>) = sock_world s"
    "session_streamName (s\<lparr>settings := cfg\<rparr>) = session_streamName s" "calls (s\<lparr>settings := cfg\<rparr>) = calls s"
    "started (s\<lparr>windowAck := n\<rparr>) = started s" "started (s\<lparr>settings := cfg\<rparr>) = started s"
  by (cases s, simp add: started_def)+

lemma follows_update:
  fixes s :: "('w, 'a) client_session_scheme"
  shows "follows writes plans (s\<lparr>settings := cfg\<rparr>) s' \<Longrightarrow> follows writes plans s s'"
    "follows writes plans (s\<lparr>windowAck := n\<rparr>) s' \<Longrightarrow> follows writes plans s s'"
  by (simp_all add: follows_def)

lemma quiet_name:
  fixes s :: "('a, 'b) client_session_scheme"
  shows "quiet s s1 \<Longrightarrow> session_streamName s = n \<Longrightarrow> session_streamName s1 = n"
  using kept_settings(2) [OF quiet_kept [of s s1]] by simp

section \<open>The chain of requests\<close>

text \<open>
  The two client sessions run the same requests from the end of the handshake to the request for their
  stream, each in its own class: \<open>client_setup\<close> is what the two have in common, \<open>request\<close> being the last step,
  \<open>publish\<close> or \<open>play\<close>.
\<close>

locale client_setup =
  fixes sendSetChunkSize :: "'w host \<Rightarrow> ('w, 'a) client_session_scheme \<Rightarrow> ('w, 'a) client_session_scheme option"
    and sendConnectCommandMessage :: "'w host \<Rightarrow> ('w, 'a) client_session_scheme \<Rightarrow> ('w, 'a) client_session_scheme option"
    and receiveWindowAcknowledgeSize :: "'w host \<Rightarrow> ('w, 'a) client_session_scheme \<Rightarrow> ('w, 'a) client_session_scheme option"
    and receiveSetPeerBandWidth :: "'w host \<Rightarrow> ('w, 'a) client_session_scheme \<Rightarrow> ('w, 'a) client_session_scheme option"
    and sendWindowAcknowledgeSize :: "'w host \<Rightarrow> ('w, 'a) client_session_scheme \<Rightarrow> ('w, 'a) client_session_scheme option"
    and receiveSetChunkSize :: "'w host \<Rightarrow> ('w, 'a) client_session_scheme \<Rightarrow> ('w, 'a) client_session_scheme option"
    and receiveConnectionCommandResponse :: "'w host \<Rightarrow> ('w, 'a) client_session_scheme \<Rightarrow> ('w, 'a) client_session_scheme option"
    and sendCreateStreamCommand :: "'w host \<Rightarrow> ('w, 'a) client_session_scheme \<Rightarrow> ('w, 'a) client_session_scheme option"
    and receiveCreateStreamCommandResponse :: "'w host \<Rightarrow> ('w, 'a) client_session_scheme \<Rightarrow> ('w, 'a) client_session_scheme option"
    and request :: "'w host \<Rightarrow> ('w, 'a) client_session_scheme \<Rightarrow> ('w, 'a) client_session_scheme option"
  assumes sendSetChunkSize: "sendSetChunkSize e =
     if_open (\<lambda>s. do { command \<leftarrow> set_chunk_size_serialize (set_chunk_size_message (cfg_chunkSize (settings s)));
                        send_then e payload command (sendConnectCommandMessage e) s })"
    and sendConnectCommandMessage: "sendConnectCommandMessage e =
     if_open (\<lambda>s. send_then e (\<lambda>m. payload (connect_serialize (dict_order e) m))
                   (connect_message (sock_address s) (sock_port s) (appName s)) (receiveWindowAcknowledgeSize e) s)"
    and receiveWindowAcknowledgeSize: "receiveWindowAcknowledgeSize e =
     if_open (receive_then e window_ack_defaultSize (\<lambda>data. window_ack_deserialize data new_window_ack_message)
       (\<lambda>packet s. receiveSetPeerBandWidth e (s\<lparr>windowAck := windowAcknowledgementSize packet\<rparr>)))"
    and receiveSetPeerBandWidth: "receiveSetPeerBandWidth e =
     if_open (receive_then e set_peer_bandwidth_defaultSize
       (\<lambda>data. set_peer_bandwidth_deserialize data new_set_peer_bandwidth_message)
       (\<lambda>packet. sendWindowAcknowledgeSize e))"
    and sendWindowAcknowledgeSize: "sendWindowAcknowledgeSize e =
     if_open (\<lambda>s. if windowAck s \<le> 0 then Some s
       else send_then e (\<lambda>m. payload (window_ack_serialize m)) (window_ack_message (windowAck s))
              (receiveSetChunkSize e) s)"
    and receiveSetChunkSize: "receiveSetChunkSize e =
     if_open (receive_then e set_chunk_size_defaultSize
       (\<lambda>data. set_chunk_size_deserialize data new_set_chunk_size_message)
       (\<lambda>packet s. do { n \<leftarrow> scs_chunkSize packet;
                        receiveConnectionCommandResponse e (s\<lparr>settings := (settings s)\<lparr>cfg_chunkSize := n\<rparr>\<rparr>) }))"
    and receiveConnectionCommandResponse: "receiveConnectionCommandResponse e =
     if_open (receive_dynamic_then e response_headerSize
       (\<lambda>data. response_deserialize data new_connect_message) connect_response_deserialize_payload
       (\<lambda>packet s. if connect_response_isSuccessfull packet then sendCreateStreamCommand e s else Some s))"
    and sendCreateStreamCommand: "sendCreateStreamCommand e =
     if_open (send_then e (\<lambda>m. payload (create_stream_serialize (dict_order e) m)) create_stream_message
                (receiveCreateStreamCommandResponse e))"
    and receiveCreateStreamCommandResponse: "receiveCreateStreamCommandResponse e =
     if_open (receive_dynamic_then e response_headerSize
       (\<lambda>data. response_deserialize data create_stream_message) create_stream_response_deserialize_payload
       (\<lambda>packet s. if create_stream_response_isSuccessfull packet then request e s else Some s))"

text \<open>A last step that sends nothing but the packet \<open>req\<close> of the stream's name, and announces the start after it.\<close>

locale planned_setup = client_setup +
  fixes req :: "string \<Rightarrow> v8"
  assumes request: "logs (net e) writes \<Longrightarrow> request e s = Some s' \<Longrightarrow>
    follows writes {[req (session_streamName s)]} s s'"
begin

lemma follows_create:
  assumes l: "logs (net e) writes" and "receiveSetChunkSize e s = Some s'" and "session_streamName s = n"
  shows "follows writes {[create_stream_packet e, req n]} s s'"
proof -
  let ?req = "req n" and ?cs = "create_stream_packet e"
  note name = quiet_name
  have req: "follows writes {[?req]} s1 s'"
    if "request e s1 = Some s'" "session_streamName s1 = n" for s1
    using request [OF l that(1)] that(2) by simp
  have create: "follows writes {[?req]} s1 s'"
    if "receiveCreateStreamCommandResponse e s1 = Some s'" "session_streamName s1 = n" for s1
    by (rule follows_if_open [OF that(1) [unfolded receiveCreateStreamCommandResponse]], simp,
        rule follows_receive_dynamic [OF l], assumption, simp)
       (auto simp: create_stream_response_isSuccessfull_def intro: req name [OF _ that(2)])
  have create: "follows writes {[?cs, ?req]} s1 s'"
    if "sendCreateStreamCommand e s1 = Some s'" "session_streamName s1 = n" for s1
    by (rule follows_if_open [OF that(1) [unfolded sendCreateStreamCommand]], simp,
        rule follows_mono [OF follows_send [OF l _ _ create]], assumption, simp, assumption)
       (auto simp: create_stream_packet_def intro: name [OF _ that(2)])
  have connected: "follows writes {[?cs, ?req]} s1 s'"
    if "receiveConnectionCommandResponse e s1 = Some s'" "session_streamName s1 = n" for s1
    by (rule follows_if_open [OF that(1) [unfolded receiveConnectionCommandResponse]], simp,
        rule follows_receive_dynamic [OF l], assumption, simp)
       (auto split: if_splits intro: create follows_stop name [OF _ that(2)])
  show ?thesis
    by (rule follows_if_open [OF assms(2) [unfolded receiveSetChunkSize]], simp,
        rule follows_receive [OF l], assumption, simp)
       (auto simp: bind_Some_iff name [OF _ assms(3)] intro!: follows_update(1) [OF connected])
qed

lemma follows_window:
  assumes l: "logs (net e) writes" and "receiveWindowAcknowledgeSize e s = Some s'" and "session_streamName s = n"
  shows "follows writes {[window_ack_packet ack, create_stream_packet e, req n] | ack. 0 < ack} s s'"
proof -
  let ?wa = "{[window_ack_packet ack, create_stream_packet e, req n] | ack. 0 < ack}"
  have ne: "?wa \<noteq> {}" using word_not_simps(3) by (auto intro: exI [of _ 1])
  note name = quiet_name
  have ack: "follows writes ?wa s1 s'"
    if "sendWindowAcknowledgeSize e s1 = Some s'" "session_streamName s1 = n" for s1
  proof (rule follows_if_open [OF that(1) [unfolded sendWindowAcknowledgeSize] ne])
    assume r: "(if windowAck s1 \<le> 0 then Some s1
       else send_then e (\<lambda>m. payload (window_ack_serialize m)) (window_ack_message (windowAck s1))
              (receiveSetChunkSize e) s1) = Some s'"
    show "follows writes ?wa s1 s'"
    proof (cases "windowAck s1 = 0")
      case True
      with r show ?thesis by (auto intro: follows_stop [OF refl quiet_refl ne])
    next
      case False
      with r have "send_then e (\<lambda>m. payload (window_ack_serialize m)) (window_ack_message (windowAck s1))
          (receiveSetChunkSize e) s1 = Some s'"
        by (simp add: word_le_0_iff)
      from follows_send [OF l this _ follows_create [OF l _ name [OF _ that(2)]]] show ?thesis
        by (rule follows_mono) (use False in \<open>auto simp: window_ack_packet_def word_gt_0\<close>)
    qed
  qed
  have bandwidth: "follows writes ?wa s1 s'"
    if "receiveSetPeerBandWidth e s1 = Some s'" "session_streamName s1 = n" for s1
    by (rule follows_if_open [OF that(1) [unfolded receiveSetPeerBandWidth] ne],
        rule follows_receive [OF l _ ne], assumption)
       (auto intro: ack name [OF _ that(2)])
  show ?thesis
    by (rule follows_if_open [OF assms(2) [unfolded receiveWindowAcknowledgeSize] ne],
        rule follows_receive [OF l _ ne], assumption)
       (auto simp: name [OF _ assms(3)] intro!: follows_update(2) [OF bandwidth])
qed

lemma follows_setup:
  assumes l: "logs (net e) writes" and run: "sendSetChunkSize e s = Some s'"
  shows "follows writes (setup_plans e s (req (session_streamName s))) s s'"
proof -
  define n where "n = session_streamName s"
  let ?wa = "{[window_ack_packet ack, create_stream_packet e, req n] | ack. 0 < ack}"
  have ne: "?wa \<noteq> {}" using word_not_simps(3) by (auto intro: exI [of _ 1])
  let ?cn = "(#) (connect_packet e (sock_address s) (sock_port s) (appName s)) ` ?wa"
  have connect: "follows writes ?cn s1 s'" if "sendConnectCommandMessage e s1 = Some s'" "kept s1 = kept s" for s1
  proof (rule follows_if_open [OF that(1) [unfolded sendConnectCommandMessage]])
    assume "send_then e (\<lambda>m. payload (connect_serialize (dict_order e) m))
      (connect_message (sock_address s1) (sock_port s1) (appName s1)) (receiveWindowAcknowledgeSize e) s1 = Some s'"
    from follows_send [OF l this ne follows_window [OF l]] quiet_name [of s1] kept_settings [OF that(2)] show "follows writes ?cn s1 s'"
      by (simp add: connect_packet_def n_def)
  qed (use ne in simp)
  have "follows writes ((#) (chunk_size_packet (cfg_chunkSize (settings s))) ` ?cn) s s'"
  proof (rule follows_if_open [OF run [unfolded sendSetChunkSize]])
    assume "do { command \<leftarrow> set_chunk_size_serialize (set_chunk_size_message (cfg_chunkSize (settings s)));
                 send_then e payload command (sendConnectCommandMessage e) s } = Some s'"
    then obtain m where "set_chunk_size_serialize (set_chunk_size_message (cfg_chunkSize (settings s))) = Some m"
      and r: "send_then e payload m (sendConnectCommandMessage e) s = Some s'"
      by (auto simp: bind_Some_iff)
    from follows_send [OF l r _ connect [OF _ quiet_kept]] ne chunk_size_packet [OF this(1)]
    show "follows writes ((#) (chunk_size_packet (cfg_chunkSize (settings s))) ` ?cn) s s'" by simp
  qed (use ne in simp)
  then show ?thesis
    by (rule follows_mono) (auto simp: setup_plans_def setup_commands_def n_def)
qed

end

end
