(* ===== verification/ClientRun.thy ===== *)
theory ClientRun
imports ClientSetup
begin

text \<open>
  The requests of a client on a network that serves them: rules that follow a request to its callback, the
  replies of a server that accepts the client, and the run of the handshake and of the chain of requests in
  front of them. Also what a server of another version gets.
\<close>

section \<open>Following the requests\<close>

text \<open>\<open>s\<close> stands where \<open>r\<close> stood, apart from the network and the metrics; \<open>ws\<close> has been written and \<open>inb\<close> is
  still to be read.\<close>

definition stands ::
  "('w \<Rightarrow> v8) \<Rightarrow> ('w \<Rightarrow> v8 list) \<Rightarrow> ('w, 'a) socket_scheme \<Rightarrow> v8 list \<Rightarrow> v8 \<Rightarrow> ('w, 'a) socket_scheme \<Rightarrow> bool" where
  "stands pending writes r ws inb s \<longleftrightarrow>
     frame r s \<and> writes (sock_world s) = ws \<and> pending (sock_world s) = inb"

lemma stands_refl: "stands pending writes s (writes (sock_world s)) (pending (sock_world s)) s"
  by (simp add: stands_def)

lemma stands_open: "stands pending writes r ws inb s \<Longrightarrow> sock_open s = sock_open r"
  by (simp add: stands_def frame_def)

lemma stands_session:
  fixes r s :: "('w, 'a) rtmp_session_scheme"
  assumes "stands pending writes r ws inb s"
  shows "kept s = kept r" "calls s = calls r"
  using assms by (cases r; cases s; simp add: stands_def frame_def kept_def)+

lemma stands_client:
  fixes r s :: "('w, 'a) client_session_scheme"
  assumes "stands pending writes r ws inb s"
  shows "windowAck s = windowAck r" "settings s = settings r" "media_delegate s = media_delegate r"
    "client_session.more s = client_session.more r"
  using assms by (cases r; cases s; simp add: stands_def frame_def)+

lemma stands_update:
  fixes r s :: "('w, 'a) client_session_scheme"
  assumes "stands pending writes r ws inb s"
  shows "stands pending writes (r\<lparr>windowAck := n\<rparr>) ws inb (s\<lparr>windowAck := n\<rparr>)"
    and "stands pending writes (r\<lparr>settings := cfg\<rparr>) ws inb (s\<lparr>settings := cfg\<rparr>)"
  using assms by (cases r; cases s; simp add: stands_def frame_def)+

lemma if_open_step:
  assumes "stands pending writes r ws inb s" and "sock_open r" and "\<exists>s'. f s = Some s' \<and> P s'"
  shows "\<exists>s'. if_open f s = Some s' \<and> P s'"
  using assms by (simp add: if_open_def stands_open)

lemma send_step:
  assumes "reliable (net e) pending writes" and "stands pending writes r ws inb s"
    and "\<And>s1. stands pending writes r (ws @ [ser p]) inb s1 \<Longrightarrow> \<exists>s'. next s1 = Some s' \<and> P s'"
  shows "\<exists>s'. send_then e ser p next s = Some s' \<and> P s'"
proof -
  obtain n s1 where r: "sendData session_handler (net e) (ser p) s = (NoError, n, s1)"
    "pending (sock_world s1) = pending (sock_world s)" "writes (sock_world s1) = writes (sock_world s) @ [ser p]"
    "frame s s1"
    using sendData_reliable [OF assms(1)] by blast
  then have "stands pending writes r (ws @ [ser p]) inb s1"
    using assms(2) by (simp add: stands_def frame_def)
  from assms(3) [OF this] r(1) show ?thesis
    by (simp add: send_then_def sendPacket_def)
qed

lemma receive_step:
  assumes "reliable (net e) pending writes" and "stands pending writes r ws (bytes @ inb) s"
    and "length bytes = n" and "deser bytes = Some p"
    and "\<And>s1. stands pending writes r ws inb s1 \<Longrightarrow> \<exists>s'. next p s1 = Some s' \<and> P s'"
  shows "\<exists>s'. receive_then e n deser next s = Some s' \<and> P s'"
proof -
  have "pending (sock_world s) = bytes @ inb"
    using assms(2) by (simp add: stands_def)
  from receiveData_reliable [OF assms(1) this assms(3) [symmetric]] obtain s1 where
    r: "receiveData session_handler (net e) n s = (NoError, n, bytes, s1)" "pending (sock_world s1) = inb"
      "writes (sock_world s1) = writes (sock_world s)" "frame s s1" by blast
  then have "stands pending writes r ws inb s1"
    using assms(2) by (simp add: stands_def frame_def)
  from assms(5) [OF this] r(1) assms(4) show ?thesis
    by (simp add: receive_then_def receivePacket_def)
qed

lemma receive_dynamic_step:
  assumes "reliable (net e) pending writes" and "stands pending writes r ws (hdr @ body @ inb) s"
    and "length hdr = n" and "deser hdr = Some m" and "length body = unat (payloadSize m)"
    and "parse (m\<lparr>payload := body\<rparr>) = Some p"
    and "\<And>s1. stands pending writes r ws inb s1 \<Longrightarrow> \<exists>s'. next p s1 = Some s' \<and> P s'"
  shows "\<exists>s'. receive_dynamic_then e n deser parse next s = Some s' \<and> P s'"
proof -
  have "pending (sock_world s) = hdr @ body @ inb"
    using assms(2) by (simp add: stands_def)
  from receiveData_reliable [OF assms(1) this assms(3) [symmetric]] obtain s1 where
    r: "receiveData session_handler (net e) n s = (NoError, n, hdr, s1)" "pending (sock_world s1) = body @ inb"
      "writes (sock_world s1) = writes (sock_world s)" "frame s s1" by blast
  from receiveData_reliable [OF assms(1) r(2) assms(5) [symmetric]] obtain s2 where
    r2: "receiveData session_handler (net e) (unat (payloadSize m)) s1 = (NoError, unat (payloadSize m), body, s2)"
      "pending (sock_world s2) = inb" "writes (sock_world s2) = writes (sock_world s1)" "frame s1 s2" by blast
  have "stands pending writes r ws inb s2"
    using assms(2) r r2 by (simp add: stands_def frame_def)
  from assms(7) [OF this] r(1) r2(1) assms(4,6) show ?thesis
    by (simp add: receive_dynamic_then_def receiveDynamicPacket_def)
qed

section \<open>The replies of a server\<close>

definition fixed_reply :: "nat \<Rightarrow> (v8 \<Rightarrow> 'p option) \<Rightarrow> ('p \<Rightarrow> bool) \<Rightarrow> v8 \<Rightarrow> bool" where
  "fixed_reply n deser ok bytes \<longleftrightarrow>
     length bytes = n \<and> (case deser bytes of None \<Rightarrow> False | Some p \<Rightarrow> ok p)"

definition dynamic_reply ::
  "(v8 \<Rightarrow> 'm rtmp_message_scheme option) \<Rightarrow> ('m rtmp_message_scheme \<Rightarrow> 'm rtmp_message_scheme option)
    \<Rightarrow> ('m rtmp_message_scheme \<Rightarrow> bool) \<Rightarrow> v8 \<Rightarrow> bool" where
  "dynamic_reply deser parse ok bytes \<longleftrightarrow>
     response_headerSize \<le> length bytes \<and>
     (case deser (take response_headerSize bytes) of
        None \<Rightarrow> False
      | Some m \<Rightarrow> length bytes = response_headerSize + unat (payloadSize m) \<and>
          (case parse (m\<lparr>payload := drop response_headerSize bytes\<rparr>) of None \<Rightarrow> False | Some p \<Rightarrow> ok p))"

text \<open>A server that grants the window \<open>ack\<close>, sets the chunk size and accepts the connection and the stream.\<close>

definition server_accepts :: "u32 \<Rightarrow> u32 \<Rightarrow> v8 \<Rightarrow> v8 \<Rightarrow> v8 \<Rightarrow> v8 \<Rightarrow> v8 \<Rightarrow> bool" where
  "server_accepts ack chunk w b c connected created \<longleftrightarrow>
     fixed_reply window_ack_defaultSize (\<lambda>data. window_ack_deserialize data new_window_ack_message)
       (\<lambda>p. windowAcknowledgementSize p = ack) w \<and>
     fixed_reply set_peer_bandwidth_defaultSize
       (\<lambda>data. set_peer_bandwidth_deserialize data new_set_peer_bandwidth_message) (\<lambda>_. True) b \<and>
     fixed_reply set_chunk_size_defaultSize (\<lambda>data. set_chunk_size_deserialize data new_set_chunk_size_message)
       (\<lambda>p. scs_chunkSize p = Some chunk) c \<and>
     dynamic_reply (\<lambda>data. response_deserialize data new_connect_message) connect_response_deserialize_payload
       connect_response_isSuccessfull connected \<and>
     dynamic_reply (\<lambda>data. response_deserialize data create_stream_message) create_stream_response_deserialize_payload
       (\<lambda>_. True) created"

lemma fixed_step:
  assumes "reliable (net e) pending writes" and "stands pending writes r ws (bytes @ inb) s"
    and "fixed_reply n deser ok bytes"
    and "\<And>p s1. deser bytes = Some p \<Longrightarrow> ok p \<Longrightarrow> stands pending writes r ws inb s1 \<Longrightarrow> \<exists>s'. next p s1 = Some s' \<and> P s'"
  shows "\<exists>s'. receive_then e n deser next s = Some s' \<and> P s'"
proof -
  from assms(3) obtain p where p: "length bytes = n" "deser bytes = Some p" "ok p"
    by (auto simp: fixed_reply_def split: option.splits)
  show ?thesis
    by (rule receive_step [OF assms(1,2) p(1)], rule p(2), rule assms(4) [OF p(2,3)])
qed

lemma dynamic_step:
  assumes "reliable (net e) pending writes" and "stands pending writes r ws (bytes @ inb) s"
    and "dynamic_reply deser parse ok bytes"
    and "\<And>p s1. ok p \<Longrightarrow> stands pending writes r ws inb s1 \<Longrightarrow> \<exists>s'. next p s1 = Some s' \<and> P s'"
  shows "\<exists>s'. receive_dynamic_then e response_headerSize deser parse next s = Some s' \<and> P s'"
proof -
  from assms(3) obtain m p where
    m: "response_headerSize \<le> length bytes" "deser (take response_headerSize bytes) = Some m"
      "length bytes = response_headerSize + unat (payloadSize m)"
      "parse (m\<lparr>payload := drop response_headerSize bytes\<rparr>) = Some p" "ok p"
    by (auto simp: dynamic_reply_def split: option.splits)
  have st: "stands pending writes r ws (take response_headerSize bytes @ drop response_headerSize bytes @ inb) s"
    using assms(2) by (simp only: append_assoc [symmetric] append_take_drop_id)
  show ?thesis
    by (rule receive_dynamic_step [OF assms(1)], rule st, use m(1) in simp, rule m(2), use m(3) in simp, rule m(4),
        rule assms(4) [OF m(5)])
qed

section \<open>The handshake\<close>

text \<open>What is sent of C1 and C2: C1 has zeros for its time and random bytes; C2 has the time of S1, the clock of the client,
  and random bytes of its own, where the protocol asks for those of S1.\<close>

definition handshake_bytes :: "'w host \<Rightarrow> v8 \<Rightarrow> v8 \<Rightarrow> v8 \<Rightarrow> bool" where
  "handshake_bytes e s1 c1 c2 \<longleftrightarrow> (\<exists>w1 w2.
     c1 = replicate 8 0 @ generate (rng e w1) (c1_defaultSize - 8) \<and>
     c2 = take 4 s1 @ toBigEndian32 (word_of_int (currentTimeMillis e w2)) @ generate (rng e w2) (c1_defaultSize - 8))"

lemma handshake_bytes_length:
  assumes "handshake_bytes e s1 c1 c2" and "length s1 = c1_defaultSize"
  shows "length c1 = c1_defaultSize" "length c2 = c1_defaultSize" "take 4 c2 = take 4 s1"
  using assms by (auto simp: handshake_bytes_def c1_defaultSize_def)

lemma handshake_done:
  assumes ok: "reliable (net e) pending writes"
    and p: "pending (sock_world s) = RtmpProtocolVersion # s1 @ s2 @ tail"
    and len: "length s1 = c1_defaultSize" "length s2 = c1_defaultSize"
    and run: "\<And>c1 c2 t. handshake_bytes e s1 c1 c2 \<Longrightarrow>
      stands pending writes s (writes (sock_world s) @ [[RtmpProtocolVersion], c1, c2]) tail t \<Longrightarrow>
      \<exists>s'. completed t = Some s' \<and> P (notify_session HandshakeDone s')"
  shows "\<exists>s'. client_handshake e completed s = Some s' \<and> P s'"
proof -
  define c1 where "c1 w = c1_data (c1_serialize (rng e w) new_c1)" for w
  define p1 where "p1 = new_c1\<lparr>c1_time := take 4 s1, c1_zeros := take 4 (drop 4 s1), c1_random := drop 8 s1\<rparr>"
  define c2 where "c2 w = c1_data (c2_serialize (rng e w) (new_c2 (currentTimeMillis e w) p1))" for w
  have bytes: "handshake_bytes e s1 (c1 u) (c2 v)" for u v
    unfolding handshake_bytes_def using len(1)
    by (intro exI [of _ u] exI [of _ v])
       (simp add: c1_def c1_serialize_def c2_def c2_serialize_def new_c1_def new_c2_def p1_def c1_defaultSize_def Let_def
         toBigEndian32_def numeral_eq_Suc)
  have d: "c1_deserialize s1 new_c1 = Some p1"
    unfolding p1_def by (rule c1_deserialize_1536 [OF len(1)]) simp_all
  note d2 = c1_deserialize_1536 [OF len(2), of new_c1, OF new_c1_lengths]
  let ?ws = "writes (sock_world s)"
  have s2: "\<exists>s'. receiveS2 e completed t = Some s' \<and> P s'"
    if "stands pending writes s (?ws @ [[RtmpProtocolVersion], c1 u, c2 v]) (s2 @ tail) t"
    for t :: "('a, 'b) rtmp_session_scheme" and u v
    unfolding receiveS2_def
    by (rule receive_step [OF ok that len(2)], rule d2)
       (use run [OF bytes] in \<open>force simp: bind_Some_iff\<close>)
  have c2: "\<exists>s'. sendC2 e completed p1 t = Some s' \<and> P s'"
    if "stands pending writes s (?ws @ [[RtmpProtocolVersion], c1 u]) (s2 @ tail) t"
    for t :: "('a, 'b) rtmp_session_scheme" and u
    unfolding sendC2_def Let_def
    by (rule send_step [OF ok that], rule s2 [of u "sock_world t"]) (simp add: c2_def)
  have s1: "\<exists>s'. receiveS1 e completed t = Some s' \<and> P s'"
    if "stands pending writes s (?ws @ [[RtmpProtocolVersion], c1 u]) (s1 @ s2 @ tail) t"
    for t :: "('a, 'b) rtmp_session_scheme" and u
    unfolding receiveS1_def by (rule receive_step [OF ok that len(1)], rule d) (rule c2)
  have s0: "\<exists>s'. receiveS0 e completed t = Some s' \<and> P s'"
    if "stands pending writes s (?ws @ [[RtmpProtocolVersion], c1 u]) ([RtmpProtocolVersion] @ s1 @ s2 @ tail) t"
    for t :: "('a, 'b) rtmp_session_scheme" and u
    unfolding receiveS0_def
    by (rule receive_step [OF ok that]) (auto simp: c0_defaultSize_def c0_deserialize_def session_version_def intro: s1)
  have c1': "\<exists>s'. sendC1 e completed t = Some s' \<and> P s'"
    if "stands pending writes s (?ws @ [[RtmpProtocolVersion]]) ([RtmpProtocolVersion] @ s1 @ s2 @ tail) t"
    for t :: "('a, 'b) rtmp_session_scheme"
    unfolding sendC1_def by (rule send_step [OF ok that], rule s0 [of "sock_world t"]) (simp add: c1_def)
  have "stands pending writes s ?ws ([RtmpProtocolVersion] @ s1 @ s2 @ tail) s"
    using p by (simp add: stands_def)
  then show ?thesis
    unfolding client_handshake_def sendC0_def
    by (rule send_step [OF ok], intro c1') (simp add: c0_serialize_def new_c0_def)
qed

section \<open>The chain of requests\<close>

context client_setup begin

lemma setup_done:
  assumes ok: "reliable (net e) pending writes" and op: "sock_open r"
    and st: "stands pending writes r ws (w @ b @ c @ connected @ created @ tail) s"
    and srv: "server_accepts ack chunk w b c connected created" and ack: "0 < ack"
    and run: "\<And>t. stands pending writes (r\<lparr>windowAck := ack, settings := (settings r)\<lparr>cfg_chunkSize := chunk\<rparr>\<rparr>)
        (ws @ [chunk_size_packet (cfg_chunkSize (settings r)), connect_packet e (sock_address r) (sock_port r) (appName r),
          window_ack_packet ack, create_stream_packet e]) tail t \<Longrightarrow> \<exists>s'. request e t = Some s' \<and> P s'"
  shows "\<exists>s'. sendSetChunkSize e s = Some s' \<and> P s'"
proof -
  let ?r1 = "r\<lparr>windowAck := ack\<rparr>"
  let ?r2 = "?r1\<lparr>settings := (settings r)\<lparr>cfg_chunkSize := chunk\<rparr>\<rparr>"
  let ?w1 = "ws @ [chunk_size_packet (cfg_chunkSize (settings r))]"
  let ?w2 = "?w1 @ [connect_packet e (sock_address r) (sock_port r) (appName r)]"
  let ?w3 = "?w2 @ [window_ack_packet ack]"
  let ?w4 = "?w3 @ [create_stream_packet e]"
  have op1: "sock_open ?r1" and op2: "sock_open ?r2" and s1: "settings ?r1 = settings r"
    using op by (cases r, simp)+
  note rest = srv [unfolded server_accepts_def, THEN conjunct2]
  note w = srv [unfolded server_accepts_def, THEN conjunct1] and b = rest [THEN conjunct1]
    and c = rest [THEN conjunct2, THEN conjunct1] and con = rest [THEN conjunct2, THEN conjunct2, THEN conjunct1]
    and cre = rest [THEN conjunct2, THEN conjunct2, THEN conjunct2]
  have created: "\<exists>s'. receiveCreateStreamCommandResponse e t = Some s' \<and> P s'"
    if t: "stands pending writes ?r2 ?w4 (created @ tail) t" for t
    unfolding receiveCreateStreamCommandResponse
    by (rule if_open_step [OF t op2], rule dynamic_step [OF ok t cre])
       (use run in \<open>auto simp: create_stream_response_isSuccessfull_def\<close>)
  have create: "\<exists>s'. sendCreateStreamCommand e t = Some s' \<and> P s'"
    if t: "stands pending writes ?r2 ?w3 (created @ tail) t" for t
    unfolding sendCreateStreamCommand
    by (rule if_open_step [OF t op2], rule send_step [OF ok t], rule created) (simp add: create_stream_packet_def)
  have connected: "\<exists>s'. receiveConnectionCommandResponse e t = Some s' \<and> P s'"
    if t: "stands pending writes ?r2 ?w3 (connected @ created @ tail) t" for t
    unfolding receiveConnectionCommandResponse
    by (rule if_open_step [OF t op2], rule dynamic_step [OF ok t con]) (use create in auto)
  have chunks: "\<exists>s'. receiveSetChunkSize e t = Some s' \<and> P s'"
    if t: "stands pending writes ?r1 ?w3 (c @ connected @ created @ tail) t" for t
    unfolding receiveSetChunkSize
    by (rule if_open_step [OF t op1], rule fixed_step [OF ok t c])
       (use s1 in \<open>auto intro!: connected dest: stands_update(2) simp: stands_client(2)\<close>)
  have window: "\<exists>s'. sendWindowAcknowledgeSize e t = Some s' \<and> P s'"
    if t: "stands pending writes ?r1 ?w2 (c @ connected @ created @ tail) t" for t
  proof -
    have n: "windowAck t = ack" "(ack \<le> 0) = False"
      using stands_client(1) [OF t] ack by simp_all
    show ?thesis
      unfolding sendWindowAcknowledgeSize
      by (rule if_open_step [OF t op1], simp only: n if_False)
         (rule send_step [OF ok t], rule chunks, simp add: window_ack_packet_def)
  qed
  have bandwidth: "\<exists>s'. receiveSetPeerBandWidth e t = Some s' \<and> P s'"
    if t: "stands pending writes ?r1 ?w2 (b @ c @ connected @ created @ tail) t" for t
    unfolding receiveSetPeerBandWidth
    by (rule if_open_step [OF t op1], rule fixed_step [OF ok t b]) (use window in auto)
  have acked: "\<exists>s'. receiveWindowAcknowledgeSize e t = Some s' \<and> P s'"
    if t: "stands pending writes r ?w2 (w @ b @ c @ connected @ created @ tail) t" for t
    unfolding receiveWindowAcknowledgeSize
    by (rule if_open_step [OF t op], rule fixed_step [OF ok t w])
       (auto intro!: bandwidth dest: stands_update(1))
  have connect: "\<exists>s'. sendConnectCommandMessage e t = Some s' \<and> P s'"
    if t: "stands pending writes r ?w1 (w @ b @ c @ connected @ created @ tail) t" for t
    unfolding sendConnectCommandMessage
    by (rule if_open_step [OF t op], rule send_step [OF ok t], rule acked)
       (simp add: connect_packet_def kept_settings [OF stands_session(1) [OF t]])
  show ?thesis
  proof (unfold sendSetChunkSize, rule if_open_step [OF st op])
    have cfg: "settings s = settings r"
      by (rule stands_client(2) [OF st])
    obtain m where m: "set_chunk_size_serialize (set_chunk_size_message (cfg_chunkSize (settings r))) = Some m"
      by (simp add: set_chunk_size_serialize_def set_chunk_size_message_def)
    show "\<exists>s'. do { command \<leftarrow> set_chunk_size_serialize (set_chunk_size_message (cfg_chunkSize (settings s)));
        send_then e payload command (sendConnectCommandMessage e) s } = Some s' \<and> P s'"
      unfolding cfg m using send_step [OF ok st, of payload m "sendConnectCommandMessage e" P] connect chunk_size_packet [OF m]
      by simp
  qed
qed

lemma session_done:
  assumes ok: "reliable (net e) pending writes" and op: "sock_open s"
    and p: "pending (sock_world s) = RtmpProtocolVersion # s1 @ s2 @ w @ b @ c @ connected @ created @ tail"
    and len: "length s1 = c1_defaultSize" "length s2 = c1_defaultSize"
    and srv: "server_accepts ack chunk w b c connected created" and ack: "0 < ack"
    and run: "\<And>c1 c2 u. handshake_bytes e s1 c1 c2 \<Longrightarrow>
      stands pending writes (s\<lparr>windowAck := ack, settings := (settings s)\<lparr>cfg_chunkSize := chunk\<rparr>\<rparr>)
        ((writes (sock_world s) @ [[RtmpProtocolVersion], c1, c2])
          @ [chunk_size_packet (cfg_chunkSize (settings s)), connect_packet e (sock_address s) (sock_port s) (appName s),
             window_ack_packet ack, create_stream_packet e]) tail u \<Longrightarrow>
      \<exists>s'. request e u = Some s' \<and> P (notify_session HandshakeDone s')"
  shows "\<exists>s'. client_handshake e (sendSetChunkSize e) s = Some s' \<and> P s'"
proof (rule handshake_done [OF ok p len])
  fix c1 c2 t
  assume c: "handshake_bytes e s1 c1 c2"
    and t: "stands pending writes s (writes (sock_world s) @ [[RtmpProtocolVersion], c1, c2])
      (w @ b @ c @ connected @ created @ tail) t"
  show "\<exists>s'. sendSetChunkSize e t = Some s' \<and> P (notify_session HandshakeDone s')"
    by (rule setup_done [OF ok op t srv ack]) (rule run [OF c])
qed

end

section \<open>A server of another version\<close>

text \<open>A server that answers with another version gets nothing more; but the connection stays open, the rest
  of what it sent is not read, and nobody is told: the session just stops where it is.\<close>

theorem handshake_version_mismatch:
  assumes ok: "reliable (net e) pending writes" and p: "pending (sock_world s) = v # tail"
    and v: "v \<noteq> RtmpProtocolVersion"
  shows "\<exists>s' c1. client_handshake e completed s = Some s' \<and> length c1 = c1_defaultSize \<and>
    writes (sock_world s') = writes (sock_world s) @ [[RtmpProtocolVersion], c1] \<and>
    pending (sock_world s') = tail \<and> sock_open s' = sock_open s \<and> calls s' = calls s"
proof -
  define P where "P s' \<longleftrightarrow> (\<exists>c1. length c1 = c1_defaultSize \<and>
    writes (sock_world s') = writes (sock_world s) @ [[RtmpProtocolVersion], c1] \<and>
    pending (sock_world s') = tail \<and> sock_open s' = sock_open s \<and> calls s' = calls s)"
    for s' :: "('a, 'b) rtmp_session_scheme"
  have s0: "\<exists>s'. receiveS0 e completed t = Some s' \<and> P s'"
    if "stands pending writes s (writes (sock_world s) @ [[RtmpProtocolVersion], d]) ([v] @ tail) t"
      "length d = c1_defaultSize" for t :: "('a, 'b) rtmp_session_scheme" and d
    unfolding receiveS0_def
  proof (rule receive_step [OF ok that(1)])
    fix u
    assume u: "stands pending writes s (writes (sock_world s) @ [[RtmpProtocolVersion], d]) tail u"
    then have "P u"
      using that(2) stands_open [OF u] stands_session [OF u] by (auto simp: P_def stands_def)
    then show "\<exists>s'. (if c0_version (c0_deserialize [v] new_c0) = session_version then receiveS1 e completed u else Some u) = Some s' \<and> P s'"
      using v by (simp add: c0_deserialize_def session_version_def Let_def)
  qed (simp_all add: c0_defaultSize_def)
  have c1: "\<exists>s'. sendC1 e completed t = Some s' \<and> P s'"
    if "stands pending writes s (writes (sock_world s) @ [[RtmpProtocolVersion]]) ([v] @ tail) t" for t :: "('a, 'b) rtmp_session_scheme"
    unfolding sendC1_def
    by (rule send_step [OF ok that], rule s0 [where d = "c1_data (c1_serialize (rng e (sock_world t)) new_c1)"])
       (simp_all add: c1_serialize_def c1_defaultSize_def Let_def)
  have "stands pending writes s (writes (sock_world s)) ([v] @ tail) s"
    using p by (simp add: stands_def)
  then have "\<exists>s'. client_handshake e completed s = Some s' \<and> P s'"
    unfolding client_handshake_def sendC0_def
    by (rule send_step [OF ok], intro c1) (simp add: c0_serialize_def new_c0_def)
  then show ?thesis
    unfolding P_def by blast
qed

section \<open>Delegates and stream names\<close>

lemma session_handler_calls [simp]:
  fixes s :: "('w, 'a) rtmp_session_scheme"
  shows "calls (session_handler (UserDelegate n) e s) = calls s @ [(n, SocketEvent e)]"
    "calls (session_handler SessionDelegate e s) =
       calls s @ (if e = ReconnectionRequired then map (\<lambda>n. (n, SocketEvent e)) (session_delegates s) else [])"
    "session_delegates (session_handler d e s) = session_delegates s"
    "sock_delegates (session_handler d e s) = sock_delegates s"
proof -
  have q: "sock_delegates (notify_session v s) = sock_delegates s" for v
  proof -
    have "sock_delegates (fold (\<lambda>n. call n v) q s) = sock_delegates s" for q
      by (induction q arbitrary: s) simp_all
    then show ?thesis by (simp add: notify_session_def)
  qed
  have "sock_delegates (socketWillConnect s) = sock_delegates s"
    by (cases s) (simp add: socketWillConnect_def Let_def)
  with q show "sock_delegates (session_handler d e s) = sock_delegates s"
    by (cases d; cases e) (simp_all add: session_handler_def session_reconnectionRequired_def)
qed (cases d; cases e; simp add: session_handler_def session_reconnectionRequired_def socketWillConnect_def Let_def)+

lemma session_close_fields [simp]:
  fixes s :: "('w, 'a) rtmp_session_scheme"
  shows "session_delegates (s\<lparr>sock_world := w\<rparr>) = session_delegates s"
    "session_delegates (s\<lparr>sock_open := b\<rparr>) = session_delegates s"
  by (cases s, simp)+

text \<open>A delegate of a session is registered twice, on the session and on its socket: when the connection
  breaks it is asked to reconnect twice, and then told once that the socket closes and has closed.\<close>

theorem reconnection_twice:
  fixes s0 :: "('w, 'a) rtmp_session_scheme"
  assumes "s = socket_addDelegate SessionDelegate (socket_removeDelegate SessionDelegate (session_addDelegate n s0))"
    and "sock_delegates s0 = []" and "session_delegates s0 = []" and "sock_open s"
    and "tr_read tr k (sock_world s) = (ec, got, w)" and "asksReconnection ec"
    and "receiveData session_handler tr k s = (ec', k', data, s')"
  shows "\<not> sock_open s' \<and> calls s' = calls s0 @
    map (Pair n) [SocketEvent ReconnectionRequired, SocketEvent ReconnectionRequired, SocketEvent WillClose, SocketEvent DidClose]"
proof -
  have s: "sock_delegates s = [UserDelegate n, SessionDelegate]" "session_delegates s = [n]" "calls s = calls s0"
    unfolding assms(1) using assms(2,3)
    by (cases s0, simp add: socket_addDelegate_def socket_removeDelegate_def session_addDelegate_def addDelegate_def)+
  define t where "t = s\<lparr>sock_world := w, npmD := updateData (tr_now tr w) (word_of_nat (length got)) (npmD s)\<rparr>"
  have t: "sock_delegates t = [UserDelegate n, SessionDelegate]" "session_delegates t = [n]" "calls t = calls s0" "sock_open t"
    using s assms(4) by (cases s, simp add: t_def)+
  have c: "shouldCloseTheSocket ec"
    using assms(6) by (auto simp: shouldCloseTheSocket_def asksReconnection_def)
  have s': "s' = snd (checkError session_handler tr ec t)"
    using assms(7) by (auto simp: receiveData_def assms(5) t_def Let_def)
  define u where "u = notify session_handler ReconnectionRequired t"
  have u: "sock_delegates u = [UserDelegate n, SessionDelegate]" "session_delegates u = [n]" "sock_open u"
    "calls u = calls s0 @ [(n, SocketEvent ReconnectionRequired), (n, SocketEvent ReconnectionRequired)]"
    using notify_inert [OF inert_session_handler, of ReconnectionRequired t] t by (simp_all add: u_def notify_def)
  have su: "s' = socket_close session_handler tr u"
    by (simp add: s' checkError_def assms(6) c Let_def u_def)
  have "calls s' = calls u @ [(n, SocketEvent WillClose), (n, SocketEvent DidClose)]"
    unfolding su by (simp add: socket_close_def u(3) Let_def notify_def u(1,2))
  with u show ?thesis
    using socket_close_closed [OF inert_session_handler, of tr u] by (simp add: su)
qed

theorem reconnection_twice_witness:
  "\<exists>ec k data s'. receiveData session_handler script_transport 1
      ((socket_addDelegate SessionDelegate (socket_removeDelegate SessionDelegate (session_addDelegate 4
         (new_rtmp_session script_transport \<lparr>inbox = [], outbox = []\<rparr>))))\<lparr>sock_open := True\<rparr>) = (ec, k, data, s') \<and>
     calls s' = map (Pair 4) [SocketEvent ReconnectionRequired, SocketEvent ReconnectionRequired,
       SocketEvent WillClose, SocketEvent DidClose]"
proof -
  let ?new = "(new_rtmp_session script_transport \<lparr>inbox = [], outbox = []\<rparr>)\<lparr>sock_open := True\<rparr>"
  let ?s = "socket_addDelegate SessionDelegate (socket_removeDelegate SessionDelegate (session_addDelegate 4 ?new))"
  note defs = socket_addDelegate_def socket_removeDelegate_def session_addDelegate_def addDelegate_def
    new_rtmp_session_def new_socket_def rtmp_session.defs socket.defs
  have s: "?s = (socket_addDelegate SessionDelegate (socket_removeDelegate SessionDelegate (session_addDelegate 4
         (new_rtmp_session script_transport \<lparr>inbox = [], outbox = []\<rparr>))))\<lparr>sock_open := True\<rparr>"
    by (simp add: defs)
  have f: "sock_delegates ?new = []" "session_delegates ?new = []" "calls ?new = []" "sock_open ?s"
    "sock_world ?s = \<lparr>inbox = [], outbox = []\<rparr>"
    by (simp_all add: defs)
  obtain ec k data s' where r: "receiveData session_handler script_transport 1 ?s = (ec, k, data, s')"
    by (metis prod_cases4)
  have "tr_read script_transport 1 (sock_world ?s) = (EndOfFile, [], \<lparr>inbox = [], outbox = []\<rparr>)"
    unfolding f by (simp add: script_transport_def)
  from reconnection_twice [OF refl f(1,2,4) this _ r] f(3) r show ?thesis
    unfolding s by (auto simp: asksReconnection_def)
qed

lemma split_slash_no: "CHR ''/'' \<notin> set a \<Longrightarrow> split_slash a = [a]"
  by (induction a) auto

lemma split_slash_nonempty [simp]: "split_slash a \<noteq> []"
  by (induction a) (auto split: list.split)

lemma split_slash_app: "CHR ''/'' \<notin> set a \<Longrightarrow> split_slash (a @ CHR ''/'' # b) = a # split_slash b"
  by (induction a) auto

lemma last_split_slash: "CHR ''/'' \<notin> set b \<Longrightarrow> last (split_slash (a @ CHR ''/'' # b)) = b"
proof (induction a)
  case Nil
  then show ?case by (simp add: split_slash_no)
next
  case (Cons c cs)
  show ?case
  proof (cases "split_slash (cs @ CHR ''/'' # b)")
    case (Cons t ts)
    have "ts \<noteq> []"
      using Cons by (induction cs arbitrary: t ts) (auto split: if_splits list.splits)
    with Cons Cons.IH Cons.prems show ?thesis by auto
  qed simp
qed

text \<open>The application is what stands before the first slash, the stream what stands after the last one, and
  without a slash both are the whole name: the parts of a path in between are dropped.\<close>

theorem extract_names:
  assumes "CHR ''/'' \<notin> set app" and "CHR ''/'' \<notin> set name"
  shows "appName (extractAppNameAndStreamID (app @ ''/'' @ mid @ ''/'' @ name) s) = app \<and>
    session_streamName (extractAppNameAndStreamID (app @ ''/'' @ mid @ ''/'' @ name) s) = name \<and>
    session_streamName (extractAppNameAndStreamID (app @ ''/'' @ name) s) = name \<and>
    appName (extractAppNameAndStreamID app s) = app \<and> session_streamName (extractAppNameAndStreamID app s) = app"
proof -
  have "last (split_slash (app @ ''/'' @ mid @ ''/'' @ name)) = name" "last (split_slash (app @ ''/'' @ name)) = name"
    using last_split_slash [OF assms(2), of "app @ ''/'' @ mid"] last_split_slash [OF assms(2), of app] by simp_all
  moreover have "hd (split_slash (app @ ''/'' @ mid @ ''/'' @ name)) = app"
    using split_slash_app [OF assms(1)] by simp
  ultimately show ?thesis
    using split_slash_no [OF assms(1)] by (simp add: extractAppNameAndStreamID_def Let_def)
qed

theorem extract_names_witness:
  "session_streamName (extractAppNameAndStreamID ''live/room/cam'' (new_rtmp_session script_transport \<lparr>inbox = [], outbox = []\<rparr>)) = ''cam'' \<and>
   appName (extractAppNameAndStreamID ''live/room/cam'' (new_rtmp_session script_transport \<lparr>inbox = [], outbox = []\<rparr>)) = ''live''"
  using extract_names [of "''live''" "''cam''" "''room''" "new_rtmp_session script_transport \<lparr>inbox = [], outbox = []\<rparr>"] by simp

section \<open>A sample server\<close>

definition sample_host :: "script host" where
  "sample_host = \<lparr> net = script_transport, random_bytes = (\<lambda>t i. word_of_nat i), dict_order = (\<lambda>d. d) \<rparr>"

definition sample_client :: "v8 \<Rightarrow> script client_session" where
  "sample_client bytes = (addMediaDelegate 7
     (new_client_session script_transport \<lparr> inbox = bytes, outbox = [] \<rparr> new_session_settings))
     \<lparr>sock_open := True, sock_address := ''host'', sock_port := ''1935'', appName := ''live'', session_streamName := ''cam''\<rparr>"

lemma sample_host [simp]: "net sample_host = script_transport"
  by (simp add: sample_host_def)

lemma sample_client [simp]:
  "inbox (sock_world (sample_client bytes)) = bytes" "outbox (sock_world (sample_client bytes)) = []"
  "sock_open (sample_client bytes)" "calls (sample_client bytes) = []" "session_delegates (sample_client bytes) = [7]"
  "session_streamName (sample_client bytes) = ''cam''" "settings (sample_client bytes) = new_session_settings"
  by (simp_all add: sample_client_def addMediaDelegate_def session_addDelegate_def socket_addDelegate_def addDelegate_def
      new_client_session_def new_rtmp_session_def new_socket_def client_session.defs rtmp_session.defs socket.defs)

definition reply_of :: "variant list \<Rightarrow> v8" where
  "reply_of vs = (let body = concat (map serializeVariant vs)
                  in write_header12 new_rtmp_message (word_of_nat (length body)) @ body)"

definition reply_window :: v8 where
  "reply_window = write_header12 new_rtmp_message 4 @ toBigEndian32 2500000"

definition reply_bandwidth :: v8 where
  "reply_bandwidth = write_header12 new_rtmp_message 5 @ toBigEndian32 2500000 @ [2]"

definition reply_chunk :: v8 where
  "reply_chunk = write_header12 new_rtmp_message 4 @ toBigEndian32 4096"

definition reply_connected :: v8 where
  "reply_connected = reply_of [val_string ''_result'', val_number (double_of_nat 1),
     ObjectVariant [(''fmsVer'', StringVariant ''FMS'')],
     ObjectVariant [(''level'', StringVariant ''status''), (''code'', StringVariant ''NetConnection.Connect.Success'')]]"

definition reply_created :: v8 where
  "reply_created = reply_of [val_string ''_result'', val_number (double_of_nat 2), val_null, val_number (double_of_nat 1)]"

definition reply_status :: v8 where
  "reply_status = reply_of [val_string ''onStatus'', val_number (double_of_nat 0), val_null,
     ObjectVariant [(''level'', StringVariant ''status'')]]"

lemma dynamic_reply_of:
  assumes "\<forall>v \<in> set vs. variant_ok v" and "length (concat (map serializeVariant vs)) < 2 ^ 24"
    and "\<And>m. deserialize (payload m) = Some vs \<Longrightarrow> commandObject m = commandObject m0 \<Longrightarrow>
      rtmp_message.more m = rtmp_message.more m0 \<Longrightarrow> \<exists>p. parse m = Some p \<and> ok p"
  shows "dynamic_reply (\<lambda>data. response_deserialize data m0) parse ok (reply_of vs)"
proof -
  let ?body = "concat (map serializeVariant vs)"
  let ?m = "m0\<lparr>timestamp := timestamp new_rtmp_message, payloadSize := word_of_nat (length ?body),
    tag_type := tag_type new_rtmp_message, streamID := streamID new_rtmp_message\<rparr>"
  have n: "unat (word_of_nat (length ?body) :: u32) = length ?body"
    using assms(2) by (simp add: unsigned_of_nat take_bit_nat_eq_self)
  have h: "response_deserialize (write_header12 new_rtmp_message (word_of_nat (length ?body))) m0 = Some ?m"
    using read_header12_write [of new_rtmp_message "word_of_nat (length ?body)" "[]" m0] n assms(2)
    by (simp add: response_deserialize_def control_defs)
  have "deserialize ?body = Some vs"
    by (rule amf0.decs_encs [OF assms(1)])
  moreover have "payload (?m\<lparr>payload := ?body\<rparr>) = ?body" "commandObject (?m\<lparr>payload := ?body\<rparr>) = commandObject m0"
    "rtmp_message.more (?m\<lparr>payload := ?body\<rparr>) = rtmp_message.more m0" "payloadSize ?m = word_of_nat (length ?body)"
    by (cases m0, simp)+
  ultimately obtain p where "parse (?m\<lparr>payload := ?body\<rparr>) = Some p" "ok p"
    using assms(3) by metis
  moreover have "take response_headerSize (reply_of vs) = write_header12 new_rtmp_message (word_of_nat (length ?body))"
    "drop response_headerSize (reply_of vs) = ?body" "length (reply_of vs) = response_headerSize + length ?body"
    by (simp_all add: reply_of_def response_headerSize_def Let_def)
  ultimately show ?thesis
    using n h \<open>payloadSize ?m = word_of_nat (length ?body)\<close> by (simp add: dynamic_reply_def)
qed

lemmas reply_defs = serializeObject_def serializeString_def serializeNumber_def serializeNullObject_def
  amf_fromNumber_def object_ok_def dict_ok_def key_ok_def string_ok_def

lemma tx_to_word [simp]: "n < 256 \<Longrightarrow> (double_to_word (double_of_nat n) :: u8 option) = Some (word_of_nat n)"
  by (rule double_to_word_of_nat) simp_all

lemma sample_connected:
  "dynamic_reply (\<lambda>data. response_deserialize data new_connect_message) connect_response_deserialize_payload
     connect_response_isSuccessfull reply_connected"
  unfolding reply_connected_def
proof (rule dynamic_reply_of)
  fix m :: rtmp_connect_message
  assume "deserialize (payload m) = Some [val_string ''_result'', val_number (double_of_nat 1),
      ObjectVariant [(''fmsVer'', StringVariant ''FMS'')],
      ObjectVariant [(''level'', StringVariant ''status''), (''code'', StringVariant ''NetConnection.Connect.Success'')]]"
    and "commandObject m = commandObject new_connect_message"
    and "rtmp_message.more m = rtmp_message.more new_connect_message"
  then show "\<exists>p. connect_response_deserialize_payload m = Some p \<and> connect_response_isSuccessfull p"
    by (cases m) (simp add: connect_response_deserialize_payload_def connect_response_value_def setTransactionID_def
        connect_response_isSuccessfull_def command_defs)
qed (simp_all add: reply_defs)

lemma sample_created:
  "dynamic_reply (\<lambda>data. response_deserialize data create_stream_message) create_stream_response_deserialize_payload
     (\<lambda>_. True) reply_created"
  unfolding reply_created_def
proof (rule dynamic_reply_of)
  fix m :: rtmp_command_message
  assume "deserialize (payload m) = Some [val_string ''_result'', val_number (double_of_nat 2), val_null,
      val_number (double_of_nat 1)]"
  then show "\<exists>p. create_stream_response_deserialize_payload m = Some p \<and> True"
    by (cases m) (simp add: create_stream_response_deserialize_payload_def response_value_def setTransactionID_def)
qed (simp_all add: reply_defs)

lemma sample_status:
  "dynamic_reply (\<lambda>data. response_deserialize data new_command_message) onstatus_response_deserialize_payload
     onstatus_response_isSuccessfull reply_status"
  unfolding reply_status_def
proof (rule dynamic_reply_of)
  fix m :: rtmp_command_message
  assume "deserialize (payload m) = Some [val_string ''onStatus'', val_number (double_of_nat 0), val_null,
      ObjectVariant [(''level'', StringVariant ''status'')]]"
    and "commandObject m = commandObject new_command_message"
  then show "\<exists>p. onstatus_response_deserialize_payload m = Some p \<and> onstatus_response_isSuccessfull p"
    by (cases m) (simp add: onstatus_response_deserialize_payload_def response_value_def setTransactionID_def
        onstatus_response_isSuccessfull_def command_defs)
qed (simp_all add: reply_defs)

lemma sample_server: "server_accepts 2500000 4096 reply_window reply_bandwidth reply_chunk reply_connected reply_created"
proof -
  have "iter_slice 5 (toBigEndian32 n @ [x]) = Some (toBigEndian32 n @ [x])" for n and x :: u8
    using iter_slice_append [of 5 "toBigEndian32 n @ [x]" "[]"] by simp
  moreover have "fromBigEndian32 (toBigEndian32 n @ [x]) = fromBigEndian32 (toBigEndian32 n)" for n and x :: u8
    by (simp add: fromBigEndian32_def nth_append)
  moreover have "iter_slice 4 (toBigEndian32 n) = Some (toBigEndian32 n)" for n
    using iter_slice_append [of 4 "toBigEndian32 n" "[]"] by simp
  moreover have "timestamp new_rtmp_message = 0"
    by (simp add: control_defs)
  ultimately show ?thesis
    unfolding server_accepts_def
    by (simp add: fixed_reply_def sample_connected sample_created reply_window_def reply_bandwidth_def reply_chunk_def
        window_ack_defaultSize_def set_peer_bandwidth_defaultSize_def set_chunk_size_defaultSize_def
        set_peer_bandwidth_deserialize_def window_ack_deserialize_def set_chunk_size_deserialize_def read_header12_write)
qed

theorem handshake_version_mismatch_witness:
  "\<exists>s' c1. client_handshake sample_host Some (sample_client (6 # replicate 3072 0)) = Some s' \<and>
     outbox (sock_world s') = [[3], c1] \<and> sock_open s' \<and> calls s' = []"
proof -
  have "reliable (net sample_host) inbox outbox"
    by (simp add: script_reliable)
  moreover have "inbox (sock_world (sample_client (6 # replicate 3072 0))) = 6 # replicate 3072 0"
    by (rule sample_client)
  moreover have "(6 :: u8) \<noteq> RtmpProtocolVersion"
    by (simp add: RtmpProtocolVersion_def)
  ultimately show ?thesis
    using handshake_version_mismatch [of sample_host inbox outbox "sample_client (6 # replicate 3072 0)" 6
        "replicate 3072 0" Some]
    by (auto simp: RtmpProtocolVersion_def simp del: replicate.simps)
qed

text \<open>A server that hangs up at once.\<close>

lemma handshake_hang_up:
  fixes s :: "(script, 'a) rtmp_session_scheme"
  assumes "inbox (sock_world s) = []"
  shows "\<exists>s'. client_handshake sample_host completed s = Some s'"
proof -
  obtain n1 s1 where 1: "sendData session_handler script_transport (c0_data (c0_serialize new_c0)) s = (NoError, n1, s1)"
      "inbox (sock_world s1) = []"
    using sendData_reliable [OF script_reliable, of session_handler "c0_data (c0_serialize new_c0)" s] assms by auto
  obtain n2 s2 where 2: "sendData session_handler script_transport
      (c1_data (c1_serialize (rng sample_host (sock_world s1)) new_c1)) s1 = (NoError, n2, s2)" "inbox (sock_world s2) = []"
    using sendData_reliable [OF script_reliable, of session_handler
        "c1_data (c1_serialize (rng sample_host (sock_world s1)) new_c1)" s1] 1(2) by auto
  obtain ec k data s3 where 3: "receiveData session_handler script_transport 1 s2 = (ec, k, data, s3)" "ec \<noteq> NoError"
    using receiveData_dead [OF script_dead inert_session_handler 2(2), of 1] by auto
  show ?thesis
    by (simp add: client_handshake_def sendC0_def sendC1_def receiveS0_def send_then_def receive_then_def sendPacket_def
        receivePacket_def 1(1) 2(1) 3 c0_defaultSize_def del: One_nat_def)
qed

text \<open>What the sample server sends up to the published or playing stream.\<close>

definition sample_replies :: "v8 list \<Rightarrow> v8" where
  "sample_replies final = RtmpProtocolVersion # replicate c1_defaultSize 1 @ replicate c1_defaultSize 2 @ reply_window
     @ reply_bandwidth @ reply_chunk @ reply_connected @ reply_created @ concat final"

end
