(* ===== verification/Broadcaster.thy ===== *)
theory Broadcaster
imports ClientRun
begin

text \<open>
  \<open>RtmpBroadcasterSession\<close>: what follows the handshake up to the published stream, and the media messages
  it sends then. The steps stand in the reverse order of the code: each one calls the next.
\<close>

section \<open>From the handshake to the published stream\<close>

definition broadcaster_sessionReady ::
  "'w host \<Rightarrow> ('w, 'a) client_session_scheme \<Rightarrow> ('w, 'a) client_session_scheme" where
  "broadcaster_sessionReady e s =
     (if \<not> sock_open s then s
      else let s = s\<lparr>npmU := metrics_start (tr_now (net e) (sock_world s)) (npmU s)\<rparr>
           in notify_session SessionStarted s)"

definition broadcaster_receiveOnStatusCommandResponse ::
  "'w host \<Rightarrow> ('w, 'a) client_session_scheme \<Rightarrow> ('w, 'a) client_session_scheme option" where
  "broadcaster_receiveOnStatusCommandResponse e =
     if_open (receive_dynamic_then e response_headerSize
       (\<lambda>data. response_deserialize data new_command_message) onstatus_response_deserialize_payload
       (\<lambda>packet s. Some
          (if onstatus_response_isSuccessfull packet then broadcaster_sessionReady e s
           else socket_close session_handler (net e) (notify_session (SocketEvent ReconnectionRequired) s))))"

definition broadcaster_sendPublishCommand ::
  "'w host \<Rightarrow> ('w, 'a) client_session_scheme \<Rightarrow> ('w, 'a) client_session_scheme option" where
  "broadcaster_sendPublishCommand e =
     if_open (\<lambda>s. send_then e (\<lambda>m. payload (publish_serialize m)) (publish_message (session_streamName s))
                   (broadcaster_receiveOnStatusCommandResponse e) s)"

definition broadcaster_receiveCreateStreamCommandResponse ::
  "'w host \<Rightarrow> ('w, 'a) client_session_scheme \<Rightarrow> ('w, 'a) client_session_scheme option" where
  "broadcaster_receiveCreateStreamCommandResponse e =
     if_open (receive_dynamic_then e response_headerSize
       (\<lambda>data. response_deserialize data create_stream_message) create_stream_response_deserialize_payload
       (\<lambda>packet s. if create_stream_response_isSuccessfull packet then broadcaster_sendPublishCommand e s else Some s))"

definition broadcaster_sendCreateStreamCommand ::
  "'w host \<Rightarrow> ('w, 'a) client_session_scheme \<Rightarrow> ('w, 'a) client_session_scheme option" where
  "broadcaster_sendCreateStreamCommand e =
     if_open (send_then e (\<lambda>m. payload (create_stream_serialize (dict_order e) m)) create_stream_message
                (broadcaster_receiveCreateStreamCommandResponse e))"

definition broadcaster_receiveConnectionCommandResponse ::
  "'w host \<Rightarrow> ('w, 'a) client_session_scheme \<Rightarrow> ('w, 'a) client_session_scheme option" where
  "broadcaster_receiveConnectionCommandResponse e =
     if_open (receive_dynamic_then e response_headerSize
       (\<lambda>data. response_deserialize data new_connect_message) connect_response_deserialize_payload
       (\<lambda>packet s. if connect_response_isSuccessfull packet then broadcaster_sendCreateStreamCommand e s else Some s))"

text \<open>The chunk size the server announces replaces the session's own one, which the server was told before.\<close>

definition broadcaster_receiveSetChunkSize ::
  "'w host \<Rightarrow> ('w, 'a) client_session_scheme \<Rightarrow> ('w, 'a) client_session_scheme option" where
  "broadcaster_receiveSetChunkSize e =
     if_open (receive_then e set_chunk_size_defaultSize
       (\<lambda>data. set_chunk_size_deserialize data new_set_chunk_size_message)
       (\<lambda>packet s. do { n \<leftarrow> scs_chunkSize packet;
                        broadcaster_receiveConnectionCommandResponse e
                          (s\<lparr>settings := (settings s)\<lparr>cfg_chunkSize := n\<rparr>\<rparr>) }))"

definition broadcaster_sendWindowAcknowledgeSize ::
  "'w host \<Rightarrow> ('w, 'a) client_session_scheme \<Rightarrow> ('w, 'a) client_session_scheme option" where
  "broadcaster_sendWindowAcknowledgeSize e =
     if_open (\<lambda>s. if windowAck s \<le> 0 then Some s
       else send_then e (\<lambda>m. payload (window_ack_serialize m)) (window_ack_message (windowAck s))
              (broadcaster_receiveSetChunkSize e) s)"

definition broadcaster_receiveSetPeerBandWidth ::
  "'w host \<Rightarrow> ('w, 'a) client_session_scheme \<Rightarrow> ('w, 'a) client_session_scheme option" where
  "broadcaster_receiveSetPeerBandWidth e =
     if_open (receive_then e set_peer_bandwidth_defaultSize
       (\<lambda>data. set_peer_bandwidth_deserialize data new_set_peer_bandwidth_message)
       (\<lambda>packet. broadcaster_sendWindowAcknowledgeSize e))"

definition broadcaster_receiveWindowAcknowledgeSize ::
  "'w host \<Rightarrow> ('w, 'a) client_session_scheme \<Rightarrow> ('w, 'a) client_session_scheme option" where
  "broadcaster_receiveWindowAcknowledgeSize e =
     if_open (receive_then e window_ack_defaultSize (\<lambda>data. window_ack_deserialize data new_window_ack_message)
       (\<lambda>packet s. broadcaster_receiveSetPeerBandWidth e (s\<lparr>windowAck := windowAcknowledgementSize packet\<rparr>)))"

definition broadcaster_sendConnectCommandMessage ::
  "'w host \<Rightarrow> ('w, 'a) client_session_scheme \<Rightarrow> ('w, 'a) client_session_scheme option" where
  "broadcaster_sendConnectCommandMessage e =
     if_open (\<lambda>s. send_then e (\<lambda>m. payload (connect_serialize (dict_order e) m))
                   (connect_message (sock_address s) (sock_port s) (appName s))
                   (broadcaster_receiveWindowAcknowledgeSize e) s)"

definition broadcaster_sendSetChunkSize ::
  "'w host \<Rightarrow> ('w, 'a) client_session_scheme \<Rightarrow> ('w, 'a) client_session_scheme option" where
  "broadcaster_sendSetChunkSize e =
     if_open (\<lambda>s. do { command \<leftarrow> set_chunk_size_serialize (set_chunk_size_message (cfg_chunkSize (settings s)));
                        send_then e payload command (broadcaster_sendConnectCommandMessage e) s })"

definition broadcaster_handshakeCompleted ::
  "'w host \<Rightarrow> ('w, 'a) client_session_scheme \<Rightarrow> ('w, 'a) client_session_scheme option" where
  "broadcaster_handshakeCompleted e s = broadcaster_sendSetChunkSize e s"

text \<open>\<open>start\<close> and \<open>handshake\<close> of a broadcaster, with the virtual functions resolved.\<close>

definition broadcaster_handshake ::
  "'w host \<Rightarrow> ('w, 'a) client_session_scheme \<Rightarrow> ('w, 'a) client_session_scheme option" where
  "broadcaster_handshake e = client_handshake e (broadcaster_handshakeCompleted e)"

definition broadcaster_start ::
  "'w host \<Rightarrow> string \<Rightarrow> string \<Rightarrow> string \<Rightarrow> ('w, 'a) client_session_scheme \<Rightarrow> ('w, 'a) client_session_scheme option" where
  "broadcaster_start e address port stream = session_start_joined e (broadcaster_handshake e) address port stream"

definition publish_packet :: "string \<Rightarrow> v8" where
  "publish_packet name = payload (publish_serialize (publish_message name))"

lemma follows_publish:
  assumes l: "logs (net e) writes" and run: "broadcaster_sendPublishCommand e s = Some s'"
  shows "follows writes {[publish_packet (session_streamName s)]} s s'"
proof -
  have status: "follows writes {[]} s1 s'" if "broadcaster_receiveOnStatusCommandResponse e s1 = Some s'"
    for s1 :: "('a, 'b) client_session_scheme"
  proof (rule follows_if_open [OF that [unfolded broadcaster_receiveOnStatusCommandResponse_def]])
    assume "receive_dynamic_then e response_headerSize (\<lambda>data. response_deserialize data new_command_message)
      onstatus_response_deserialize_payload (\<lambda>packet s. Some
        (if onstatus_response_isSuccessfull packet then broadcaster_sessionReady e s
         else socket_close session_handler (net e) (notify_session (SocketEvent ReconnectionRequired) s))) s1 = Some s'"
    from l this show "follows writes {[]} s1 s'"
      by (rule follows_receive_dynamic)
         (use l in \<open>auto simp: broadcaster_sessionReady_def socket_close_inert [OF inert_session_handler] logs_def Let_def
            intro!: follows_end\<close>)
  qed simp
  show ?thesis
  proof (rule follows_if_open [OF run [unfolded broadcaster_sendPublishCommand_def]])
    assume "send_then e (\<lambda>m. payload (publish_serialize m)) (publish_message (session_streamName s))
      (broadcaster_receiveOnStatusCommandResponse e) s = Some s'"
    from follows_send [OF l this _ status] show
      "follows writes {[publish_packet (session_streamName s)]} s s'" by (simp add: publish_packet_def)
  qed simp
qed

interpretation publishing: planned_setup broadcaster_sendSetChunkSize broadcaster_sendConnectCommandMessage
  broadcaster_receiveWindowAcknowledgeSize broadcaster_receiveSetPeerBandWidth broadcaster_sendWindowAcknowledgeSize
  broadcaster_receiveSetChunkSize broadcaster_receiveConnectionCommandResponse broadcaster_sendCreateStreamCommand
  broadcaster_receiveCreateStreamCommandResponse broadcaster_sendPublishCommand publish_packet
  by unfold_locales
     (simp_all add: follows_publish broadcaster_sendSetChunkSize_def broadcaster_sendConnectCommandMessage_def
        broadcaster_receiveWindowAcknowledgeSize_def broadcaster_receiveSetPeerBandWidth_def
        broadcaster_sendWindowAcknowledgeSize_def broadcaster_receiveSetChunkSize_def
        broadcaster_receiveConnectionCommandResponse_def broadcaster_sendCreateStreamCommand_def
        broadcaster_receiveCreateStreamCommandResponse_def)

lemma broadcaster_ready:
  fixes r t :: "('w, 'a) client_session_scheme"
  assumes "reliable (net e) pending writes" and "sock_open r"
    and t: "stands pending writes r ws (status @ tail) t"
    and "dynamic_reply (\<lambda>data. response_deserialize data new_command_message) onstatus_response_deserialize_payload
      onstatus_response_isSuccessfull status"
  shows "\<exists>s'. broadcaster_sendPublishCommand e t = Some s' \<and>
    writes (sock_world s') = ws @ [publish_packet (session_streamName r)] \<and> pending (sock_world s') = tail \<and>
    sock_open s' \<and> kept s' = kept r \<and> calls s' = calls r @ map (\<lambda>n. (n, SessionStarted)) (session_delegates r)"
    (is "\<exists>s'. _ \<and> ?P s'")
proof -
  have status: "\<exists>s'. broadcaster_receiveOnStatusCommandResponse e u = Some s' \<and> ?P s'"
    if u: "stands pending writes r (ws @ [publish_packet (session_streamName r)]) (status @ tail) u" for u
    unfolding broadcaster_receiveOnStatusCommandResponse_def
  proof (rule if_open_step [OF u assms(2)], rule dynamic_step [OF assms(1) u assms(4)])
    fix p v
    assume p: "onstatus_response_isSuccessfull p"
      and v: "stands pending writes r (ws @ [publish_packet (session_streamName r)]) tail v"
    note v' = stands_open [OF v] stands_session [OF v] kept_settings(6) [OF stands_session(1) [OF v]]
    show "\<exists>s'. Some (if onstatus_response_isSuccessfull p then broadcaster_sessionReady e v
         else socket_close session_handler (net e) (notify_session (SocketEvent ReconnectionRequired) v)) = Some s' \<and> ?P s'"
      using p v v' assms(2) by (simp add: broadcaster_sessionReady_def Let_def stands_def)
  qed
  show ?thesis
    unfolding broadcaster_sendPublishCommand_def
    by (rule if_open_step [OF t assms(2)], rule send_step [OF assms(1) t], rule status)
       (simp add: publish_packet_def kept_settings [OF stands_session(1) [OF t]])
qed

text \<open>C9: whatever the server answers and whatever fails, a broadcaster that starts its handshake sends a prefix of
  one plan, in its order: version, C1 and C2, its chunk size, connect, a window acknowledgement of a
  positive size, createStream, publish; and it does not announce the session as started before it has sent
  all of them.\<close>

theorem broadcaster_plan:
  assumes "logs (net e) writes" and "broadcaster_handshake e s = Some s'"
  shows "follows writes (handshake_plans (setup_plans e s (publish_packet (session_streamName s)))) s s'"
proof -
  have "follows writes (setup_plans e s (publish_packet (session_streamName s))) s1 s2"
    if "kept s1 = kept s" "broadcaster_handshakeCompleted e s1 = Some s2" for s1 s2
    using publishing.follows_setup [OF assms(1) that(2) [unfolded broadcaster_handshakeCompleted_def]]
    by (simp add: setup_plans_def setup_commands_def kept_settings [OF that(1)])
  with assms show ?thesis
    unfolding broadcaster_handshake_def by (intro follows_handshake) (auto simp: setup_plans_def intro: exI [of _ 1])
qed

theorem broadcaster_plan_witness:
  "\<exists>s'. broadcaster_handshake sample_host (sample_client []) = Some s' \<and>
     follows outbox (handshake_plans (setup_plans sample_host (sample_client []) (publish_packet ''cam''))) (sample_client []) s'"
proof -
  obtain s' where s': "broadcaster_handshake sample_host (sample_client []) = Some s'"
    using handshake_hang_up [of "sample_client []"] unfolding broadcaster_handshake_def by auto
  have "logs (net sample_host) outbox"
    using script_reliable by (simp add: reliable_def)
  from broadcaster_plan [OF this s'] s' show ?thesis by simp
qed

text \<open>C8: on a network that works, with a server that accepts the client, the handshake of a broadcaster runs to
  the published stream: it sends the version, C1 (eight zeros and random bytes), C2 (the time of S1, its own clock, and
  random bytes of its own where the protocol asks for those of S1), its chunk size, connect, the window, createStream and
  publish, in this order and nothing else; every byte of the replies is read and no more, the delegates
  hear that the session has started before they hear that the handshake is done, and from then on the session
  cuts its media into chunks of the size the server announced, while the server was told its own.\<close>

theorem broadcaster_established:
  assumes "reliable (net e) pending writes" and "sock_open s"
    and "pending (sock_world s) = RtmpProtocolVersion # s1 @ s2 @ w @ b @ c @ connected @ created @ status @ tail"
    and "length s1 = c1_defaultSize" and "length s2 = c1_defaultSize"
    and "server_accepts ack chunk w b c connected created" and "0 < ack"
    and "dynamic_reply (\<lambda>data. response_deserialize data new_command_message) onstatus_response_deserialize_payload
      onstatus_response_isSuccessfull status"
  shows "\<exists>s' c1 c2 w1 w2. broadcaster_handshake e s = Some s' \<and> sock_open s' \<and> pending (sock_world s') = tail \<and>
    c1 = replicate 8 0 @ generate (rng e w1) (c1_defaultSize - 8) \<and>
    c2 = take 4 s1 @ toBigEndian32 (word_of_int (currentTimeMillis e w2)) @ generate (rng e w2) (c1_defaultSize - 8) \<and>
    writes (sock_world s') = writes (sock_world s) @ [[RtmpProtocolVersion], c1, c2]
      @ setup_commands e s ack (publish_packet (session_streamName s)) \<and>
    cfg_chunkSize (settings s') = chunk \<and>
    calls s' = calls s @ map (\<lambda>n. (n, SessionStarted)) (session_delegates s)
      @ map (\<lambda>n. (n, HandshakeDone)) (session_delegates s)"
proof -
  define P where "P s' \<longleftrightarrow> (\<exists>c1 c2 w1 w2. sock_open s' \<and> pending (sock_world s') = tail \<and>
    c1 = replicate 8 0 @ generate (rng e w1) (c1_defaultSize - 8) \<and>
    c2 = take 4 s1 @ toBigEndian32 (word_of_int (currentTimeMillis e w2)) @ generate (rng e w2) (c1_defaultSize - 8) \<and>
    writes (sock_world s') = writes (sock_world s) @ [[RtmpProtocolVersion], c1, c2]
      @ setup_commands e s ack (publish_packet (session_streamName s)) \<and>
    cfg_chunkSize (settings s') = chunk \<and>
    calls s' = calls s @ map (\<lambda>n. (n, SessionStarted)) (session_delegates s)
      @ map (\<lambda>n. (n, HandshakeDone)) (session_delegates s))" for s' :: "('a, 'b) client_session_scheme"
  let ?r = "s\<lparr>windowAck := ack, settings := (settings s)\<lparr>cfg_chunkSize := chunk\<rparr>\<rparr>"
  have r: "sock_open ?r" "session_streamName ?r = session_streamName s" "calls ?r = calls s"
      "session_delegates ?r = session_delegates s" "cfg_chunkSize (settings ?r) = chunk"
    using assms(2) by (cases s, simp)+
  have "\<exists>s'. client_handshake e (broadcaster_sendSetChunkSize e) s = Some s' \<and> P s'"
  proof (rule publishing.session_done [OF assms(1-7)])
    fix c1 c2 u
    assume bytes: "handshake_bytes e s1 c1 c2"
      and u: "stands pending writes ?r ((writes (sock_world s) @ [[RtmpProtocolVersion], c1, c2])
        @ [chunk_size_packet (cfg_chunkSize (settings s)), connect_packet e (sock_address s) (sock_port s) (appName s),
           window_ack_packet ack, create_stream_packet e]) (status @ tail) u"
    from broadcaster_ready [OF assms(1) r(1) u assms(8)] obtain s' where
      s': "broadcaster_sendPublishCommand e u = Some s'" "pending (sock_world s') = tail" "sock_open s'" "kept s' = kept ?r"
        "writes (sock_world s') = ((writes (sock_world s) @ [[RtmpProtocolVersion], c1, c2])
          @ [chunk_size_packet (cfg_chunkSize (settings s)), connect_packet e (sock_address s) (sock_port s) (appName s),
             window_ack_packet ack, create_stream_packet e]) @ [publish_packet (session_streamName s)]"
        "calls s' = calls s @ map (\<lambda>n. (n, SessionStarted)) (session_delegates s)"
      unfolding r by blast
    from bytes obtain w1 w2 where "c1 = replicate 8 0 @ generate (rng e w1) (c1_defaultSize - 8)"
      "c2 = take 4 s1 @ toBigEndian32 (word_of_int (currentTimeMillis e w2)) @ generate (rng e w2) (c1_defaultSize - 8)"
      unfolding handshake_bytes_def by blast
    with s' kept_settings [OF s'(4)] r have "P (notify_session HandshakeDone s')"
      unfolding P_def by (intro exI [of _ c1] exI [of _ c2] exI [of _ w1] exI [of _ w2]) (simp add: setup_commands_def kept_settings [OF kept_notify_session])
    with s'(1) show "\<exists>s'. broadcaster_sendPublishCommand e u = Some s' \<and> P (notify_session HandshakeDone s')" by blast
  qed
  then have "\<exists>s'. broadcaster_handshake e s = Some s' \<and> P s'"
    by (simp add: broadcaster_handshake_def broadcaster_handshakeCompleted_def [abs_def])
  then show ?thesis
    unfolding P_def by blast
qed

theorem broadcaster_established_witness:
  "\<exists>s'. broadcaster_handshake sample_host (sample_client (sample_replies [reply_status])) = Some s' \<and>
     length (outbox (sock_world s')) = 8 \<and> last (outbox (sock_world s')) = publish_packet ''cam'' \<and>
     calls s' = [(7, SessionStarted), (7, HandshakeDone)] \<and> cfg_chunkSize (settings s') = 4096"
proof -
  let ?s = "sample_client (sample_replies [reply_status])"
  have "inbox (sock_world ?s) = RtmpProtocolVersion # replicate c1_defaultSize 1 @ replicate c1_defaultSize 2
      @ reply_window @ reply_bandwidth @ reply_chunk @ reply_connected @ reply_created @ reply_status @ []"
    by (simp add: sample_replies_def)
  moreover have "reliable (net sample_host) inbox outbox"
    by (simp add: script_reliable)
  ultimately show ?thesis
    using broadcaster_established [OF _ _ _ length_replicate length_replicate sample_server _ sample_status,
        of sample_host inbox outbox ?s 1 2 "[]"]
    by (auto simp: setup_commands_def simp del: replicate.simps)
qed

section \<open>Media\<close>

definition broadcaster_sendOnMetaDataTag ::
  "'w host \<Rightarrow> flv_amf_tag \<Rightarrow> ('w, 'a) client_session_scheme \<Rightarrow> ('w, 'a) client_session_scheme option" where
  "broadcaster_sendOnMetaDataTag e mediaTag =
     if_open (\<lambda>s. do { let command = metadata_message_of_tag mediaTag;
                        currentByteRate \<leftarrow> byte_rate (videodatarate (metadata command));
                        let s = updateCurrentMetrics currentByteRate s;
                        send_then e (\<lambda>m. payload (metadata_message_serialize (dict_order e) m)) command Some s })"

text \<open>The width is set twice, the second time to the height of the settings.\<close>

definition broadcaster_sendOnMetaDataMessage ::
  "'w host \<Rightarrow> ('w, 'a) client_session_scheme \<Rightarrow> ('w, 'a) client_session_scheme option" where
  "broadcaster_sendOnMetaDataMessage e =
     if_open (\<lambda>s. do { let cfg = settings s;
                        let tag = new_flv_amf_tag;
                        let tag = tag\<lparr>width := cfg_width cfg\<rparr>;
                        let tag = tag\<lparr>width := cfg_height cfg\<rparr>;
                        let tag = tag\<lparr>audiochannels := cfg_audioChannels cfg, framerate := cfg_frameRate cfg,
                                      videodatarate := cfg_videoDataRate cfg, videoframerate := cfg_videoFrameRate cfg\<rparr>;
                        let command = metadata_message_of_tag tag;
                        currentByteRate \<leftarrow> byte_rate (cfg_videoDataRate cfg);
                        let s = updateCurrentMetrics currentByteRate s;
                        send_then e (\<lambda>m. payload (metadata_message_serialize (dict_order e) m)) command Some s })"

text \<open>The loop over the packets of a tag: it stops when the socket is closed, and closes it on any error.\<close>

fun send_packets ::
  "'w host \<Rightarrow> ('p \<Rightarrow> v8) \<Rightarrow> 'p list \<Rightarrow> ('w, 'a) rtmp_session_scheme \<Rightarrow> ('w, 'a) rtmp_session_scheme" where
  "send_packets e ser [] s = s"
| "send_packets e ser (packet # packets) s =
     (if \<not> sock_open s then s
      else (case sendPacket session_handler (net e) ser packet s of
              (ec, n, s) \<Rightarrow>
                send_packets e ser packets (if ec = NoError then s else socket_close session_handler (net e) s)))"

definition broadcaster_sendAudioTag ::
  "'w host \<Rightarrow> flv_audio_tag \<Rightarrow> ('w, 'a) client_session_scheme \<Rightarrow> ('w, 'a) client_session_scheme option" where
  "broadcaster_sendAudioTag e mediaTag =
     if_open (\<lambda>s. do { packets \<leftarrow> newChunkedAudio (cfg_chunkSize (settings s)) mediaTag;
                        Some (send_packets e (\<lambda>p. payload (audio_message_serialize p)) packets s) })"

definition broadcaster_sendAudioMessage ::
  "'w host \<Rightarrow> u32 \<Rightarrow> v8 \<Rightarrow> bool \<Rightarrow> ('w, 'a) client_session_scheme \<Rightarrow> ('w, 'a) client_session_scheme option" where
  "broadcaster_sendAudioMessage e ts data isParam =
     if_open (\<lambda>s. do { let cfg = settings s;
                        let tag = new_flv_audio_tag\<lparr>timestamp := ts, soundFormat := Some (cfg_soundFormat cfg),
                                    soundRate := Some (cfg_soundRate cfg),
                                    soundSampleSize := Some (cfg_soundSampleSize cfg),
                                    soundType := Some (cfg_soundType cfg), payload := data\<rparr>;
                        tag \<leftarrow> (if \<not> isParam then flv_audio_updateMedataData tag
                                 else Some (tag\<lparr>payloadSize := word_of_nat (length (payload tag))\<rparr>));
                        packets \<leftarrow> newChunkedAudio (cfg_chunkSize cfg) tag;
                        Some (send_packets e (\<lambda>p. payload (audio_message_serialize p)) packets s) })"

definition broadcaster_sendVideoTag ::
  "'w host \<Rightarrow> flv_video_tag \<Rightarrow> ('w, 'a) client_session_scheme \<Rightarrow> ('w, 'a) client_session_scheme option" where
  "broadcaster_sendVideoTag e mediaTag =
     if_open (\<lambda>s. do { packets \<leftarrow> newChunkedVideo (cfg_chunkSize (settings s)) mediaTag;
                        Some (send_packets e (\<lambda>p. payload (video_message_serialize p)) packets s) })"

definition broadcaster_sendVideoMessage ::
  "'w host \<Rightarrow> u8 \<Rightarrow> u32 \<Rightarrow> v8 \<Rightarrow> bool \<Rightarrow> ('w, 'a) client_session_scheme \<Rightarrow> ('w, 'a) client_session_scheme option" where
  "broadcaster_sendVideoMessage e frameT ts data isParam =
     if_open (\<lambda>s. do { let cfg = settings s;
                        let tag = new_flv_video_tag\<lparr>timestamp := ts, codecID := Some (cfg_videoCodecId cfg),
                                    frameType := Some frameT, payload := data\<rparr>;
                        tag \<leftarrow> (if \<not> isParam then flv_video_updateMedataData tag
                                 else Some (tag\<lparr>payloadSize := word_of_nat (length (payload tag))\<rparr>));
                        packets \<leftarrow> newChunkedVideo (cfg_chunkSize cfg) tag;
                        Some (send_packets e (\<lambda>p. payload (video_message_serialize p)) packets s) })"

definition broadcaster_end :: "'w host \<Rightarrow> ('w, 'a) client_session_scheme \<Rightarrow> ('w, 'a) client_session_scheme" where
  "broadcaster_end e s = sendCloseStream e s"

text \<open>Only the metrics of the upload are passed on.\<close>

definition broadcaster_networkMetricsChanged ::
  "bool \<Rightarrow> network_type \<Rightarrow> nat \<Rightarrow> ('w, 'a) client_session_scheme \<Rightarrow> ('w, 'a) client_session_scheme" where
  "broadcaster_networkMetricsChanged sender_is_download t preferredByterate s =
     (if sender_is_download then s else call_media_delegate (NetworkMetricsChanged t preferredByterate) s)"

lemma sendData_rates:
  fixes s :: "('w, 'a) socket_scheme"
  assumes "reliable tr pending writes" and "sendData h tr data s = (ec, n, s')"
  shows "byteRate (npmU s') = byteRate (npmU s)" "byteRate (npmD s') = byteRate (npmD s)"
proof -
  obtain ec' k w where r: "tr_write tr data (sock_world s) = (ec', k, w)"
    by (metis prod_cases3)
  with assms(1) have "ec' = NoError"
    unfolding reliable_def by (metis fst_conv)
  with assms(2) r show "byteRate (npmU s') = byteRate (npmU s)" "byteRate (npmD s') = byteRate (npmD s)"
    by (auto simp: sendData_def sendDataImpl_def Let_def updateData_def)
qed

text \<open>The metadata message that a broadcaster makes of its settings sets the width twice, the second time to
  the height, and leaves the height alone; and the byte rate it expects is the video data rate times 128, on
  both directions.\<close>

theorem metadata_from_settings:
  assumes "reliable (net e) pending writes" and "sock_open s"
    and "cfg_videoDataRate (settings s) = double_of_nat rate" and "0 < rate" and "rate < 2 ^ 53"
  shows "\<exists>s' m. broadcaster_sendOnMetaDataMessage e s = Some s' \<and>
    writes (sock_world s') = writes (sock_world s) @ [payload (metadata_message_serialize (dict_order e) m)] \<and>
    width (metadata m) = cfg_height (settings s) \<and> height (metadata m) = height new_flv_amf_tag \<and>
    framerate (metadata m) = cfg_frameRate (settings s) \<and> videodatarate (metadata m) = cfg_videoDataRate (settings s) \<and>
    unat (byteRate (npmU s')) = rate * 128 \<and> unat (byteRate (npmD s')) = rate * 128"
proof -
  define tag where "tag = new_flv_amf_tag\<lparr>width := cfg_height (settings s), audiochannels := cfg_audioChannels (settings s),
    framerate := cfg_frameRate (settings s), videodatarate := cfg_videoDataRate (settings s),
    videoframerate := cfg_videoFrameRate (settings s)\<rparr>"
  define m where "m = metadata_message_of_tag tag"
  define n where "n = (word_of_nat (rate * 128) :: u64)"
  have n: "unat n = rate * 128"
    unfolding n_def unsigned_of_nat using assms(5) by (simp add: take_bit_nat_eq_self)
  have pos: "0 < n"
    using n assms(4) by (simp add: word_gt_0 unat_gt_0 [symmetric])
  let ?s = "updateCurrentMetrics n s"
  obtain k s' where s': "sendData session_handler (net e) (payload (metadata_message_serialize (dict_order e) m)) ?s = (NoError, k, s')"
      "writes (sock_world s') = writes (sock_world ?s) @ [payload (metadata_message_serialize (dict_order e) m)]"
    using sendData_reliable [OF assms(1)] by blast
  have "broadcaster_sendOnMetaDataMessage e s = Some s'"
    using assms(2) s'(1) byte_rate_of_nat [OF assms(5)]
    by (simp add: broadcaster_sendOnMetaDataMessage_def if_open_def Let_def assms(3) send_then_def sendPacket_def n_def
        m_def tag_def)
  moreover have "sock_world ?s = sock_world s" "byteRate (npmU ?s) = n" "byteRate (npmD ?s) = n"
    using pos by (cases s, simp add: updateCurrentMetrics_def setByteRate_def)+
  moreover have "width (metadata m) = cfg_height (settings s)" "height (metadata m) = height new_flv_amf_tag"
    "framerate (metadata m) = cfg_frameRate (settings s)" "videodatarate (metadata m) = cfg_videoDataRate (settings s)"
    by (simp_all add: m_def metadata_message_of_tag_def tag_def rtmp_message.extend_def new_message_defs)
  ultimately show ?thesis
    using s'(2) n sendData_rates [OF assms(1) s'(1)] by (intro exI [of _ s'] exI [of _ m]) simp
qed

text \<open>The settings a session starts with.\<close>

theorem metadata_from_settings_witness:
  "\<exists>s' m. broadcaster_sendOnMetaDataMessage sample_host (sample_client []) = Some s' \<and>
     outbox (sock_world s') = [payload (metadata_message_serialize (dict_order sample_host) m)] \<and>
     width (metadata m) = double_of_nat 720 \<and> unat (byteRate (npmU s')) = 350 * 1024 * 128"
proof -
  have "reliable (net sample_host) inbox outbox"
    by (simp add: script_reliable)
  moreover have "cfg_videoDataRate (settings (sample_client [])) = double_of_nat (350 * 1024)"
    "cfg_height (settings (sample_client [])) = double_of_nat 720"
    by (simp_all add: new_session_settings_def)
  ultimately show ?thesis
    using metadata_from_settings [of sample_host inbox outbox "sample_client []" "350 * 1024"] by auto
qed

end
