(* ===== verification/Watcher.thy ===== *)
theory Watcher
imports ClientRun
begin

text \<open>
  \<open>RtmpWatcherSession\<close>: what follows the handshake up to the playing stream, and the worker that retrieves
  the media packets. The worker is a loop over \<open>retriever_step\<close>; its thread runs in its own steps, so a
  number of turns stands for a piece of its run.
\<close>

section \<open>State\<close>

record 'w watcher_session = "'w client_session" +
  stopped :: bool
  worker :: "u32 option"

definition new_watcher_session :: "'w transport \<Rightarrow> 'w \<Rightarrow> session_settings \<Rightarrow> 'w watcher_session" where
  "new_watcher_session tr w cfg = client_session.extend (new_client_session tr w cfg) \<lparr> stopped = True, worker = None \<rparr>"

section \<open>From the handshake to the playing stream\<close>

text \<open>The worker keeps the chunk size of the moment it is started.\<close>

definition watcher_startMediaPacketRetriever :: "'w watcher_session \<Rightarrow> 'w watcher_session" where
  "watcher_startMediaPacketRetriever s =
     (if \<not> stopped s then s else s\<lparr>stopped := False, worker := Some (cfg_chunkSize (settings s))\<rparr>)"

definition watcher_sessionReady :: "'w host \<Rightarrow> 'w watcher_session \<Rightarrow> 'w watcher_session" where
  "watcher_sessionReady e s =
     (if \<not> sock_open s then s
      else let s = s\<lparr>npmD := metrics_start (tr_now (net e) (sock_world s)) (npmD s)\<rparr>
           in notify_session SessionStarted s)"

definition watcher_receiveRtmpSampleAccessMessage :: "'w host \<Rightarrow> 'w watcher_session \<Rightarrow> 'w watcher_session option" where
  "watcher_receiveRtmpSampleAccessMessage e =
     if_open (receive_dynamic_then e response_headerSize
       (\<lambda>data. response_deserialize data new_sample_access_message) sample_access_deserialize_payload
       (\<lambda>packet s. Some
          (if sample_access_isSuccessfull packet
           then watcher_startMediaPacketRetriever (watcher_sessionReady e s) else s)))"

definition watcher_receivePlayOnStatusCommandMessageResponse ::
  "'w host \<Rightarrow> 'w watcher_session \<Rightarrow> 'w watcher_session option" where
  "watcher_receivePlayOnStatusCommandMessageResponse e =
     if_open (receive_dynamic_then e response_headerSize
       (\<lambda>data. response_deserialize data new_command_message) onstatus_response_deserialize_payload
       (\<lambda>packet s.
          if onstatus_response_isSuccessfull packet then watcher_receiveRtmpSampleAccessMessage e s
          else Some (socket_close session_handler (net e) (notify_session (SocketEvent ReconnectionRequired) s))))"

definition watcher_receiveStreamBeginMessage :: "'w host \<Rightarrow> 'w watcher_session \<Rightarrow> 'w watcher_session option" where
  "watcher_receiveStreamBeginMessage e =
     if_open (receive_dynamic_then e response_headerSize
       (\<lambda>data. stream_begin_deserialize data new_stream_begin_message) stream_begin_deserialize_payload
       (\<lambda>packet. watcher_receivePlayOnStatusCommandMessageResponse e))"

definition watcher_sendPlayCommandMessage :: "'w host \<Rightarrow> 'w watcher_session \<Rightarrow> 'w watcher_session option" where
  "watcher_sendPlayCommandMessage e =
     if_open (\<lambda>s. send_then e (\<lambda>m. payload (play_serialize m)) (play_message (session_streamName s))
                   (watcher_receiveStreamBeginMessage e) s)"

definition watcher_receiveCreateStreamCommandResponse ::
  "'w host \<Rightarrow> 'w watcher_session \<Rightarrow> 'w watcher_session option" where
  "watcher_receiveCreateStreamCommandResponse e =
     if_open (receive_dynamic_then e response_headerSize
       (\<lambda>data. response_deserialize data create_stream_message) create_stream_response_deserialize_payload
       (\<lambda>packet s. if create_stream_response_isSuccessfull packet then watcher_sendPlayCommandMessage e s else Some s))"

definition watcher_sendCreateStreamCommand :: "'w host \<Rightarrow> 'w watcher_session \<Rightarrow> 'w watcher_session option" where
  "watcher_sendCreateStreamCommand e =
     if_open (send_then e (\<lambda>m. payload (create_stream_serialize (dict_order e) m)) create_stream_message
                (watcher_receiveCreateStreamCommandResponse e))"

definition watcher_receiveConnectionCommandResponse ::
  "'w host \<Rightarrow> 'w watcher_session \<Rightarrow> 'w watcher_session option" where
  "watcher_receiveConnectionCommandResponse e =
     if_open (receive_dynamic_then e response_headerSize
       (\<lambda>data. response_deserialize data new_connect_message) connect_response_deserialize_payload
       (\<lambda>packet s. if connect_response_isSuccessfull packet then watcher_sendCreateStreamCommand e s else Some s))"

definition watcher_receiveSetChunkSize :: "'w host \<Rightarrow> 'w watcher_session \<Rightarrow> 'w watcher_session option" where
  "watcher_receiveSetChunkSize e =
     if_open (receive_then e set_chunk_size_defaultSize
       (\<lambda>data. set_chunk_size_deserialize data new_set_chunk_size_message)
       (\<lambda>packet s. do { n \<leftarrow> scs_chunkSize packet;
                        watcher_receiveConnectionCommandResponse e
                          (s\<lparr>settings := (settings s)\<lparr>cfg_chunkSize := n\<rparr>\<rparr>) }))"

definition watcher_sendWindowAcknowledgeSize :: "'w host \<Rightarrow> 'w watcher_session \<Rightarrow> 'w watcher_session option" where
  "watcher_sendWindowAcknowledgeSize e =
     if_open (\<lambda>s. if windowAck s \<le> 0 then Some s
       else send_then e (\<lambda>m. payload (window_ack_serialize m)) (window_ack_message (windowAck s))
              (watcher_receiveSetChunkSize e) s)"

definition watcher_receiveSetPeerBandWidth :: "'w host \<Rightarrow> 'w watcher_session \<Rightarrow> 'w watcher_session option" where
  "watcher_receiveSetPeerBandWidth e =
     if_open (receive_then e set_peer_bandwidth_defaultSize
       (\<lambda>data. set_peer_bandwidth_deserialize data new_set_peer_bandwidth_message)
       (\<lambda>packet. watcher_sendWindowAcknowledgeSize e))"

definition watcher_receiveWindowAcknowledgeSize :: "'w host \<Rightarrow> 'w watcher_session \<Rightarrow> 'w watcher_session option" where
  "watcher_receiveWindowAcknowledgeSize e =
     if_open (receive_then e window_ack_defaultSize (\<lambda>data. window_ack_deserialize data new_window_ack_message)
       (\<lambda>packet s. watcher_receiveSetPeerBandWidth e (s\<lparr>windowAck := windowAcknowledgementSize packet\<rparr>)))"

definition watcher_sendConnectCommandMessage :: "'w host \<Rightarrow> 'w watcher_session \<Rightarrow> 'w watcher_session option" where
  "watcher_sendConnectCommandMessage e =
     if_open (\<lambda>s. send_then e (\<lambda>m. payload (connect_serialize (dict_order e) m))
                   (connect_message (sock_address s) (sock_port s) (appName s))
                   (watcher_receiveWindowAcknowledgeSize e) s)"

definition watcher_sendSetChunkSize :: "'w host \<Rightarrow> 'w watcher_session \<Rightarrow> 'w watcher_session option" where
  "watcher_sendSetChunkSize e =
     if_open (\<lambda>s. do { command \<leftarrow> set_chunk_size_serialize (set_chunk_size_message (cfg_chunkSize (settings s)));
                        send_then e payload command (watcher_sendConnectCommandMessage e) s })"

definition watcher_handshakeCompleted :: "'w host \<Rightarrow> 'w watcher_session \<Rightarrow> 'w watcher_session option" where
  "watcher_handshakeCompleted e s = watcher_sendSetChunkSize e s"

definition watcher_handshake :: "'w host \<Rightarrow> 'w watcher_session \<Rightarrow> 'w watcher_session option" where
  "watcher_handshake e = client_handshake e (watcher_handshakeCompleted e)"

definition watcher_start :: "'w host \<Rightarrow> string \<Rightarrow> string \<Rightarrow> string \<Rightarrow> 'w watcher_session \<Rightarrow> 'w watcher_session option" where
  "watcher_start e address port stream = session_start_joined e (watcher_handshake e) address port stream"

definition play_packet :: "string \<Rightarrow> v8" where
  "play_packet name = payload (play_serialize (play_message name))"

lemma watcher_update_fields [simp]:
  fixes s :: "'w watcher_session"
  shows "sock_world (s\<lparr>stopped := b, worker := k\<rparr>) = sock_world s" "sock_open (s\<lparr>stopped := b, worker := k\<rparr>) = sock_open s"
    "calls (s\<lparr>stopped := b, worker := k\<rparr>) = calls s" "settings (s\<lparr>stopped := b, worker := k\<rparr>) = settings s"
    "media_delegate (s\<lparr>stopped := b, worker := k\<rparr>) = media_delegate s"
    "session_delegates (s\<lparr>stopped := b, worker := k\<rparr>) = session_delegates s"
    "session_streamName (s\<lparr>stopped := b, worker := k\<rparr>) = session_streamName s"
  by (cases s, simp)+

lemma watcher_ready_world [simp]:
  "sock_world (watcher_startMediaPacketRetriever s) = sock_world s" "sock_world (watcher_sessionReady e s) = sock_world s"
  by (simp_all add: watcher_startMediaPacketRetriever_def watcher_sessionReady_def Let_def)

lemma follows_play:
  assumes l: "logs (net e) writes" and run: "watcher_sendPlayCommandMessage e s = Some s'"
  shows "follows writes {[play_packet (session_streamName s)]} s s'"
proof -
  have access: "follows writes {[]} s1 s'" if "watcher_receiveRtmpSampleAccessMessage e s1 = Some s'" for s1
    by (rule follows_if_open [OF that [unfolded watcher_receiveRtmpSampleAccessMessage_def]], simp,
        rule follows_receive_dynamic [OF l], assumption, simp)
       (auto intro!: follows_end split: if_splits)
  have status: "follows writes {[]} s1 s'"
    if "watcher_receivePlayOnStatusCommandMessageResponse e s1 = Some s'" for s1
    by (rule follows_if_open [OF that [unfolded watcher_receivePlayOnStatusCommandMessageResponse_def]], simp,
        rule follows_receive_dynamic [OF l], assumption, simp)
       (use l in \<open>auto simp: socket_close_inert [OF inert_session_handler] logs_def intro: access follows_end split: if_splits\<close>)
  have begins: "follows writes {[]} s1 s'" if "watcher_receiveStreamBeginMessage e s1 = Some s'" for s1
    by (rule follows_if_open [OF that [unfolded watcher_receiveStreamBeginMessage_def]], simp,
        rule follows_receive_dynamic [OF l], assumption, simp, rule status)
  show ?thesis
  proof (rule follows_if_open [OF run [unfolded watcher_sendPlayCommandMessage_def]])
    assume "send_then e (\<lambda>m. payload (play_serialize m)) (play_message (session_streamName s))
      (watcher_receiveStreamBeginMessage e) s = Some s'"
    from follows_send [OF l this _ begins] show "follows writes {[play_packet (session_streamName s)]} s s'"
      by (simp add: play_packet_def)
  qed simp
qed

interpretation playing: planned_setup watcher_sendSetChunkSize watcher_sendConnectCommandMessage
  watcher_receiveWindowAcknowledgeSize watcher_receiveSetPeerBandWidth watcher_sendWindowAcknowledgeSize
  watcher_receiveSetChunkSize watcher_receiveConnectionCommandResponse watcher_sendCreateStreamCommand
  watcher_receiveCreateStreamCommandResponse watcher_sendPlayCommandMessage play_packet
  by unfold_locales
     (simp_all add: follows_play watcher_sendSetChunkSize_def watcher_sendConnectCommandMessage_def
        watcher_receiveWindowAcknowledgeSize_def watcher_receiveSetPeerBandWidth_def
        watcher_sendWindowAcknowledgeSize_def watcher_receiveSetChunkSize_def
        watcher_receiveConnectionCommandResponse_def watcher_sendCreateStreamCommand_def
        watcher_receiveCreateStreamCommandResponse_def)

definition server_plays :: "v8 \<Rightarrow> v8 \<Rightarrow> v8 \<Rightarrow> bool" where
  "server_plays begins status access \<longleftrightarrow>
     dynamic_reply (\<lambda>data. stream_begin_deserialize data new_stream_begin_message) stream_begin_deserialize_payload
       (\<lambda>_. True) begins \<and>
     dynamic_reply (\<lambda>data. response_deserialize data new_command_message) onstatus_response_deserialize_payload
       onstatus_response_isSuccessfull status \<and>
     dynamic_reply (\<lambda>data. response_deserialize data new_sample_access_message) sample_access_deserialize_payload
       sample_access_isSuccessfull access"

lemma watcher_ready:
  fixes r t :: "'w watcher_session"
  assumes ok: "reliable (net e) pending writes" and op: "sock_open r"
    and t: "stands pending writes r ws (begins @ status @ access @ tail) t"
    and srv: "server_plays begins status access" and "stopped r"
  shows "\<exists>s'. watcher_sendPlayCommandMessage e t = Some s' \<and>
    writes (sock_world s') = ws @ [play_packet (session_streamName r)] \<and> pending (sock_world s') = tail \<and> sock_open s' \<and>
    \<not> stopped s' \<and> worker s' = Some (cfg_chunkSize (settings r)) \<and> media_delegate s' = media_delegate r \<and>
    session_delegates s' = session_delegates r \<and>
    calls s' = calls r @ map (\<lambda>n. (n, SessionStarted)) (session_delegates r)"
    (is "\<exists>s'. _ \<and> ?P s'")
proof -
  let ?ws = "ws @ [play_packet (session_streamName r)]"
  note srv = srv [unfolded server_plays_def]
  have access: "\<exists>s'. watcher_receiveRtmpSampleAccessMessage e u = Some s' \<and> ?P s'"
    if u: "stands pending writes r ?ws (access @ tail) u" for u
    unfolding watcher_receiveRtmpSampleAccessMessage_def
  proof (rule if_open_step [OF u op], rule dynamic_step [OF ok u srv [THEN conjunct2, THEN conjunct2]])
    fix p v
    assume p: "sample_access_isSuccessfull p" and v: "stands pending writes r ?ws tail v"
    have "stopped v" "settings v = settings r" "media_delegate v = media_delegate r"
      using v assms(5) by (cases r; cases v; simp add: stands_def frame_def)+
    moreover have "?P (watcher_startMediaPacketRetriever (watcher_sessionReady e v))"
      if "stopped (watcher_sessionReady e v)" "settings (watcher_sessionReady e v) = settings r"
        "media_delegate (watcher_sessionReady e v) = media_delegate r"
      using that v stands_open [OF v] stands_session [OF v] kept_settings(6) [OF stands_session(1) [OF v]] op
      by (simp add: watcher_startMediaPacketRetriever_def watcher_sessionReady_def Let_def stands_def)
    moreover have "kept (watcher_sessionReady e v) = kept v"
      by (simp add: watcher_sessionReady_def Let_def)
    then have "stopped (watcher_sessionReady e v) = stopped v" "settings (watcher_sessionReady e v) = settings v"
      "media_delegate (watcher_sessionReady e v) = media_delegate v"
      by (cases v; cases "watcher_sessionReady e v"; simp add: kept_def)+
    ultimately show "\<exists>s'. Some (if sample_access_isSuccessfull p
           then watcher_startMediaPacketRetriever (watcher_sessionReady e v) else v) = Some s' \<and> ?P s'"
      using p by simp
  qed
  have status: "\<exists>s'. watcher_receivePlayOnStatusCommandMessageResponse e u = Some s' \<and> ?P s'"
    if u: "stands pending writes r ?ws (status @ access @ tail) u" for u
    unfolding watcher_receivePlayOnStatusCommandMessageResponse_def
    by (rule if_open_step [OF u op], rule dynamic_step [OF ok u srv [THEN conjunct2, THEN conjunct1]])
       (use access in simp)
  have begins: "\<exists>s'. watcher_receiveStreamBeginMessage e u = Some s' \<and> ?P s'"
    if u: "stands pending writes r ?ws (begins @ status @ access @ tail) u" for u
    unfolding watcher_receiveStreamBeginMessage_def
    by (rule if_open_step [OF u op], rule dynamic_step [OF ok u srv [THEN conjunct1]], rule status)
  show ?thesis
    unfolding watcher_sendPlayCommandMessage_def
    by (rule if_open_step [OF t op], rule send_step [OF ok t], rule begins)
       (simp add: play_packet_def kept_settings [OF stands_session(1) [OF t]])
qed

definition sample_watcher :: "v8 \<Rightarrow> bool \<Rightarrow> script watcher_session" where
  "sample_watcher bytes halted = client_session.extend (sample_client bytes) \<lparr> stopped = halted, worker = None \<rparr>"

lemma sample_watcher [simp]:
  "inbox (sock_world (sample_watcher bytes b)) = bytes" "outbox (sock_world (sample_watcher bytes b)) = []"
  "sock_open (sample_watcher bytes b)" "calls (sample_watcher bytes b) = []" "session_delegates (sample_watcher bytes b) = [7]"
  "session_streamName (sample_watcher bytes b) = ''cam''" "stopped (sample_watcher bytes b) = b"
  "media_delegate (sample_watcher bytes b) = Some 7"
  by (simp_all add: sample_watcher_def sample_client_def addMediaDelegate_def session_addDelegate_def
      socket_addDelegate_def addDelegate_def new_client_session_def new_rtmp_session_def new_socket_def
      client_session.defs rtmp_session.defs socket.defs)

text \<open>C11: a watcher sends its packets in the order of the same plan, with play as the last request.\<close>

theorem watcher_plan:
  assumes "logs (net e) writes" and "watcher_handshake e s = Some s'"
  shows "follows writes (handshake_plans (setup_plans e s (play_packet (session_streamName s)))) s s'"
proof -
  have "follows writes (setup_plans e s (play_packet (session_streamName s))) s1 s2"
    if "kept s1 = kept s" "watcher_handshakeCompleted e s1 = Some s2" for s1 s2
    using playing.follows_setup [OF assms(1) that(2) [unfolded watcher_handshakeCompleted_def]]
    by (simp add: setup_plans_def setup_commands_def kept_settings [OF that(1)])
  with assms show ?thesis
    unfolding watcher_handshake_def by (intro follows_handshake) (auto simp: setup_plans_def intro: exI [of _ 1])
qed

theorem watcher_plan_witness:
  "\<exists>s'. watcher_handshake sample_host (sample_watcher [] True) = Some s' \<and>
     follows outbox (handshake_plans (setup_plans sample_host (sample_watcher [] True) (play_packet ''cam'')))
       (sample_watcher [] True) s'"
proof -
  obtain s' where s': "watcher_handshake sample_host (sample_watcher [] True) = Some s'"
    using handshake_hang_up [of "sample_watcher [] True"] unfolding watcher_handshake_def by auto
  have "logs (net sample_host) outbox"
    using script_reliable by (simp add: reliable_def)
  from watcher_plan [OF this s'] s' show ?thesis by simp
qed

text \<open>A start on a network that works.\<close>

lemma start_connected:
  fixes s :: "'w watcher_session"
  assumes "sock_delegates s = [UserDelegate n]" and "session_delegates s = [n]" and "\<not> sock_open s"
    and "address \<noteq> []" and "port \<noteq> []"
    and "tr_resolve (net e) address port (sock_world s) = (NoError, w1)" and "tr_connect (net e) w1 = (NoError, True, w2)"
  shows "\<exists>u. session_start e handshake address port app url s = handshake u \<and>
    calls u = calls s @ [(n, SocketEvent WillConnect), (n, SocketEvent DidConnect)] \<and> sock_open u \<and> sock_world u = w2 \<and>
    session_delegates u = [n] \<and> media_delegate u = media_delegate s \<and> stopped u = stopped s"
proof -
  let ?s1 = "s\<lparr>appName := app, session_streamName := url, sock_delegates := [UserDelegate n, SessionDelegate],
    sock_address := address, sock_port := port\<rparr>"
  let ?s2 = "(socketWillConnect (call n (SocketEvent WillConnect) ?s1))\<lparr>sock_world := w2, sock_open := True\<rparr>"
  let ?u = "call n (SocketEvent DidConnect) ?s2"
  have "session_start e handshake address port app url s = handshake ?u"
    using assms
    by (simp add: session_start_def start_connection_def socket_connect_def Let_def socket_removeDelegate_def
        socket_addDelegate_def addDelegate_def socket_close_def resolve_def connectImpl_def notify_def session_handler_def
        call_def session_didConnect_def socketWillConnect_def)
  moreover have "calls ?u = calls s @ [(n, SocketEvent WillConnect), (n, SocketEvent DidConnect)]" "sock_open ?u"
    "sock_world ?u = w2" "session_delegates ?u = [n]" "media_delegate ?u = media_delegate s" "stopped ?u = stopped s"
    using assms(2) by (cases s, simp add: call_def socketWillConnect_def Let_def)+
  ultimately show ?thesis by blast
qed

lemma watcher_runs:
  assumes "reliable (net e) pending writes" and "sock_open s"
    and "pending (sock_world s) =
      RtmpProtocolVersion # s1 @ s2 @ w @ b @ c @ connected @ created @ begins @ status @ access @ tail"
    and "length s1 = c1_defaultSize" and "length s2 = c1_defaultSize"
    and "server_accepts ack chunk w b c connected created" and "0 < ack"
    and "server_plays begins status access" and "stopped s"
  shows "\<exists>s' c1 c2. watcher_handshake e s = Some s' \<and> sock_open s' \<and> pending (sock_world s') = tail \<and>
    length c1 = c1_defaultSize \<and> length c2 = c1_defaultSize \<and> take 4 c2 = take 4 s1 \<and>
    writes (sock_world s') = writes (sock_world s) @ [[RtmpProtocolVersion], c1, c2]
      @ setup_commands e s ack (play_packet (session_streamName s)) \<and>
    \<not> stopped s' \<and> worker s' = Some chunk \<and> media_delegate s' = media_delegate s \<and>
    calls s' = calls s @ map (\<lambda>n. (n, SessionStarted)) (session_delegates s)
      @ map (\<lambda>n. (n, HandshakeDone)) (session_delegates s)"
proof -
  define P where "P s' \<longleftrightarrow> (\<exists>c1 c2. sock_open s' \<and> pending (sock_world s') = tail \<and>
    length c1 = c1_defaultSize \<and> length c2 = c1_defaultSize \<and> take 4 c2 = take 4 s1 \<and>
    writes (sock_world s') = writes (sock_world s) @ [[RtmpProtocolVersion], c1, c2]
      @ setup_commands e s ack (play_packet (session_streamName s)) \<and>
    \<not> stopped s' \<and> worker s' = Some chunk \<and> media_delegate s' = media_delegate s \<and>
    calls s' = calls s @ map (\<lambda>n. (n, SessionStarted)) (session_delegates s)
      @ map (\<lambda>n. (n, HandshakeDone)) (session_delegates s))" for s' :: "'a watcher_session"
  let ?r = "s\<lparr>windowAck := ack, settings := (settings s)\<lparr>cfg_chunkSize := chunk\<rparr>\<rparr>"
  have r: "sock_open ?r" "session_streamName ?r = session_streamName s" "calls ?r = calls s"
      "session_delegates ?r = session_delegates s" "cfg_chunkSize (settings ?r) = chunk" "stopped ?r"
      "media_delegate ?r = media_delegate s"
    using assms(2,9) by (cases s, simp)+
  have "\<exists>s'. client_handshake e (watcher_sendSetChunkSize e) s = Some s' \<and> P s'"
  proof (rule playing.session_done [OF assms(1-7)])
    fix c1 c2 u
    assume bytes: "handshake_bytes e s1 c1 c2"
      and u: "stands pending writes ?r ((writes (sock_world s) @ [[RtmpProtocolVersion], c1, c2])
        @ [chunk_size_packet (cfg_chunkSize (settings s)), connect_packet e (sock_address s) (sock_port s) (appName s),
           window_ack_packet ack, create_stream_packet e]) (begins @ status @ access @ tail) u"
    from watcher_ready [OF assms(1) r(1) u assms(8) r(6)] obtain s' where
      s': "watcher_sendPlayCommandMessage e u = Some s'" "pending (sock_world s') = tail" "sock_open s'" "\<not> stopped s'"
        "worker s' = Some chunk" "media_delegate s' = media_delegate s" "session_delegates s' = session_delegates s"
        "writes (sock_world s') = ((writes (sock_world s) @ [[RtmpProtocolVersion], c1, c2])
          @ [chunk_size_packet (cfg_chunkSize (settings s)), connect_packet e (sock_address s) (sock_port s) (appName s),
             window_ack_packet ack, create_stream_packet e]) @ [play_packet (session_streamName s)]"
        "calls s' = calls s @ map (\<lambda>n. (n, SessionStarted)) (session_delegates s)"
      unfolding r by blast
    have "stopped (notify_session HandshakeDone s') = stopped s'" "worker (notify_session HandshakeDone s') = worker s'"
      "media_delegate (notify_session HandshakeDone s') = media_delegate s'"
      using kept_notify_session [of HandshakeDone s']
      by (cases s'; cases "notify_session HandshakeDone s'"; simp add: kept_def)+
    then have "P (notify_session HandshakeDone s')"
      unfolding P_def using handshake_bytes_length [OF bytes assms(4)] s' by (intro exI [of _ c1] exI [of _ c2]) (simp add: setup_commands_def)
    with s'(1) show "\<exists>s'. watcher_sendPlayCommandMessage e u = Some s' \<and> P (notify_session HandshakeDone s')" by blast
  qed
  moreover have "watcher_handshakeCompleted e = watcher_sendSetChunkSize e"
    by (simp add: watcher_handshakeCompleted_def fun_eq_iff)
  ultimately show ?thesis
    unfolding watcher_handshake_def P_def by simp
qed

text \<open>C10: on a network that works, with a server that accepts the client and plays the stream, the handshake of a
  watcher runs to the playing stream: exactly the plan is sent, every byte of the replies is read and no
  more, the delegates hear of the start once and then of the handshake, and the worker runs with the
  chunk size of the server.\<close>

theorem watcher_established:
  assumes "reliable (net e) pending writes" and "sock_open s"
    and "pending (sock_world s) =
      RtmpProtocolVersion # s1 @ s2 @ w @ b @ c @ connected @ created @ begins @ status @ access @ tail"
    and "length s1 = c1_defaultSize" and "length s2 = c1_defaultSize"
    and "server_accepts ack chunk w b c connected created" and "0 < ack"
    and "server_plays begins status access" and "stopped s"
  shows "\<exists>s' c1 c2. watcher_handshake e s = Some s' \<and> sock_open s' \<and> pending (sock_world s') = tail \<and>
    length c1 = c1_defaultSize \<and> length c2 = c1_defaultSize \<and> take 4 c2 = take 4 s1 \<and>
    writes (sock_world s') = writes (sock_world s) @ [[RtmpProtocolVersion], c1, c2]
      @ setup_commands e s ack (play_packet (session_streamName s)) \<and>
    \<not> stopped s' \<and> worker s' = Some chunk \<and>
    calls s' = calls s @ map (\<lambda>n. (n, SessionStarted)) (session_delegates s)
      @ map (\<lambda>n. (n, HandshakeDone)) (session_delegates s)"
  using watcher_runs [OF assms] by blast

definition reply_begin :: v8 where
  "reply_begin = write_header12 new_rtmp_message 6 @ [0, 0, 0, 0, 0, 1]"

definition reply_access :: v8 where
  "reply_access = reply_of [val_string ''|RtmpSampleAccess'', Subset (BooleanVariant True), Subset (BooleanVariant True)]"

lemma sample_plays: "server_plays reply_begin reply_status reply_access"
proof -
  have "dynamic_reply (\<lambda>data. stream_begin_deserialize data new_stream_begin_message) stream_begin_deserialize_payload
      (\<lambda>_. True) reply_begin"
    using read_header12_write [of new_rtmp_message 6 "[]" new_stream_begin_message]
    by (simp add: dynamic_reply_def reply_begin_def response_headerSize_def stream_begin_deserialize_def
        stream_begin_deserialize_payload_def control_defs)
  moreover have "dynamic_reply (\<lambda>data. response_deserialize data new_sample_access_message)
      sample_access_deserialize_payload sample_access_isSuccessfull reply_access"
    unfolding reply_access_def
  proof (rule dynamic_reply_of)
    fix m :: rtmp_sample_access_message
    assume "deserialize (payload m) = Some [val_string ''|RtmpSampleAccess'', Subset (BooleanVariant True),
        Subset (BooleanVariant True)]"
      and "rtmp_message.more m = rtmp_message.more new_sample_access_message"
    then show "\<exists>p. sample_access_deserialize_payload m = Some p \<and> sample_access_isSuccessfull p"
      by (cases m) (simp add: sample_access_deserialize_payload_def sample_access_value_def sample_access_isSuccessfull_def
          new_sample_access_message_def command_defs)
  qed (simp_all add: reply_defs serializeBoolean_def)
  ultimately show ?thesis
    by (simp add: server_plays_def sample_status)
qed

theorem watcher_established_witness:
  "\<exists>s'. watcher_handshake sample_host (sample_watcher (sample_replies [reply_begin, reply_status, reply_access]) True) = Some s' \<and>
     length (outbox (sock_world s')) = 8 \<and> last (outbox (sock_world s')) = play_packet ''cam'' \<and>
     calls s' = [(7, SessionStarted), (7, HandshakeDone)] \<and> worker s' = Some 4096"
proof -
  let ?s = "sample_watcher (sample_replies [reply_begin, reply_status, reply_access]) True"
  have "inbox (sock_world ?s) = RtmpProtocolVersion # replicate c1_defaultSize 1 @ replicate c1_defaultSize 2
      @ reply_window @ reply_bandwidth @ reply_chunk @ reply_connected @ reply_created
      @ reply_begin @ reply_status @ reply_access @ []"
    by (simp add: sample_replies_def)
  moreover have "reliable (net sample_host) inbox outbox"
    by (simp add: script_reliable)
  ultimately show ?thesis
    using watcher_established [OF _ _ _ length_replicate length_replicate sample_server _ sample_plays,
        of sample_host inbox outbox ?s 1 2 "[]"]
    by (auto simp: setup_commands_def simp del: replicate.simps)
qed

section \<open>The media packets\<close>

text \<open>The callback of the worker.\<close>

definition mediaPacketReceived ::
  "error_code \<Rightarrow> nat \<Rightarrow> media_packet \<Rightarrow> 'w watcher_session \<Rightarrow> 'w watcher_session option" where
  "mediaPacketReceived ec n packet s =
     (if ec \<noteq> NoError \<or> n \<le> 0 then Some s
      else case packet of
        MetadataPacket p \<Rightarrow>
          do { currentByteRate \<leftarrow> byte_rate (videodatarate (metadata p));
               let s = updateCurrentMetrics currentByteRate s;
               Some (call_media_delegate (MetadataReceived p) s) }
      | VideoPacket p \<Rightarrow> Some (call_media_delegate (VideoReceived p) s)
      | AudioPacket p \<Rightarrow> Some (call_media_delegate (AudioReceived p) s)
      | BlankPacket \<Rightarrow> Some s)"

definition retriever_step :: "'w host \<Rightarrow> u32 \<Rightarrow> 'w watcher_session \<Rightarrow> 'w watcher_session option option" where
  "retriever_step e maxChunkSize s =
     (case receiveDynamicPacketWithDynamicHeader session_handler (net e) maxChunkSize s of
        None \<Rightarrow> None
      | Some None \<Rightarrow> Some None
      | Some (Some (ec, n, packet, s)) \<Rightarrow> Some (mediaPacketReceived ec n packet s))"

text \<open>At most \<open>k\<close> turns of \<open>while (!stopped_)\<close>.\<close>

fun retriever :: "'w host \<Rightarrow> u32 \<Rightarrow> nat \<Rightarrow> 'w watcher_session \<Rightarrow> 'w watcher_session option option" where
  "retriever e maxChunkSize 0 s = Some (Some s)"
| "retriever e maxChunkSize (Suc k) s =
     (if stopped s then Some (Some s)
      else case retriever_step e maxChunkSize s of
        Some (Some s) \<Rightarrow> retriever e maxChunkSize k s
      | r \<Rightarrow> r)"

section \<open>The end\<close>

definition watcher_end :: "'w host \<Rightarrow> 'w watcher_session \<Rightarrow> 'w watcher_session" where
  "watcher_end e s = session_end e (s\<lparr>stopped := True, worker := None\<rparr>)"

definition watcher_networkMetricsChanged ::
  "bool \<Rightarrow> network_type \<Rightarrow> nat \<Rightarrow> 'w watcher_session \<Rightarrow> 'w watcher_session" where
  "watcher_networkMetricsChanged sender_is_upload t preferredByterate s =
     (if sender_is_upload then s else call_media_delegate (NetworkMetricsChanged t preferredByterate) s)"

end
