(* ===== verification/EndToEnd.thy ===== *)
theory EndToEnd
imports Broadcaster Watcher
begin

text \<open>
  A broadcaster and a watcher together: the media a broadcaster sends, carried to a watcher byte by byte, reaches
  the watcher's delegate, in order and complete. And what the watcher's worker does on a connection that is gone.
\<close>

section \<open>Sending\<close>

lemma send_packets_reliable:
  assumes "reliable (net e) pending writes" and "sock_open s"
  shows "writes (sock_world (send_packets e ser packets s)) = writes (sock_world s) @ map ser packets \<and>
    frame s (send_packets e ser packets s)"
  using assms(2)
proof (induction packets arbitrary: s)
  case (Cons p ps)
  obtain n s1 where s1: "sendData session_handler (net e) (ser p) s = (NoError, n, s1)"
      "writes (sock_world s1) = writes (sock_world s) @ [ser p]" "frame s s1"
    using sendData_reliable [OF assms(1)] by blast
  have "sock_open s1"
    using s1(3) Cons.prems by (simp add: frame_def)
  from Cons.IH [OF this] s1 Cons.prems show ?case
    by (simp add: sendPacket_def frame_def)
qed simp

lemma frame_more:
  fixes s t :: "('w, 'a) client_session_scheme"
  assumes "frame s t"
  shows "settings t = settings s" "calls t = calls s" "media_delegate t = media_delegate s"
    "client_session.more t = client_session.more s"
  using assms by (cases s; cases t; simp add: frame_def)+

lemma frame_watcher:
  fixes s t :: "'w watcher_session"
  assumes "frame s t"
  shows "stopped t = stopped s"
  using frame_more(4) [OF assms] by (cases s; cases t) simp

text \<open>A tag of the stream.\<close>

datatype media_item = VideoItem flv_video_tag | AudioItem flv_audio_tag

definition item_sendable :: "u32 \<Rightarrow> media_item \<Rightarrow> bool" where
  "item_sendable maxSize i \<longleftrightarrow>
     (case i of VideoItem v \<Rightarrow> sendable maxSize v \<and> payload v \<noteq> [] | AudioItem a \<Rightarrow> sendable maxSize a \<and> payload a \<noteq> [])"

definition send_item ::
  "'w host \<Rightarrow> media_item \<Rightarrow> ('w, 'a) client_session_scheme \<Rightarrow> ('w, 'a) client_session_scheme option" where
  "send_item e i = (case i of VideoItem v \<Rightarrow> broadcaster_sendVideoTag e v | AudioItem a \<Rightarrow> broadcaster_sendAudioTag e a)"

fun carries :: "media_item \<Rightarrow> notification \<Rightarrow> bool" where
  "carries (VideoItem v) (VideoReceived m) \<longleftrightarrow> video_message_data m = payload v \<and> timestamp m = timestamp v \<and>
     chunkStreamType m = Type0"
| "carries (AudioItem a) (AudioReceived m) \<longleftrightarrow> audio_message_data m = payload a \<and> timestamp m = timestamp a \<and>
     chunkStreamType m = Type0"
| "carries _ _ \<longleftrightarrow> False"

text \<open>\<open>hands_over chunk R bytes\<close>: a watcher that reads \<open>bytes\<close> hands its delegate one thing, of which \<open>R\<close> holds.
  \<open>arrives chunk item bytes\<close>: it hands over the item.\<close>

definition hands_over ::
  "'v host \<Rightarrow> ('v \<Rightarrow> v8) \<Rightarrow> u32 \<Rightarrow> (notification \<Rightarrow> bool) \<Rightarrow> v8 \<Rightarrow> bool" where
  "hands_over e pending chunk R bytes \<longleftrightarrow>
     (\<forall>t n tail. pending (sock_world t) = bytes @ tail \<and> media_delegate t = Some n \<longrightarrow>
        (\<exists>t' v. retriever_step e chunk t = Some (Some t') \<and> calls t' = calls t @ [(n, v)] \<and> R v \<and>
           pending (sock_world t') = tail \<and> media_delegate t' = media_delegate t \<and> stopped t' = stopped t))"

definition arrives ::
  "'v host \<Rightarrow> ('v \<Rightarrow> v8) \<Rightarrow> u32 \<Rightarrow> media_item \<Rightarrow> v8 \<Rightarrow> bool" where
  "arrives e pending chunk i bytes \<longleftrightarrow> hands_over e pending chunk (carries i) bytes"

lemma call_more [simp]:
  "media_delegate (call n v t) = media_delegate t" "stopped (call n v (u :: 'w watcher_session)) = stopped u"
  by (cases t, simp add: call_def) (cases u, simp add: call_def)

lemma video_arrives:
  assumes "delivers (net e) pending" and "sendable chunk v" and "payload v \<noteq> []"
    and "newChunkedVideo chunk v = Some packets"
  shows "arrives e pending chunk (VideoItem v) (concat (map (\<lambda>p. payload (video_message_serialize p)) packets))"
  unfolding arrives_def hands_over_def
proof (intro allI impI)
  fix t :: "'a watcher_session" and n tail
  assume t: "pending (sock_world t) = concat (map (\<lambda>p. payload (video_message_serialize p)) packets) @ tail \<and>
    media_delegate t = Some n"
  from video_reassembled [OF assms(1,2,4) t [THEN conjunct1], of session_handler] obtain m t1 where
    r: "receiveDynamicPacketWithDynamicHeader session_handler (net e) chunk t
        = Some (Some (NoError, min (unat chunk) (length (payload v)), VideoPacket m, t1))"
      "video_message_data m = payload v" "timestamp m = timestamp v" "chunkStreamType m = Type0" "pending (sock_world t1) = tail" "frame t t1"
    by blast
  have "(min (unat chunk) (length (payload v)) \<le> 0) = False"
    using assms(2,3) by (auto simp: sendable_def word_gt_0 unat_gt_0 min_def unat_eq_zero)
  then have "retriever_step e chunk t = Some (Some (call n (VideoReceived m) t1))"
    using t frame_more(3) [OF r(6)]
    by (simp only: retriever_step_def r(1) mediaPacketReceived_def call_media_delegate_def) (auto simp: min_def)
  then show "\<exists>t' w. retriever_step e chunk t = Some (Some t') \<and> calls t' = calls t @ [(n, w)] \<and> carries (VideoItem v) w \<and>
      pending (sock_world t') = tail \<and> media_delegate t' = media_delegate t \<and> stopped t' = stopped t"
    using r frame_more [OF r(6)] frame_watcher [OF r(6)]
    by (intro exI [of _ "call n (VideoReceived m) t1"] exI [of _ "VideoReceived m"]) simp
qed

lemma audio_arrives:
  assumes "delivers (net e) pending" and "sendable chunk v" and "payload v \<noteq> []"
    and "newChunkedAudio chunk v = Some packets"
  shows "arrives e pending chunk (AudioItem v) (concat (map (\<lambda>p. payload (audio_message_serialize p)) packets))"
  unfolding arrives_def hands_over_def
proof (intro allI impI)
  fix t :: "'a watcher_session" and n tail
  assume t: "pending (sock_world t) = concat (map (\<lambda>p. payload (audio_message_serialize p)) packets) @ tail \<and>
    media_delegate t = Some n"
  from audio_reassembled [OF assms(1,2,4) t [THEN conjunct1], of session_handler] obtain m t1 where
    r: "receiveDynamicPacketWithDynamicHeader session_handler (net e) chunk t
        = Some (Some (NoError, min (unat chunk) (length (payload v)), AudioPacket m, t1))"
      "audio_message_data m = payload v" "timestamp m = timestamp v" "chunkStreamType m = Type0" "pending (sock_world t1) = tail" "frame t t1"
    by blast
  have "(min (unat chunk) (length (payload v)) \<le> 0) = False"
    using assms(2,3) by (auto simp: sendable_def word_gt_0 unat_gt_0 min_def unat_eq_zero)
  then have "retriever_step e chunk t = Some (Some (call n (AudioReceived m) t1))"
    using t frame_more(3) [OF r(6)]
    by (simp only: retriever_step_def r(1) mediaPacketReceived_def call_media_delegate_def) (auto simp: min_def)
  then show "\<exists>t' w. retriever_step e chunk t = Some (Some t') \<and> calls t' = calls t @ [(n, w)] \<and> carries (AudioItem v) w \<and>
      pending (sock_world t') = tail \<and> media_delegate t' = media_delegate t \<and> stopped t' = stopped t"
    using r frame_more [OF r(6)] frame_watcher [OF r(6)]
    by (intro exI [of _ "call n (AudioReceived m) t1"] exI [of _ "AudioReceived m"]) simp
qed

lemma item_sent:
  assumes "reliable (net e) pending writes" and "sock_open s" and "item_sendable (cfg_chunkSize (settings s)) i"
    and "delivers (net e2) pending2"
  shows "\<exists>s' packets. send_item e i s = Some s' \<and> frame s s' \<and> writes (sock_world s') = writes (sock_world s) @ packets \<and>
    arrives e2 pending2 (cfg_chunkSize (settings s)) i (concat packets)"
proof (cases i)
  case (VideoItem v)
  with assms(3) have v: "sendable (cfg_chunkSize (settings s)) v" "payload v \<noteq> []"
    by (simp_all add: item_sendable_def)
  from chunked_video_wire [OF v(1)] obtain packets where p: "newChunkedVideo (cfg_chunkSize (settings s)) v = Some packets"
    by blast
  show ?thesis
    using send_packets_reliable [OF assms(1,2), of "\<lambda>p. payload (video_message_serialize p)" packets]
      video_arrives [OF assms(4) v p] assms(2) VideoItem p
    by (intro exI) (auto simp: send_item_def broadcaster_sendVideoTag_def if_open_def)
next
  case (AudioItem v)
  with assms(3) have v: "sendable (cfg_chunkSize (settings s)) v" "payload v \<noteq> []"
    by (simp_all add: item_sendable_def)
  from chunked_audio_wire [OF v(1)] obtain packets where p: "newChunkedAudio (cfg_chunkSize (settings s)) v = Some packets"
    by blast
  show ?thesis
    using send_packets_reliable [OF assms(1,2), of "\<lambda>p. payload (audio_message_serialize p)" packets]
      audio_arrives [OF assms(4) v p] assms(2) AudioItem p
    by (intro exI) (auto simp: send_item_def broadcaster_sendAudioTag_def if_open_def)
qed

lemma concat_concats: "concat (concat bs) = concat (map concat bs)"
  by (induction bs) simp_all

lemma items_sent:
  assumes "reliable (net e) pending writes" and "sock_open s"
    and "\<forall>i \<in> set items. item_sendable (cfg_chunkSize (settings s)) i" and "delivers (net e2) pending2"
  shows "\<exists>s' bs. for_each (send_item e) items s = Some s' \<and> writes (sock_world s') = writes (sock_world s) @ concat bs \<and>
    list_all2 (\<lambda>i b. arrives e2 pending2 (cfg_chunkSize (settings s)) i (concat b)) items bs"
  using assms(2,3)
proof (induction items arbitrary: s)
  case (Cons i items)
  from item_sent [OF assms(1) Cons.prems(1) _ assms(4)] Cons.prems(2) obtain s1 p1 where
    s1: "send_item e i s = Some s1" "frame s s1" "writes (sock_world s1) = writes (sock_world s) @ p1"
      "arrives e2 pending2 (cfg_chunkSize (settings s)) i (concat p1)" by fastforce
  have "sock_open s1" and cfg: "settings s1 = settings s"
    using s1(2) Cons.prems(1) frame_more(1) [OF s1(2)] by (simp_all add: frame_def)
  with Cons.IH [of s1] Cons.prems(2) obtain s' bs where
    "for_each (send_item e) items s1 = Some s'" "writes (sock_world s') = writes (sock_world s1) @ concat bs"
    "list_all2 (\<lambda>i b. arrives e2 pending2 (cfg_chunkSize (settings s)) i (concat b)) items bs"
    by (auto simp: cfg)
  with s1 show ?case
    by (intro exI [of _ s'] exI [of _ "p1 # bs"]) simp
qed simp

section \<open>Receiving\<close>

lemma all_handed_over:
  assumes "list_all2 (hands_over e pending chunk) Rs bs"
    and "pending (sock_world t) = concat bs @ tail" and "media_delegate t = Some n" and "\<not> stopped t"
  shows "\<exists>t' vs. retriever e chunk (length Rs) t = Some (Some t') \<and> calls t' = calls t @ map (Pair n) vs \<and>
    list_all2 (\<lambda>R. R) Rs vs \<and> pending (sock_world t') = tail"
  using assms
proof (induction Rs bs arbitrary: t rule: list_all2_induct)
  case (Cons R Rs b bs)
  from Cons.hyps(1) Cons.prems(1,2) obtain t1 v where
    t1: "retriever_step e chunk t = Some (Some t1)" "calls t1 = calls t @ [(n, v)]" "R v"
      "pending (sock_world t1) = concat bs @ tail" "media_delegate t1 = media_delegate t" "stopped t1 = stopped t"
    unfolding hands_over_def by fastforce
  from Cons.IH [of t1] t1 Cons.prems obtain t' vs where
    "retriever e chunk (length Rs) t1 = Some (Some t')" "calls t' = calls t1 @ map (Pair n) vs" "list_all2 (\<lambda>R. R) Rs vs"
    "pending (sock_world t') = tail" by auto
  with t1 Cons.prems(3) show ?case
    by (intro exI [of _ t'] exI [of _ "v # vs"]) simp
qed simp

lemma items_arrive:
  assumes "list_all2 (\<lambda>i b. arrives e pending chunk i (concat b)) items bs"
    and "pending (sock_world t) = concat (map concat bs) @ tail" and "media_delegate t = Some n" and "\<not> stopped t"
  shows "\<exists>t' vs. retriever e chunk (length items) t = Some (Some t') \<and> calls t' = calls t @ map (Pair n) vs \<and>
    list_all2 carries items vs \<and> pending (sock_world t') = tail"
proof -
  have "list_all2 (hands_over e pending chunk) (map carries items) (map concat bs)"
    using assms(1) by (simp add: list_all2_map1 list_all2_map2 arrives_def)
  from all_handed_over [OF this assms(2-4)] show ?thesis
    by (simp add: list_all2_map1)
qed

text \<open>C5: the media tags a broadcaster sends reach the delegate of a watcher that reads the bytes of its
  packets with the same chunk size: one turn of the worker for each tag, in order, each with the whole
  payload and the timestamp of its tag, as an absolute one, and not a byte more is read. The tags must not be empty: the
  worker takes a packet of no bytes for an error.\<close>

theorem stream_reaches_watcher:
  assumes "reliable (net e) pending writes" and "delivers (net e2) pending2" and "sock_open s"
    and "\<forall>i \<in> set items. item_sendable (cfg_chunkSize (settings s)) i"
  shows "\<exists>s' packets. for_each (send_item e) items s = Some s' \<and>
    writes (sock_world s') = writes (sock_world s) @ packets \<and>
    (\<forall>t n tail. pending2 (sock_world t) = concat packets @ tail \<and> media_delegate t = Some n \<and> \<not> stopped t \<longrightarrow>
       (\<exists>t' vs. retriever e2 (cfg_chunkSize (settings s)) (length items) t = Some (Some t') \<and>
          calls t' = calls t @ map (Pair n) vs \<and> list_all2 carries items vs \<and> pending2 (sock_world t') = tail))"
proof -
  from items_sent [OF assms(1,3,4,2)] obtain s' bs where
    s': "for_each (send_item e) items s = Some s'" "writes (sock_world s') = writes (sock_world s) @ concat bs"
      "list_all2 (\<lambda>i b. arrives e2 pending2 (cfg_chunkSize (settings s)) i (concat b)) items bs" by blast
  show ?thesis
    using s'(1,2) items_arrive [OF s'(3)] by (intro exI [of _ s'] exI [of _ "concat bs"]) (simp add: concat_concats)
qed

lemma sample_item_sendable:
  "item_sendable 16384 (VideoItem sample_video)" "item_sendable 16384 (AudioItem sample_audio)"
  by (simp_all add: item_sendable_def sendable_def sample_video_def sample_audio_def new_flv_video_tag_def
      new_flv_audio_tag_def new_media_tag_def media_tag.extend_def hasExtendedTimestamp_24)

theorem stream_reaches_watcher_witness:
  "\<exists>s' t' v a. for_each (send_item sample_host) [VideoItem sample_video, AudioItem sample_audio] (sample_client []) = Some s' \<and>
     retriever sample_host 16384 2 (sample_watcher (concat (outbox (sock_world s'))) False) = Some (Some t') \<and>
     calls t' = [(7, VideoReceived v), (7, AudioReceived a)] \<and>
     video_message_data v = [0x17, 1, 2, 3, 4] \<and> audio_message_data a = [0xAF, 1, 2, 3, 4]"
proof -
  let ?items = "[VideoItem sample_video, AudioItem sample_audio]"
  have c: "cfg_chunkSize (settings (sample_client [])) = 16384"
    by (simp add: new_session_settings_def)
  have ok: "reliable (net sample_host) inbox outbox" "delivers (net sample_host) inbox"
    by (simp_all add: script_reliable script_delivers)
  have items: "\<forall>i \<in> set ?items. item_sendable (cfg_chunkSize (settings (sample_client []))) i"
    unfolding c using sample_item_sendable by simp
  from stream_reaches_watcher [OF ok sample_client(3) items, unfolded c] obtain s' packets where
    s': "for_each (send_item sample_host) ?items (sample_client []) = Some s'"
      "outbox (sock_world s') = outbox (sock_world (sample_client [])) @ packets"
      "\<forall>t n tail. inbox (sock_world t) = concat packets @ tail \<and> media_delegate t = Some n \<and> \<not> stopped t \<longrightarrow>
       (\<exists>t' vs. retriever sample_host 16384 (length ?items) t = Some (Some t') \<and> calls t' = calls t @ map (Pair n) vs \<and>
          list_all2 carries ?items vs \<and> inbox (sock_world t') = tail)"
    by blast
  have p: "outbox (sock_world s') = packets" and n: "length ?items = 2"
    using s'(2) by simp_all
  from s'(3) [rule_format, of "sample_watcher (concat packets) False" "[]" 7, unfolded n] obtain t' vs where
    t': "retriever sample_host 16384 2 (sample_watcher (concat (outbox (sock_world s'))) False) = Some (Some t')"
      "calls t' = map (Pair 7) vs" "list_all2 carries ?items vs" unfolding p by auto
  from t'(3) obtain x y where vs: "vs = [x, y]" "carries (VideoItem sample_video) x" "carries (AudioItem sample_audio) y"
    by (auto simp: list_all2_Cons1)
  then obtain v a where "x = VideoReceived v" "y = AudioReceived a"
    by (cases x; cases y; simp)
  with vs t' s'(1) show ?thesis
    by (auto simp: sample_video_def sample_audio_def)
qed

section \<open>A connection that is gone\<close>

lemma retriever_step_dead:
  assumes "dead (net e) gone" and "gone (sock_world t)"
  shows "\<exists>t'. retriever_step e chunk t = Some (Some t') \<and> gone (sock_world t') \<and> quiet t t'"
proof -
  from receiveData_dead [OF assms(1) inert_session_handler assms(2), of 1] obtain ec k data t' where
    r: "receiveData session_handler (net e) 1 t = (ec, k, data, t')" "ec \<noteq> NoError" "gone (sock_world t')"
    by auto
  then show ?thesis
    using quiet_receiveData [OF r(1)]
    by (simp add: retriever_step_def receiveDynamicPacketWithDynamicHeader_def receiveChunk_def mediaPacketReceived_def
        del: One_nat_def)
qed

text \<open>Nothing but the session's own \<open>end\<close> stops the worker: on a connection that is gone it goes on for any
  number of turns, without delivering anything and without giving up.\<close>

theorem retriever_spins:
  assumes "dead (net e) gone" and "gone (sock_world t)" and "\<not> stopped t"
  shows "\<exists>t'. retriever e chunk k t = Some (Some t') \<and> \<not> stopped t' \<and> gone (sock_world t') \<and> quiet t t'"
  using assms(2,3)
proof (induction k arbitrary: t)
  case 0
  then show ?case by simp
next
  case (Suc k)
  from retriever_step_dead [OF assms(1) Suc.prems(1)] obtain t1 where
    t1: "retriever_step e chunk t = Some (Some t1)" "gone (sock_world t1)" "quiet t t1" by blast
  have "stopped t1 = stopped t"
    using quiet_kept [OF t1(3)] by (cases t; cases t1) (simp add: kept_def)
  with Suc.IH [OF t1(2)] Suc.prems(2) t1 quiet_trans [OF t1(3)] show ?case by auto
qed

theorem retriever_spins_witness:
  "\<exists>t'. retriever sample_host 4096 1000 (sample_watcher [] False) = Some (Some t') \<and> \<not> stopped t' \<and>
     quiet (sample_watcher [] False) t'"
proof -
  have "dead (net sample_host) (\<lambda>w. inbox w = [])"
    by (simp add: script_dead)
  from retriever_spins [OF this, of "sample_watcher [] False" 4096 1000] show ?thesis by auto
qed

end
