(* ===== verification/FlvItem.thy ===== *)
theory FlvItem
imports FlvAmf
begin

text \<open>
  \<open>FLVMediaHeader\<close> and \<open>FLVMediaItem\<close>: the file header and the loop that walks over the tags of an FLV
  file, collecting them and notifying the delegates. A notification is an entry of \<open>events\<close>, in the
  order the delegates see them. The abstract side is a list of tags and the bytes the FLV format lays
  out for it (\<open>encode_file\<close>); the parser is shown to return exactly that list.
\<close>

section \<open>File header\<close>

record flv_header =
  signature :: string
  hSize :: u32
  version :: int
  flags :: u8

definition new_flv_header :: flv_header where
  "new_flv_header = \<lparr> signature = [], hSize = 0, version = 0, flags = 0 \<rparr>"

definition flv_header_deserialize :: "v8 \<Rightarrow> flv_header \<Rightarrow> flv_header option" where
  "flv_header_deserialize it h =
     do { s \<leftarrow> iter_slice 3 it;
          it \<leftarrow> iter_advance 3 it;
          v \<leftarrow> iter_deref it;
          it \<leftarrow> iter_advance 1 it;
          f \<leftarrow> iter_deref it;
          it \<leftarrow> iter_advance 1 it;
          d \<leftarrow> iter_slice 4 it;
          size \<leftarrow> fromBigEndian32 d;
          Some (h\<lparr>signature := map char_of_byte s, version := uint v, flags := f, hSize := size\<rparr>) }"

section \<open>Media item\<close>

datatype flv_event =
    AmfPacketReady flv_amf_tag
  | AudioPacketReady flv_audio_tag
  | VideoPacketReady flv_video_tag
  | ParsingCompleted

record flv_item =
  flv_head :: flv_header
  amfTags :: "flv_amf_tag list"
  audioTags :: "flv_audio_tag list"
  videoTags :: "flv_video_tag list"
  flv_buffer :: v8
  flv_events :: "flv_event list"

definition new_flv_item :: flv_item where
  "new_flv_item = \<lparr> flv_head = new_flv_header, amfTags = [], audioTags = [], videoTags = [],
     flv_buffer = [], flv_events = [] \<rparr>"

definition flv_item_appendPayload :: "v8 \<Rightarrow> flv_item \<Rightarrow> flv_item" where
  "flv_item_appendPayload data m = (if data = [] then m else m\<lparr>flv_buffer := flv_buffer m @ data\<rparr>)"

definition parseHeader :: "flv_item \<Rightarrow> (u32 \<times> flv_item) option" where
  "parseHeader m =
     do { h \<leftarrow> flv_header_deserialize (flv_buffer m) (flv_head m);
          Some (hSize h, m\<lparr>flv_head := h\<rparr>) }"

definition parseAMFTag :: "v8 \<Rightarrow> flv_item \<Rightarrow> (u32 \<times> flv_item) option" where
  "parseAMFTag it m =
     do { tag \<leftarrow> flv_amf_deserialize it new_flv_amf_tag;
          Some (flv_payloadSizeAndHeader tag,
                m\<lparr>amfTags := amfTags m @ [tag], flv_events := flv_events m @ [AmfPacketReady tag]\<rparr>) }"

definition parseAudioTag :: "v8 \<Rightarrow> flv_item \<Rightarrow> (u32 \<times> flv_item) option" where
  "parseAudioTag it m =
     do { tag \<leftarrow> flv_audio_deserialize it new_flv_audio_tag;
          Some (flv_payloadSizeAndHeader tag,
                m\<lparr>audioTags := audioTags m @ [tag], flv_events := flv_events m @ [AudioPacketReady tag]\<rparr>) }"

definition parseVideoTag :: "v8 \<Rightarrow> flv_item \<Rightarrow> (u32 \<times> flv_item) option" where
  "parseVideoTag it m =
     do { tag \<leftarrow> flv_video_deserialize it new_flv_video_tag;
          Some (flv_payloadSizeAndHeader tag,
                m\<lparr>videoTags := videoTags m @ [tag], flv_events := flv_events m @ [VideoPacketReady tag]\<rparr>) }"

definition parseNextTags :: "v8 \<Rightarrow> flv_item \<Rightarrow> (u32 \<times> flv_item) option" where
  "parseNextTags it m =
     (if length it \<le> 4 then Some (1, m)
      else do { at4 \<leftarrow> iter_advance 4 it;
                b \<leftarrow> iter_deref at4;
                let ty = tagType b;
                if ty = FLV_AMFMetadata then parseAMFTag it m
                else if ty = FLV_AudioPayload then parseAudioTag it m
                else if ty = FLV_VideoPayload then parseVideoTag it m
                else Some (1, m) })"

lemma size_and_header:
  assumes "unat (payloadSize t) < 2 ^ 24"
  shows "unat (flv_payloadSizeAndHeader t) = unat (payloadSize t) + 15"
  using assms by (simp add: flv_payloadSizeAndHeader_def unat_word_ariths)

section \<open>The tag loop\<close>

text \<open>The properties an AMF tag reads do not touch its payload size.\<close>

lemma on_field:
  "(\<And>d t. f (setter d t) = f t) \<Longrightarrow> f (on_number key setter dict t) = f t"
  "(\<And>b t. f (setterb b t) = f t) \<Longrightarrow> f (on_boolean key setterb dict t) = f t"
  "(\<And>s t. f (setters s t) = f t) \<Longrightarrow> f (on_string key setters dict t) = f t"
  by (simp_all add: on_number_def on_boolean_def on_string_def split: option.splits subset.splits)

lemma on_timestamp_size: "on_timestamp dict t = Some t' \<Longrightarrow> payloadSize t' = payloadSize t"
  by (auto simp: on_timestamp_def split: option.splits subset.splits)

lemma deserializeFromDict_size:
  "deserializeFromDict dict t = Some t' \<Longrightarrow> payloadSize t' = payloadSize t"
  unfolding deserializeFromDict_def Let_def
  by (drule on_timestamp_size) (simp add: on_field [where f = payloadSize])

lemma flv_amf_read_values_size:
  "flv_amf_read_values vs t = Some t' \<Longrightarrow> payloadSize t' = payloadSize t"
  by (induction vs t rule: flv_amf_read_values.induct)
     (auto simp: bind_Some_iff, (metis deserializeFromDict_size)+)

lemma flv_amf_deserialize_size:
  assumes "flv_amf_deserialize it t = Some t'"
  shows "unat (payloadSize t') < 2 ^ 24 \<and> 15 + unat (payloadSize t') \<le> length it"
proof -
  from assms obtain t1 where t1: "flv_tag_deserialize it t = Some t1"
    and "payloadSize t' = payloadSize t1"
    by (auto simp: flv_amf_deserialize_def flv_amf_deserialize_payload_def bind_Some_iff
        split: if_splits dest: flv_amf_read_values_size)
  with flv_tag_deserialize_size [OF t1] show ?thesis by simp
qed

lemma flv_audio_deserialize_size:
  assumes "flv_audio_deserialize it t = Some t'"
  shows "unat (payloadSize t') < 2 ^ 24 \<and> 15 + unat (payloadSize t') \<le> length it"
  using assms flv_tag_deserialize_size [of it t]
  by (auto simp: flv_audio_deserialize_def bind_Some_iff)

lemma flv_video_deserialize_size:
  assumes "flv_video_deserialize it t = Some t'"
  shows "unat (payloadSize t') < 2 ^ 24 \<and> 15 + unat (payloadSize t') \<le> length it"
  using assms flv_tag_deserialize_size [of it t]
  by (auto simp: flv_video_deserialize_def bind_Some_iff)

lemma parse_tag_size:
  "parseAMFTag it m = Some (n, m') \<Longrightarrow> 0 < unat n \<and> unat n \<le> length it"
  "parseAudioTag it m = Some (n, m') \<Longrightarrow> 0 < unat n \<and> unat n \<le> length it"
  "parseVideoTag it m = Some (n, m') \<Longrightarrow> 0 < unat n \<and> unat n \<le> length it"
  by (auto simp: parseAMFTag_def parseAudioTag_def parseVideoTag_def bind_Some_iff size_and_header
      dest!: flv_amf_deserialize_size flv_audio_deserialize_size flv_video_deserialize_size)

lemma parseNextTags_size:
  assumes "parseNextTags it m = Some (n, m')"
  shows "0 < unat n \<and> (it \<noteq> [] \<longrightarrow> unat n \<le> length it)"
proof (cases "length it \<le> 4")
  case True
  with assms show ?thesis by (cases it) (auto simp: parseNextTags_def)
next
  case False
  with assms show ?thesis
    by (auto simp: parseNextTags_def bind_Some_iff Let_def split: if_splits dest: parse_tag_size)
qed

text \<open>
  \<open>parseTags\<close>: as long as bytes are left, parse what is at the iterator and move behind it; stop when
  the distance to the end is smaller than the step.
\<close>

function parseTagLoop :: "v8 \<Rightarrow> flv_item \<Rightarrow> flv_item option" where
  "parseTagLoop it m =
     (if it = [] then Some m
      else (case parseNextTags it m of
              None \<Rightarrow> None
            | Some (n, m) \<Rightarrow>
                if length it < unat n then Some m
                else parseTagLoop (drop (unat n) it) m))"
  by pat_completeness auto
termination
  by (relation "measure (\<lambda>(it, m). length it)") (auto dest!: parseNextTags_size)

declare parseTagLoop.simps [simp del]

definition parseTags :: "v8 \<Rightarrow> flv_item \<Rightarrow> flv_item option" where
  "parseTags buffer m =
     do { m \<leftarrow> parseTagLoop buffer m;
          Some (m\<lparr>flv_events := flv_events m @ [ParsingCompleted]\<rparr>) }"

definition flv_item_deserialize :: "flv_item \<Rightarrow> flv_item option" where
  "flv_item_deserialize m =
     do { (headerSize, m) \<leftarrow> parseHeader m;
          tags \<leftarrow> iter_advance (unat headerSize) (flv_buffer m);
          m \<leftarrow> parseTags tags m;
          Some (m\<lparr>flv_buffer := []\<rparr>) }"

definition flv_item_deserialize_range :: "v8 \<Rightarrow> flv_item \<Rightarrow> flv_item option" where
  "flv_item_deserialize_range it m = flv_item_deserialize (m\<lparr>flv_buffer := it\<rparr>)"

section \<open>The format\<close>

text \<open>What an FLV file contains, independently of the parser.\<close>

record abs_tag =
  a_prev :: u32
  a_kind :: u8
  a_time :: u32
  a_timeExt :: u8
  a_stream :: u32
  a_body :: v8

definition encode_tag :: "abs_tag \<Rightarrow> v8" where
  "encode_tag a = toBigEndian32 (a_prev a) @ [a_kind a] @ toBigEndian24 (word_of_nat (length (a_body a)))
     @ toBigEndian24 (a_time a) @ [a_timeExt a] @ toBigEndian24 (a_stream a) @ a_body a"

definition tag_ok :: "abs_tag \<Rightarrow> bool" where
  "tag_ok a \<longleftrightarrow> length (a_body a) < 2 ^ 24 \<and> unat (a_time a) < 2 ^ 24 \<and> unat (a_stream a) < 2 ^ 24"

definition encode_file :: "string \<Rightarrow> u8 \<Rightarrow> u8 \<Rightarrow> abs_tag list \<Rightarrow> v8 \<Rightarrow> v8" where
  "encode_file sig v f tags trailer =
     map byte_of_char sig @ [v, f] @ toBigEndian32 9 @ concat (map encode_tag tags) @ trailer"

text \<open>The tag object a tag of the file becomes.\<close>

definition fill :: "abs_tag \<Rightarrow> 'a flv_tag_scheme \<Rightarrow> 'a flv_tag_scheme" where
  "fill a t = t\<lparr>prevTagSize := a_prev a, tag_type := a_kind a,
     payloadSize := word_of_nat (length (a_body a)), timestamp := a_time a, streamID := a_stream a,
     payload := a_body a\<rparr>"

definition tag_event :: "abs_tag \<Rightarrow> flv_event option" where
  "tag_event a =
     (if a_kind a = FLV_AudioPayload
      then Some (AudioPacketReady (flv_audio_deserialize_payload (fill a new_flv_audio_tag)))
      else if a_kind a = FLV_VideoPayload
      then Some (VideoPacketReady (flv_video_deserialize_payload (fill a new_flv_video_tag)))
      else if a_kind a = FLV_AMFMetadata
      then (if a_body a = [] then Some (AmfPacketReady (fill a new_flv_amf_tag))
            else map_option AmfPacketReady (flv_amf_deserialize_payload (fill a new_flv_amf_tag)))
      else None)"

fun add_event :: "flv_event \<Rightarrow> flv_item \<Rightarrow> flv_item" where
  "add_event (AmfPacketReady t) m = m\<lparr>amfTags := amfTags m @ [t], flv_events := flv_events m @ [AmfPacketReady t]\<rparr>"
| "add_event (AudioPacketReady t) m = m\<lparr>audioTags := audioTags m @ [t], flv_events := flv_events m @ [AudioPacketReady t]\<rparr>"
| "add_event (VideoPacketReady t) m = m\<lparr>videoTags := videoTags m @ [t], flv_events := flv_events m @ [VideoPacketReady t]\<rparr>"
| "add_event ParsingCompleted m = m\<lparr>flv_events := flv_events m @ [ParsingCompleted]\<rparr>"

lemma length_encode_tag: "length (encode_tag a) = 15 + length (a_body a)"
  by (simp add: encode_tag_def)

lemma word_length_24: "length xs < 2 ^ 24 \<Longrightarrow> unat (word_of_nat (length xs) :: u32) = length xs"
  by (simp add: unsigned_of_nat take_bit_nat_eq_self)

lemma iter_advance_4:
  "length xs = 3 \<Longrightarrow> iter_advance 4 (xs @ b # rest) = Some rest"
  using iter_advance_append [of 4 "xs @ [b]" rest] by simp

lemma flv_tag_deserialize_encode:
  assumes "tag_ok a"
  shows "flv_tag_deserialize (encode_tag a @ rest) t = Some (fill a t)"
  using assms word_length_24 [of "a_body a"]
  by (simp add: flv_tag_deserialize_def encode_tag_def tag_ok_def fill_def take_bit_24_eq iter_advance_4)

lemma size_fill:
  assumes "tag_ok a" and "payloadSize t = word_of_nat (length (a_body a))"
  shows "unat (flv_payloadSizeAndHeader t) = length (encode_tag a)"
  using assms size_and_header [of t] word_length_24 [of "a_body a"]
  by (simp add: tag_ok_def length_encode_tag)

lemma parseNextTags_encode:
  assumes "tag_ok a" and "tag_event a = Some e"
  shows "\<exists>n. parseNextTags (encode_tag a @ rest) m = Some (n, add_event e m) \<and> unat n = length (encode_tag a)"
proof -
  have long: "\<not> length (encode_tag a @ rest) \<le> 4"
    by (simp add: length_encode_tag)
  obtain r where at4: "iter_advance 4 (encode_tag a @ rest) = Some (a_kind a # r)"
    by (simp add: encode_tag_def)
  note de = flv_tag_deserialize_encode [OF assms(1), of rest]
  note sz = size_fill [OF assms(1)]
  have f: "payloadSize (fill a t) = word_of_nat (length (a_body a))" "payload (fill a t) = a_body a"
    for t :: "'a flv_tag_scheme" by (simp_all add: fill_def)
  consider "a_kind a = FLV_AudioPayload" | "a_kind a = FLV_VideoPayload" | "a_kind a = FLV_AMFMetadata"
    using assms(2) by (auto simp: tag_event_def split: if_splits)
  then show ?thesis
  proof cases
    case 1
    with assms(2) sz [of "flv_audio_deserialize_payload (fill a new_flv_audio_tag)"] show ?thesis
      using long at4 by (auto simp: parseNextTags_def tagType_def parseAudioTag_def flv_audio_deserialize_def
          de tag_event_def f)
  next
    case 2
    with assms(2) sz [of "flv_video_deserialize_payload (fill a new_flv_video_tag)"] show ?thesis
      using long at4 by (auto simp: parseNextTags_def tagType_def parseVideoTag_def flv_video_deserialize_def
          de tag_event_def f)
  next
    case 3
    then obtain t where t: "e = AmfPacketReady t"
      "(if length (a_body a) \<le> 0 then Some (fill a new_flv_amf_tag)
        else flv_amf_deserialize_payload (fill a new_flv_amf_tag)) = Some t"
      using assms(2) by (auto simp: tag_event_def split: if_splits)
    then have "payloadSize t = word_of_nat (length (a_body a))"
      by (auto simp: flv_amf_deserialize_payload_def bind_Some_iff f split: if_splits
          dest: flv_amf_read_values_size)
    with sz [of t] 3 t show ?thesis
      using long at4 by (simp add: parseNextTags_def tagType_def parseAMFTag_def flv_amf_deserialize_def
          de f)
  qed
qed

lemma parseTagLoop_short: "length it \<le> 4 \<Longrightarrow> parseTagLoop it m = Some m"
proof (induction "length it" arbitrary: it)
  case 0
  then show ?case by (simp add: parseTagLoop.simps)
next
  case (Suc n)
  then have "parseTagLoop (drop 1 it) m = Some m" by simp
  moreover have "it \<noteq> []" "\<not> length it < 1" using Suc.hyps(2) by auto
  ultimately show ?case
    using Suc.prems by (simp add: parseTagLoop.simps [of it] parseNextTags_def)
qed

lemma parseTagLoop_step:
  assumes "tag_ok a" and "tag_event a = Some e"
  shows "parseTagLoop (encode_tag a @ rest) m = parseTagLoop rest (add_event e m)"
proof -
  obtain n where n: "parseNextTags (encode_tag a @ rest) m = Some (n, add_event e m)"
    "unat n = length (encode_tag a)"
    using parseNextTags_encode [OF assms] by blast
  have ne: "encode_tag a @ rest \<noteq> []"
    by (simp add: encode_tag_def)
  show ?thesis
    by (subst parseTagLoop.simps) (simp only: ne n if_False option.case prod.case, simp)
qed

lemma parseTagLoop_tags:
  "\<forall>a \<in> set tags. tag_ok a \<Longrightarrow> map tag_event tags = map Some es \<Longrightarrow>
   parseTagLoop (concat (map encode_tag tags) @ rest) m = parseTagLoop rest (fold add_event es m)"
proof (induction tags arbitrary: es m)
  case Nil
  then show ?case by simp
next
  case (Cons a tags)
  then obtain e es' where "es = e # es'" "tag_event a = Some e" "map tag_event tags = map Some es'"
    by (cases es) auto
  with Cons show ?case by (simp add: parseTagLoop_step)
qed

text \<open>The effect of the notifications on the item.\<close>

definition amf_of :: "flv_event list \<Rightarrow> flv_amf_tag list" where
  "amf_of es = [t. AmfPacketReady t \<leftarrow> es]"

definition audio_of :: "flv_event list \<Rightarrow> flv_audio_tag list" where
  "audio_of es = [t. AudioPacketReady t \<leftarrow> es]"

definition video_of :: "flv_event list \<Rightarrow> flv_video_tag list" where
  "video_of es = [t. VideoPacketReady t \<leftarrow> es]"

lemma fold_add_event:
  "fold add_event es m = m\<lparr>amfTags := amfTags m @ amf_of es, audioTags := audioTags m @ audio_of es,
     videoTags := videoTags m @ video_of es, flv_events := flv_events m @ es\<rparr>"
proof (induction es arbitrary: m)
  case Nil
  then show ?case by (simp add: amf_of_def audio_of_def video_of_def)
next
  case (Cons e es)
  then show ?case by (cases e) (simp_all add: amf_of_def audio_of_def video_of_def)
qed

lemma flv_header_deserialize_encode:
  "length sig = 3 \<Longrightarrow> flv_header_deserialize (map byte_of_char sig @ [v, f] @ toBigEndian32 n @ rest) h
    = Some (h\<lparr>signature := sig, version := uint v, flags := f, hSize := n\<rparr>)"
  by (simp add: flv_header_deserialize_def)

lemma flv_tag_deserialize_more:
  assumes "flv_tag_deserialize it t = Some t'"
  shows "flv_tag_deserialize (it @ rest) t = Some t'"
proof -
  from assms obtain d1 prev i1 ty i2 d2 size i3 d3 ts i4 d4 sid i5 p where
    "iter_slice 4 it = Some d1" "fromBigEndian32 d1 = Some prev" "iter_advance 4 it = Some i1"
    "iter_deref i1 = Some ty" "iter_advance 1 i1 = Some i2"
    "iter_slice 3 i2 = Some d2" "fromBigEndian24 d2 = Some size" "iter_advance 3 i2 = Some i3"
    "iter_slice 3 i3 = Some d3" "fromBigEndian24 d3 = Some ts" "iter_advance 4 i3 = Some i4"
    "iter_slice 3 i4 = Some d4" "fromBigEndian24 d4 = Some sid" "iter_advance 3 i4 = Some i5"
    "iter_slice (unat size) i5 = Some p"
    and "t' = t\<lparr>prevTagSize := prev, tag_type := ty, payloadSize := size, timestamp := ts,
      streamID := sid, payload := p\<rparr>"
    unfolding flv_tag_deserialize_def by (auto simp: bind_Some_iff)
  then show ?thesis
    by (simp add: flv_tag_deserialize_def iter_more)
qed

lemma flv_tag_truncated:
  assumes "tag_ok a" and "n < length (encode_tag a)"
  shows "flv_tag_deserialize (take n (encode_tag a)) t = None"
proof (rule ccontr)
  let ?it = "take n (encode_tag a)"
  assume "flv_tag_deserialize ?it t \<noteq> None"
  then obtain t' where t': "flv_tag_deserialize ?it t = Some t'" by blast
  have "flv_tag_deserialize (?it @ drop n (encode_tag a)) t = Some t'"
    using t' by (rule flv_tag_deserialize_more)
  then have "t' = fill a t"
    using flv_tag_deserialize_encode [OF assms(1), of "[]" t] by simp
  with flv_tag_deserialize_size(2) [OF t'] assms word_length_24 [of "a_body a"] show False
    by (simp add: fill_def tag_ok_def length_encode_tag)
qed

lemma flv_file_parsed:
  assumes "length sig = 3" and "\<forall>a \<in> set tags. tag_ok a" and "map tag_event tags = map Some es"
    and "length trailer \<le> 4"
  shows "flv_item_deserialize_range (encode_file sig v f tags trailer) m = Some (m
    \<lparr>flv_head := \<lparr>signature = sig, hSize = 9, version = uint v, flags = f\<rparr>,
     amfTags := amfTags m @ amf_of es, audioTags := audioTags m @ audio_of es,
     videoTags := videoTags m @ video_of es, flv_buffer := [],
     flv_events := flv_events m @ es @ [ParsingCompleted]\<rparr>)"
proof -
  let ?pre = "map byte_of_char sig @ [v, f] @ toBigEndian32 9"
  let ?tags = "concat (map encode_tag tags) @ trailer"
  have "iter_advance 9 (?pre @ ?tags) = Some ?tags"
    using assms(1) by (intro iter_advance_append) simp
  then show ?thesis
    using assms(1,4) flv_header_deserialize_encode [OF assms(1), of v f 9 ?tags]
    by (simp add: flv_item_deserialize_range_def flv_item_deserialize_def parseHeader_def encode_file_def
        parseTags_def parseTagLoop_tags [OF assms(2,3)] parseTagLoop_short fold_add_event)
qed

section \<open>Properties\<close>

text \<open>C14: parsing an FLV file gives back exactly the tags the file holds, in order, each one notified to
  the delegates once and in file order, with the completion notice last; the bytes between tags are
  never taken for tags. The trailer is the last previous-tag-size field, at most four bytes.\<close>

theorem flv_parse_file:
  assumes "length sig = 3" and "\<forall>a \<in> set tags. tag_ok a" and "map tag_event tags = map Some es"
    and "length trailer \<le> 4"
  shows "flv_item_deserialize_range (encode_file sig v f tags trailer) m = Some (m
    \<lparr>flv_head := \<lparr>signature = sig, hSize = 9, version = uint v, flags = f\<rparr>,
     amfTags := amfTags m @ amf_of es, audioTags := audioTags m @ audio_of es,
     videoTags := videoTags m @ video_of es, flv_buffer := [],
     flv_events := flv_events m @ es @ [ParsingCompleted]\<rparr>)"
  using assms by (rule flv_file_parsed)

theorem flv_parse_file_witness:
  "let a = \<lparr>a_prev = 0, a_kind = 9, a_time = 40, a_timeExt = 0, a_stream = 0, a_body = [0x17, 1]\<rparr>;
       t = flv_video_deserialize_payload (fill a new_flv_video_tag)
   in flv_item_deserialize_range (encode_file ''FLV'' 1 5 [a] [0, 0, 0, 17]) new_flv_item = Some (new_flv_item
    \<lparr>flv_head := \<lparr>signature = ''FLV'', hSize = 9, version = 1, flags = 5\<rparr>,
     videoTags := [t], flv_events := [VideoPacketReady t, ParsingCompleted]\<rparr>)"
  using flv_parse_file [of "''FLV''"
      "[\<lparr>a_prev = 0, a_kind = 9, a_time = 40, a_timeExt = 0, a_stream = 0, a_body = [0x17, 1]\<rparr>]"
      "[VideoPacketReady (flv_video_deserialize_payload (fill
        \<lparr>a_prev = 0, a_kind = 9, a_time = 40, a_timeExt = 0, a_stream = 0, a_body = [0x17, 1]\<rparr> new_flv_video_tag))]"
      "[0, 0, 0, 17]" 1 5 new_flv_item]
  by (simp add: tag_ok_def tag_event_def new_flv_item_def amf_of_def audio_of_def video_of_def)

text \<open>A file cut inside its last audio or video tag, behind the tag's type byte, is read past its
  end: the parser never compares the announced payload size with the bytes that are left.\<close>

theorem flv_truncated_tag:
  assumes "\<forall>a \<in> set tags. tag_ok a" and "map tag_event tags = map Some es"
    and "tag_ok a" and "a_kind a = FLV_AudioPayload \<or> a_kind a = FLV_VideoPayload"
    and "4 < n" and "n < length (encode_tag a)"
  shows "parseTags (concat (map encode_tag tags) @ take n (encode_tag a)) m = None"
proof -
  let ?it = "take n (encode_tag a)"
  have len: "length ?it = n" using assms(6) by simp
  have kind: "?it = toBigEndian32 (a_prev a) @ a_kind a # take (n - 5) (drop 5 (encode_tag a))"
  proof -
    have "n = 5 + (n - 5)" using assms(5) by simp
    then have "?it = take 5 (encode_tag a) @ take (n - 5) (drop 5 (encode_tag a))"
      by (metis take_add)
    then show ?thesis by (simp add: encode_tag_def)
  qed
  have none: "flv_tag_deserialize ?it new_flv_audio_tag = None" "flv_tag_deserialize ?it new_flv_video_tag = None"
    by (simp_all add: flv_tag_truncated [OF assms(3,6)])
  have "parseNextTags ?it m' = None" for m'
    using assms(4,5) len none
    by (auto simp: parseNextTags_def parseAudioTag_def parseVideoTag_def flv_audio_deserialize_def
        flv_video_deserialize_def tagType_def kind)
  moreover have "?it \<noteq> []" using len assms(5) by auto
  ultimately have "parseTagLoop ?it m' = None" for m'
    by (simp add: parseTagLoop.simps [of ?it])
  then show ?thesis
    by (simp add: parseTags_def parseTagLoop_tags [OF assms(1,2)])
qed

theorem flv_truncated_tag_witness:
  "parseTags (take 16 (encode_tag \<lparr>a_prev = 0, a_kind = 9, a_time = 40, a_timeExt = 0, a_stream = 0,
      a_body = [0x17, 1]\<rparr>)) new_flv_item = None"
  using flv_truncated_tag [of "[]" "[]" "\<lparr>a_prev = 0, a_kind = 9, a_time = 40, a_timeExt = 0,
      a_stream = 0, a_body = [0x17, 1]\<rparr>" 16 new_flv_item]
  by (simp add: tag_ok_def length_encode_tag)

end
