(* ===== verification/FileReader.thy ===== *)
theory FileReader
imports Rtmp_Prelude
begin

text \<open>
  \<open>FileReader\<close>. The part of \<open>std::ifstream\<close> that it uses is modelled first: the contents of the file, the
  position, the two state bits and the count of the last read. A loop that does not end is \<open>None\<close>.
\<close>

section \<open>The stream\<close>

record file_stream =
  is_open :: bool
  contents :: v8
  position :: nat
  eofbit :: bool
  failbit :: bool
  gcount :: nat

text \<open>An unformatted read sets both bits when it gets less than it asked for, and does nothing on a stream that is
  not good. The buffer keeps what is not overwritten.\<close>

definition stream_read :: "nat \<Rightarrow> v8 \<Rightarrow> file_stream \<Rightarrow> v8 \<times> file_stream" where
  "stream_read n buffer s =
     (if eofbit s \<or> failbit s then (buffer, s\<lparr>failbit := True, gcount := 0\<rparr>)
      else let got = take n (drop (position s) (contents s)) in
        (got @ drop (length got) buffer,
         s\<lparr>position := position s + length got, gcount := length got,
           eofbit := length got < n, failbit := length got < n\<rparr>))"

text \<open>\<open>tellg\<close> fails on a stream that is not good; \<open>seekg\<close> clears the end-of-file bit first, and only that one.\<close>

definition stream_tell :: "file_stream \<Rightarrow> int \<times> file_stream" where
  "stream_tell s = (if eofbit s \<or> failbit s then (- 1, s\<lparr>failbit := True\<rparr>) else (int (position s), s))"

definition stream_seek :: "int \<Rightarrow> file_stream \<Rightarrow> file_stream" where
  "stream_seek p s =
     (let s = s\<lparr>eofbit := False\<rparr> in
      if failbit s then s else if p < 0 then s\<lparr>failbit := True\<rparr> else s\<lparr>position := nat p\<rparr>)"

definition stream_seek_end :: "file_stream \<Rightarrow> file_stream" where
  "stream_seek_end s = stream_seek (int (length (contents s))) s"

definition open_file :: "v8 option \<Rightarrow> file_stream" where
  "open_file file = (case file of
     None \<Rightarrow> \<lparr> is_open = False, contents = [], position = 0, eofbit = False, failbit = True, gcount = 0 \<rparr>
   | Some bytes \<Rightarrow> \<lparr> is_open = True, contents = bytes, position = 0, eofbit = False, failbit = False, gcount = 0 \<rparr>)"

section \<open>The reader\<close>

definition videoReadBufferSize :: nat where
  "videoReadBufferSize = 1024"

definition reader_isOpen :: "file_stream \<Rightarrow> bool" where
  "reader_isOpen s = is_open s"

definition reader_exist :: "file_stream \<Rightarrow> bool" where
  "reader_exist s = reader_isOpen s"

definition reader_eof :: "file_stream \<Rightarrow> bool" where
  "reader_eof s = (if reader_isOpen s then eofbit s else True)"

definition reader_close :: "file_stream \<Rightarrow> file_stream" where
  "reader_close s = (if reader_isOpen s then s\<lparr>is_open := False\<rparr> else s)"

definition reader_currentPosition :: "file_stream \<Rightarrow> int \<times> file_stream" where
  "reader_currentPosition s = stream_tell s"

definition reader_seek :: "int \<Rightarrow> file_stream \<Rightarrow> file_stream" where
  "reader_seek p s = stream_seek p s"

text \<open>Into a buffer of the caller: at the end of the file the count is the one of the last read.\<close>

definition reader_read_into :: "nat \<Rightarrow> v8 \<Rightarrow> file_stream \<Rightarrow> nat \<times> v8 \<times> file_stream" where
  "reader_read_into n buffer s =
     (let (buffer, s) = (if \<not> reader_eof s then stream_read n buffer s else (buffer, s))
      in (gcount s, buffer, s))"

partial_function (option) read_loop ::
  "int \<Rightarrow> nat \<Rightarrow> v8 \<Rightarrow> file_stream \<Rightarrow> (nat \<times> v8 \<times> file_stream) option" where
  "read_loop numberOfBytes bytesRead buffer s =
     (if int bytesRead \<noteq> numberOfBytes \<and> \<not> reader_eof s then
        (case stream_read (length buffer) buffer s of
           (buffer, s) \<Rightarrow> read_loop numberOfBytes (bytesRead + gcount s) buffer s)
      else Some (bytesRead, buffer, s))"

definition reader_read :: "int \<Rightarrow> file_stream \<Rightarrow> (nat \<times> v8 \<times> file_stream) option" where
  "reader_read numberOfBytes s =
     read_loop numberOfBytes 0
       (replicate (if numberOfBytes \<ge> 0 then nat numberOfBytes else videoReadBufferSize) 0) s"

definition reader_size :: "file_stream \<Rightarrow> int \<times> file_stream" where
  "reader_size s =
     (if \<not> reader_isOpen s then (0, s)
      else let (fpos, s) = reader_currentPosition s;
               s = stream_seek_end s;
               (len, s) = reader_currentPosition s
           in (len, reader_seek fpos s))"

definition readAll :: "file_stream \<Rightarrow> (nat \<times> v8 \<times> file_stream) option" where
  "readAll s = (let (n, s) = reader_size s in reader_read n s)"

datatype file_type = UnknownFile | FLVFile

text \<open>\<open>boost::to_upper\<close> in the classic locale and \<open>boost::contains\<close>.\<close>

definition to_upper :: "u8 \<Rightarrow> u8" where
  "to_upper b = (if 97 \<le> b \<and> b \<le> 122 then b - 32 else b)"

definition contains :: "v8 \<Rightarrow> string \<Rightarrow> bool" where
  "contains bytes s = list_ex (\<lambda>i. take (length s) (drop i bytes) = map byte_of_char s) [0..<length bytes + 1]"

text \<open>The names of the file types in the order of the map.\<close>

definition supportedFileTypes :: "(file_type \<times> string) list" where
  "supportedFileTypes = [(UnknownFile, ''Unknown''), (FLVFile, ''FLV'')]"

definition detect_type :: "v8 \<Rightarrow> file_type" where
  "detect_type bytes =
     (case find (\<lambda>(t, name). contains (map to_upper bytes) name) supportedFileTypes of
        None \<Rightarrow> UnknownFile | Some (t, name) \<Rightarrow> t)"

definition reader_type :: "file_stream \<Rightarrow> (file_type \<times> file_stream) option" where
  "reader_type s =
     (if \<not> reader_isOpen s then Some (UnknownFile, s)
      else let (currentPos, s) = reader_currentPosition s;
               s = stream_seek 0 s
           in do { (n, bytes, s) \<leftarrow> reader_read 9 s;
                   let s = stream_seek currentPos s;
                   Some ((if bytes = [] then UnknownFile else detect_type bytes), s) })"

section \<open>Properties\<close>

text \<open>On a stream that is not good the loop goes on forever.\<close>

lemma read_loop_failed:
  assumes "read_loop n k buffer s = Some r"
  shows "is_open s \<and> failbit s \<and> \<not> eofbit s \<longrightarrow> int k = n"
proof (rule read_loop.raw_induct [OF _ assms], goal_cases)
  case (1 loop n k buffer s r)
  show ?case
  proof (intro impI, rule ccontr)
    assume s: "is_open s \<and> failbit s \<and> \<not> eofbit s" and k: "int k \<noteq> n"
    have "loop n k buffer (s\<lparr>failbit := True, gcount := 0\<rparr>) = Some r"
      using 1(2) s k by (simp add: reader_eof_def reader_isOpen_def stream_read_def)
    from 1(1) [OF this] s k show False by simp
  qed
qed

lemma read_loop_once:
  assumes "is_open s" and "\<not> eofbit s" and "\<not> failbit s" and "0 < n" and "length buffer = n"
  shows "read_loop (int n) 0 buffer s =
    (let got = take n (drop (position s) (contents s)) in
     Some (length got, got @ drop (length got) buffer,
       s\<lparr>position := position s + length got, gcount := length got,
         eofbit := length got < n, failbit := length got < n\<rparr>))"
  using assms
  by (subst read_loop.simps, subst read_loop.simps) (auto simp: reader_eof_def reader_isOpen_def stream_read_def Let_def)

lemma open_file_stream:
  "stream_seek 0 (open_file (Some bytes)) = open_file (Some bytes)"
  "stream_tell (open_file (Some bytes)) = (0, open_file (Some bytes))"
  "is_open (open_file (Some bytes))" "\<not> eofbit (open_file (Some bytes))" "\<not> failbit (open_file (Some bytes))"
  by (simp_all add: stream_seek_def stream_tell_def open_file_def)

text \<open>Reading the beginning of a file.\<close>

lemma read_front:
  assumes "0 < n"
  shows "reader_read (int n) (open_file (Some bytes)) =
    (let k = min n (length bytes) in
     Some (k, take n bytes @ replicate (n - k) 0,
       (open_file (Some bytes))\<lparr>position := k, gcount := k, eofbit := k < n, failbit := k < n\<rparr>))"
  using read_loop_once [OF open_file_stream(3-5) assms length_replicate, of 0 bytes]
  by (simp add: reader_read_def Let_def open_file_def min.commute del: replicate.simps)

text \<open>Nothing contains a lower-case letter after \<open>to_upper\<close>, so the name of the unknown type is never found.\<close>

lemma to_upper_no_n: "to_upper b \<noteq> 110"
  by (auto simp: to_upper_def diff_eq_eq)

lemma detect_type_FLV: "detect_type bytes = (if contains (map to_upper bytes) ''FLV'' then FLVFile else UnknownFile)"
proof -
  have "\<not> contains (map to_upper bytes) ''Unknown''"
  proof
    assume "contains (map to_upper bytes) ''Unknown''"
    then obtain i where "take (length ''Unknown'') (drop i (map to_upper bytes)) = map byte_of_char ''Unknown''"
      unfolding contains_def list_ex_iff by blast
    moreover have "byte_of_char CHR ''n'' \<in> set (map byte_of_char ''Unknown'')"
      by simp
    ultimately have "byte_of_char CHR ''n'' \<in> set (map to_upper bytes)"
      by (metis in_set_dropD in_set_takeD)
    then show False
      using to_upper_no_n by (auto simp: byte_of_char_def)
  qed
  then show ?thesis
    by (simp add: detect_type_def supportedFileTypes_def)
qed

lemma contains_front: "take (length s) bytes = map byte_of_char s \<Longrightarrow> contains bytes s"
  by (auto simp: contains_def list_ex_iff intro!: bexI [of _ 0])

text \<open>\<open>type\<close> on a file of less than nine bytes leaves the stream failed: the seek back takes the end-of-file
  bit away and not the failure bit, and every later \<open>read\<close> of at least one byte runs forever, because its loop
  waits for the end of the file. On a longer file \<open>type\<close> leaves the stream as it was.\<close>

theorem type_of_short_file:
  assumes "0 < n"
  shows "(length bytes < 9 \<longrightarrow>
      (\<exists>s. reader_type (open_file (Some bytes)) = Some (detect_type (bytes @ replicate (9 - length bytes) 0), s) \<and>
         reader_read n s = None \<and> readAll s = None)) \<and>
    (9 \<le> length bytes \<longrightarrow>
      reader_type (open_file (Some bytes)) = Some (detect_type (take 9 bytes), (open_file (Some bytes))\<lparr>gcount := 9\<rparr>))"
proof (intro conjI impI)
  let ?s = "open_file (Some bytes)"
  note type = reader_type_def reader_isOpen_def reader_currentPosition_def open_file_stream
  note r = read_front [of 9 bytes, simplified]
  show "reader_type ?s = Some (detect_type (take 9 bytes), ?s\<lparr>gcount := 9\<rparr>)" if "9 \<le> length bytes"
  proof -
    have "bytes \<noteq> []" using that by auto
    with that show ?thesis
      by (simp add: type r Let_def min_def del: replicate.simps) (simp add: open_file_def stream_seek_def)
  qed
  assume short: "length bytes < 9"
  let ?s2 = "?s\<lparr>position := length bytes, gcount := length bytes, failbit := True\<rparr>"
  have t: "reader_type ?s = Some (detect_type (bytes @ replicate (9 - length bytes) 0), ?s2)"
    using short by (simp add: type r Let_def min_def del: replicate.simps) (simp add: open_file_def stream_seek_def)
  have spin: "reader_read m ?s2 = None" if "m \<noteq> 0" for m
    using read_loop_failed [of m 0 _ ?s2] that
    by (cases "reader_read m ?s2") (auto simp: reader_read_def open_file_def)
  have "reader_size ?s2 = (- 1, ?s2)"
    by (simp add: reader_size_def reader_isOpen_def reader_currentPosition_def reader_seek_def stream_tell_def
        stream_seek_end_def stream_seek_def open_file_def)
  then have "readAll ?s2 = None"
    using spin by (simp add: readAll_def)
  with t spin assms show "\<exists>s. reader_type ?s = Some (detect_type (bytes @ replicate (9 - length bytes) 0), s) \<and>
      reader_read n s = None \<and> readAll s = None" by auto
qed

theorem type_of_short_file_witness:
  "\<exists>s. reader_type (open_file (Some [0x66, 0x6C, 0x76])) = Some (FLVFile, s) \<and> reader_read 4 s = None"
proof -
  have "detect_type ([0x66, 0x6C, 0x76] @ replicate (9 - length [0x66, 0x6C, 0x76 :: u8]) 0) = FLVFile"
    unfolding detect_type_FLV by (simp add: contains_front to_upper_def byte_of_char_def)
  with type_of_short_file [of 4 "[0x66, 0x6C, 0x76]"] show ?thesis by auto
qed

lemma read_loop_to_end:
  assumes "0 < n"
  shows "r = drop (position s) (contents s) \<Longrightarrow> is_open s \<Longrightarrow> \<not> eofbit s \<Longrightarrow> \<not> failbit s \<Longrightarrow> length buffer = n \<Longrightarrow>
    \<exists>b s'. read_loop (- 1) k buffer s = Some (k + length r, b, s') \<and> length b = n \<and>
      take (length r mod n) b = drop (n * (length r div n)) r \<and> reader_eof s'"
proof (induction "length r" arbitrary: r k buffer s rule: less_induct)
  case less
  show ?case
  proof (cases "length r < n")
    case True
    let ?s = "s\<lparr>position := position s + length r, gcount := length r, eofbit := True, failbit := True\<rparr>"
    have "read_loop (- 1) k buffer s = Some (k + length r, r @ drop (length r) buffer, ?s)"
      using True less.prems
      by (subst read_loop.simps, subst read_loop.simps) (simp add: reader_eof_def reader_isOpen_def stream_read_def Let_def)
    moreover have "reader_eof ?s"
      using less.prems by (simp add: reader_eof_def reader_isOpen_def)
    ultimately show ?thesis
      using True less.prems by (intro exI [of _ "r @ drop (length r) buffer"] exI [of _ ?s]) simp
  next
    case False
    let ?s = "s\<lparr>position := position s + n, gcount := n, eofbit := False, failbit := False\<rparr>"
    have len: "length (take n r) = n" using False by simp
    have step: "read_loop (- 1) k buffer s = read_loop (- 1) (k + n) (take n r) ?s"
      using False less.prems
      by (subst read_loop.simps) (simp add: reader_eof_def reader_isOpen_def stream_read_def Let_def min_def)
    have "drop n r = drop (position ?s) (contents ?s)" "length (drop n r) < length r"
      using less.prems(1) False assms by (simp_all add: add.commute)
    from less.hyps [OF this(2,1), of "take n r" "k + n"] less.prems len obtain b s' where
      ih: "read_loop (- 1) (k + n) (take n r) ?s = Some (k + n + length (drop n r), b, s')" "length b = n"
        "take (length (drop n r) mod n) b = drop (n * (length (drop n r) div n)) (drop n r)" "reader_eof s'"
      by auto
    have m: "length (drop n r) mod n = length r mod n" "n * (length (drop n r) div n) + n = n * (length r div n)"
      using False assms by (simp_all add: le_mod_geq le_div_geq)
    have "take (length r mod n) b = drop (n * (length r div n)) r"
      using ih(3) unfolding m(1) drop_drop m(2) .
    with step ih False show ?thesis by auto
  qed
qed

lemma readAll_file: "\<exists>s. readAll (open_file (Some bytes)) = Some (length bytes, bytes, s) \<and> \<not> failbit s"
proof -
  let ?s = "open_file (Some bytes)"
  have size: "reader_size ?s = (int (length bytes), ?s)"
    by (simp add: reader_size_def reader_isOpen_def reader_currentPosition_def reader_seek_def stream_tell_def
        stream_seek_end_def stream_seek_def open_file_def)
  show ?thesis
  proof (cases "bytes = []")
    case True
    then show ?thesis
      unfolding readAll_def size
      by (simp add: reader_read_def) (subst read_loop.simps, simp add: open_file_def)
  next
    case False
    with read_front [of "length bytes" bytes] show ?thesis
      unfolding readAll_def size by (simp add: Let_def open_file_def)
  qed
qed

text \<open>\<open>read\<close> without a size counts every byte of the file, but each turn reads over the one before: what it
  returns is a buffer of 1024 bytes that begins with the last, incomplete piece of the file. \<open>readAll\<close> returns
  the whole file.\<close>

theorem read_without_size:
  "\<exists>b s. reader_read (- 1) (open_file (Some bytes)) = Some (length bytes, b, s) \<and> length b = 1024 \<and>
     take (length bytes mod 1024) b = drop (1024 * (length bytes div 1024)) bytes \<and> reader_eof s \<and>
     (\<exists>s. readAll (open_file (Some bytes)) = Some (length bytes, bytes, s) \<and> \<not> failbit s)"
proof -
  let ?s = "open_file (Some bytes)"
  have "(0 :: nat) < 1024" by simp
  from read_loop_to_end [OF this _ open_file_stream(3-5) length_replicate, of bytes bytes 0 0]
  obtain b s where b: "reader_read (- 1) ?s = Some (length bytes, b, s)" "length b = 1024"
    "take (length bytes mod 1024) b = drop (1024 * (length bytes div 1024)) bytes" "reader_eof s"
    by (auto simp: reader_read_def videoReadBufferSize_def open_file_def simp del: replicate.simps)
  with b readAll_file [of bytes] show ?thesis by blast
qed

end
