(* ===== verification/FileBroadcast.thy ===== *)
theory FileBroadcast
imports EndToEnd FlvItem FileReader
begin

text \<open>
  A file on the air: the reader reads an FLV file, the parser hands its tags to a delegate, which puts the audio and
  the video tags into a queue each; the handlers of the queues send them, tag by tag and in whatever order the two
  threads take turns, and a watcher is handed what the file holds.
\<close>

section \<open>What is sent and what is seen\<close>

fun video_seen :: "notification \<Rightarrow> (u32 \<times> v8) option" where
  "video_seen (VideoReceived m) = Some (timestamp m, video_message_data m)"
| "video_seen _ = None"

fun audio_seen :: "notification \<Rightarrow> (u32 \<times> v8) option" where
  "audio_seen (AudioReceived m) = Some (timestamp m, audio_message_data m)"
| "audio_seen _ = None"

definition tag_data :: "'a media_tag_scheme \<Rightarrow> u32 \<times> v8" where
  "tag_data t = (timestamp t, payload t)"

text \<open>Two queues, two threads, and each tag sent whole: the items of each queue in order, the queues interleaved tag by
  tag. What the threads do to each other within a tag is in \<open>PacketTurns\<close>.\<close>

definition interleavings :: "flv_video_tag list \<Rightarrow> flv_audio_tag list \<Rightarrow> media_item list set" where
  "interleavings vs as = shuffles (map VideoItem vs) (map AudioItem as)"

lemma interleavings_items: "items \<in> interleavings vs as \<Longrightarrow> set items = VideoItem ` set vs \<union> AudioItem ` set as"
  by (simp add: interleavings_def set_shuffles)

lemma interleavings_Cons:
  assumes "i # items \<in> interleavings vs as"
  shows "(\<exists>v vs'. vs = v # vs' \<and> i = VideoItem v \<and> items \<in> interleavings vs' as) \<or>
    (\<exists>a as'. as = a # as' \<and> i = AudioItem a \<and> items \<in> interleavings vs as')"
  using assms by (cases vs; cases as) (auto simp: interleavings_def Cons_in_shuffles_iff)

lemma carried_seen:
  assumes "items \<in> interleavings vs as" and "list_all2 carries items ns"
  shows "List.map_filter video_seen ns = map tag_data vs \<and> List.map_filter audio_seen ns = map tag_data as"
  using assms(2,1)
proof (induction items ns arbitrary: vs as rule: list_all2_induct)
  case Nil
  then show ?case by (simp add: interleavings_def List.map_filter_def)
next
  case (Cons i items n ns)
  from interleavings_Cons [OF Cons.prems] show ?case
  proof (elim disjE exE conjE)
    fix v vs' assume "vs = v # vs'" "i = VideoItem v" "items \<in> interleavings vs' as"
    with Cons.IH [of vs' as] Cons.hyps(1) show ?thesis
      by (cases n) (auto simp: List.map_filter_simps tag_data_def)
  next
    fix a as' assume "as = a # as'" "i = AudioItem a" "items \<in> interleavings vs as'"
    with Cons.IH [of vs as'] Cons.hyps(1) show ?thesis
      by (cases n) (auto simp: List.map_filter_simps tag_data_def)
  qed
qed

section \<open>The tags of a file\<close>

text \<open>The time of a tag as the format has it: the extension byte is the upper eight of its 32 bits.\<close>

definition tag_time :: "abs_tag \<Rightarrow> u32" where
  "tag_time a = push_bit 24 (ucast (a_timeExt a)) OR a_time a"

definition file_tags :: "u8 \<Rightarrow> abs_tag list \<Rightarrow> (u32 \<times> v8) list" where
  "file_tags kind tags = [(tag_time a, a_body a). a \<leftarrow> tags, a_kind a = kind]"

text \<open>A tag that the code plays: its body is not empty, and its time is below 0xFFFFFF, so that its extension byte, which
  the code skips, is zero.\<close>

definition tag_plays :: "abs_tag \<Rightarrow> bool" where
  "tag_plays a \<longleftrightarrow> tag_ok a \<and> (a_kind a \<noteq> FLV_AMFMetadata \<longrightarrow> a_body a \<noteq> [] \<and> tag_time a < 0xFFFFFF)"

text \<open>Such a time is the lower three bytes of it.\<close>

lemma small_tag_time:
  assumes "tag_time a < 0xFFFFFF"
  shows "tag_time a = a_time a"
proof -
  let ?x = "ucast (a_timeExt a) :: u32"
  have "push_bit 24 ?x \<le> tag_time a"
    unfolding tag_time_def by (rule le_word_or2)
  with assms have lt: "push_bit 24 ?x < 0xFFFFFF" by simp
  have "?x = 0"
  proof (rule ccontr)
    assume "?x \<noteq> 0"
    then have "1 \<le> unat ?x" by (simp add: unat_gt_0 Suc_le_eq)
    moreover have "unat ?x < 2 ^ 8"
      using unsigned_less [of "a_timeExt a", where 'a = nat]
      by (simp add: unsigned_ucast_eq take_bit_eq_mod)
    moreover from this have "unat (push_bit 24 ?x) = unat ?x * 2 ^ 24"
      by (simp add: push_bit_eq_mult unat_word_ariths)
    ultimately have "2 ^ 24 \<le> unat (push_bit 24 ?x)" by simp
    with lt show False by (simp add: word_less_nat_alt)
  qed
  then show ?thesis by (simp add: tag_time_def)
qed

lemma deserialized_tag:
  "payload (flv_video_deserialize_payload v) = payload v" "timestamp (flv_video_deserialize_payload v) = timestamp v"
  "payloadSize (flv_video_deserialize_payload v) = payloadSize v"
  "payload (flv_audio_deserialize_payload a) = payload a" "timestamp (flv_audio_deserialize_payload a) = timestamp a"
  "payloadSize (flv_audio_deserialize_payload a) = payloadSize a"
  by (simp_all add: flv_video_deserialize_payload_def flv_audio_deserialize_payload_def Let_def split: list.splits)

lemma filled_tag:
  "payload (fill a t) = a_body a" "timestamp (fill a t) = a_time a" "payloadSize (fill a t) = word_of_nat (length (a_body a))"
  by (simp_all add: fill_def)

lemma parsed_tags:
  assumes "map tag_event tags = map Some es" and "\<forall>a \<in> set tags. tag_plays a"
  shows "map tag_data (video_of es) = file_tags FLV_VideoPayload tags" "map tag_data (audio_of es) = file_tags FLV_AudioPayload tags"
  using assms
  by (induction tags es rule: list_induct2')
     (auto simp: video_of_def audio_of_def file_tags_def tag_event_def tag_data_def deserialized_tag filled_tag tag_plays_def small_tag_time split: if_splits)

lemma plays_sendable:
  assumes "tag_plays a" and "a_kind a \<noteq> FLV_AMFMetadata" and "0 < maxSize" and "unat maxSize < 2 ^ 31"
  shows "item_sendable maxSize (VideoItem (flv_video_deserialize_payload (fill a v)))"
    and "item_sendable maxSize (AudioItem (flv_audio_deserialize_payload (fill a b)))"
  using assms small_tag_time [of a]
  by (auto simp: item_sendable_def sendable_def tag_plays_def tag_ok_def hasExtendedTimestamp_24 deserialized_tag filled_tag)

lemma parsed_sendable:
  assumes "map tag_event tags = map Some es" and "\<forall>a \<in> set tags. tag_plays a" and "0 < maxSize" and "unat maxSize < 2 ^ 31"
  shows "\<forall>v \<in> set (video_of es). item_sendable maxSize (VideoItem v)" "\<forall>a \<in> set (audio_of es). item_sendable maxSize (AudioItem a)"
  using assms(1,2)
  by (induction tags es rule: list_induct2')
     (auto simp: video_of_def audio_of_def tag_event_def intro!: plays_sendable [OF _ _ assms(3,4)] split: if_splits)

section \<open>From the file to the watcher\<close>

text \<open>C1: a file on the air: in a file no audio or video tag of which is empty or has a time of 0xFFFFFF milliseconds (4
  hours and 39 minutes) or more, the reader reads everything and the parser finds the tags; a broadcaster sends the
  video and the audio tags, each as a whole, the two queues interleaved in any way; and a watcher of the same chunk size that
  reads the bytes of its packets is told, in one turn of its worker for each tag, of every video tag and of every audio tag of the file, each
  kind in the order of the file, with the bytes the file has for it and its time, all 32 bits of it.\<close>

theorem file_reaches_watcher:
  assumes "reliable (net e) pending writes" and "delivers (net e2) pending2" and "sock_open s"
    and "0 < cfg_chunkSize (settings s)" and "unat (cfg_chunkSize (settings s)) < 2 ^ 31"
    and "length sig = 3" and "\<forall>a \<in> set tags. tag_plays a" and "map tag_event tags = map Some es" and "length trailer \<le> 4"
  shows "\<exists>data n r m. readAll (open_file (Some (encode_file sig v f tags trailer))) = Some (n, data, r) \<and>
    flv_item_deserialize_range data new_flv_item = Some m \<and>
    (\<forall>items \<in> interleavings (videoTags m) (audioTags m). \<exists>s' packets. for_each (send_item e) items s = Some s' \<and>
      writes (sock_world s') = writes (sock_world s) @ packets \<and>
      (\<forall>t d tail. pending2 (sock_world t) = concat packets @ tail \<and> media_delegate t = Some d \<and> \<not> stopped t \<longrightarrow>
         (\<exists>t' ns. retriever e2 (cfg_chunkSize (settings s)) (length items) t = Some (Some t') \<and>
            calls t' = calls t @ map (Pair d) ns \<and> pending2 (sock_world t') = tail \<and>
            List.map_filter video_seen ns = file_tags FLV_VideoPayload tags \<and>
            List.map_filter audio_seen ns = file_tags FLV_AudioPayload tags)))"
proof -
  let ?file = "encode_file sig v f tags trailer"
  obtain r where r: "readAll (open_file (Some ?file)) = Some (length ?file, ?file, r)"
    using readAll_file by blast
  obtain m where m: "flv_item_deserialize_range ?file new_flv_item = Some m" "videoTags m = video_of es" "audioTags m = audio_of es"
    using flv_file_parsed [OF assms(6) _ assms(8,9), of v f new_flv_item] assms(7)
    by (auto simp: tag_plays_def new_flv_item_def)
  note sendable = parsed_sendable [OF assms(8,7,4,5)]
  have "\<exists>s' packets. for_each (send_item e) items s = Some s' \<and>
      writes (sock_world s') = writes (sock_world s) @ packets \<and>
      (\<forall>t d tail. pending2 (sock_world t) = concat packets @ tail \<and> media_delegate t = Some d \<and> \<not> stopped t \<longrightarrow>
         (\<exists>t' ns. retriever e2 (cfg_chunkSize (settings s)) (length items) t = Some (Some t') \<and>
            calls t' = calls t @ map (Pair d) ns \<and> pending2 (sock_world t') = tail \<and>
            List.map_filter video_seen ns = file_tags FLV_VideoPayload tags \<and>
            List.map_filter audio_seen ns = file_tags FLV_AudioPayload tags))"
    if i: "items \<in> interleavings (video_of es) (audio_of es)" for items
  proof -
    have "\<forall>i \<in> set items. item_sendable (cfg_chunkSize (settings s)) i"
      using sendable by (auto simp: interleavings_items [OF i])
    from items_sent [OF assms(1,3) this assms(2)] obtain s' bs where
      s': "for_each (send_item e) items s = Some s'" "writes (sock_world s') = writes (sock_world s) @ concat bs"
        "list_all2 (\<lambda>i b. arrives e2 pending2 (cfg_chunkSize (settings s)) i (concat b)) items bs" by blast
    have "\<exists>t' ns. retriever e2 (cfg_chunkSize (settings s)) (length items) t = Some (Some t') \<and>
            calls t' = calls t @ map (Pair d) ns \<and> pending2 (sock_world t') = tail \<and>
            List.map_filter video_seen ns = file_tags FLV_VideoPayload tags \<and>
            List.map_filter audio_seen ns = file_tags FLV_AudioPayload tags"
      if "pending2 (sock_world t) = concat (concat bs) @ tail" "media_delegate t = Some d" "\<not> stopped t" for t d tail
      using items_arrive [OF s'(3) _ that(2,3)] that(1) carried_seen [OF i] parsed_tags [OF assms(8,7)]
      by (fastforce simp: concat_concats)
    with s'(1,2) show ?thesis by blast
  qed
  with r m show ?thesis by auto
qed

text \<open>A picture, a sound, and the two threads taking turns the other way around.\<close>

theorem file_reaches_watcher_witness:
  "\<exists>data n r m s' t' ns. readAll (open_file (Some (encode_file ''FLV'' 1 5
       [\<lparr>a_prev = 0, a_kind = 9, a_time = 40, a_timeExt = 0, a_stream = 0, a_body = [0x17, 1]\<rparr>,
        \<lparr>a_prev = 17, a_kind = 8, a_time = 46, a_timeExt = 0, a_stream = 0, a_body = [0xAF, 1, 2]\<rparr>] [0, 0, 0, 18]))) = Some (n, data, r) \<and>
     flv_item_deserialize_range data new_flv_item = Some m \<and>
     for_each (send_item sample_host) (map AudioItem (audioTags m) @ map VideoItem (videoTags m)) (sample_client []) = Some s' \<and>
     retriever sample_host 16384 (length (map AudioItem (audioTags m) @ map VideoItem (videoTags m)))
       (sample_watcher (concat (outbox (sock_world s'))) False) = Some (Some t') \<and>
     calls t' = map (Pair 7) ns \<and> List.map_filter video_seen ns = [(40, [0x17, 1])] \<and>
     List.map_filter audio_seen ns = [(46, [0xAF, 1, 2])]"
proof -
  let ?a = "\<lparr>a_prev = 0, a_kind = 9, a_time = 40, a_timeExt = 0, a_stream = 0, a_body = [0x17, 1]\<rparr> :: abs_tag"
  let ?b = "\<lparr>a_prev = 17, a_kind = 8, a_time = 46, a_timeExt = 0, a_stream = 0, a_body = [0xAF, 1, 2]\<rparr> :: abs_tag"
  let ?es = "[VideoPacketReady (flv_video_deserialize_payload (fill ?a new_flv_video_tag)),
    AudioPacketReady (flv_audio_deserialize_payload (fill ?b new_flv_audio_tag))]"
  have c: "cfg_chunkSize (settings (sample_client [])) = 16384"
    by (simp add: new_session_settings_def)
  have ok: "reliable (net sample_host) inbox outbox" "delivers (net sample_host) inbox"
    by (simp_all add: script_reliable script_delivers)
  have n: "0 < (16384 :: u32)" "unat (16384 :: u32) < 2 ^ 31" "length ''FLV'' = 3" "length [0, 0, 0, 18 :: u8] \<le> 4"
    by simp_all
  have plays: "\<forall>a \<in> set [?a, ?b]. tag_plays a"
    by (simp add: tag_plays_def tag_ok_def tag_time_def)
  have es: "map tag_event [?a, ?b] = map Some ?es"
    by (simp add: tag_event_def)
  from file_reaches_watcher [OF ok sample_client(3) [of "[]"] _ _ n(3) plays es n(4), where v = 1 and f = 5, unfolded c, OF n(1,2)]
  obtain data k r m where
    m: "readAll (open_file (Some (encode_file ''FLV'' 1 5 [?a, ?b] [0, 0, 0, 18]))) = Some (k, data, r)"
      "flv_item_deserialize_range data new_flv_item = Some m"
    and all: "\<forall>items \<in> interleavings (videoTags m) (audioTags m). \<exists>s' packets.
      for_each (send_item sample_host) items (sample_client []) = Some s' \<and>
      outbox (sock_world s') = outbox (sock_world (sample_client [])) @ packets \<and>
      (\<forall>t d tail. inbox (sock_world t) = concat packets @ tail \<and> media_delegate t = Some d \<and> \<not> stopped t \<longrightarrow>
         (\<exists>t' ns. retriever sample_host 16384 (length items) t = Some (Some t') \<and>
            calls t' = calls t @ map (Pair d) ns \<and> inbox (sock_world t') = tail \<and>
            List.map_filter video_seen ns = file_tags FLV_VideoPayload [?a, ?b] \<and>
            List.map_filter audio_seen ns = file_tags FLV_AudioPayload [?a, ?b]))"
    by blast
  let ?items = "map AudioItem (audioTags m) @ map VideoItem (videoTags m)"
  have app: "xs @ ys \<in> shuffles ys xs" for xs ys :: "media_item list"
    by (induction xs arbitrary: ys) (auto intro: Cons_in_shuffles_rightI)
  have "?items \<in> interleavings (videoTags m) (audioTags m)"
    unfolding interleavings_def by (rule app)
  from all [rule_format, OF this] obtain s' packets where
    s': "for_each (send_item sample_host) ?items (sample_client []) = Some s'" "outbox (sock_world s') = packets"
      "\<forall>t d tail. inbox (sock_world t) = concat packets @ tail \<and> media_delegate t = Some d \<and> \<not> stopped t \<longrightarrow>
         (\<exists>t' ns. retriever sample_host 16384 (length ?items) t = Some (Some t') \<and>
            calls t' = calls t @ map (Pair d) ns \<and> inbox (sock_world t') = tail \<and>
            List.map_filter video_seen ns = file_tags FLV_VideoPayload [?a, ?b] \<and>
            List.map_filter audio_seen ns = file_tags FLV_AudioPayload [?a, ?b])"
    by auto
  from s'(3) [rule_format, of "sample_watcher (concat packets) False" "[]" 7] obtain t' ns where
    t': "retriever sample_host 16384 (length ?items) (sample_watcher (concat (outbox (sock_world s'))) False) = Some (Some t')"
      "calls t' = map (Pair 7) ns" "List.map_filter video_seen ns = file_tags FLV_VideoPayload [?a, ?b]"
      "List.map_filter audio_seen ns = file_tags FLV_AudioPayload [?a, ?b]"
    unfolding s'(2) by auto
  have "file_tags FLV_VideoPayload [?a, ?b] = [(40, [0x17, 1])]" "file_tags FLV_AudioPayload [?a, ?b] = [(46, [0xAF, 1, 2])]"
    by (simp_all add: file_tags_def tag_time_def)
  with m s'(1) t' show ?thesis
    by (metis (no_types))
qed

end
