(* ===== verification/Desync.thy ===== *)
theory Desync
imports EndToEnd
begin

text \<open>
  What the worker of a watcher makes of the messages it has no type for, and of the short headers with which a server
  may start a message: it reads the header, hands out nothing and leaves the body in the stream, where the next turn
  takes it for a header.
\<close>

section \<open>Headers without a packet\<close>

text \<open>A full header of a type that is neither audio, video nor metadata, or a header that relies on the one before it.\<close>

definition foreign_header :: "rtmp_message \<Rightarrow> bool" where
  "foreign_header m \<longleftrightarrow> header_ok m \<and>
     (chunkStreamType m = Type0 \<and> tag_type m \<notin> {Msg_VideoMessage, Msg_AudioMessage, Msg_DataMessage_AMF0} \<or>
      chunkStreamType m = Type2 \<or> chunkStreamType m = Type3)"

lemma receivePayload_unknown:
  assumes "header_ok m" and "chunkStreamType m = Type0"
    and "tag_type m \<notin> {Msg_VideoMessage, Msg_AudioMessage, Msg_DataMessage_AMF0}"
  shows "\<exists>chunk'. receivePayload h tr Type0 maxSize (media_header m) chunk s
    = Some (InvalidArgument, 12, BlankPacket, chunk', s)"
  using assms
  by (simp add: receivePayload_def start_packet_def start_header header_fields_def new_message_defs length_media_header)

text \<open>Without a size the payload of a short header is empty.\<close>

lemma receivePayload_short:
  assumes "delivers tr pending" and "ty = Type2 \<or> ty = Type3"
  shows "\<exists>s'. receivePayload h tr ty maxSize header new_rtmp_chunk s = Some (NoError, 0, BlankPacket, new_rtmp_chunk, s') \<and>
    pending (sock_world s') = pending (sock_world s) \<and> frame s s'"
proof -
  from receiveData_prefix [OF assms(1), of s "[]" "pending (sock_world s)" 0 h] obtain s' where
    "receiveData h tr 0 s = (NoError, 0, [], s')" "pending (sock_world s') = pending (sock_world s)" "frame s s'"
    by auto
  with assms(2) show ?thesis
    by (intro exI [of _ s']) (auto simp: receivePayload_def take_payload_def new_rtmp_chunk_def)
qed

lemma receiveChunk_foreign:
  assumes d: "delivers tr pending" and m: "foreign_header m" and p: "pending (sock_world s) = media_header m @ body"
  shows "\<exists>ec n chunk s'. receiveChunk h tr maxSize new_rtmp_chunk s = Some (ec, n, BlankPacket, chunk, s') \<and>
    (ec = NoError \<longrightarrow> n = 0 \<and> chunk = new_rtmp_chunk) \<and> pending (sock_world s') = body \<and> frame s s'"
proof (cases "chunkStreamType m = Type0")
  case True
  from m True have h: "header_ok m" "tag_type m \<notin> {Msg_VideoMessage, Msg_AudioMessage, Msg_DataMessage_AMF0}"
    by (auto simp: foreign_header_def)
  from receiveChunk_full_header [OF d h(1) True p, of h maxSize new_rtmp_chunk] obtain s' where
    s': "receiveChunk h tr maxSize new_rtmp_chunk s = receivePayload h tr Type0 maxSize (media_header m) new_rtmp_chunk s'"
      "pending (sock_world s') = body" "frame s s'" by blast
  from receivePayload_unknown [OF h(1) True h(2), of h tr maxSize new_rtmp_chunk s'] s' show ?thesis
    by (elim exE) simp
next
  case False
  let ?ty = "chunkStreamType m" and ?b = "chunkStreamID (chunkStreamType m) m"
    and ?ts = "toBigEndian24 (timestamp m)"
  from m False have h: "header_ok m" "?ty = Type2 \<or> ?ty = Type3"
    by (auto simp: foreign_header_def)
  have ty: "chunk_type_of_byte ?b = ?ty"
    using h(1) by (simp add: header_ok_def chunk_type_of_chunkStreamID)
  have ts: "fromBigEndian24 ?ts = Some (timestamp m)"
    using h(1) be24.dec_enc_exact [of "timestamp m"] by (simp add: header_ok_def take_bit_24_eq)
  have "pending (sock_world s) = [?b] @ (if ?ty = Type2 then ?ts else []) @ body"
    using p h(2) by (auto simp: media_header_def)
  from receiveData_prefix [OF d this, of 1 h] obtain s1 where
    s1: "receiveData h tr 1 s = (NoError, 1, [?b], s1)" "frame s s1"
      "pending (sock_world s1) = (if ?ty = Type2 then ?ts else []) @ body" by auto
  show ?thesis
  proof (cases "?ty = Type2")
    case True
    then have "pending (sock_world s1) = ?ts @ body" using s1(3) by simp
    from receiveData_prefix [OF d this, of 3 h] obtain s2 where
      s2: "receiveData h tr 3 s1 = (NoError, 3, ?ts, s2)" "frame s1 s2" "pending (sock_world s2) = body" by auto
    from receivePayload_short [OF d h(2), of h maxSize "?b # ?ts" s2] obtain s3 where
      s3: "receivePayload h tr ?ty maxSize (?b # ?ts) new_rtmp_chunk s2 = Some (NoError, 0, BlankPacket, new_rtmp_chunk, s3)"
        "pending (sock_world s3) = body" "frame s2 s3" using s2(3) by blast
    have "receiveChunk h tr maxSize new_rtmp_chunk s = Some (NoError, 0, BlankPacket, new_rtmp_chunk, s3)"
      using True s3(1) by (simp add: receiveChunk_def receiveTimestamp_def s1(1) s2(1) ty [unfolded True] ts Let_def del: One_nat_def)
    with s1(2) s2(2) s3 show ?thesis by (auto simp: frame_def)
  next
    case False
    with h(2) have t3: "?ty = Type3" by simp
    from receivePayload_short [OF d h(2), of h maxSize "[?b]" s1] obtain s2 where
      s2: "receivePayload h tr ?ty maxSize [?b] new_rtmp_chunk s1 = Some (NoError, 0, BlankPacket, new_rtmp_chunk, s2)"
        "pending (sock_world s2) = body" "frame s1 s2" using s1(3) t3 by auto
    have "receiveChunk h tr maxSize new_rtmp_chunk s = Some (NoError, 0, BlankPacket, new_rtmp_chunk, s2)"
      using t3 s2(1) by (simp add: receiveChunk_def s1(1) ty [unfolded t3] Let_def del: One_nat_def)
    with s1(2) s2 show ?thesis by (auto simp: frame_def)
  qed
qed

lemma empty_chunk: "rc_data (new_rtmp_chunk\<lparr>rc_size := n\<rparr>) = []"
  by (simp add: new_rtmp_chunk_def)

text \<open>The turn of the worker.\<close>

lemma retriever_step_foreign:
  assumes "delivers (net e) pending" and "foreign_header m" and "pending (sock_world t) = media_header m @ body"
  shows "\<exists>t'. retriever_step e chunk t = Some (Some t') \<and> pending (sock_world t') = body \<and> frame t t'"
proof -
  from receiveChunk_foreign [OF assms, of session_handler chunk] obtain ec n c t' where
    r: "receiveChunk session_handler (net e) chunk new_rtmp_chunk t = Some (ec, n, BlankPacket, c, t')"
      "ec = NoError \<longrightarrow> n = 0 \<and> c = new_rtmp_chunk" "pending (sock_world t') = body" "frame t t'" by blast
  have loop: "continuation_loop session_handler (net e) chunk NoError 0 (new_rtmp_chunk\<lparr>rc_size := 0\<rparr>) t'
      = Some (Some (NoError, new_rtmp_chunk\<lparr>rc_size := 0\<rparr>, t'))"
    by (subst continuation_loop.simps) simp
  have "retriever_step e chunk t = Some (Some t')"
  proof (cases "ec = NoError")
    case True
    with r(2) have "n = 0" "c = new_rtmp_chunk" by simp_all
    have "rc_total new_rtmp_chunk - rc_size new_rtmp_chunk = 0" "min_size 0 chunk = 0"
      by (simp_all add: new_rtmp_chunk_def min_size_def)
    with \<open>n = 0\<close> \<open>c = new_rtmp_chunk\<close> True loop show ?thesis
      by (simp add: retriever_step_def receiveDynamicPacketWithDynamicHeader_def r(1) mediaPacketReceived_def Let_def
          append_continuation_def empty_chunk)
  next
    case False
    then show ?thesis
      by (simp add: retriever_step_def receiveDynamicPacketWithDynamicHeader_def r(1) mediaPacketReceived_def)
  qed
  with r(3,4) show ?thesis by blast
qed

text \<open>C35: the worker of a watcher reads the header of a message it has no packet for, an unknown type or a short header
  that starts a message, and goes on as if the body were the next message: nothing is delivered, nothing but the socket
  has changed, and the body is what the next turn reads first.\<close>

theorem foreign_message_desync:
  assumes "delivers (net e) pending" and "foreign_header m" and "pending (sock_world t) = media_header m @ body"
    and "\<not> stopped t"
  shows "\<exists>t'. retriever e chunk (Suc k) t = retriever e chunk k t' \<and> pending (sock_world t') = body \<and>
    calls t' = calls t \<and> media_delegate t' = media_delegate t \<and> \<not> stopped t'"
  using retriever_step_foreign [OF assms(1-3), of chunk] assms(4) frame_more frame_watcher by fastforce

text \<open>A ping of the server: six bytes of a user control message stay in the stream.\<close>

theorem foreign_message_desync_witness:
  "\<exists>t'. retriever sample_host 4096 1 (sample_watcher [2, 0, 0, 0, 0, 0, 6, 4, 0, 0, 0, 0, 0, 6, 0, 0, 0, 1] False)
      = Some (Some t') \<and> inbox (sock_world t') = [0, 6, 0, 0, 0, 1] \<and> calls t' = []"
proof -
  let ?m = "fresh_header 2 Msg_UserControlMessage 0 6"
  have "foreign_header ?m"
    by (simp add: foreign_header_def header_ok_def fresh_header_def new_message_defs hasExtendedTimestamp_24)
  moreover have "delivers (net sample_host) inbox"
    by (simp add: script_delivers)
  moreover have "media_header ?m = [2, 0, 0, 0, 0, 0, 6, 4, 0, 0, 0, 0]"
    by code_simp
  ultimately show ?thesis
    using foreign_message_desync [of sample_host inbox ?m
        "sample_watcher [2, 0, 0, 0, 0, 0, 6, 4, 0, 0, 0, 0, 0, 6, 0, 0, 0, 1] False" "[0, 6, 0, 0, 0, 1]" 4096 0]
    by auto
qed

end
