(* ===== verification/PacketTurns.thy ===== *)
theory PacketTurns
imports FileBroadcast Desync
begin

text \<open>
  The two threads of a broadcast: the handler of the video queue and that of the audio queue send the packets of their
  tags on one socket, and nothing keeps them from taking turns between two packets of one tag. Here a turn is the cut
  of a tag into packets, or one packet. A schedule that lets a thread finish its tag is the sequential model; so is every
  schedule when no tag is longer than a chunk. One sound between two chunks of a picture breaks the stream.
\<close>

section \<open>The threads\<close>

datatype sender = VideoSender | AudioSender

text \<open>What a thread still has in its queue, and of the packets of the tag it is at.\<close>

record ('w, 'a) on_air =
  queued :: "sender \<Rightarrow> media_item list"
  packets :: "sender \<Rightarrow> v8 list"
  air :: "('w, 'a) client_session_scheme"

definition item_packets :: "u32 \<Rightarrow> media_item \<Rightarrow> v8 list option" where
  "item_packets chunk i =
     (case i of
        VideoItem v \<Rightarrow> map_option (map (\<lambda>p. payload (video_message_serialize p))) (newChunkedVideo chunk v)
      | AudioItem a \<Rightarrow> map_option (map (\<lambda>p. payload (audio_message_serialize p))) (newChunkedAudio chunk a))"

text \<open>The body of the loop over the packets, behind its test.\<close>

definition packet_sent :: "'w host \<Rightarrow> v8 \<Rightarrow> ('w, 'a) client_session_scheme \<Rightarrow> ('w, 'a) client_session_scheme" where
  "packet_sent e packet s =
     (case sendPacket session_handler (net e) id packet s of
        (ec, n, s) \<Rightarrow> if ec = NoError then s else socket_close session_handler (net e) s)"

definition take_item :: "sender \<Rightarrow> ('w, 'a) on_air \<Rightarrow> ('w, 'a) on_air option" where
  "take_item i a =
     (case queued a i of
        [] \<Rightarrow> Some a
      | x # xs \<Rightarrow>
          let a = a\<lparr>queued := (queued a)(i := xs)\<rparr> in
          if \<not> sock_open (air a) then Some a
          else do { ps \<leftarrow> item_packets (cfg_chunkSize (settings (air a))) x; Some (a\<lparr>packets := (packets a)(i := ps)\<rparr>) })"

definition sender_turn :: "'w host \<Rightarrow> sender \<Rightarrow> ('w, 'a) on_air \<Rightarrow> ('w, 'a) on_air option" where
  "sender_turn e i a =
     (case packets a i of
        [] \<Rightarrow> take_item i a
      | p # ps \<Rightarrow>
          Some (if \<not> sock_open (air a) then a\<lparr>packets := (packets a)(i := [])\<rparr>
                else a\<lparr>packets := (packets a)(i := ps), air := packet_sent e p (air a)\<rparr>))"

definition going_on_air :: "flv_video_tag list \<Rightarrow> flv_audio_tag list \<Rightarrow> ('w, 'a) client_session_scheme \<Rightarrow> ('w, 'a) on_air" where
  "going_on_air vs as s =
     \<lparr> queued = (\<lambda>i. case i of VideoSender \<Rightarrow> map VideoItem vs | AudioSender \<Rightarrow> map AudioItem as), packets = (\<lambda>_. []), air = s \<rparr>"

definition all_sent :: "('w, 'a) on_air \<Rightarrow> bool" where
  "all_sent a \<longleftrightarrow> (\<forall>i \<in> {VideoSender, AudioSender}. queued a i = [] \<and> packets a i = [])"

abbreviation turns :: "'w host \<Rightarrow> sender list \<Rightarrow> ('w, 'a) on_air \<Rightarrow> ('w, 'a) on_air option" where
  "turns e \<equiv> for_each (sender_turn e)"

section \<open>A thread that is left alone\<close>

lemma turns_append: "turns e (is @ js) a = do { a \<leftarrow> turns e is a; turns e js a }"
  by (induction "is" arbitrary: a) (simp_all split: Option.bind_split)

lemma send_packets_bytes: "send_packets e ser ps s = send_packets e id (map ser ps) s"
  by (induction ps arbitrary: s) (simp_all add: sendPacket_def split: prod.split)

lemma send_item_packets:
  "send_item e x s =
     (if sock_open s then map_option (\<lambda>ps. send_packets e id ps s) (item_packets (cfg_chunkSize (settings s)) x) else Some s)"
  by (cases x)
     (auto simp: send_item_def item_packets_def broadcaster_sendVideoTag_def broadcaster_sendAudioTag_def if_open_def
       send_packets_bytes [of e "\<lambda>p. payload (video_message_serialize p)"] send_packets_bytes [of e "\<lambda>p. payload (audio_message_serialize p)"]
       split: Option.bind_split)

lemma send_packets_sent [simp]:
  "send_packets e id (p # ps) s = (if \<not> sock_open s then s else send_packets e id ps (packet_sent e p s))"
  by (simp add: packet_sent_def split: prod.split)

declare send_packets.simps(2) [simp del]

lemma packets_alone:
  "\<exists>k. turns e (replicate k i) a = Some (a\<lparr>packets := (packets a)(i := []), air := send_packets e id (packets a i) (air a)\<rparr>)"
proof (induction "packets a i" arbitrary: a)
  case Nil
  then have none: "packets a i = []" by simp
  then have "(packets a)(i := []) = packets a" by (simp add: fun_upd_idem)
  with none show ?case by (intro exI [of _ 0]) simp
next
  case (Cons p ps)
  show ?case
  proof (cases "sock_open (air a)")
    case True
    let ?a = "a\<lparr>packets := (packets a)(i := ps), air := packet_sent e p (air a)\<rparr>"
    from Cons.hyps(1) [of ?a] obtain k where
      "turns e (replicate k i) ?a = Some (?a\<lparr>packets := (packets ?a)(i := []), air := send_packets e id (packets ?a i) (air ?a)\<rparr>)"
      by auto
    with True show ?thesis
      by (intro exI [of _ "Suc k"]) (simp add: sender_turn_def flip: Cons.hyps(2))
  next
    case False
    then show ?thesis by (intro exI [of _ 1]) (simp add: sender_turn_def flip: Cons.hyps(2))
  qed
qed

text \<open>A thread that is left alone does with its next tag what the sequential model does.\<close>

lemma item_alone:
  assumes "queued a i = x # xs" and "packets a i = []" and "send_item e x (air a) = Some s'"
  shows "\<exists>k. turns e (replicate k i) a = Some (a\<lparr>queued := (queued a)(i := xs), air := s'\<rparr>)"
proof (cases "sock_open (air a)")
  case True
  with assms(3) obtain ps where ps: "item_packets (cfg_chunkSize (settings (air a))) x = Some ps" "s' = send_packets e id ps (air a)"
    by (auto simp: send_item_packets)
  let ?a = "a\<lparr>queued := (queued a)(i := xs), packets := (packets a)(i := ps)\<rparr>"
  from packets_alone [of e i ?a] obtain k where
    "turns e (replicate k i) ?a = Some (?a\<lparr>packets := (packets ?a)(i := []), air := send_packets e id (packets ?a i) (air ?a)\<rparr>)"
    by blast
  moreover have "(packets ?a)(i := []) = packets a" using assms(2) by (simp add: fun_eq_iff)
  ultimately show ?thesis
    using True assms(1,2) ps by (intro exI [of _ "Suc k"]) (simp add: sender_turn_def take_item_def)
next
  case False
  with assms show ?thesis
    by (intro exI [of _ 1]) (simp add: sender_turn_def take_item_def send_item_packets)
qed

text \<open>Every order of whole tags is the order of a schedule of the threads.\<close>

lemma interleavings_scheduled:
  assumes "items \<in> shuffles (queued a VideoSender) (queued a AudioSender)" and "for_each (send_item e) items (air a) = Some s'"
    and "packets a = (\<lambda>_. [])"
  shows "\<exists>is a'. turns e is a = Some a' \<and> all_sent a' \<and> air a' = s'"
  using assms
proof (induction items arbitrary: a)
  case Nil
  then have "queued a VideoSender = []" "queued a AudioSender = []" by auto
  with Nil show ?case by (intro exI [of _ "[]"] exI [of _ a]) (simp add: all_sent_def)
next
  case (Cons x items)
  from Cons.prems(2) obtain s1 where s1: "send_item e x (air a) = Some s1" "for_each (send_item e) items s1 = Some s'"
    by (auto simp: bind_Some_iff)
  from Cons.prems(1) obtain i xs where i: "queued a i = x # xs"
    "items \<in> shuffles (((queued a)(i := xs)) VideoSender) (((queued a)(i := xs)) AudioSender)"
    by (auto simp: Cons_in_shuffles_iff neq_Nil_conv)
  from item_alone [OF i(1) _ s1(1)] Cons.prems(3) obtain k where
    k: "turns e (replicate k i) a = Some (a\<lparr>queued := (queued a)(i := xs), air := s1\<rparr>)" by auto
  from Cons.IH [of "a\<lparr>queued := (queued a)(i := xs), air := s1\<rparr>"] i(2) s1(2) Cons.prems(3) obtain "is" a' where
    "turns e is (a\<lparr>queued := (queued a)(i := xs), air := s1\<rparr>) = Some a'" "all_sent a'" "air a' = s'" by auto
  with k show ?case by (intro exI [of _ "replicate k i @ is"] exI [of _ a']) (simp add: turns_append)
qed

section \<open>Tags that fit in a chunk\<close>

definition fits_chunk :: "u32 \<Rightarrow> media_item \<Rightarrow> bool" where
  "fits_chunk chunk i \<longleftrightarrow> item_sendable chunk i \<and>
     (case i of VideoItem v \<Rightarrow> length (payload v) \<le> unat chunk | AudioItem a \<Rightarrow> length (payload a) \<le> unat chunk)"

lemma fits_packet: "fits_chunk chunk x \<Longrightarrow> \<exists>p. item_packets chunk x = Some [p]"
proof (cases x)
  case (VideoItem v)
  assume "fits_chunk chunk x"
  with VideoItem have "sendable chunk v" "later_pieces (unat chunk) (payload v) = []"
    by (simp_all add: fits_chunk_def item_sendable_def later_pieces_def)
  with chunked_video_wire [of chunk v] VideoItem show ?thesis by (auto simp: item_packets_def)
next
  case (AudioItem a)
  assume "fits_chunk chunk x"
  with AudioItem have "sendable chunk a" "later_pieces (unat chunk) (payload a) = []"
    by (simp_all add: fits_chunk_def item_sendable_def later_pieces_def)
  with chunked_audio_wire [of chunk a] AudioItem show ?thesis by (auto simp: item_packets_def)
qed

lemma packet_sent_frame:
  assumes "reliable (net e) pending writes"
  shows "sock_open (packet_sent e p s) = sock_open s" "settings (packet_sent e p s) = settings s"
proof -
  from sendData_reliable [OF assms] obtain n s1 where s1: "sendData session_handler (net e) p s = (NoError, n, s1)" "frame s s1"
    by blast
  then have "packet_sent e p s = s1" by (simp add: packet_sent_def sendPacket_def)
  with s1(2) frame_more(1) [OF s1(2)] show "sock_open (packet_sent e p s) = sock_open s" "settings (packet_sent e p s) = settings s"
    by (simp_all add: frame_def)
qed

text \<open>What a thread has still to send, the tag it is at included, when no tag has more than one packet.\<close>

definition still_sends :: "sender \<Rightarrow> media_item list \<Rightarrow> ('w, 'a) on_air \<Rightarrow> bool" where
  "still_sends i xs a \<longleftrightarrow> (\<forall>x \<in> set xs. fits_chunk (cfg_chunkSize (settings (air a))) x) \<and>
     (case packets a i of
        [] \<Rightarrow> xs = queued a i
      | [p] \<Rightarrow> (\<exists>x. xs = x # queued a i \<and> item_packets (cfg_chunkSize (settings (air a))) x = Some [p])
      | _ \<Rightarrow> False)"

lemma still_sends_cong:
  assumes "packets a' k = packets a k" and "queued a' k = queued a k" and "settings (air a') = settings (air a)"
  shows "still_sends k ys a' = still_sends k ys a"
  unfolding still_sends_def assms ..

lemma turn_of_small:
  assumes rel: "reliable (net e) pending writes" and op: "sock_open (air a)" and xs: "still_sends i xs a"
    and turn: "sender_turn e i a = Some a'"
  shows "sock_open (air a') \<and> settings (air a') = settings (air a) \<and> (\<forall>k ys. k \<noteq> i \<longrightarrow> still_sends k ys a' = still_sends k ys a) \<and>
    (still_sends i xs a' \<and> air a' = air a \<or>
     (\<exists>x ys. xs = x # ys \<and> still_sends i ys a' \<and> send_item e x (air a) = Some (air a')))"
proof (cases "packets a i")
  case Nil
  with xs have q: "xs = queued a i" "\<forall>x \<in> set xs. fits_chunk (cfg_chunkSize (settings (air a))) x" by (simp_all add: still_sends_def)
  show ?thesis
  proof (cases "queued a i")
    case Nil
    with \<open>packets a i = []\<close> turn op xs show ?thesis by (simp add: sender_turn_def take_item_def)
  next
    case (Cons x ys)
    with q obtain p where "item_packets (cfg_chunkSize (settings (air a))) x = Some [p]" using fits_packet by fastforce
    moreover from this Cons \<open>packets a i = []\<close> turn op
    have a': "a' = a\<lparr>queued := (queued a)(i := ys), packets := (packets a)(i := [p])\<rparr>"
      by (simp add: sender_turn_def take_item_def)
    moreover from a' have "still_sends k zs a' = still_sends k zs a" if "k \<noteq> i" for k zs
      by (intro still_sends_cong) (use that in simp_all)
    ultimately show ?thesis using Cons q op by (simp add: still_sends_def)
  qed
next
  case (Cons p ps)
  with xs obtain x where x: "ps = []" "xs = x # queued a i" "item_packets (cfg_chunkSize (settings (air a))) x = Some [p]"
    "\<forall>x \<in> set xs. fits_chunk (cfg_chunkSize (settings (air a))) x"
    by (auto simp: still_sends_def split: list.splits)
  have a': "a' = a\<lparr>packets := (packets a)(i := []), air := packet_sent e p (air a)\<rparr>"
    using turn Cons x(1) op by (simp add: sender_turn_def)
  moreover have "send_item e x (air a) = Some (packet_sent e p (air a))"
    using op x(3) by (simp add: send_item_packets)
  moreover have "still_sends k zs a' = still_sends k zs a" if "k \<noteq> i" for k zs
    by (rule still_sends_cong) (use that packet_sent_frame [OF rel, of p "air a"] in \<open>simp_all add: a'\<close>)
  moreover have "still_sends i (queued a i) a'"
    using x(2,4) packet_sent_frame [OF rel, of p "air a"] by (simp add: a' still_sends_def)
  ultimately show ?thesis
    using x(2) packet_sent_frame [OF rel, of p "air a"] op by auto
qed

lemma small_interleave:
  assumes rel: "reliable (net e) pending writes"
  shows "sock_open (air a) \<Longrightarrow> still_sends VideoSender vs a \<Longrightarrow> still_sends AudioSender as a \<Longrightarrow> turns e is a = Some a' \<Longrightarrow>
    all_sent a' \<Longrightarrow> \<exists>items \<in> shuffles vs as. for_each (send_item e) items (air a) = Some (air a')"
proof (induction "is" arbitrary: a vs as)
  case Nil
  then have "vs = []" "as = []" by (auto simp: all_sent_def still_sends_def)
  with Nil show ?case by simp
next
  case (Cons i "is")
  from Cons.prems(4) obtain a1 where a1: "sender_turn e i a = Some a1" "turns e is a1 = Some a'" by (auto simp: bind_Some_iff)
  define xs where "xs = (case i of VideoSender \<Rightarrow> vs | AudioSender \<Rightarrow> as)"
  have "still_sends i xs a" using Cons.prems(2,3) by (cases i) (simp_all add: xs_def)
  note t = turn_of_small [OF rel Cons.prems(1) this a1(1)]
  then consider "still_sends i xs a1" "air a1 = air a"
    | x ys where "xs = x # ys" "still_sends i ys a1" "send_item e x (air a) = Some (air a1)" by blast
  then show ?case
  proof cases
    case 1
    with t Cons.prems(2,3) have "still_sends VideoSender vs a1" "still_sends AudioSender as a1"
      by (cases i; simp add: xs_def)+
    from Cons.IH [OF _ this a1(2) Cons.prems(5)] t 1(2) show ?thesis by auto
  next
    case 2
    show ?thesis
    proof (cases i)
      case VideoSender
      with t 2 Cons.prems(3) Cons.IH [of a1 ys as] a1(2) Cons.prems(5) obtain items where
        "items \<in> shuffles ys as" "for_each (send_item e) items (air a1) = Some (air a')" by auto
      with 2 VideoSender show ?thesis
        by (intro bexI [of _ "x # items"]) (auto simp: xs_def intro: Cons_in_shuffles_leftI)
    next
      case AudioSender
      with t 2 Cons.prems(2) Cons.IH [of a1 vs ys] a1(2) Cons.prems(5) obtain items where
        "items \<in> shuffles vs ys" "for_each (send_item e) items (air a1) = Some (air a')" by auto
      with 2 AudioSender show ?thesis
        by (intro bexI [of _ "x # items"]) (auto simp: xs_def intro: Cons_in_shuffles_rightI)
    qed
  qed
qed

text \<open>C2: when every tag fits in a chunk, the two threads may take their turns in any order, packet by packet: when they
  have sent everything, the socket has carried the tags one after the other, in an order that keeps each queue in its
  own, and a watcher that reads these bytes hands out every tag of both queues, each kind in its order.\<close>

theorem small_tags_on_air:
  assumes "reliable (net e) pending writes" and "delivers (net e2) pending2" and "sock_open s"
    and "\<forall>v \<in> set vs. fits_chunk (cfg_chunkSize (settings s)) (VideoItem v)"
    and "\<forall>a \<in> set as. fits_chunk (cfg_chunkSize (settings s)) (AudioItem a)"
    and "turns e is (going_on_air vs as s) = Some a'" and "all_sent a'"
  shows "\<exists>bytes. (\<exists>items \<in> interleavings vs as. for_each (send_item e) items s = Some (air a')) \<and>
    writes (sock_world (air a')) = writes (sock_world s) @ bytes \<and>
    (\<forall>t n tail. pending2 (sock_world t) = concat bytes @ tail \<and> media_delegate t = Some n \<and> \<not> stopped t \<longrightarrow>
       (\<exists>t' ns. retriever e2 (cfg_chunkSize (settings s)) (length vs + length as) t = Some (Some t') \<and>
          calls t' = calls t @ map (Pair n) ns \<and> pending2 (sock_world t') = tail \<and>
          List.map_filter video_seen ns = map tag_data vs \<and> List.map_filter audio_seen ns = map tag_data as))"
proof -
  let ?c = "cfg_chunkSize (settings s)"
  have "still_sends VideoSender (map VideoItem vs) (going_on_air vs as s)"
    "still_sends AudioSender (map AudioItem as) (going_on_air vs as s)"
    using assms(4,5) by (simp_all add: still_sends_def going_on_air_def)
  from small_interleave [OF assms(1) _ this assms(6,7)] assms(3) obtain items where
    i: "items \<in> interleavings vs as" "for_each (send_item e) items s = Some (air a')"
    by (auto simp: going_on_air_def interleavings_def)
  have "\<forall>i \<in> set items. item_sendable ?c i"
    using assms(4,5) by (auto simp: interleavings_items [OF i(1)] fits_chunk_def)
  from items_sent [OF assms(1,3) this assms(2)] i(2) obtain bs where
    bs: "writes (sock_world (air a')) = writes (sock_world s) @ concat bs"
    "list_all2 (\<lambda>i b. arrives e2 pending2 ?c i (concat b)) items bs" by auto
  have len: "length items = length vs + length as"
    using i(1) by (auto simp: interleavings_def dest: length_shuffles)
  have "\<exists>t' ns. retriever e2 ?c (length vs + length as) t = Some (Some t') \<and>
      calls t' = calls t @ map (Pair n) ns \<and> pending2 (sock_world t') = tail \<and>
      List.map_filter video_seen ns = map tag_data vs \<and> List.map_filter audio_seen ns = map tag_data as"
    if "pending2 (sock_world t) = concat (concat bs) @ tail \<and> media_delegate t = Some n \<and> \<not> stopped t" for t n tail
  proof -
    from items_arrive [OF bs(2), of t tail n] that obtain t' ns where
      "retriever e2 ?c (length items) t = Some (Some t')" "calls t' = calls t @ map (Pair n) ns" "list_all2 carries items ns"
      "pending2 (sock_world t') = tail" by (auto simp: concat_concats)
    with carried_seen [OF i(1)] len show ?thesis by auto
  qed
  with i bs(1) show ?thesis by blast
qed

text \<open>A picture and a sound of the default chunk size, the second thread's packet first.\<close>

theorem small_tags_on_air_witness:
  "\<exists>a' bytes t' ns. turns sample_host [VideoSender, AudioSender, AudioSender, VideoSender]
       (going_on_air [sample_video] [sample_audio] (sample_client [])) = Some a' \<and>
     outbox (sock_world (air a')) = bytes \<and>
     retriever sample_host 16384 2 (sample_watcher (concat bytes) False) = Some (Some t') \<and> calls t' = map (Pair 7) ns \<and>
     List.map_filter video_seen ns = [(40, [0x17, 1, 2, 3, 4])] \<and> List.map_filter audio_seen ns = [(40, [0xAF, 1, 2, 3, 4])]"
proof -
  have c: "cfg_chunkSize (settings (sample_client [])) = 16384"
    by (simp add: new_session_settings_def)
  have fits: "fits_chunk 16384 (VideoItem sample_video)" "fits_chunk 16384 (AudioItem sample_audio)"
    using sample_item_sendable by (simp_all add: fits_chunk_def sample_video_def sample_audio_def)
  have ok: "reliable (net sample_host) inbox outbox" "delivers (net sample_host) inbox"
    by (simp_all add: script_reliable script_delivers)
  from fits_packet [OF fits(1)] fits_packet [OF fits(2)] obtain p q where
    pq: "item_packets 16384 (VideoItem sample_video) = Some [p]" "item_packets 16384 (AudioItem sample_audio) = Some [q]" by blast
  note sent = packet_sent_frame [OF ok(1)]
  have "\<exists>a'. turns sample_host [VideoSender, AudioSender, AudioSender, VideoSender]
      (going_on_air [sample_video] [sample_audio] (sample_client [])) = Some a' \<and> all_sent a'"
    using pq c sent [of q "sample_client []"] by (simp add: sender_turn_def take_item_def going_on_air_def all_sent_def)
  then obtain a' where a': "turns sample_host [VideoSender, AudioSender, AudioSender, VideoSender]
      (going_on_air [sample_video] [sample_audio] (sample_client [])) = Some a'" "all_sent a'" by blast
  from small_tags_on_air [OF ok sample_client(3) _ _ a', unfolded c] fits obtain bytes where
    b: "outbox (sock_world (air a')) = bytes"
      "\<forall>t n tail. inbox (sock_world t) = concat bytes @ tail \<and> media_delegate t = Some n \<and> \<not> stopped t \<longrightarrow>
        (\<exists>t' ns. retriever sample_host 16384 2 t = Some (Some t') \<and> calls t' = calls t @ map (Pair n) ns \<and>
          inbox (sock_world t') = tail \<and> List.map_filter video_seen ns = [tag_data sample_video] \<and>
          List.map_filter audio_seen ns = [tag_data sample_audio])" by (auto simp: numeral_2_eq_2)
  from b(2) [rule_format, of "sample_watcher (concat bytes) False" "[]" 7] a'(1) b(1) show ?thesis
    by (auto simp: tag_data_def sample_video_def sample_audio_def)
qed

section \<open>A sound between two chunks of a picture\<close>

lemma video_head:
  assumes "delivers tr pending" and ok: "sendable maxSize tag"
    and "pending (sock_world s) = media_header (fresh_header Fmt_VideoMessage Msg_VideoMessage (timestamp tag) (payloadSize tag))
      @ take (unat maxSize) (payload tag) @ tail"
  shows "\<exists>p s'. receiveChunk h tr maxSize chunk s = Some (NoError, min (unat maxSize) (length (payload tag)), VideoPacket p,
      chunk\<lparr>rc_total := payloadSize tag, rc_size := min_size (payloadSize tag) maxSize\<rparr>, s') \<and>
    video_message_data p = take (unat maxSize) (payload tag) \<and> timestamp p = timestamp tag \<and> payloadSize p = payloadSize tag \<and>
    pending (sock_world s') = tail \<and> frame s s'"
proof -
  define H where "H = fresh_header Fmt_VideoMessage Msg_VideoMessage (timestamp tag) (payloadSize tag)"
  have H_ok: "header_ok H"
    unfolding H_def by (rule header_ok_fresh [OF ok]) simp
  let ?start = "header_fields H (new_rtmp_video_message\<lparr>chunkStreamType := Type0\<rparr>)"
  let ?p = "video_message_deserialize_payload (?start\<lparr>payload := take (unat maxSize) (payload tag)\<rparr>)"
  note H_simps = H_def fresh_header_def header_fields_def new_message_defs
  have "start_packet maxSize (media_header H) chunk = Some (Some (VideoPacket ?start),
      chunk\<lparr>rc_total := payloadSize tag, rc_size := min_size (payloadSize tag) maxSize\<rparr>)"
    by (simp add: start_packet_def start_header [OF H_ok] video_message_deserialize_def new_message_defs Let_def)
       (simp add: H_simps)
  moreover have "video_message_data ?p = take (unat maxSize) (payload tag)" "timestamp ?p = timestamp tag" "payloadSize ?p = payloadSize tag"
    unfolding video_continuation by (simp_all add: H_simps new_flv_video_tag_def)
  ultimately show ?thesis
    using receive_head [OF assms(1,2) _ H_def, where p = "VideoPacket ?p"] assms(3) by (fastforce simp: take_payload_def H_def)
qed

lemma audio_head:
  assumes "delivers tr pending" and ok: "sendable maxSize tag"
    and "pending (sock_world s) = media_header (fresh_header Fmt_AudioMessage Msg_AudioMessage (timestamp tag) (payloadSize tag))
      @ take (unat maxSize) (payload tag) @ tail"
  shows "\<exists>p s'. receiveChunk h tr maxSize chunk s = Some (NoError, min (unat maxSize) (length (payload tag)), AudioPacket p,
      chunk\<lparr>rc_total := payloadSize tag, rc_size := min_size (payloadSize tag) maxSize\<rparr>, s') \<and>
    pending (sock_world s') = tail \<and> frame s s'"
proof -
  define H where "H = fresh_header Fmt_AudioMessage Msg_AudioMessage (timestamp tag) (payloadSize tag)"
  have H_ok: "header_ok H"
    unfolding H_def by (rule header_ok_fresh [OF ok]) simp
  let ?start = "header_fields H (new_rtmp_audio_message\<lparr>chunkStreamType := Type0\<rparr>)"
  let ?p = "audio_message_deserialize_payload (?start\<lparr>payload := take (unat maxSize) (payload tag)\<rparr>)"
  have "start_packet maxSize (media_header H) chunk = Some (Some (AudioPacket ?start),
      chunk\<lparr>rc_total := payloadSize tag, rc_size := min_size (payloadSize tag) maxSize\<rparr>)"
    by (simp add: start_packet_def start_header [OF H_ok] audio_message_deserialize_def new_message_defs Let_def)
       (simp add: H_def fresh_header_def header_fields_def new_message_defs)
  then show ?thesis
    using receive_head [OF assms(1,2) _ H_def, where p = "AudioPacket ?p"] assms(3) by (fastforce simp: take_payload_def H_def)
qed

lemma receive_interrupted:
  assumes d: "delivers tr pending" and "sendable maxSize v" and "sendable maxSize a"
    and "unat maxSize < length (payload v)" and "length (payload a) \<le> unat maxSize"
    and wire: "pending (sock_world s) = media_header (fresh_header Fmt_VideoMessage Msg_VideoMessage (timestamp v) (payloadSize v))
      @ take (unat maxSize) (payload v)
      @ media_header (fresh_header Fmt_AudioMessage Msg_AudioMessage (timestamp a) (payloadSize a)) @ payload a @ tail"
  shows "\<exists>m s'. receiveDynamicPacketWithDynamicHeader h tr maxSize s = Some (Some (NoError, unat maxSize, VideoPacket m, s')) \<and>
    video_message_data m = take (unat maxSize) (payload v) \<and> timestamp m = timestamp v \<and>
    pending (sock_world s') = tail \<and> frame s s'"
proof -
  let ?chunk = "new_rtmp_chunk\<lparr>rc_total := payloadSize v, rc_size := min_size (payloadSize v) maxSize\<rparr>"
  from video_head [OF d assms(2) wire, of h new_rtmp_chunk] assms(4) obtain m s1 where
    s1: "receiveChunk h tr maxSize new_rtmp_chunk s = Some (NoError, unat maxSize, VideoPacket m, ?chunk, s1)"
      "video_message_data m = take (unat maxSize) (payload v)" "timestamp m = timestamp v"
      "pending (sock_world s1) = media_header (fresh_header Fmt_AudioMessage Msg_AudioMessage (timestamp a) (payloadSize a)) @ payload a @ tail"
      "frame s s1" by (auto simp: min_def)
  have v: "min_size (payloadSize v) maxSize = maxSize" "maxSize < payloadSize v"
    using assms(4) by (simp_all add: min_size_def word_less_nat_alt sendable_size [OF assms(2)])
  have a: "min_size (payloadSize a) maxSize = payloadSize a"
    using assms(5) by (simp add: min_size_def word_less_nat_alt sendable_size [OF assms(3)])
  define nxt where "nxt = payloadSize v - maxSize"
  have pos: "0 < min_size nxt maxSize"
    using v(2) assms(2) by (auto simp: nxt_def min_size_def sendable_def word_gt_0)
  have "take (unat maxSize) (payload a) = payload a" using assms(5) by simp
  with s1(4) audio_head [OF d assms(3), of s1 tail h "?chunk\<lparr>rc_size := min_size nxt maxSize, rc_total := nxt\<rparr>"] obtain p s2 n where
    s2: "receiveChunk h tr maxSize (?chunk\<lparr>rc_size := min_size nxt maxSize, rc_total := nxt\<rparr>) s1 = Some (NoError, n, AudioPacket p,
        ?chunk\<lparr>rc_total := payloadSize a, rc_size := payloadSize a\<rparr>, s2)" "pending (sock_world s2) = tail" "frame s1 s2"
    by (auto simp: a)
  let ?last = "?chunk\<lparr>rc_total := payloadSize a, rc_size := 0\<rparr>"
  have "continuation_loop h tr maxSize NoError nxt (?chunk\<lparr>rc_size := min_size nxt maxSize\<rparr>) s1
      = continuation_loop h tr maxSize NoError 0 ?last s2"
    using pos s2(1) by (subst continuation_loop.simps) (simp add: Let_def min_size_def)
  also have "\<dots> = Some (Some (NoError, ?last, s2))"
    by (subst continuation_loop.simps) simp
  finally have loop: "continuation_loop h tr maxSize NoError (payloadSize v - maxSize) (?chunk\<lparr>rc_size := min_size nxt maxSize\<rparr>) s1
      = Some (Some (NoError, ?last, s2))" by (simp add: nxt_def)
  have "rc_data ?last = []" by (simp add: new_rtmp_chunk_def)
  then have "receiveDynamicPacketWithDynamicHeader h tr maxSize s = Some (Some (NoError, unat maxSize, VideoPacket m, s2))"
    using loop by (simp add: receiveDynamicPacketWithDynamicHeader_def s1(1) v(1) Let_def nxt_def append_continuation_def)
  with s1 s2 show ?thesis by (auto simp: frame_def)
qed

text \<open>The packets of a picture that is longer than a chunk, and of a sound that is not.\<close>

lemma long_picture_packets:
  assumes "sendable chunk v" and "unat chunk < length (payload v)"
  shows "\<exists>q qs. item_packets chunk (VideoItem v) = Some
      ((media_header (fresh_header Fmt_VideoMessage Msg_VideoMessage (timestamp v) (payloadSize v)) @ take (unat chunk) (payload v))
       # map (\<lambda>d. (push_bit 6 3 OR Fmt_VideoMessage) # d) (q # qs)) \<and>
    q = take (unat chunk) (drop (unat chunk) (payload v))"
proof -
  have "0 < unat chunk" using assms(1) by (auto simp: sendable_def unat_gt_0)
  then obtain qs where "later_pieces (unat chunk) (payload v) = take (unat chunk) (drop (unat chunk) (payload v)) # qs"
    using trunk_loop_first [of "unat chunk" "drop (unat chunk) (payload v)"] assms(2) by (auto simp: later_pieces_def)
  moreover from chunked_video_wire [OF assms(1)] have "item_packets chunk (VideoItem v) = Some
      ((media_header (fresh_header Fmt_VideoMessage Msg_VideoMessage (timestamp v) (payloadSize v)) @ take (unat chunk) (payload v))
       # map (\<lambda>d. (push_bit 6 3 OR Fmt_VideoMessage) # d) (later_pieces (unat chunk) (payload v)))"
    by (auto simp: item_packets_def)
  ultimately show ?thesis by auto
qed

lemma short_sound_packet:
  assumes "sendable chunk a" and "length (payload a) \<le> unat chunk"
  shows "item_packets chunk (AudioItem a) =
    Some [media_header (fresh_header Fmt_AudioMessage Msg_AudioMessage (timestamp a) (payloadSize a)) @ payload a]"
  using chunked_audio_wire [OF assms(1)] assms(2) by (auto simp: item_packets_def later_pieces_def)

lemma packet_sent_reliable:
  assumes "reliable (net e) pending writes" and "sock_open s"
  shows "writes (sock_world (packet_sent e p s)) = writes (sock_world s) @ [p]"
  using send_packets_reliable [OF assms, of id "[p]"] assms(2) by simp

text \<open>The schedule: the first packet of the picture, the sound, and the rest of the picture.\<close>

lemma interrupting_schedule:
  assumes rel: "reliable (net e) pending writes" and op: "sock_open s"
    and v: "item_packets (cfg_chunkSize (settings s)) (VideoItem v) = Some (p # ps)"
    and a: "item_packets (cfg_chunkSize (settings s)) (AudioItem a) = Some [q]"
  shows "\<exists>is a'. turns e is (going_on_air [v] [a] s) = Some a' \<and> all_sent a' \<and>
    writes (sock_world (air a')) = writes (sock_world s) @ p # q # ps"
proof -
  let ?s1 = "packet_sent e p s"
  let ?s2 = "packet_sent e q ?s1"
  note open1 = packet_sent_frame [OF rel, of p s] and open2 = packet_sent_frame [OF rel, of q ?s1]
  let ?a = "\<lparr> queued = (\<lambda>_. []), packets = (\<lambda>_. [])(VideoSender := ps), air = ?s2 \<rparr>"
  have cut: "turns e [VideoSender, VideoSender, AudioSender, AudioSender] (going_on_air [v] [a] s) = Some ?a"
    using op open1 v a
    by (auto simp: sender_turn_def take_item_def going_on_air_def fun_eq_iff split: sender.splits)
  from packets_alone [of e VideoSender ?a] obtain k where
    "turns e (replicate k VideoSender) ?a = Some \<lparr> queued = (\<lambda>_. []), packets = (\<lambda>_. []), air = send_packets e id ps ?s2 \<rparr>"
    by (auto simp: fun_upd_idem)
  with cut have "turns e ([VideoSender, VideoSender, AudioSender, AudioSender] @ replicate k VideoSender) (going_on_air [v] [a] s)
      = Some \<lparr> queued = (\<lambda>_. []), packets = (\<lambda>_. []), air = send_packets e id ps ?s2 \<rparr>"
    unfolding turns_append by simp
  moreover have "writes (sock_world (send_packets e id ps ?s2)) = writes (sock_world s) @ p # q # ps"
    using send_packets_reliable [OF rel, of ?s2 id ps] packet_sent_reliable [OF rel, of ?s1 q] packet_sent_reliable [OF rel op, of p]
      open1 open2 op by simp
  ultimately show ?thesis
    by (intro exI conjI) (assumption, simp_all add: all_sent_def)
qed

text \<open>What the watcher makes of it: the picture's first chunk for a picture, and the continuation for a message of its own.\<close>

lemma retriever_interrupted:
  assumes d: "delivers (net e) pending" and v: "sendable chunk v" and a: "sendable chunk a"
    and len: "unat chunk < length (payload v)" "length (payload a) \<le> unat chunk"
    and t: "media_delegate t = Some n" "\<not> stopped t"
    and wire: "pending (sock_world t) = media_header (fresh_header Fmt_VideoMessage Msg_VideoMessage (timestamp v) (payloadSize v))
      @ take (unat chunk) (payload v)
      @ media_header (fresh_header Fmt_AudioMessage Msg_AudioMessage (timestamp a) (payloadSize a)) @ payload a
      @ (push_bit 6 3 OR Fmt_VideoMessage) # rest"
  shows "\<exists>t' m. retriever e chunk (Suc (Suc k)) t = retriever e chunk k t' \<and> calls t' = calls t @ [(n, VideoReceived m)] \<and>
    video_message_data m = take (unat chunk) (payload v) \<and> timestamp m = timestamp v \<and>
    pending (sock_world t') = rest \<and> \<not> stopped t'"
proof -
  let ?m = "(fresh_header Fmt_VideoMessage Msg_VideoMessage (timestamp v) (payloadSize v))\<lparr>chunkStreamType := Type3\<rparr>"
  from receive_interrupted [OF d v a len wire, of session_handler] obtain m t1 where
    r: "receiveDynamicPacketWithDynamicHeader session_handler (net e) chunk t = Some (Some (NoError, unat chunk, VideoPacket m, t1))"
      "video_message_data m = take (unat chunk) (payload v)" "timestamp m = timestamp v"
      "pending (sock_world t1) = (push_bit 6 3 OR Fmt_VideoMessage) # rest" "frame t t1" by blast
  have "(unat chunk \<le> 0) = False" using v by (simp add: sendable_def word_gt_0 unat_eq_zero)
  then have first: "retriever_step e chunk t = Some (Some (call n (VideoReceived m) t1))"
    using t(1) frame_more(3) [OF r(5)] by (simp only: retriever_step_def r(1) mediaPacketReceived_def call_media_delegate_def) auto
  have "foreign_header ?m"
    using header_ok_fresh [OF v, of Fmt_VideoMessage Msg_VideoMessage] by (simp add: foreign_header_def header_ok_def hasExtendedTimestamp_def)
  moreover have "media_header ?m = [push_bit 6 3 OR Fmt_VideoMessage]"
    by (simp add: media_header_def chunkStreamID_def fresh_header_def)
  ultimately obtain t2 where t2: "retriever_step e chunk (call n (VideoReceived m) t1) = Some (Some t2)"
      "pending (sock_world t2) = rest" "frame (call n (VideoReceived m) t1) t2"
    using retriever_step_foreign [OF d, of ?m "call n (VideoReceived m) t1" rest chunk] r(4) by auto
  with first r t frame_more(2) [OF t2(3)] frame_more(2) [OF r(5)] frame_watcher [OF t2(3)] frame_watcher [OF r(5)] show ?thesis
    by (intro exI [of _ t2] exI [of _ m]) simp
qed

text \<open>C3: nothing keeps a sound from going between two chunks of a picture: there is a schedule of the two threads that
  sends everything, after which a watcher hands out the first chunk of the picture for the picture, with no error, is
  never told of the sound, and takes the bytes of the picture's second chunk for the header of the next message.\<close>

theorem interrupted_picture:
  assumes "reliable (net e) pending writes" and "delivers (net e2) pending2" and "sock_open s"
    and "sendable (cfg_chunkSize (settings s)) v" and "unat (cfg_chunkSize (settings s)) < length (payload v)"
    and "sendable (cfg_chunkSize (settings s)) a" and "length (payload a) \<le> unat (cfg_chunkSize (settings s))"
  shows "\<exists>is a' bytes. turns e is (going_on_air [v] [a] s) = Some a' \<and> all_sent a' \<and>
    writes (sock_world (air a')) = writes (sock_world s) @ bytes \<and>
    (\<forall>t n tail k. pending2 (sock_world t) = concat bytes @ tail \<and> media_delegate t = Some n \<and> \<not> stopped t \<longrightarrow>
       (\<exists>t' m rest. retriever e2 (cfg_chunkSize (settings s)) (Suc (Suc k)) t = retriever e2 (cfg_chunkSize (settings s)) k t' \<and>
          calls t' = calls t @ [(n, VideoReceived m)] \<and>
          video_message_data m = take (unat (cfg_chunkSize (settings s))) (payload v) \<and>
          pending2 (sock_world t')
            = take (unat (cfg_chunkSize (settings s))) (drop (unat (cfg_chunkSize (settings s))) (payload v)) @ rest \<and>
          \<not> stopped t'))"
proof -
  let ?c = "cfg_chunkSize (settings s)"
  from long_picture_packets [OF assms(4,5)] obtain q qs where
    q: "item_packets ?c (VideoItem v) = Some
        ((media_header (fresh_header Fmt_VideoMessage Msg_VideoMessage (timestamp v) (payloadSize v)) @ take (unat ?c) (payload v))
         # map (\<lambda>d. (push_bit 6 3 OR Fmt_VideoMessage) # d) (q # qs))"
      "q = take (unat ?c) (drop (unat ?c) (payload v))" by blast
  from interrupting_schedule [OF assms(1,3) q(1) short_sound_packet [OF assms(6,7)]] obtain "is" a' where
    a': "turns e is (going_on_air [v] [a] s) = Some a'" "all_sent a'"
      "writes (sock_world (air a')) = writes (sock_world s) @
        (media_header (fresh_header Fmt_VideoMessage Msg_VideoMessage (timestamp v) (payloadSize v)) @ take (unat ?c) (payload v))
        # (media_header (fresh_header Fmt_AudioMessage Msg_AudioMessage (timestamp a) (payloadSize a)) @ payload a)
        # map (\<lambda>d. (push_bit 6 3 OR Fmt_VideoMessage) # d) (q # qs)" by blast
  show ?thesis
  proof (intro exI conjI, rule a'(1), rule a'(2), rule a'(3), intro allI impI)
    fix t :: "'b watcher_session" and n tail k
    assume t: "pending2 (sock_world t) = concat (
        (media_header (fresh_header Fmt_VideoMessage Msg_VideoMessage (timestamp v) (payloadSize v)) @ take (unat ?c) (payload v))
        # (media_header (fresh_header Fmt_AudioMessage Msg_AudioMessage (timestamp a) (payloadSize a)) @ payload a)
        # map (\<lambda>d. (push_bit 6 3 OR Fmt_VideoMessage) # d) (q # qs)) @ tail \<and> media_delegate t = Some n \<and> \<not> stopped t"
    let ?rest = "concat (map (\<lambda>d. (push_bit 6 3 OR Fmt_VideoMessage) # d) qs) @ tail"
    from retriever_interrupted [OF assms(2,4,6,5,7), of t n "q @ ?rest" k] t obtain t' m where
      "retriever e2 ?c (Suc (Suc k)) t = retriever e2 ?c k t'" "calls t' = calls t @ [(n, VideoReceived m)]"
      "video_message_data m = take (unat ?c) (payload v)" "pending2 (sock_world t') = q @ ?rest" "\<not> stopped t'" by auto
    then show "\<exists>t' m rest. retriever e2 ?c (Suc (Suc k)) t = retriever e2 ?c k t' \<and>
        calls t' = calls t @ [(n, VideoReceived m)] \<and> video_message_data m = take (unat ?c) (payload v) \<and>
        pending2 (sock_world t') = take (unat ?c) (drop (unat ?c) (payload v)) @ rest \<and> \<not> stopped t'"
      by (auto simp: q(2))
  qed
qed

text \<open>A picture of five bytes in chunks of two.\<close>

theorem interrupted_picture_witness:
  "\<exists>is a' t' m rest. turns sample_host is (going_on_air [sample_video] [sample_audio\<lparr>payload := [0xAF, 1], payloadSize := 2\<rparr>]
       ((sample_client [])\<lparr>settings := new_session_settings\<lparr>cfg_chunkSize := 2\<rparr>\<rparr>)) = Some a' \<and> all_sent a' \<and>
     retriever sample_host 2 2 (sample_watcher (concat (outbox (sock_world (air a')))) False) = Some (Some t') \<and>
     calls t' = [(7, VideoReceived m)] \<and> video_message_data m = [0x17, 1] \<and> inbox (sock_world t') = [2, 3] @ rest"
proof -
  let ?s = "(sample_client [])\<lparr>settings := new_session_settings\<lparr>cfg_chunkSize := 2\<rparr>\<rparr>"
  let ?a = "sample_audio\<lparr>payload := [0xAF, 1], payloadSize := 2\<rparr>"
  have s: "cfg_chunkSize (settings ?s) = 2" "sock_open ?s" "outbox (sock_world ?s) = []"
    using sample_client [of "[]"] by (simp_all)
  have ok: "reliable (net sample_host) inbox outbox" "delivers (net sample_host) inbox"
    by (simp_all add: script_reliable script_delivers)
  have tags: "sendable 2 sample_video" "unat (2 :: u32) < length (payload sample_video)" "sendable 2 ?a" "length (payload ?a) \<le> unat (2 :: u32)"
    using sample_sendable by (simp_all add: sendable_def sample_video_def hasExtendedTimestamp_def)
  from interrupted_picture [OF ok s(2), unfolded s(1), OF tags] obtain "is" a' bytes where
    a': "turns sample_host is (going_on_air [sample_video] [?a] ?s) = Some a'" "all_sent a'" "outbox (sock_world (air a')) = bytes"
    and w: "\<forall>t n tail k. inbox (sock_world t) = concat bytes @ tail \<and> media_delegate t = Some n \<and> \<not> stopped t \<longrightarrow>
       (\<exists>t' m rest. retriever sample_host 2 (Suc (Suc k)) t = retriever sample_host 2 k t' \<and> calls t' = calls t @ [(n, VideoReceived m)] \<and>
          video_message_data m = take (unat (2 :: u32)) (payload sample_video) \<and>
          inbox (sock_world t') = take (unat (2 :: u32)) (drop (unat (2 :: u32)) (payload sample_video)) @ rest \<and> \<not> stopped t')"
    by (auto simp: s(3))
  have two: "unat (2 :: u32) = 2" "payload sample_video = [0x17, 1, 2, 3, 4]"
    by (simp_all add: sample_video_def)
  from w [rule_format, of "sample_watcher (concat bytes) False" "[]" 7 0, unfolded two, folded numeral_2_eq_2] obtain t' m rest where
    "retriever sample_host 2 2 (sample_watcher (concat bytes) False) = Some (Some t')" "calls t' = [(7, VideoReceived m)]"
    "video_message_data m = [0x17, 1]" "inbox (sock_world t') = [2, 3] @ rest"
    by auto
  with a' show ?thesis by blast
qed

end
