(* ===== verification/MetadataRun.thy ===== *)
theory MetadataRun
imports EndToEnd
begin

text \<open>
  The metadata of a stream on its way: a broadcaster writes its message in one piece, whatever the chunk size; a
  watcher whose chunk size is not smaller reads the metadata back, and one whose chunk size is smaller parses the
  part of the object that is in the first chunk, and reads past its end.
\<close>

section \<open>Objects that are cut\<close>

lemma deserializeString_more:
  assumes "deserializeString it = Some (s, it')"
  shows "deserializeString (it @ rest) = Some (s, it' @ rest)"
  using assms by (auto simp: deserializeString_def bind_Some_iff iter_more)

lemma deserializeString_cut:
  assumes "string_ok k" and "n < length (serializeString k False)"
  shows "deserializeString (take n (serializeString k False)) = None"
proof (rule ccontr)
  let ?it = "take n (serializeString k False)" and ?rest = "drop n (serializeString k False)"
  assume "deserializeString ?it \<noteq> None"
  then obtain s it' where "deserializeString ?it = Some (s, it')" by auto
  from deserializeString_more [OF this, of ?rest] deserializeString_serializeString [OF assms(1), of "[]"] assms(2)
  show False by simp
qed

text \<open>The top byte of a number whose cut bytes are not taken for a short name or for the end of the object.\<close>

definition plain_number :: "double \<Rightarrow> bool" where
  "plain_number d \<longleftrightarrow> (case rev (amf_fromNumber d) of [] \<Rightarrow> False | b # _ \<Rightarrow> b \<noteq> 0 \<and> b \<noteq> ObjectEndMarker)"

fun plain_value :: "subset \<Rightarrow> bool" where
  "plain_value (NumberVariant d) = plain_number d"
| "plain_value v = scalar_ok v"

lemma deserializeProperties_Nil: "deserializeProperties d [] = None"
  by (simp add: deserializeProperties.simps)

lemma deserializeProperties_bad:
  "b \<noteq> ObjectEndMarker \<Longrightarrow> deserializeString (b # r) = None \<Longrightarrow> deserializeProperties d (b # r) = None"
  by (simp add: deserializeProperties.simps)

lemma number_cut:
  assumes "plain_number x" and "i < 8"
  shows "deserializeProperties d (take i (rev (amf_fromNumber x))) = None"
proof (cases "take i (rev (amf_fromNumber x))")
  case Nil
  show ?thesis unfolding Nil by (rule deserializeProperties_Nil)
next
  case (Cons b r)
  then obtain r' where "rev (amf_fromNumber x) = b # r'"
    by (cases "rev (amf_fromNumber x)"; cases i) auto
  with assms(1) have b: "b \<noteq> 0" "b \<noteq> ObjectEndMarker"
    by (simp_all add: plain_number_def)
  have "length (b # r) < 8"
    using assms(2) unfolding Cons [symmetric] by (simp add: min_less_iff_disj)
  moreover have "0 < unat b"
    using b(1) by (simp add: unat_gt_0)
  ultimately have "\<not> 2 + string_field_length (b # r) \<le> length (b # r)"
    by (simp add: string_field_length_def)
  then have "deserializeString (b # r) = None"
    using deserializeString_defined [of "b # r"] by (cases "deserializeString (b # r)") auto
  with b(2) show ?thesis
    unfolding Cons by (rule deserializeProperties_bad)
qed

lemma value_cut:
  assumes "plain_value v" and "n < length (serializeScalar v)"
  shows "deserializeSubset (take n (serializeScalar v)) = None \<or>
    (\<exists>w it. deserializeSubset (take n (serializeScalar v)) = Some (w, it) \<and> deserializeProperties d it = None)"
proof (cases n)
  case 0
  then show ?thesis by (simp add: deserializeSubset_def deserializeProperties_Nil)
next
  case (Suc i)
  show ?thesis
  proof (cases v)
    case (StringVariant s)
    with assms Suc show ?thesis
      using deserializeString_cut [of s i] by (simp add: serializeString_marker deserializeSubset_def)
  next
    case (NumberVariant x)
    with assms Suc have i: "i < length (amf_fromNumber x)" by (simp add: serializeNumber_def)
    then have "i < 8" by (simp add: amf_fromNumber_def)
    with i have "deserializeNumber (take i (rev (amf_fromNumber x))) = Some (0, take i (rev (amf_fromNumber x)))"
      by (simp add: deserializeNumber_def)
    moreover have "deserializeProperties d (take i (rev (amf_fromNumber x))) = None"
      using assms(1) NumberVariant \<open>i < 8\<close> by (simp add: number_cut)
    ultimately show ?thesis
      using NumberVariant Suc by (simp add: serializeNumber_def deserializeSubset_def)
  next
    case (BooleanVariant b)
    with assms Suc have "i = 0" by (simp add: serializeBoolean_def)
    with BooleanVariant Suc show ?thesis
      by (simp add: serializeBoolean_def deserializeSubset_def deserializeBoolean_def deserializeProperties_Nil)
  qed (use assms Suc in \<open>simp_all add: serializeNullObject_def\<close>)
qed

lemma properties_cut:
  "\<forall>(k, v) \<in> set kvs. key_ok k \<and> plain_value v \<Longrightarrow>
   n < length (concat (map (\<lambda>(k, v). serializeString k False @ serializeScalar v) kvs) @ serializeString '''' False @ [ObjectEndMarker]) \<Longrightarrow>
   deserializeProperties d (take n (concat (map (\<lambda>(k, v). serializeString k False @ serializeScalar v) kvs)
     @ serializeString '''' False @ [ObjectEndMarker])) = None"
proof (induction kvs arbitrary: n d)
  case Nil
  have e: "serializeString '''' False = [0, 0]"
    by (simp add: serializeString_def toBigEndian16_def amf_fromString_def)
  from Nil.prems(2) have "n < 3" by (simp add: e)
  then consider "n = 0" | "n = 1" | "n = 2" by linarith
  then show ?case
  proof cases
    case 3
    have "deserializeString [0, 0] = Some ('''', [])"
      using deserializeString_serializeString [of "''''" "[]"] by (simp add: e string_ok_def)
    then show ?thesis
      by (simp add: 3 e) (subst deserializeProperties.simps, simp add: deserializeProperties_Nil)
  qed (simp_all add: e deserializeProperties_Nil deserializeProperties_bad deserializeString_short)
next
  case (Cons kv kvs)
  obtain k v where kv: "kv = (k, v)" by (cases kv)
  let ?K = "serializeString k False" and ?V = "serializeScalar v"
  let ?R = "concat (map (\<lambda>(k, v). serializeString k False @ serializeScalar v) kvs) @ serializeString '''' False @ [ObjectEndMarker]"
  have k: "key_ok k" "string_ok k" "k \<noteq> []" and v: "plain_value v" "scalar_ok v"
    using Cons.prems(1) by (auto simp: kv key_ok_def) (cases v; simp)
  consider "n < length ?K" | j where "n = length ?K + j" "j < length ?V" | j where "n = length ?K + length ?V + j" "j < length ?R"
    using Cons.prems(2) by (auto simp: kv) (metis add.assoc add_less_cancel_left le_add_diff_inverse not_le)
  then show ?case
  proof cases
    case 1
    show ?thesis
    proof (cases "take n ?K")
      case Nil
      then have "n = 0" using 1 by auto
      then show ?thesis by (simp add: deserializeProperties_Nil)
    next
      case (Cons b r)
      obtain b' r' where "?K @ [] = b' # r'" "b' \<noteq> ObjectEndMarker"
        using key_length_byte [OF k(1)] by blast
      with Cons have "b \<noteq> ObjectEndMarker" by (cases n) auto
      from deserializeProperties_bad [OF this, of r d] deserializeString_cut [OF k(2) 1] Cons 1 show ?thesis
        by (simp add: kv)
    qed
  next
    case 2
    have s: "deserializeString (?K @ take j ?V) = Some (k, take j ?V)"
      by (rule deserializeString_serializeString [OF k(2)])
    obtain b r where b: "?K @ take j ?V = b # r" "b \<noteq> ObjectEndMarker"
      using key_length_byte [OF k(1)] by blast
    have "deserializeProperties d (?K @ take j ?V) = None"
      using value_cut [OF v(1) 2(2)] b s k(3)
      by (subst deserializeProperties.simps) (auto split: option.splits)
    with 2 show ?thesis by (simp add: kv)
  next
    case 3
    have "deserializeProperties d (take n ((?K @ ?V) @ ?R)) = deserializeProperties (AList.update k v d) (take j ?R)"
      using deserializeProperties_step [OF k(1) v(2), of d "take j ?R"] 3(1) by simp
    also have "\<dots> = None"
      using Cons.prems(1) by (intro Cons.IH [OF _ 3(2)]) simp
    finally show ?thesis by (simp add: kv)
  qed
qed

section \<open>The message\<close>

definition metadata_body :: "(subset dict \<Rightarrow> subset dict) \<Rightarrow> flv_amf_tag \<Rightarrow> v8" where
  "metadata_body ord t = serializeString ''@setDataFrame'' True @ serializeString ''onMetaData'' True
     @ serializeObject (ord (flv_amf_props t))"

definition metadata_header :: "(subset dict \<Rightarrow> subset dict) \<Rightarrow> flv_amf_tag \<Rightarrow> rtmp_message" where
  "metadata_header ord t = fresh_header Fmt_AMF_Object Msg_DataMessage_AMF0 0 (word_of_nat (length (metadata_body ord t)))"

lemma metadata_bytes:
  "payload (metadata_message_serialize ord (metadata_message_of_tag t)) = media_header (metadata_header ord t) @ metadata_body ord t"
  by (simp add: metadata_message_serialize_def metadata_message_of_tag_def Let_def flv_amf_serialize_def metadata_body_def
      metadata_header_def fresh_header_def media_header_def chunkStreamID_def new_message_defs)

lemma metadata_header_ok:
  assumes "length (metadata_body ord t) < 2 ^ 24"
  shows "header_ok (metadata_header ord t)" "chunkStreamType (metadata_header ord t) = Type0"
    "unat (payloadSize (metadata_header ord t)) = length (metadata_body ord t)"
  using assms
  by (simp_all add: metadata_header_def header_ok_def fresh_header_def new_message_defs hasExtendedTimestamp_24
      unsigned_of_nat take_bit_nat_eq_self)

text \<open>What a tag that is read in takes over from the tag that was written.\<close>

definition metadata_read :: "flv_amf_tag \<Rightarrow> flv_amf_tag \<Rightarrow> flv_amf_tag" where
  "metadata_read t t0 = t0
    \<lparr>duration := keep (duration t) (duration t0), height := keep (height t) (height t0),
     width := keep (width t) (width t0), videodatarate := keep (videodatarate t) (videodatarate t0),
     framerate := keep (framerate t) (framerate t0),
     videocodecid := (if videocodecidStr t = [] then keep (videocodecid t) (videocodecid t0) else videocodecid t0),
     audiodatarate := keep (audiodatarate t) (audiodatarate t0),
     audiosamplerate := keep (audiosamplerate t) (audiosamplerate t0),
     audiosamplesize := keep (audiosamplesize t) (audiosamplesize t0),
     stereo := stereo t, encoder := (if encoder t \<noteq> [] then encoder t else encoder t0),
     filesize := keep (filesize t) (filesize t0),
     avcLevel := (if videocodecidStr t = ''avc1'' then keep (avcLevel t) (avcLevel t0) else avcLevel t0),
     avcProfile := (if videocodecidStr t = ''avc1'' then keep (avcProfile t) (avcProfile t0) else avcProfile t0),
     audiochannels := keep (audiochannels t) (audiochannels t0),
     videoframerate := keep (videoframerate t) (videoframerate t0),
     timestamp := (if timestamp t > 0 then timestamp t else timestamp t0)\<rparr>"

lemma metadata_body_values:
  assumes "order_ok ord" and "strings_ok t"
  shows "deserialize (metadata_body ord t)
    = Some [Subset (StringVariant ''@setDataFrame''), Subset (StringVariant ''onMetaData''), ObjectVariant (ord (flv_amf_props t))]"
proof -
  let ?vs = "[Subset (StringVariant ''@setDataFrame''), Subset (StringVariant ''onMetaData''), ObjectVariant (ord (flv_amf_props t))]"
  have "\<forall>x \<in> set ?vs. variant_ok x"
    using object_ok_ord [OF assms(1) object_ok_props [OF assms(2)]] by (simp add: string_ok_def)
  from amf0.decs_encs [OF this] show ?thesis
    by (simp add: metadata_body_def)
qed

lemma metadata_body_read:
  assumes "order_ok ord" and "strings_ok t" and "payload t0 = metadata_body ord t"
  shows "flv_amf_deserialize_payload t0 = Some (metadata_read t t0)"
proof -
  have L: "map_of (ord (flv_amf_props t)) = map_of (flv_amf_props t)"
    by (rule map_of_ord [OF assms(1) dict_ok_props])
  show ?thesis
    by (simp add: flv_amf_deserialize_payload_def assms(3) metadata_body_values [OF assms(1,2)]
        deserializeFromDict_def read_back [OF L] metadata_read_def)
qed

section \<open>Sent\<close>

lemma metadata_sent:
  assumes "reliable (net e) pending writes" and "sock_open s" and "byte_rate (videodatarate t) = Some rate"
  shows "\<exists>s'. broadcaster_sendOnMetaDataTag e t s = Some s' \<and>
    writes (sock_world s') = writes (sock_world s)
      @ [media_header (metadata_header (dict_order e) t) @ metadata_body (dict_order e) t] \<and> frame s s'"
proof -
  let ?s = "updateCurrentMetrics rate s"
  have w: "sock_world ?s = sock_world s" and v: "videodatarate (metadata (metadata_message_of_tag t)) = videodatarate t"
    by (simp_all add: updateCurrentMetrics_def metadata_message_of_tag_def new_message_defs)
  have f: "frame s ?s" by (cases s) (simp add: updateCurrentMetrics_def frame_def)
  obtain n s1 where "sendData session_handler (net e) (payload (metadata_message_serialize (dict_order e) (metadata_message_of_tag t))) ?s
      = (NoError, n, s1)" "writes (sock_world s1) = writes (sock_world ?s)
      @ [payload (metadata_message_serialize (dict_order e) (metadata_message_of_tag t))]" "frame ?s s1"
    using sendData_reliable [OF assms(1)] by blast
  with assms(2,3) w v frame_trans [OF f] show ?thesis
    by (simp add: broadcaster_sendOnMetaDataTag_def if_open_def Let_def send_then_def sendPacket_def metadata_bytes)
qed

section \<open>Received\<close>

lemma metadata_start:
  assumes "length (metadata_body ord t) < 2 ^ 24"
  shows "\<exists>p. start_packet maxSize (media_header (metadata_header ord t)) chunk = Some (Some (MetadataPacket p),
      chunk\<lparr>rc_total := payloadSize (metadata_header ord t), rc_size := min_size (payloadSize (metadata_header ord t)) maxSize\<rparr>) \<and>
    metadata p = new_flv_amf_tag \<and> payloadSize p = payloadSize (metadata_header ord t)"
proof -
  let ?H = "metadata_header ord t"
  note H = start_header [OF metadata_header_ok(1) [OF assms]]
  have "media_deserialize (media_header ?H) new_rtmp_message = Some (header_fields ?H new_rtmp_message)"
    by (rule H) (simp add: new_message_defs)
  moreover have "metadata_message_deserialize (media_header ?H) (new_rtmp_metadata_message\<lparr>chunkStreamType := c\<rparr>)
      = Some (header_fields ?H (new_rtmp_metadata_message\<lparr>chunkStreamType := c\<rparr>))" for c
    unfolding metadata_message_deserialize_def by (rule H) (simp add: new_message_defs)
  moreover have "tag_type (header_fields ?H new_rtmp_message) = Msg_DataMessage_AMF0"
    "payloadSize (header_fields ?H new_rtmp_message) = payloadSize ?H"
    "metadata (header_fields ?H (new_rtmp_metadata_message\<lparr>chunkStreamType := c\<rparr>)) = new_flv_amf_tag"
    "payloadSize (header_fields ?H (new_rtmp_metadata_message\<lparr>chunkStreamType := c\<rparr>)) = payloadSize ?H" for c
    by (simp_all add: metadata_header_def fresh_header_def header_fields_def new_message_defs)
  ultimately show ?thesis
    by (simp add: start_packet_def)
qed

lemma metadata_size:
  assumes "length (metadata_body ord t) < 2 ^ 24"
  shows "unat (min_size (payloadSize (metadata_header ord t)) maxSize) = min (unat maxSize) (length (metadata_body ord t))"
  using metadata_header_ok(3) [OF assms] by (simp add: min_size_def word_less_nat_alt)

text \<open>The first chunk of the message, whole or not.\<close>

lemma metadata_chunk:
  assumes "delivers tr pending" and "length (metadata_body ord t) < 2 ^ 24"
    and "pending (sock_world s) = media_header (metadata_header ord t) @ metadata_body ord t @ tail"
  shows "\<exists>p s'. metadata p = new_flv_amf_tag \<and> payloadSize p = payloadSize (metadata_header ord t) \<and>
    receiveChunk h tr maxSize new_rtmp_chunk s =
      do { (q, c) \<leftarrow> take_payload (MetadataPacket p) (take (unat maxSize) (metadata_body ord t))
             (new_rtmp_chunk\<lparr>rc_total := payloadSize (metadata_header ord t),
                rc_size := min_size (payloadSize (metadata_header ord t)) maxSize\<rparr>);
           Some (NoError, min (unat maxSize) (length (metadata_body ord t)), q, c, s') } \<and>
    pending (sock_world s') = drop (unat maxSize) (metadata_body ord t) @ tail \<and> frame s s'"
proof -
  note H = metadata_header_ok [OF assms(2)]
  from receiveChunk_full_header [OF assms(1) H(1,2) assms(3), of h maxSize new_rtmp_chunk] obtain s1 where
    s1: "receiveChunk h tr maxSize new_rtmp_chunk s
        = receivePayload h tr Type0 maxSize (media_header (metadata_header ord t)) new_rtmp_chunk s1"
      "pending (sock_world s1) = metadata_body ord t @ tail" "frame s s1" by blast
  from metadata_start [OF assms(2), of maxSize new_rtmp_chunk] obtain p where
    p: "start_packet maxSize (media_header (metadata_header ord t)) new_rtmp_chunk = Some (Some (MetadataPacket p),
      new_rtmp_chunk\<lparr>rc_total := payloadSize (metadata_header ord t),
        rc_size := min_size (payloadSize (metadata_header ord t)) maxSize\<rparr>)" "metadata p = new_flv_amf_tag"
      "payloadSize p = payloadSize (metadata_header ord t)" by blast
  have "pending (sock_world s1) = take (unat maxSize) (metadata_body ord t) @ drop (unat maxSize) (metadata_body ord t) @ tail"
    using s1(2) by simp
  from receiveData_prefix [OF assms(1) this, of "min (unat maxSize) (length (metadata_body ord t))" h] obtain s2 where
    s2: "receiveData h tr (min (unat maxSize) (length (metadata_body ord t))) s1
        = (NoError, min (unat maxSize) (length (metadata_body ord t)), take (unat maxSize) (metadata_body ord t), s2)"
      "pending (sock_world s2) = drop (unat maxSize) (metadata_body ord t) @ tail" "frame s1 s2"
    by (auto simp: min.commute)
  show ?thesis
    using p s1 s2
    by (intro exI [of _ p] exI [of _ s2]) (simp add: receivePayload_def metadata_size [OF assms(2)] frame_def)
qed

text \<open>The tag the watcher reads into.\<close>

definition blank_tag :: "(subset dict \<Rightarrow> subset dict) \<Rightarrow> flv_amf_tag \<Rightarrow> flv_amf_tag" where
  "blank_tag ord t = new_flv_amf_tag\<lparr>payloadSize := payloadSize (metadata_header ord t), payload := metadata_body ord t\<rparr>"

lemma metadata_body_start: "take 29 (metadata_body ord t) = serializeString ''@setDataFrame'' True @ serializeString ''onMetaData'' True"
  "28 < length (metadata_body ord t)"
  by (simp_all add: metadata_body_def serializeString_def amf_fromString_def toBigEndian16_def)

lemma metadata_whole:
  assumes "delivers tr pending" and "length (metadata_body ord t) < 2 ^ 24" and "order_ok ord" and "strings_ok t"
    and "length (metadata_body ord t) \<le> unat chunk"
    and "pending (sock_world s) = media_header (metadata_header ord t) @ metadata_body ord t @ tail"
  shows "\<exists>m s'. receiveDynamicPacketWithDynamicHeader h tr chunk s
      = Some (Some (NoError, length (metadata_body ord t), MetadataPacket m, s')) \<and>
    metadata m = metadata_read t (blank_tag ord t) \<and> pending (sock_world s') = tail \<and> frame s s'"
proof -
  let ?body = "metadata_body ord t"
  from metadata_chunk [OF assms(1,2,6), of h chunk] obtain p s' where
    p: "metadata p = new_flv_amf_tag" "payloadSize p = payloadSize (metadata_header ord t)"
    and c: "receiveChunk h tr chunk new_rtmp_chunk s =
      do { (q, c) \<leftarrow> take_payload (MetadataPacket p) (take (unat chunk) ?body)
             (new_rtmp_chunk\<lparr>rc_total := payloadSize (metadata_header ord t),
                rc_size := min_size (payloadSize (metadata_header ord t)) chunk\<rparr>);
           Some (NoError, min (unat chunk) (length ?body), q, c, s') }"
    and s': "pending (sock_world s') = drop (unat chunk) ?body @ tail" "frame s s'" by blast
  have read: "flv_amf_deserialize_payload (blank_tag ord t) = Some (metadata_read t (blank_tag ord t))"
    by (rule metadata_body_read [OF assms(3,4)]) (simp add: blank_tag_def)
  have kept: "metadata (q\<lparr>payload := x\<rparr>) = metadata q" for q :: rtmp_metadata_message and x
    by (cases q) simp
  obtain m where m: "metadata_message_deserialize_payload (p\<lparr>payload := ?body\<rparr>) = Some m" "metadata m = metadata_read t (blank_tag ord t)"
    using read metadata_body_start(2) [of ord t] kept
    by (auto simp: metadata_message_deserialize_payload_def p blank_tag_def iter_advance_def)
  have size: "min_size (payloadSize (metadata_header ord t)) chunk = payloadSize (metadata_header ord t)"
    using metadata_header_ok(3) [OF assms(2)] assms(5) by (auto simp: min_size_def word_less_nat_alt)
  have none: "min_size 0 chunk = 0"
    by (simp add: min_size_def)
  show ?thesis
    using c m s' assms(5)
    by (simp add: take_payload_def receiveDynamicPacketWithDynamicHeader_def size none Let_def continuation_loop.simps
        append_continuation_def new_rtmp_chunk_def)
qed

lemma metadata_arrives:
  assumes "delivers (net e) pending" and "length (metadata_body ord t) < 2 ^ 24" and "order_ok ord" and "strings_ok t"
    and "length (metadata_body ord t) \<le> unat chunk" and "byte_rate (videodatarate (metadata_read t (blank_tag ord t))) = Some rate"
    and "pending (sock_world w) = media_header (metadata_header ord t) @ metadata_body ord t @ tail" and "media_delegate w = Some n"
  shows "\<exists>w' m. retriever_step e chunk w = Some (Some w') \<and> calls w' = calls w @ [(n, MetadataReceived m)] \<and>
    metadata m = metadata_read t (blank_tag ord t) \<and>
    pending (sock_world w') = tail \<and> media_delegate w' = media_delegate w \<and> stopped w' = stopped w"
proof -
  from metadata_whole [OF assms(1-5,7), of session_handler] obtain m w1 where
    r: "receiveDynamicPacketWithDynamicHeader session_handler (net e) chunk w
      = Some (Some (NoError, length (metadata_body ord t), MetadataPacket m, w1))"
    "metadata m = metadata_read t (blank_tag ord t)" "pending (sock_world w1) = tail" "frame w w1" by blast
  let ?w = "updateCurrentMetrics rate w1"
  have k: "media_delegate ?w = media_delegate w1" "calls ?w = calls w1" "sock_world ?w = sock_world w1" "stopped ?w = stopped w1"
    by (cases w1, simp add: updateCurrentMetrics_def)+
  have body: "metadata_body ord t \<noteq> []"
    using metadata_body_start(2) [of ord t] by auto
  have "retriever_step e chunk w = Some (Some (call n (MetadataReceived m) ?w))"
    using assms(6,8) r(1,2) frame_more(3) [OF r(4)] body k
    by (simp add: retriever_step_def mediaPacketReceived_def call_media_delegate_def Let_def)
  then show ?thesis
    using r(2,3) frame_more [OF r(4)] frame_watcher [OF r(4)] k
    by (intro exI [of _ "call n (MetadataReceived m) ?w"] exI [of _ m]) simp
qed

section \<open>A chunk that is too small\<close>

lemma deserialize_object_cut:
  assumes "deserializeProperties [] it = None"
  shows "deserialize (ObjectMarker # it) = None"
proof -
  have "deserializeValue (ObjectMarker # it) = None"
    using assms by (simp add: deserializeValue_def deserializeObject_def)
  then show ?thesis by (simp add: deserialize.simps [of "ObjectMarker # it"])
qed

lemma metadata_body_cut:
  assumes "29 < k" and "k < length (metadata_body ord t)" and "\<forall>(key, v) \<in> set (ord (flv_amf_props t)). key_ok key \<and> plain_value v"
  shows "deserialize (take k (metadata_body ord t)) = None"
proof -
  let ?S = "serializeString ''@setDataFrame'' True" and ?N = "serializeString ''onMetaData'' True"
  let ?P = "concat (map (\<lambda>(k, v). serializeString k False @ serializeScalar v) (ord (flv_amf_props t)))
     @ serializeString '''' False @ [ObjectEndMarker]"
  obtain j where j: "k = 29 + Suc j"
    using assms(1) by (auto simp: less_iff_Suc_add)
  have body: "metadata_body ord t = (?S @ ?N) @ ObjectMarker # ?P"
    by (simp add: metadata_body_def serializeObject_def)
  have len: "length (?S @ ?N) = 29"
    by (simp add: serializeString_def amf_fromString_def toBigEndian16_def)
  have "j < length ?P"
    using assms(2) len unfolding j body by simp
  then have cut: "deserializeProperties [] (take j ?P) = None"
    by (rule properties_cut [OF assms(3)])
  have "take k (metadata_body ord t) = ?S @ ?N @ ObjectMarker # take j ?P"
    using len unfolding j body by (simp only: take_append) simp
  moreover have "deserializeValue (serializeString s True @ rest) = Some (Subset (StringVariant s), rest)" if "string_ok s" for s rest
    using deserializeValue_serializeVariant [of "Subset (StringVariant s)" rest] that by simp
  then have "deserialize (serializeString s True @ rest) = map_option ((#) (Subset (StringVariant s))) (deserialize rest)"
    if "string_ok s" for s rest
    using that by (intro deserialize_step) (auto simp: serializeString_marker)
  moreover note deserialize_object_cut [OF cut]
  ultimately show ?thesis
    by (simp add: string_ok_def del: take_append)
qed

lemma metadata_stuck:
  assumes "delivers (net e) pending" and "length (metadata_body ord t) < 2 ^ 24"
    and "29 < unat chunk" and "unat chunk < length (metadata_body ord t)"
    and "\<forall>(key, v) \<in> set (ord (flv_amf_props t)). key_ok key \<and> plain_value v"
    and "pending (sock_world w) = media_header (metadata_header ord t) @ metadata_body ord t @ tail"
  shows "retriever_step e chunk w = Some None"
proof -
  from metadata_chunk [OF assms(1,2,6), of session_handler chunk] obtain p s' where
    c: "receiveChunk session_handler (net e) chunk new_rtmp_chunk w =
      do { (q, c) \<leftarrow> take_payload (MetadataPacket p) (take (unat chunk) (metadata_body ord t))
             (new_rtmp_chunk\<lparr>rc_total := payloadSize (metadata_header ord t),
                rc_size := min_size (payloadSize (metadata_header ord t)) chunk\<rparr>);
           Some (NoError, min (unat chunk) (length (metadata_body ord t)), q, c, s') }" by blast
  have "take_payload (MetadataPacket p) (take (unat chunk) (metadata_body ord t)) c = None" for c
    by (simp add: take_payload_def metadata_message_deserialize_payload_def flv_amf_deserialize_payload_def
        metadata_body_cut [OF assms(3-5)])
  with c show ?thesis
    by (simp add: retriever_step_def receiveDynamicPacketWithDynamicHeader_def)
qed

section \<open>Properties\<close>

text \<open>What is the sender's of the tag that is read, and what is not: the codec ids are written as strings and read as
  numbers only, so that the reader keeps its own.\<close>

lemma metadata_read_fields:
  defines "r \<equiv> \<lambda>ord t. metadata_read t (blank_tag ord t)"
  shows "\<forall>f \<in> {duration, width, height, videodatarate, framerate, audiodatarate, audiosamplerate, audiosamplesize, audiochannels,
           videoframerate, filesize}.
      f (r ord t) = (if double_pos (f t) then f t else f new_flv_amf_tag)"
    and "stereo (r ord t) = stereo t" "encoder (r ord t) = encoder t" "timestamp (r ord t) = timestamp t"
    and "videocodecidStr (r ord t) = ''avc''" "audiocodecidStr (r ord t) = ''aac''"
    and "avcLevel (r ord t) = (if videocodecidStr t = ''avc1'' \<and> double_pos (avcLevel t) then avcLevel t else double_of_nat 41)"
    and "avcProfile (r ord t) = (if videocodecidStr t = ''avc1'' \<and> double_pos (avcProfile t) then avcProfile t else double_of_nat 100)"
  unfolding r_def by (simp_all add: metadata_read_def blank_tag_def keep_def new_flv_amf_tag_def new_media_tag_def media_tag.extend_def word_gt_0)

text \<open>C17: the metadata of a stream arrives: a broadcaster writes it in one packet, whatever its chunk size, and a watcher
  whose chunk size is not below the size of its body takes that packet in one turn and tells its delegate: every number
  that is positive (the durations, sizes, rates and the channels), the encoder, the flag for stereo and the time are
  those of the sender. A number that is not positive is not sent, and the delegate is shown the default of the code for
  it, 1280 for a width of zero; the codec names are sent and not read, and the delegate is shown avc and aac whatever they
  are; level and profile of the video are the sender's only where its codec is named avc1.\<close>

theorem metadata_reaches_watcher:
  assumes "reliable (net e) pending writes" and "delivers (net e2) pending2" and "sock_open s"
    and "order_ok (dict_order e)" and "strings_ok t" and "length (metadata_body (dict_order e) t) < 2 ^ 24"
    and "length (metadata_body (dict_order e) t) \<le> unat chunk"
    and "byte_rate (videodatarate t) = Some rate" and "byte_rate (videodatarate new_flv_amf_tag) = Some rate2"
  shows "\<exists>s' packet. broadcaster_sendOnMetaDataTag e t s = Some s' \<and> writes (sock_world s') = writes (sock_world s) @ [packet] \<and>
    (\<forall>w n tail. pending2 (sock_world w) = packet @ tail \<and> media_delegate w = Some n \<longrightarrow>
      (\<exists>w' m. retriever_step e2 chunk w = Some (Some w') \<and> calls w' = calls w @ [(n, MetadataReceived m)] \<and>
         (\<forall>f \<in> {duration, width, height, videodatarate, framerate, audiodatarate, audiosamplerate, audiosamplesize, audiochannels,
           videoframerate, filesize}.
            f (metadata m) = (if double_pos (f t) then f t else f new_flv_amf_tag)) \<and>
         stereo (metadata m) = stereo t \<and> encoder (metadata m) = encoder t \<and> timestamp (metadata m) = timestamp t \<and>
         videocodecidStr (metadata m) = ''avc'' \<and> audiocodecidStr (metadata m) = ''aac'' \<and>
         avcLevel (metadata m) = (if videocodecidStr t = ''avc1'' \<and> double_pos (avcLevel t) then avcLevel t else double_of_nat 41) \<and>
         avcProfile (metadata m) = (if videocodecidStr t = ''avc1'' \<and> double_pos (avcProfile t) then avcProfile t else double_of_nat 100) \<and>
         metadata m = metadata_read t (blank_tag (dict_order e) t) \<and> pending2 (sock_world w') = tail))"
proof -
  have "\<exists>r. byte_rate (videodatarate (metadata_read t (blank_tag (dict_order e) t))) = Some r"
    using assms(8,9) by (simp add: metadata_read_def keep_def blank_tag_def)
  then obtain r where r: "byte_rate (videodatarate (metadata_read t (blank_tag (dict_order e) t))) = Some r" ..
  from metadata_sent [OF assms(1,3,8)] obtain s' where s': "broadcaster_sendOnMetaDataTag e t s = Some s'"
    "writes (sock_world s') = writes (sock_world s) @ [media_header (metadata_header (dict_order e) t) @ metadata_body (dict_order e) t]"
    by blast
  let ?packet = "media_header (metadata_header (dict_order e) t) @ metadata_body (dict_order e) t"
  have all: "\<exists>w' m. retriever_step e2 chunk w = Some (Some w') \<and> calls w' = calls w @ [(n, MetadataReceived m)] \<and>
      metadata m = metadata_read t (blank_tag (dict_order e) t) \<and> pending2 (sock_world w') = tail"
    if "pending2 (sock_world w) = ?packet @ tail \<and> media_delegate w = Some n" for w n tail
    using metadata_arrives [OF assms(2,6,4,5,7) r] that by fastforce
  note fields = metadata_read_fields [where ord = "dict_order e" and t = t]
  show ?thesis
  proof (rule exI [of _ s'], rule exI [of _ ?packet], intro conjI allI impI)
    fix w :: "_ watcher_session" and n tail
    assume "pending2 (sock_world w) = ?packet @ tail \<and> media_delegate w = Some n"
    from all [OF this] obtain w' m where m: "retriever_step e2 chunk w = Some (Some w')" "calls w' = calls w @ [(n, MetadataReceived m)]"
      "metadata m = metadata_read t (blank_tag (dict_order e) t)" "pending2 (sock_world w') = tail" by blast
    show "\<exists>w' m. retriever_step e2 chunk w = Some (Some w') \<and> calls w' = calls w @ [(n, MetadataReceived m)] \<and>
         (\<forall>f \<in> {duration, width, height, videodatarate, framerate, audiodatarate, audiosamplerate, audiosamplesize, audiochannels,
           videoframerate, filesize}.
            f (metadata m) = (if double_pos (f t) then f t else f new_flv_amf_tag)) \<and>
         stereo (metadata m) = stereo t \<and> encoder (metadata m) = encoder t \<and> timestamp (metadata m) = timestamp t \<and>
         videocodecidStr (metadata m) = ''avc'' \<and> audiocodecidStr (metadata m) = ''aac'' \<and>
         avcLevel (metadata m) = (if videocodecidStr t = ''avc1'' \<and> double_pos (avcLevel t) then avcLevel t else double_of_nat 41) \<and>
         avcProfile (metadata m) = (if videocodecidStr t = ''avc1'' \<and> double_pos (avcProfile t) then avcProfile t else double_of_nat 100) \<and>
         metadata m = metadata_read t (blank_tag (dict_order e) t) \<and> pending2 (sock_world w') = tail"
      by (rule exI [of _ w'], rule exI [of _ m], intro conjI) (rule m, rule m, unfold m(3), (rule fields)+, rule refl, rule m)
  qed (rule s')+
qed

text \<open>C18: the metadata of a stream breaks the watcher: the broadcaster cuts the packet into no chunks, and of a packet whose
  body is longer than the chunk size of the watcher the worker parses the first chunk alone: wherever in the object the chunk
  ends, it reads past the end of its buffer.\<close>

theorem metadata_cut:
  assumes "reliable (net e) pending writes" and "delivers (net e2) pending2" and "sock_open s"
    and "length (metadata_body (dict_order e) t) < 2 ^ 24" and "byte_rate (videodatarate t) = Some rate"
    and "29 < unat chunk" and "unat chunk < length (metadata_body (dict_order e) t)"
    and "\<forall>(key, v) \<in> set (dict_order e (flv_amf_props t)). key_ok key \<and> plain_value v"
  shows "\<exists>s' packet. broadcaster_sendOnMetaDataTag e t s = Some s' \<and> writes (sock_world s') = writes (sock_world s) @ [packet] \<and>
    (\<forall>w tail. pending2 (sock_world w) = packet @ tail \<longrightarrow> retriever_step e2 chunk w = Some None)"
  using metadata_sent [OF assms(1,3,5)] metadata_stuck [OF assms(2,4,6-8)] by fastforce

text \<open>The tag every broadcaster starts with.\<close>

lemma plain_number_of_nat:
  assumes "0 < n" and "n < 2 ^ 53"
  shows "plain_number (double_of_nat n)"
proof -
  let ?d = "double_of_nat n"
  have top: "unat (ucast (drop_bit 56 ?d) :: u8) = unat ?d div 2 ^ 56 mod 256"
    by (simp add: unsigned_ucast_eq unsigned_drop_bit_eq drop_bit_eq_div take_bit_eq_mod unat_div)
  have "1023 * 2 ^ 52 \<le> unat ?d" "unat ?d < 1076 * 2 ^ 52"
    using double_of_nat_fields(1,2,4) [OF assms] by simp_all
  then have "0x3F \<le> unat ?d div 2 ^ 56" "unat ?d div 2 ^ 56 < 0x44"
    by (simp_all add: less_eq_div_iff_mult_less_eq div_less_iff_less_mult)
  then have "0x3F \<le> unat (ucast (drop_bit 56 ?d) :: u8)"
    unfolding top by simp
  then have "(ucast (drop_bit 56 ?d) :: u8) \<noteq> 0 \<and> (ucast (drop_bit 56 ?d) :: u8) \<noteq> ObjectEndMarker"
    by auto
  moreover have "[0..<8] = [0..<7] @ [7]"
    by (simp add: upt_rec)
  ultimately show ?thesis
    by (simp add: plain_number_def amf_fromNumber_def double_bytes_def)
qed

lemma scalar_length:
  "length (serializeString k False) = 2 + length k" "length (serializeString k True) = 3 + length k"
  "length (serializeNumber d) = 9" "length (serializeBoolean b) = 2"
  by (simp_all add: serializeString_def serializeNumber_def serializeBoolean_def amf_fromNumber_def amf_fromString_def
      toBigEndian16_def)

lemma default_fields:
  "stereo new_flv_amf_tag = False" "duration new_flv_amf_tag = 0" "width new_flv_amf_tag = double_of_nat 1280"
  "height new_flv_amf_tag = double_of_nat 720" "videodatarate new_flv_amf_tag = double_of_nat 850"
  "framerate new_flv_amf_tag = double_of_nat 30" "audiodatarate new_flv_amf_tag = double_of_nat 60"
  "audiosamplesize new_flv_amf_tag = 0" "audiosamplerate new_flv_amf_tag = double_of_nat 48000" "encoder new_flv_amf_tag = []"
  "filesize new_flv_amf_tag = 0" "videocodecid new_flv_amf_tag = 0" "videocodecidStr new_flv_amf_tag = ''avc''"
  "audiocodecidStr new_flv_amf_tag = ''aac''" "audiochannels new_flv_amf_tag = double_of_nat 1"
  "videoframerate new_flv_amf_tag = 0" "timestamp new_flv_amf_tag = 0"
  by (simp_all add: new_flv_amf_tag_def new_media_tag_def media_tag.extend_def)

lemma default_pos:
  "double_pos (double_of_nat 1280)" "double_pos (double_of_nat 720)" "double_pos (double_of_nat 850)" "double_pos (double_of_nat 30)"
  "double_pos (double_of_nat 60)" "double_pos (double_of_nat 48000)" "double_pos (double_of_nat 1)"
  by (rule double_pos_of_nat; simp)+

lemma default_props:
  "flv_amf_props new_flv_amf_tag =
    [(''stereo'', BooleanVariant False), (''width'', NumberVariant (double_of_nat 1280)), (''height'', NumberVariant (double_of_nat 720)),
     (''videodatarate'', NumberVariant (double_of_nat 850)), (''framerate'', NumberVariant (double_of_nat 30)),
     (''audiodatarate'', NumberVariant (double_of_nat 60)), (''audiosamplerate'', NumberVariant (double_of_nat 48000)),
     (''videocodecid'', StringVariant ''avc''), (''audiocodecid'', StringVariant ''aac''), (''audiochannels'', NumberVariant (double_of_nat 1))]"
proof -
  have p: "put_when True k v d = AList.update k v d" "put_when False k v d = d" for k v and d :: "subset dict"
    by (simp_all add: put_when_def)
  have f: "(''avc'' = ''avc1'') = False" "(''avc'' \<noteq> []) = True" "(''aac'' \<noteq> []) = True" "(0 < (0 :: u32)) = False" "([] \<noteq> ([] :: string)) = False"
    by simp_all
  show ?thesis
    unfolding flv_amf_props_def Let_def default_fields f
    by (simp only: default_pos double_pos_zero p simp_thms) simp
qed

lemma default_length: "length (metadata_body (\<lambda>d. d) new_flv_amf_tag) = 234"
  by (simp add: metadata_body_def default_props serializeObject_def scalar_length)

lemma default_plain: "\<forall>(key, v) \<in> set (flv_amf_props new_flv_amf_tag). key_ok key \<and> plain_value v"
  by (simp add: default_props key_ok_def string_ok_def plain_number_of_nat)

lemma default_ok: "strings_ok new_flv_amf_tag" "byte_rate (videodatarate new_flv_amf_tag) = Some 108800" "order_ok (\<lambda>d. d)"
  by (simp_all add: strings_ok_def string_ok_def default_fields byte_rate_of_nat order_ok_def)

lemma sample_order [simp]: "dict_order sample_host = (\<lambda>d. d)"
  by (simp add: sample_host_def)

text \<open>The packet of the default tag has a body of 234 bytes: too much for the chunk size every connection starts with.\<close>

theorem metadata_reaches_watcher_witness:
  "\<exists>s' packet t' m. broadcaster_sendOnMetaDataTag sample_host new_flv_amf_tag (sample_client []) = Some s' \<and>
     outbox (sock_world s') = [packet] \<and> retriever_step sample_host 4096 (sample_watcher packet False) = Some (Some t') \<and>
     calls t' = [(7, MetadataReceived m)] \<and> width (metadata m) = double_of_nat 1280"
proof -
  have ok: "reliable (net sample_host) inbox outbox" "delivers (net sample_host) inbox"
    by (simp_all add: script_reliable script_delivers)
  have len: "length (metadata_body (dict_order sample_host) new_flv_amf_tag) < 2 ^ 24"
    "length (metadata_body (dict_order sample_host) new_flv_amf_tag) \<le> unat (4096 :: u32)"
    by (simp_all add: default_length)
  have ord: "order_ok (dict_order sample_host)" by (simp add: default_ok)
  from metadata_reaches_watcher [OF ok sample_client(3) [of "[]"] ord default_ok(1) len default_ok(2) default_ok(2), unfolded sample_order]
  obtain s' packet where
    s': "broadcaster_sendOnMetaDataTag sample_host new_flv_amf_tag (sample_client []) = Some s'" "outbox (sock_world s') = [packet]"
    and w: "\<forall>w n tail. inbox (sock_world w) = packet @ tail \<and> media_delegate w = Some n \<longrightarrow>
      (\<exists>w' m. retriever_step sample_host 4096 w = Some (Some w') \<and> calls w' = calls w @ [(n, MetadataReceived m)] \<and>
         metadata m = metadata_read new_flv_amf_tag (blank_tag (\<lambda>d. d) new_flv_amf_tag) \<and> inbox (sock_world w') = tail)"
    unfolding sample_client(2) append_Nil by blast
  from w [rule_format, of "sample_watcher packet False" "[]" 7] obtain t' m where
    "retriever_step sample_host 4096 (sample_watcher packet False) = Some (Some t')" "calls t' = [(7, MetadataReceived m)]"
    "metadata m = metadata_read new_flv_amf_tag (blank_tag (\<lambda>d. d) new_flv_amf_tag)" by auto
  moreover from this(3) have "width (metadata m) = double_of_nat 1280"
    by (simp add: metadata_read_def keep_def blank_tag_def default_fields default_pos)
  ultimately show ?thesis
    using s' by blast
qed

theorem metadata_cut_witness:
  "\<exists>s' packet. broadcaster_sendOnMetaDataTag sample_host new_flv_amf_tag (sample_client []) = Some s' \<and>
     outbox (sock_world s') = [packet] \<and> retriever_step sample_host 128 (sample_watcher packet False) = Some None"
proof -
  have ok: "reliable (net sample_host) inbox outbox" "delivers (net sample_host) inbox"
    by (simp_all add: script_reliable script_delivers)
  from metadata_cut [OF ok sample_client(3) [of "[]"], of new_flv_amf_tag 108800 128] default_ok(2) default_length default_plain
  obtain s' packet where
    "broadcaster_sendOnMetaDataTag sample_host new_flv_amf_tag (sample_client []) = Some s'" "outbox (sock_world s') = [packet]"
    and w: "\<forall>w tail. inbox (sock_world w) = packet @ tail \<longrightarrow> retriever_step sample_host 128 w = Some None"
    by auto
  with w [rule_format, of "sample_watcher packet False" "[]"] show ?thesis by auto
qed

end
