(* ===== verification/Amf0_Typing.thy ===== *)
theory Amf0_Typing
imports Amf0_Roundtrip
begin

text \<open>
  What the AMF0 deserializer can return at all: well-formed values, whatever the bytes. The values of a payload that
  has been read can be written again and are then read back as they are, but for arrays and undefined values, for
  which the serializer writes nothing.
\<close>

section \<open>Well-formed values\<close>

fun scalar_wf :: "subset \<Rightarrow> bool" where
  "scalar_wf (StringVariant s) = string_ok s"
| "scalar_wf _ = True"

fun variant_wf :: "variant \<Rightarrow> bool" where
  "variant_wf (Subset s) = scalar_wf s"
| "variant_wf (ObjectVariant d) = (dict_ok d \<and> (\<forall>(k, v) \<in> set d. key_ok k \<and> scalar_wf v))"
| "variant_wf (EcmaArrayVariant d) = (dict_ok d \<and> (\<forall>(k, v) \<in> set d. string_ok k \<and> scalar_wf v))"

text \<open>The values that the serializer does not drop.\<close>

fun variant_written :: "variant \<Rightarrow> bool" where
  "variant_written (Subset s) = (s \<noteq> UndefinedVariant)"
| "variant_written (ObjectVariant d) = (\<forall>(k, v) \<in> set d. v \<noteq> UndefinedVariant)"
| "variant_written (EcmaArrayVariant d) = False"

lemma variant_ok_iff: "variant_ok v \<longleftrightarrow> variant_wf v \<and> variant_written v"
proof -
  have s: "scalar_ok s \<longleftrightarrow> scalar_wf s \<and> s \<noteq> UndefinedVariant" for s
    by (cases s) simp_all
  show ?thesis
    by (cases v) (auto simp: s object_ok_def)
qed

section \<open>Reading\<close>

definition entries_wf :: "(string \<Rightarrow> bool) \<Rightarrow> subset dict \<Rightarrow> bool" where
  "entries_wf P d \<longleftrightarrow> dict_ok d \<and> (\<forall>(k, v) \<in> set d. P k \<and> scalar_wf v)"

lemma entries_wf_Nil [simp]: "entries_wf P []"
  by (simp add: entries_wf_def)

lemma entries_wf_update:
  assumes "entries_wf P d" and "P k" and "scalar_wf v"
  shows "entries_wf P (AList.update k v d)"
proof -
  have "set (AList.update k v d) \<subseteq> insert (k, v) (set d)"
    by (induction d) auto
  with assms show ?thesis
    unfolding entries_wf_def by (fastforce simp: subset_iff)
qed

lemma string_field_bound: "string_field_length it < 2 ^ 16"
proof -
  have "unat (it ! 0) < 256" "unat (it ! 1) < 256"
    using unsigned_less [of "it ! 0"] unsigned_less [of "it ! 1"] by simp_all
  then show ?thesis by (simp add: string_field_length_def)
qed

text \<open>A string that was read has the length its first two bytes announce.\<close>

lemma deserializeString_length:
  assumes "deserializeString it = Some (s, r)"
  shows "2 \<le> length it" and "length s = string_field_length it" and "string_ok s"
proof -
  show two: "2 \<le> length it"
    using assms deserializeString_short [of it] by fastforce
  then obtain hi lo r' where it: "it = hi # lo # r'"
    by (cases it; cases "tl it") auto
  obtain n where n: "length16 [hi, lo] = Some n"
    by (simp add: length16_def fromBigEndian16_def)
  from length16_two [OF n] have "unat n = string_field_length it"
    by (simp add: string_field_length_def it)
  then show len: "length s = string_field_length it"
    using assms by (auto simp: it deserializeString_def n amf_toString_def bind_Some_iff dest!: iter_slice_Some)
  show "string_ok s"
    using string_field_bound [of it] by (simp add: len string_ok_def)
qed

lemma deserializeString_key:
  assumes "deserializeString it = Some (k, r)" and "iter_deref it = Some b" and "b \<noteq> ObjectEndMarker" and "k \<noteq> []"
  shows "key_ok k"
proof -
  note len = deserializeString_length [OF assms(1)]
  obtain lo r' where it: "it = b # lo # r'"
    using len(1) assms(2) by (cases it; cases "tl it") auto
  have "unat lo < 256"
    using unsigned_less [of lo] by simp
  then have "length k div 256 = unat b"
    by (simp add: len(2) string_field_length_def it)
  moreover have "unat b \<noteq> 9"
  proof
    assume "unat b = 9"
    then have "unat b = unat ObjectEndMarker" by simp
    then have "b = ObjectEndMarker" by (rule unsigned_word_eqI)
    with assms(3) show False by simp
  qed
  ultimately show ?thesis
    using assms(4) len(3) by (simp add: key_ok_def)
qed

lemma deserializeSubset_wf: "deserializeSubset it = Some (v, r) \<Longrightarrow> scalar_wf v"
  by (auto simp: deserializeSubset_def bind_Some_iff dest: deserializeString_length(3) split: if_splits)

lemma key_of_field_ok:
  assumes "iter_slice 2 it = Some d" and "length16 d = Some n" and "amf_toString bytes (unat n) = Some k"
  shows "string_ok k"
proof -
  have "length d = 2"
    using iter_slice_Some [OF assms(1)] by simp
  then obtain hi lo where d: "d = [hi, lo]"
    by (cases d; cases "tl d") auto
  have "unat n = string_field_length d"
    using length16_two [of hi lo n] assms(2) by (simp add: d string_field_length_def)
  then show ?thesis
    using string_field_bound [of d] assms(3) by (auto simp: amf_toString_def string_ok_def dest: iter_slice_Some)
qed

lemma deserializeEcmaArray_wf:
  "deserializeEcmaArray n d it = Some (d', r) \<Longrightarrow> entries_wf string_ok d \<Longrightarrow> entries_wf string_ok d'"
proof (induction n arbitrary: d it)
  case (Suc n)
  from Suc.prems(1) consider "d' = d"
    | l len it2 s key it3 v it4 where "iter_slice 2 it = Some l" "length16 l = Some len" "iter_advance 2 it = Some it2"
        "iter_slice (unat len) it2 = Some s" "amf_toString s (unat len) = Some key" "iter_advance (unat len) it2 = Some it3"
        "deserializeSubset it3 = Some (v, it4)" "deserializeEcmaArray n (AList.update key v d) it4 = Some (d', r)"
    by (auto simp: bind_Some_iff simp del: length_greater_0_conv split: if_splits)
  then show ?case
  proof cases
    case 1
    with Suc.prems(2) show ?thesis by simp
  next
    case 2
    show ?thesis
      by (rule Suc.IH [OF 2(8)], rule entries_wf_update [OF Suc.prems(2) key_of_field_ok [OF 2(1,2,5)] deserializeSubset_wf [OF 2(7)]])
  qed
qed simp

lemma deserializeProperties_wf:
  "deserializeProperties d it = Some (d', r) \<Longrightarrow> entries_wf key_ok d \<Longrightarrow> entries_wf key_ok d'"
proof (induction d it rule: deserializeProperties.induct)
  case (1 d it)
  note step = deserializeProperties.simps [of d it]
  show ?case
  proof (cases "iter_deref it = Some ObjectEndMarker")
    case True
    with "1.prems" show ?thesis by (simp add: step)
  next
    case False
    with "1.prems"(1) obtain b k r1 where b: "iter_deref it = Some b" "b \<noteq> ObjectEndMarker" and
        k: "deserializeString it = Some (k, r1)"
      by (auto simp: step split: option.splits if_splits)
    show ?thesis
    proof (cases "k = []")
      case True
      with "1.prems"(1) b k have "deserializeProperties d r1 = Some (d', r)"
        by (simp add: step)
      with "1.IH"(2) [OF b k] True "1.prems"(2) show ?thesis by simp
    next
      case ne: False
      with "1.prems"(1) b k obtain v r2 where v: "deserializeSubset r1 = Some (v, r2)"
        and r2: "deserializeProperties (AList.update k v d) r2 = Some (d', r)"
        by (auto simp: step split: option.splits)
      have "entries_wf key_ok (AList.update k v d)"
        by (rule entries_wf_update [OF "1.prems"(2) deserializeString_key [OF k b ne] deserializeSubset_wf [OF v]])
      with "1.IH"(1) [OF b k _ ne v _ r2] show ?thesis by simp
    qed
  qed
qed

lemma deserializeValue_wf:
  assumes "deserializeValue it = Some (v, r)"
  shows "variant_wf v"
  using assms
  by (auto simp: deserializeValue_def deserializeObject_def bind_Some_iff entries_wf_def split: if_splits
      dest: deserializeString_length(3) deserializeProperties_wf [of "[]"] deserializeEcmaArray_wf [of _ "[]"])

lemma deserialize_wf: "deserialize it = Some vs \<Longrightarrow> v \<in> set vs \<Longrightarrow> variant_wf v"
proof (induction it arbitrary: vs rule: deserialize.induct)
  case (1 it)
  show ?case
  proof (cases "it = []")
    case True
    with "1.prems" show ?thesis by simp
  next
    case False
    with "1.prems" obtain x r where x: "deserializeValue it = Some (x, r)"
      by (auto simp: deserialize.simps [of it] split: option.splits)
    with False "1.prems"(1) obtain vs' where vs: "vs = x # vs'" "deserialize r = Some vs'"
      by (auto simp: deserialize_step)
    show ?thesis
      using "1.prems"(2) deserializeValue_wf [OF x] "1.IH" [OF False x refl vs(2)] by (auto simp: vs(1))
  qed
qed

section \<open>Property\<close>

text \<open>C36: whatever bytes a peer sends, every value the deserializer makes of them is well formed: strings and names of
  at most 65535 characters, the names of an object distinct, none of them empty or confused with its end marker. A
  payload that was read, if it holds no array and no undefined value, can be written and read again unchanged.\<close>

theorem amf0_deserialized_wf:
  assumes "deserialize it = Some vs"
  shows "list_all variant_wf vs \<and>
    (list_all variant_written vs \<longrightarrow> deserialize (concat (map serializeVariant vs)) = Some vs)"
proof
  show wf: "list_all variant_wf vs"
    using deserialize_wf [OF assms] by (simp add: list_all_iff)
  show "list_all variant_written vs \<longrightarrow> deserialize (concat (map serializeVariant vs)) = Some vs"
    using amf0.decs_encs [of vs] wf by (auto simp: list_all_iff variant_ok_iff)
qed

text \<open>An object that names \<open>a\<close> twice, and an empty name between: the later value stands.\<close>

theorem amf0_deserialized_wf_witness:
  "deserialize [3, 0, 1, 97, 5, 0, 0, 0, 1, 97, 1, 1, 0, 0, 9] = Some [ObjectVariant [(''a'', BooleanVariant True)]] \<and>
   deserialize (concat (map serializeVariant [ObjectVariant [(''a'', BooleanVariant True)]]))
     = Some [ObjectVariant [(''a'', BooleanVariant True)]]"
proof -
  have "deserialize [3, 0, 1, 97, 5, 0, 0, 0, 1, 97, 1, 1, 0, 0, 9] = Some [ObjectVariant [(''a'', BooleanVariant True)]]"
    by code_simp
  with amf0_deserialized_wf [OF this] show ?thesis by simp
qed

end
