(* ===== verification/MediaUtils.thy ===== *)
theory MediaUtils
imports Bytes
begin

text \<open>
  \<open>MediaUtils\<close>: the parameter sets of an H.264 sequence header and the channel layout of an AAC
  configuration. The iterators and the timestamp are passed by reference: the functions return what is left of the
  buffer, and the new timestamp. Reading past the buffer is \<open>None\<close>.
\<close>

section \<open>Video\<close>

record video_descriptor =
  sps :: v8
  pps :: v8
  nalUnitSize :: int

definition new_video_descriptor :: video_descriptor where
  "new_video_descriptor = \<lparr> sps = [], pps = [], nalUnitSize = 0 \<rparr>"

definition video_isValid :: "video_descriptor \<Rightarrow> bool" where
  "video_isValid d \<longleftrightarrow> pps d \<noteq> [] \<and> sps d \<noteq> []"

definition naluHeader :: v8 where
  "naluHeader = [0, 0, 0, 1]"

definition next_byte :: "v8 \<Rightarrow> (u8 \<times> v8) option" where
  "next_byte iter = do { b \<leftarrow> iter_deref iter; iter \<leftarrow> iter_advance 1 iter; Some (b, iter) }"

text \<open>A parameter set: its length in two bytes, then its bytes.\<close>

definition parameter_set :: "bool \<Rightarrow> v8 \<Rightarrow> (v8 \<times> v8) option" where
  "parameter_set appendNaluHeader iter =
     do { d \<leftarrow> iter_slice 2 iter;
          size \<leftarrow> fromBigEndian16 d;
          iter \<leftarrow> iter_advance 2 iter;
          bytes \<leftarrow> iter_slice (unat size) iter;
          iter \<leftarrow> iter_advance (unat size) iter;
          Some ((if appendNaluHeader then naluHeader else []) @ bytes, iter) }"

definition unpackVideoData :: "v8 \<Rightarrow> u32 \<Rightarrow> bool \<Rightarrow> (video_descriptor \<times> v8 \<times> u32) option" where
  "unpackVideoData iter ts appendNaluHeader =
     do { let descriptor = new_video_descriptor;
          (codec, iter) \<leftarrow> next_byte iter;
          let codec = codec AND 0x0F;
          if codec \<noteq> 7 then Some (descriptor, iter, ts)
          else do { (config, iter) \<leftarrow> next_byte iter;
          if \<not> (config = 0 \<or> config = 1 \<or> config = 2) then Some (descriptor, iter, ts)
          else do { d \<leftarrow> iter_slice 3 iter;
          delay \<leftarrow> fromBigEndian24 d;
          let ts = ts + delay;
          iter \<leftarrow> iter_advance 3 iter;
          if config \<noteq> 0 then Some (descriptor, iter, ts)
          else do { iter \<leftarrow> iter_advance 1 iter;
          iter \<leftarrow> iter_advance 1 iter;
          iter \<leftarrow> iter_advance 1 iter;
          iter \<leftarrow> iter_advance 1 iter;
          (nalSizeLen, iter) \<leftarrow> next_byte iter;
          let unitSize = uint (nalSizeLen AND 0x03) + 1;
          if unitSize \<noteq> 4 then Some (descriptor, iter, ts)
          else do { (spsCount, iter) \<leftarrow> next_byte iter;
          let spsCount = spsCount AND 0x1F;
          if spsCount \<noteq> 1 then Some (descriptor, iter, ts)
          else do { (s, iter) \<leftarrow> parameter_set appendNaluHeader iter;
          (ppsCount, iter) \<leftarrow> next_byte iter;
          if ppsCount \<noteq> 1 then Some (descriptor, iter, ts)
          else do { (p, iter) \<leftarrow> parameter_set appendNaluHeader iter;
          Some (descriptor\<lparr>sps := s, pps := p, nalUnitSize := unitSize\<rparr>, iter, ts) } } } } } } }"

section \<open>Audio\<close>

record audio_descriptor =
  channelCount :: int
  frameLength :: int
  sampleRate :: int

definition new_audio_descriptor :: audio_descriptor where
  "new_audio_descriptor = \<lparr> channelCount = 0, frameLength = 0, sampleRate = 0 \<rparr>"

definition audio_isValid :: "audio_descriptor \<Rightarrow> bool" where
  "audio_isValid d \<longleftrightarrow> channelCount d > 0 \<and> frameLength d > 0"

definition audioSampleRates :: "int list" where
  "audioSampleRates = [96000, 88200, 64000, 48000, 44100, 32000, 24000, 22050, 16000, 12000, 11025, 8000, 7350,
     - 1, - 1, - 1]"

text \<open>The first index whose rate differs from the given one by less than \<open>1e-5\<close>; both are integers.\<close>

fun index_from :: "int \<Rightarrow> int list \<Rightarrow> int \<Rightarrow> int" where
  "index_from rate [] i = - 1"
| "index_from rate (r # rs) i = (if \<bar>r - rate\<bar> < 1 then i else index_from rate rs (i + 1))"

definition indexForSampleRate :: "int \<Rightarrow> int" where
  "indexForSampleRate rate = index_from rate audioSampleRates 0"

definition unpackAudioData :: "v8 \<Rightarrow> (audio_descriptor \<times> v8) option" where
  "unpackAudioData iter =
     (let descriptor = new_audio_descriptor in
      if length iter < 4 then Some (descriptor, iter)
      else do { (v0, iter) \<leftarrow> next_byte iter;
                (v1, iter) \<leftarrow> next_byte iter;
                if \<not> (v0 = 0xAF \<or> v0 = 0x2F) then Some (descriptor, iter)
                else if \<not> (v1 = 0 \<or> v1 = 1 \<or> v1 = 0xFF) then Some (descriptor, iter)
                else if v1 = 0 then
                  do { (v2, iter) \<leftarrow> next_byte iter;
                       (v3, iter) \<leftarrow> next_byte iter;
                       let descriptor = descriptor\<lparr>channelCount := uint (drop_bit 3 v3 AND 0x0F)\<rparr>;
                       let descriptor = descriptor\<lparr>frameLength := (if v3 AND 0x04 \<noteq> 0 then 960 else 1024)\<rparr>;
                       let srIndex = (push_bit 1 (uint v2) OR drop_bit 7 (uint v3)) AND 0x0F;
                       Some (descriptor\<lparr>sampleRate := indexForSampleRate srIndex\<rparr>, iter) }
                else Some (descriptor, iter) })"

section \<open>Properties\<close>

text \<open>The configuration record that a sequence header carries, for one parameter set of each kind.\<close>

definition avc_configuration :: "u8 \<Rightarrow> u8 \<Rightarrow> u8 \<Rightarrow> v8 \<Rightarrow> v8 \<Rightarrow> v8" where
  "avc_configuration profile compati level s p =
     [1, profile, compati, level, 0xFF, 0xE1] @ toBigEndian16 (word_of_nat (length s)) @ s
       @ [1] @ toBigEndian16 (word_of_nat (length p)) @ p"

definition sequence_header :: "u8 \<Rightarrow> u32 \<Rightarrow> v8 \<Rightarrow> v8" where
  "sequence_header frame delay configuration = [push_bit 4 frame OR 7, 0] @ toBigEndian24 delay @ configuration"

lemma next_byte_Cons [simp]: "next_byte (b # it) = Some (b, it)"
  by (simp add: next_byte_def)

lemma parameter_set_written:
  assumes "length s < 2 ^ 16"
  shows "parameter_set b (toBigEndian16 (word_of_nat (length s)) @ s @ rest)
    = Some ((if b then naluHeader else []) @ s, rest)"
proof -
  have "unat (word_of_nat (length s) :: u16) = length s"
    using assms by (simp add: unsigned_of_nat take_bit_nat_eq_self)
  then show ?thesis by (simp add: parameter_set_def)
qed

text \<open>The codec of the first byte, in its low half.\<close>

lemma codec_nibble [simp]: "(push_bit 4 frameT OR 7) AND 15 = (7 :: u8)"
proof -
  have n: "(15 :: u8) = mask 4" "(7 :: u8) = mask 3"
    by (simp_all add: mask_eq_exp_minus_1)
  show ?thesis
    unfolding n by (auto intro!: bit_word_eqI simp: bit_simps)
qed

lemma unpack_sequence_header:
  assumes "length s < 2 ^ 16" and "length p < 2 ^ 16" and "unat delay < 2 ^ 24"
  shows "unpackVideoData (sequence_header frameT delay (avc_configuration a b c s p) @ rest) ts n
    = Some (\<lparr> sps = (if n then naluHeader else []) @ s, pps = (if n then naluHeader else []) @ p, nalUnitSize = 4 \<rparr>,
            rest, ts + delay)"
proof -
  have "fromBigEndian24 (toBigEndian24 delay) = Some delay"
    using be24.dec_enc_exact [of delay] assms(3) by (simp add: take_bit_24_eq)
  then show ?thesis
    using parameter_set_written [OF assms(2), of n rest]
      parameter_set_written [OF assms(1), of n "1 # toBigEndian16 (word_of_nat (length p)) @ p @ rest"]
    by (simp add: unpackVideoData_def sequence_header_def avc_configuration_def new_video_descriptor_def)
qed

text \<open>What the reader does on a buffer it does on every longer one.\<close>

lemma next_byte_more: "next_byte it = Some (b, r) \<Longrightarrow> next_byte (it @ extra) = Some (b, r @ extra)"
  by (cases it) (simp_all add: next_byte_def)

lemma parameter_set_more:
  assumes "parameter_set n it = Some (s, r)"
  shows "parameter_set n (it @ extra) = Some (s, r @ extra)"
proof -
  from assms obtain d size it' bytes where
    p: "iter_slice 2 it = Some d" "fromBigEndian16 d = Some size" "iter_advance 2 it = Some it'"
      "iter_slice (unat size) it' = Some bytes" "iter_advance (unat size) it' = Some r"
      "s = (if n then naluHeader else []) @ bytes"
    by (auto simp: parameter_set_def bind_Some_iff)
  show ?thesis
    by (simp add: parameter_set_def p(2,6) iter_more(1) [OF p(1)] iter_more(2) [OF p(3)] iter_more(1) [OF p(4)]
        iter_more(2) [OF p(5)])
qed

text \<open>\<open>stable f\<close>: \<open>f\<close> does on a buffer what it does on every longer one.\<close>

definition stable :: "(v8 \<Rightarrow> ('d \<times> v8 \<times> u32) option) \<Rightarrow> bool" where
  "stable f \<longleftrightarrow> (\<forall>it extra d r ts. f it = Some (d, r, ts) \<longrightarrow> f (it @ extra) = Some (d, r @ extra, ts))"

lemma stable_return: "stable (\<lambda>it. Some (d, it, ts))"
  by (simp add: stable_def)

lemma stable_byte:
  assumes "\<And>b. stable (g b)"
  shows "stable (\<lambda>it. next_byte it \<bind> (\<lambda>(b, it). g b it))"
  unfolding stable_def
proof (intro allI impI)
  fix it extra d r ts
  assume "next_byte it \<bind> (\<lambda>(b, it). g b it) = Some (d, r, ts)"
  then obtain x it' where x: "next_byte it = Some (x, it')" and g: "g x it' = Some (d, r, ts)"
    by (auto simp: bind_Some_iff)
  from assms [of x] g have "g x (it' @ extra) = Some (d, r @ extra, ts)"
    unfolding stable_def by blast
  then show "next_byte (it @ extra) \<bind> (\<lambda>(b, it). g b it) = Some (d, r @ extra, ts)"
    by (simp add: next_byte_more [OF x])
qed

lemma stable_set:
  assumes "\<And>s. stable (g s)"
  shows "stable (\<lambda>it. parameter_set n it \<bind> (\<lambda>(s, it). g s it))"
  unfolding stable_def
proof (intro allI impI)
  fix it extra d r ts
  assume "parameter_set n it \<bind> (\<lambda>(s, it). g s it) = Some (d, r, ts)"
  then obtain x it' where x: "parameter_set n it = Some (x, it')" and g: "g x it' = Some (d, r, ts)"
    by (auto simp: bind_Some_iff)
  from assms [of x] g have "g x (it' @ extra) = Some (d, r @ extra, ts)"
    unfolding stable_def by blast
  then show "parameter_set n (it @ extra) \<bind> (\<lambda>(s, it). g s it) = Some (d, r @ extra, ts)"
    by (simp add: parameter_set_more [OF x])
qed

lemma stable_advance: "stable g \<Longrightarrow> stable (\<lambda>it. iter_advance k it \<bind> g)"
  by (auto simp: stable_def bind_Some_iff dest: iter_more(2))

lemma stable_slice: "(\<And>d. stable (g d)) \<Longrightarrow> stable (\<lambda>it. iter_slice k it \<bind> (\<lambda>d. g d it))"
  by (auto simp: stable_def bind_Some_iff dest: iter_more(1))

lemma stable_bind: "(\<And>y. stable (g y)) \<Longrightarrow> stable (\<lambda>it. h \<bind> (\<lambda>y. g y it))"
  by (auto simp: stable_def bind_Some_iff)

lemma stable_if: "stable f \<Longrightarrow> stable g \<Longrightarrow> stable (\<lambda>it. if b then f it else g it)"
  by (simp add: stable_def)

lemma stable_unpackVideoData: "stable (\<lambda>it. unpackVideoData it ts n)"
  unfolding unpackVideoData_def Let_def
  by (intro stable_return stable_byte stable_if stable_slice stable_bind stable_advance stable_set)

text \<open>C39: an H.264 sequence header that names one parameter set of each kind is unpacked into exactly the two
  sets, each behind a start code when that is asked for, the composition time is added to the timestamp and the
  reader stops behind the last byte; and of every such header that is cut short, however early, the reader
  reads past the end, because it is given the end of the buffer and never looks at it.\<close>

theorem sequence_header_unpacked:
  assumes "length s < 2 ^ 16" and "length p < 2 ^ 16" and "unat delay < 2 ^ 24"
  shows "unpackVideoData (sequence_header frameT delay (avc_configuration a b c s p) @ rest) ts n
      = Some (\<lparr> sps = (if n then naluHeader else []) @ s, pps = (if n then naluHeader else []) @ p, nalUnitSize = 4 \<rparr>,
              rest, ts + delay) \<and>
    (\<forall>k < length (sequence_header frameT delay (avc_configuration a b c s p)).
       unpackVideoData (take k (sequence_header frameT delay (avc_configuration a b c s p))) ts n = None)"
proof (rule conjI, rule unpack_sequence_header [OF assms], intro allI impI)
  let ?h = "sequence_header frameT delay (avc_configuration a b c s p)"
  fix k assume k: "k < length ?h"
  show "unpackVideoData (take k ?h) ts n = None"
  proof (rule ccontr)
    assume "unpackVideoData (take k ?h) ts n \<noteq> None"
    then obtain d r ts' where "unpackVideoData (take k ?h) ts n = Some (d, r, ts')" by auto
    with stable_unpackVideoData [of ts n] have "unpackVideoData (take k ?h @ drop k ?h) ts n = Some (d, r @ drop k ?h, ts')"
      unfolding stable_def by blast
    with unpack_sequence_header [OF assms, where rest = "[]"]
    have "r @ drop k ?h = []" by simp
    with k show False by simp
  qed
qed

theorem sequence_header_unpacked_witness:
  "unpackVideoData (sequence_header 1 40 (avc_configuration 0x42 0 0x1E [0x67, 0x42] [0x68]) @ []) 1000 True
     = Some (\<lparr> sps = [0, 0, 0, 1, 0x67, 0x42], pps = [0, 0, 0, 1, 0x68], nalUnitSize = 4 \<rparr>, [], 1040)"
  using sequence_header_unpacked [of "[0x67, 0x42]" "[0x68]" 40 1 "0x42" 0 "0x1E" "[]" 1000 True]
  by (simp add: naluHeader_def)

text \<open>The two bytes of an AAC configuration: object type, frequency index, channels, frame flag.\<close>

definition audio_config :: "u8 \<Rightarrow> u8 \<Rightarrow> u8 \<Rightarrow> bool \<Rightarrow> v8" where
  "audio_config object freq channels short =
     [push_bit 3 object OR drop_bit 1 freq,
      push_bit 7 freq OR push_bit 3 channels OR (if short then 4 else 0)]"

lemma sampleRate_always_unknown: "indexForSampleRate (x AND 15) = - 1"
proof -
  have b: "0 \<le> x AND 15" "x AND 15 \<le> 15"
    by (simp_all add: AND_upper2)
  have "indexForSampleRate i = - 1" if "0 \<le> i" "i \<le> 15" for i
    using that by (simp add: indexForSampleRate_def audioSampleRates_def abs_if)
  from this [OF b] show ?thesis .
qed

text \<open>An AAC configuration is unpacked into its channel count and frame length, but its sample rate is lost:
  the frequency index is looked up among the rates as if it were a rate, and no rate is below 16, so the
  descriptor says -1 for every index.\<close>

theorem audio_config_unpacked:
  assumes "unat channels < 16"
  shows "unpackAudioData (0xAF # 0 # audio_config object freq channels short @ rest)
    = Some (\<lparr> channelCount = uint channels, frameLength = (if short then 960 else 1024), sampleRate = - 1 \<rparr>, rest)"
proof -
  let ?c = "take_bit 4 channels"
  let ?v3 = "push_bit 7 freq OR push_bit 3 ?c OR (if short then 4 else 0)"
  have n: "(15 :: u8) = mask 4" "(4 :: u8) = push_bit 2 (mask 1)"
    by (simp_all add: mask_eq_exp_minus_1)
  have ch: "take_bit 4 channels = channels"
    by (rule unsigned_word_eqI [where 'a = nat]) (use assms(1) in \<open>simp add: unsigned_take_bit_eq take_bit_nat_eq_self\<close>)
  have c: "drop_bit 3 ?v3 AND 15 = ?c"
    unfolding n by (cases short) (auto intro!: bit_word_eqI simp: bit_simps simp del: push_bit_Suc drop_bit_Suc take_bit_Suc)
  have four: "bit (4 :: u8) k \<longleftrightarrow> k = 2" for k
    using bit_exp_iff [where 'a = "8 word", of 2 k] by (auto simp: possible_bit_def)
  have "?v3 AND 4 = (if short then 4 else 0)"
  proof (rule bit_word_eqI)
    fix k assume "k < LENGTH(8)"
    have "bit ?v3 2 = short"
      using four [of 2] by (cases short) (simp_all add: bit_or_iff bit_push_bit_iff)
    then show "bit (?v3 AND 4) k = bit (if short then 4 else 0 :: u8) k"
      unfolding bit_and_iff if_distrib [where f = "\<lambda>x. bit x k"] four by (cases "k = 2") simp_all
  qed
  then have f: "(?v3 AND 4 \<noteq> 0) = short"
    by simp
  define v3 where "v3 = ?v3"
  have cfg: "audio_config object freq channels short = [push_bit 3 object OR drop_bit 1 freq, v3]"
    by (simp add: audio_config_def v3_def ch)
  show ?thesis
    unfolding cfg using c [folded v3_def] f [folded v3_def]
    by (simp add: unpackAudioData_def sampleRate_always_unknown new_audio_descriptor_def ch)
qed

theorem audio_config_unpacked_witness:
  "unpackAudioData (0xAF # 0 # audio_config 2 4 2 False @ []) = Some (\<lparr> channelCount = 2, frameLength = 1024, sampleRate = - 1 \<rparr>, [])
   \<and> audioSampleRates ! 4 = 44100"
  using audio_config_unpacked [of 2 2 4 False "[]"] by (simp add: audioSampleRates_def)

end
