(* ===== verification/AndroidBridge.thy ===== *)
theory AndroidBridge
imports EndToEnd MediaUtils
begin

text \<open>
  The Android bridge, \<open>src/jni/bridge_watcher_session.cc\<close>: a watcher session behind three functions called from
  Java, and a delegate of that session that turns its notifications into calls of Java methods. Java is a
  parameter: whether the view has a listener and which methods its class has. Attaching a thread and making the
  objects succeed; calling a method that the class does not have is undefined.
\<close>

section \<open>State\<close>

record jni =
  jni_listener :: bool
  jni_method :: "string \<Rightarrow> bool"
  jni_settings :: bool

datatype java_call =
    VoidMethod string
  | VideoFormat int int v8 v8
  | VideoPacketJava int v8
  | AudioPacketJava int v8
  | MetadataJava int int int int string

text \<open>The collector and the globals of the file; \<open>java_calls\<close> is what Java has been called with.\<close>

record 'w android =
  audioTimebase :: u32
  videoTimebase :: u32
  isActive :: bool
  isRunning :: bool
  currentHost :: string
  currentPort :: string
  currentAppName :: string
  currentStreamURL :: string
  jni_session :: "'w watcher_session option"
  java_calls :: "java_call list"

definition new_android :: "'w android" where
  "new_android = \<lparr> audioTimebase = 0, videoTimebase = 0, isActive = False, isRunning = False, currentHost = [],
     currentPort = [], currentAppName = [], currentStreamURL = [], jni_session = None, java_calls = [] \<rparr>"

definition call_java :: "java_call \<Rightarrow> 'w android \<Rightarrow> 'w android" where
  "call_java c a = a\<lparr>java_calls := java_calls a @ [c]\<rparr>"

section \<open>The delegate\<close>

definition callVoidMethod :: "jni \<Rightarrow> string \<Rightarrow> 'w android \<Rightarrow> 'w android" where
  "callVoidMethod j name a = (if jni_method j name then call_java (VoidMethod name) a else a)"

definition setActive :: "jni \<Rightarrow> bool \<Rightarrow> 'w android \<Rightarrow> 'w android" where
  "setActive j value a =
     (let a = a\<lparr>isActive := value\<rparr> in
      if jni_listener j then callVoidMethod j (if value then ''sessionStarted'' else ''sessionEnded'') a else a)"

text \<open>\<open>static_cast<jint>\<close> of a double that does not fit is undefined.\<close>

definition jint_of_double :: "double \<Rightarrow> int option" where
  "jint_of_double d =
     do { i \<leftarrow> double_trunc d; if - (2 ^ 31) \<le> i \<and> i < 2 ^ 31 then Some i else None }"

definition notifyMetadataPacketReceived :: "jni \<Rightarrow> rtmp_metadata_message \<Rightarrow> 'w android \<Rightarrow> 'w android option" where
  "notifyMetadataPacketReceived j packet a =
     (if \<not> jni_settings j then Some a
      else do { h \<leftarrow> jint_of_double (height (metadata packet));
                w \<leftarrow> jint_of_double (width (metadata packet));
                f \<leftarrow> jint_of_double (framerate (metadata packet));
                c \<leftarrow> jint_of_double (audiochannels (metadata packet));
                Some (if jni_method j ''metadataPacketReceived''
                      then call_java (MetadataJava h w f c (videocodecidStr (metadata packet))) a else a) })"

definition next_timebase :: "'a rtmp_message_scheme \<Rightarrow> u32 \<Rightarrow> u32" where
  "next_timebase packet timebase =
     (if \<not> hasExtendedTimestamp packet
      then (if chunkStreamType packet = Type0 then timestamp packet else timebase + timestamp packet)
      else timebase)"

text \<open>The product is one of 32-bit numbers. Fewer than five bytes behind the header make the argument of \<open>reserve\<close>
  wrap around; the exception it throws is caught by nobody.\<close>

definition notifyVideoPacketReceivedPacketReceived :: "jni \<Rightarrow> rtmp_video_message \<Rightarrow> 'w android \<Rightarrow> 'w android option" where
  "notifyVideoPacketReceivedPacketReceived j packet a =
     (let a = a\<lparr>videoTimebase := next_timebase packet (videoTimebase a)\<rparr>; bytes = video_message_data packet in
      if bytes = [] then Some a
      else do { (descriptor, begins, timebase) \<leftarrow> unpackVideoData bytes (videoTimebase a) True;
                let a = a\<lparr>videoTimebase := timebase\<rparr>;
                a \<leftarrow> (if video_isValid descriptor
                      then if jni_method j ''videoFormatPacketReceived''
                           then Some (call_java (VideoFormat (uint (videoTimebase a * 1000)) (nalUnitSize descriptor)
                                                   (sps descriptor) (pps descriptor)) a)
                           else None
                      else Some a);
                if length begins < 1 then Some a
                else if length begins < 5 then None
                else if jni_method j ''videoPacketReceived''
                     then Some (call_java (VideoPacketJava (uint (videoTimebase a * 1000)) (drop 5 begins)) a)
                     else None })"

definition notifyAudioPacketReceivedPacketReceived :: "jni \<Rightarrow> rtmp_audio_message \<Rightarrow> 'w android \<Rightarrow> 'w android" where
  "notifyAudioPacketReceivedPacketReceived j packet a =
     (let a = a\<lparr>audioTimebase := next_timebase packet (audioTimebase a)\<rparr>; bytes = audio_message_data packet in
      if bytes = [] then a
      else if jni_method j ''audioPacketReceived'' then call_java (AudioPacketJava (uint (audioTimebase a)) bytes) a
      else a)"

text \<open>The virtual functions of the delegate; those that are not named have empty bodies.\<close>

definition collector_notified :: "jni \<Rightarrow> notification \<Rightarrow> 'w android \<Rightarrow> 'w android option" where
  "collector_notified j v a =
     (case v of
        SocketEvent DidClose \<Rightarrow> Some (setActive j False a)
      | SessionStarted \<Rightarrow> Some (setActive j True a)
      | MetadataReceived packet \<Rightarrow> notifyMetadataPacketReceived j packet a
      | VideoReceived packet \<Rightarrow> notifyVideoPacketReceivedPacketReceived j packet a
      | AudioReceived packet \<Rightarrow> Some (notifyAudioPacketReceivedPacketReceived j packet a)
      | _ \<Rightarrow> Some a)"

section \<open>The functions called from Java\<close>

text \<open>The collector is delegate 0 of the session and calls nothing of it, so what it is told during an operation
  of the session is what the operation has added to the calls.\<close>

definition collector_calls :: "'w watcher_session \<Rightarrow> 'w watcher_session \<Rightarrow> notification list" where
  "collector_calls s s' = map snd (filter (\<lambda>(n, v). n = 0) (drop (length (calls s)) (calls s')))"

definition with_session ::
  "jni \<Rightarrow> 'w watcher_session \<Rightarrow> 'w watcher_session \<Rightarrow> 'w android \<Rightarrow> 'w android option" where
  "with_session j s s' a = for_each (collector_notified j) (collector_calls s s') (a\<lparr>jni_session := Some s'\<rparr>)"

definition markRunning :: "'w android \<Rightarrow> 'w android" where
  "markRunning a = a\<lparr>isRunning := True\<rparr>"

definition markStopped :: "'w android \<Rightarrow> 'w android" where
  "markStopped a = a\<lparr>isRunning := False\<rparr>"

definition android_session :: "'w host \<Rightarrow> 'w \<Rightarrow> 'w android \<Rightarrow> 'w watcher_session \<times> 'w android" where
  "android_session e w a =
     (case jni_session a of
        Some s \<Rightarrow> (s, a)
      | None \<Rightarrow> let s = addMediaDelegate 0 (new_watcher_session (net e) w new_session_settings)
                 in (s, a\<lparr>jni_session := Some s, audioTimebase := 0, videoTimebase := 0\<rparr>))"

definition android_start ::
  "jni \<Rightarrow> 'w host \<Rightarrow> 'w \<Rightarrow> string \<Rightarrow> string \<Rightarrow> string \<Rightarrow> string \<Rightarrow> 'w android \<Rightarrow> 'w android option" where
  "android_start j e w address port app streamURL a =
     (case android_session e w a of
        (s, a) \<Rightarrow>
          if length address \<le> 0 \<or> length port \<le> 0 \<or> length app \<le> 0 \<or> length streamURL \<le> 0 \<or> isRunning a then Some a
          else do { let a = a\<lparr>currentHost := address, currentPort := port, currentAppName := app,
                              currentStreamURL := streamURL\<rparr>;
                    s' \<leftarrow> session_start e (watcher_handshake e) (currentHost a) (currentPort a) (currentAppName a)
                            (currentStreamURL a) s;
                    a \<leftarrow> with_session j s s' a;
                    Some (markRunning a) })"

definition android_end :: "jni \<Rightarrow> 'w host \<Rightarrow> 'w android \<Rightarrow> 'w android option" where
  "android_end j e a =
     (case jni_session a of
        None \<Rightarrow> Some a
      | Some s \<Rightarrow>
          if \<not> isRunning a then Some a
          else map_option markStopped (with_session j s (watcher_end e s) a))"

definition android_isConnected :: "'w android \<Rightarrow> bool" where
  "android_isConnected a \<longleftrightarrow> isRunning a \<and> isActive a"

text \<open>A turn of the worker, which Java does not see but for the calls of the collector.\<close>

definition android_turn :: "jni \<Rightarrow> 'w host \<Rightarrow> u32 \<Rightarrow> 'w android \<Rightarrow> 'w android option option" where
  "android_turn j e maxChunkSize a =
     (case jni_session a of
        None \<Rightarrow> Some (Some a)
      | Some s \<Rightarrow>
          if stopped s then Some (Some a)
          else (case retriever_step e maxChunkSize s of
                  None \<Rightarrow> None
                | Some None \<Rightarrow> Some None
                | Some (Some s') \<Rightarrow> Some (with_session j s s' a)))"

fun android_turns :: "jni \<Rightarrow> 'w host \<Rightarrow> u32 \<Rightarrow> nat \<Rightarrow> 'w android \<Rightarrow> 'w android option option" where
  "android_turns j e maxChunkSize 0 a = Some (Some a)"
| "android_turns j e maxChunkSize (Suc k) a =
     (case android_turn j e maxChunkSize a of
        Some (Some a) \<Rightarrow> android_turns j e maxChunkSize k a
      | r \<Rightarrow> r)"

section \<open>Video\<close>

text \<open>The time of a frame as its chunk header has it: absolute, or the distance from the frame before.\<close>

datatype frame_time = Absolute u32 | Delta u32

fun advance :: "frame_time \<Rightarrow> u32 \<Rightarrow> u32" where
  "advance (Absolute t) timebase = t"
| "advance (Delta d) timebase = timebase + d"

fun timed :: "frame_time \<Rightarrow> 'a rtmp_message_scheme \<Rightarrow> bool" where
  "timed (Absolute t) m \<longleftrightarrow> chunkStreamType m = Type0 \<and> timestamp m = t"
| "timed (Delta d) m \<longleftrightarrow> chunkStreamType m \<noteq> Type0 \<and> timestamp m = d"

text \<open>A frame has its composition time, and two parameter sets or the units of a picture.\<close>

datatype avc_frame =
    ConfigFrame frame_time u32 v8 v8
  | PictureFrame frame_time u32 v8

fun frame_time_of :: "avc_frame \<Rightarrow> frame_time" where
  "frame_time_of (ConfigFrame t c s p) = t"
| "frame_time_of (PictureFrame t c units) = t"

fun frame_payload :: "avc_frame \<Rightarrow> v8 \<Rightarrow> bool" where
  "frame_payload (ConfigFrame t c s p) data \<longleftrightarrow>
     unat c < 2 ^ 24 \<and> length s < 2 ^ 16 \<and> length p < 2 ^ 16 \<and>
     (\<exists>frameT a b l. data = sequence_header frameT c (avc_configuration a b l s p))"
| "frame_payload (PictureFrame t c units) data \<longleftrightarrow>
     unat c < 2 ^ 24 \<and> (\<exists>frameT. data = [push_bit 4 frameT OR 7, 1] @ toBigEndian24 c @ units)"

definition frame_message :: "avc_frame \<Rightarrow> rtmp_video_message \<Rightarrow> bool" where
  "frame_message f m \<longleftrightarrow>
     timed (frame_time_of f) m \<and> \<not> hasExtendedTimestamp m \<and> frame_payload f (video_message_data m)"

text \<open>What Java is shown, and the timebase behind it.\<close>

fun shown :: "u32 \<Rightarrow> avc_frame list \<Rightarrow> java_call list" where
  "shown timebase [] = []"
| "shown timebase (ConfigFrame t c s p # fs) =
     (let timebase = advance t timebase + c
      in VideoFormat (uint (timebase * 1000)) 4 (naluHeader @ s) (naluHeader @ p) # shown timebase fs)"
| "shown timebase (PictureFrame t c units # fs) =
     (let timebase = advance t timebase + c
      in VideoPacketJava (uint (timebase * 1000)) (drop 5 units) # shown timebase fs)"

fun timebase_after :: "u32 \<Rightarrow> avc_frame list \<Rightarrow> u32" where
  "timebase_after timebase [] = timebase"
| "timebase_after timebase (ConfigFrame t c s p # fs) = timebase_after (advance t timebase + c) fs"
| "timebase_after timebase (PictureFrame t c units # fs) = timebase_after (advance t timebase + c) fs"

fun long_enough :: "avc_frame \<Rightarrow> bool" where
  "long_enough (PictureFrame t c units) \<longleftrightarrow> 5 \<le> length units"
| "long_enough (ConfigFrame t c s p) \<longleftrightarrow> True"

lemma next_timebase_timed:
  "timed t m \<Longrightarrow> \<not> hasExtendedTimestamp m \<Longrightarrow> next_timebase m timebase = advance t timebase"
  by (cases t) (simp_all add: next_timebase_def)

lemma unpack_picture:
  assumes "unat c < 2 ^ 24"
  shows "unpackVideoData ([push_bit 4 frameT OR 7, 1] @ toBigEndian24 c @ units) ts n
    = Some (new_video_descriptor, units, ts + c)"
proof -
  have "fromBigEndian24 (toBigEndian24 c) = Some c"
    using be24.dec_enc_exact [of c] assms by (simp add: take_bit_24_eq)
  then show ?thesis
    by (simp add: unpackVideoData_def codec_nibble)
qed

lemma frame_notified:
  assumes "frame_message f m" and "long_enough f" and "jni_method j ''videoFormatPacketReceived''"
    and "jni_method j ''videoPacketReceived''"
  shows "\<exists>a'. collector_notified j (VideoReceived m) a = Some a' \<and>
    java_calls a' = java_calls a @ shown (videoTimebase a) [f] \<and> videoTimebase a' = timebase_after (videoTimebase a) [f]"
proof (cases f)
  case (ConfigFrame t c s p)
  with assms(1) obtain frameT x b l where
    m: "video_message_data m = sequence_header frameT c (avc_configuration x b l s p)" "timed t m"
      "\<not> hasExtendedTimestamp m" "unat c < 2 ^ 24" "length s < 2 ^ 16" "length p < 2 ^ 16"
    by (auto simp: frame_message_def)
  have "video_message_data m \<noteq> []"
    by (simp add: m(1) sequence_header_def)
  moreover have "unpackVideoData (video_message_data m) ts True
      = Some (\<lparr> sps = naluHeader @ s, pps = naluHeader @ p, nalUnitSize = 4 \<rparr>, [], ts + c)" for ts
    using unpack_sequence_header [OF m(5,6,4), of frameT x b l "[]" ts True] by (simp add: m(1))
  ultimately show ?thesis
    using assms(3) ConfigFrame
    by (simp add: collector_notified_def notifyVideoPacketReceivedPacketReceived_def Let_def next_timebase_timed [OF m(2,3)]
        video_isValid_def call_java_def naluHeader_def)
next
  case (PictureFrame t c units)
  with assms(1) obtain frameT where
    m: "video_message_data m = [push_bit 4 frameT OR 7, 1] @ toBigEndian24 c @ units" "timed t m"
      "\<not> hasExtendedTimestamp m" "unat c < 2 ^ 24"
    by (auto simp: frame_message_def)
  show ?thesis
    using assms(2,4) PictureFrame unpack_picture [OF m(4), of frameT units _ True]
    by (simp add: collector_notified_def notifyVideoPacketReceivedPacketReceived_def Let_def next_timebase_timed [OF m(2,3)] m(1)
        video_isValid_def new_video_descriptor_def call_java_def)
       auto
qed

fun frame_shift :: "avc_frame \<Rightarrow> u32" where
  "frame_shift (ConfigFrame t c s p) = c"
| "frame_shift (PictureFrame t c units) = c"

fun frame_delta :: "avc_frame \<Rightarrow> u32 option" where
  "frame_delta (ConfigFrame (Delta d) c s p) = Some d"
| "frame_delta (PictureFrame (Delta d) c units) = Some d"
| "frame_delta _ = None"

lemma timebase_after_deltas:
  "map frame_delta fs = map Some ds \<Longrightarrow>
    timebase_after timebase fs = timebase + sum_list ds + sum_list (map frame_shift fs)"
proof (induction fs arbitrary: timebase ds)
  case (Cons f fs)
  then obtain d ds' where ds: "ds = d # ds'" "frame_delta f = Some d" "map frame_delta fs = map Some ds'"
    by (cases ds) auto
  have "timebase_after timebase (f # fs) = timebase_after (timebase + d + frame_shift f) fs"
    using ds(2) by (cases f rule: frame_delta.cases) auto
  with Cons.IH [OF ds(3)] ds(1) show ?case
    by (simp add: ac_simps)
qed simp

lemma shown_Cons: "shown timebase (f # fs) = shown timebase [f] @ shown (timebase_after timebase [f]) fs"
  by (cases f) (simp_all add: Let_def)

lemma timebase_after_Cons: "timebase_after timebase (f # fs) = timebase_after (timebase_after timebase [f]) fs"
  by (cases f) simp_all

text \<open>A stream of H.264 frames reaches Java frame by frame and in order: a configuration as its two parameter sets
  behind start codes, a picture as its bytes without the first five, which are the length of its first unit and the
  type of that unit. The time of every frame is its timebase in microseconds, cut to 32 bits; and as the
  composition time of a frame is added to the timebase itself, frames whose time is a distance are late by the
  composition times of all the frames before them.\<close>

theorem android_video:
  assumes "list_all2 frame_message fs ms" and "\<forall>f \<in> set fs. long_enough f"
    and "jni_method j ''videoFormatPacketReceived''" and "jni_method j ''videoPacketReceived''"
  shows "\<exists>a'. for_each (collector_notified j) (map VideoReceived ms) a = Some a' \<and>
    java_calls a' = java_calls a @ shown (videoTimebase a) fs \<and>
    videoTimebase a' = timebase_after (videoTimebase a) fs \<and>
    (\<forall>ds. map frame_delta fs = map Some ds \<longrightarrow>
       videoTimebase a' = videoTimebase a + sum_list ds + sum_list (map frame_shift fs))"
proof -
  have "\<exists>a'. for_each (collector_notified j) (map VideoReceived ms) a = Some a' \<and>
      java_calls a' = java_calls a @ shown (videoTimebase a) fs \<and> videoTimebase a' = timebase_after (videoTimebase a) fs"
    using assms(1,2)
  proof (induction fs ms arbitrary: a rule: list_all2_induct)
    case (Cons f fs m ms)
    from frame_notified [OF Cons.hyps(1) _ assms(3,4), of a] Cons.prems obtain a1 where
      a1: "collector_notified j (VideoReceived m) a = Some a1" "java_calls a1 = java_calls a @ shown (videoTimebase a) [f]"
        "videoTimebase a1 = timebase_after (videoTimebase a) [f]"
      by auto
    from Cons.IH [of a1] Cons.prems obtain a' where
      "for_each (collector_notified j) (map VideoReceived ms) a1 = Some a'"
      "java_calls a' = java_calls a1 @ shown (videoTimebase a1) fs" "videoTimebase a' = timebase_after (videoTimebase a1) fs"
      by auto
    with a1 show ?case
      unfolding shown_Cons [of _ f fs] timebase_after_Cons [of _ f fs] by simp
  qed simp
  then show ?thesis
    using timebase_after_deltas by metis
qed

text \<open>Two pictures 40 ms apart, each with a composition time of 80 ms: Java is shown the second one at 240 ms.\<close>

definition picture_message :: "chunk_stream_type \<Rightarrow> u32 \<Rightarrow> v8 \<Rightarrow> rtmp_video_message" where
  "picture_message ty t units = new_rtmp_video_message\<lparr>chunkStreamType := ty, timestamp := t,
     videoTag := new_flv_video_tag\<lparr>payload := [push_bit 4 2 OR 7, 1] @ toBigEndian24 80 @ units\<rparr>\<rparr>"

theorem android_video_witness:
  "\<exists>a'. for_each (collector_notified \<lparr>jni_listener = True, jni_method = (\<lambda>_. True), jni_settings = True\<rparr>)
      [VideoReceived (picture_message Type0 40 [0, 0, 0, 2, 0x65, 9]), VideoReceived (picture_message Type1 40 [0, 0, 0, 2, 0x41, 8])]
      (new_android :: script android) = Some a' \<and>
     java_calls a' = [VideoPacketJava 120000 [9], VideoPacketJava 240000 [8]]"
proof -
  let ?ms = "[picture_message Type0 40 [0, 0, 0, 2, 0x65, 9], picture_message Type1 40 [0, 0, 0, 2, 0x41, 8]]"
  let ?fs = "[PictureFrame (Absolute 40) 80 [0, 0, 0, 2, 0x65, 9], PictureFrame (Delta 40) 80 [0, 0, 0, 2, 0x41, 8]]"
  have "numberOfSetBits 40 < 24"
    by code_simp
  moreover have "\<exists>frameT. push_bit 4 frameT OR 7 = (39 :: u8)"
    by (rule exI [of _ 2]) simp
  ultimately have "list_all2 frame_message ?fs ?ms"
    by (auto simp: frame_message_def picture_message_def video_message_data_def hasExtendedTimestamp_def new_message_defs)
  from android_video [OF this, of "\<lparr>jni_listener = True, jni_method = (\<lambda>_. True), jni_settings = True\<rparr>" new_android]
  show ?thesis
    by (auto simp: new_android_def)
qed

section \<open>Starting\<close>


text \<open>A network on which no name can be resolved.\<close>

definition offline :: "script transport" where
  "offline = script_transport\<lparr>tr_resolve := (\<lambda>_ _ w. (OtherError 1, w))\<rparr>"


section \<open>From a broadcaster to Java\<close>

text \<open>A unit behind its length of four bytes, as a picture has it.\<close>

definition sized_unit :: "v8 \<Rightarrow> v8" where
  "sized_unit u = toBigEndian32 (word_of_nat (length u)) @ u"

text \<open>What Java is to be called with for a tag. The video is H.264, a configuration with one set of each kind and
  lengths of four bytes, or a picture of one unit or more; its time is that of the tag and the composition time of
  the frame together, in microseconds, which have to fit in 32 bits (71 minutes). A configuration is shown as its two
  sets behind start codes; a picture without the length and the type byte of its first unit, which \<open>offset = 5\<close> of the
  code takes off. The time of a sound is in milliseconds.\<close>

fun item_shown :: "media_item \<Rightarrow> java_call \<Rightarrow> bool" where
  "item_shown (VideoItem v) jc \<longleftrightarrow>
     (\<exists>frameT c time. unat c < 2 ^ 24 \<and> time = 1000 * (uint (timestamp v) + uint c) \<and> time < 2 ^ 32 \<and>
       ((\<exists>a b l s p. payload v = sequence_header frameT c (avc_configuration a b l s p) \<and> length s < 2 ^ 16 \<and> length p < 2 ^ 16 \<and>
           jc = VideoFormat time 4 (naluHeader @ s) (naluHeader @ p)) \<or>
        (\<exists>t bytes units. payload v = [push_bit 4 frameT OR 7, 1] @ toBigEndian24 c @ concat (map sized_unit ((t # bytes) # units)) \<and>
           jc = VideoPacketJava time (bytes @ concat (map sized_unit units)))))"
| "item_shown (AudioItem a) jc \<longleftrightarrow> jc = AudioPacketJava (uint (timestamp a)) (payload a)"

text \<open>Within the bound the arithmetic of the code does not wrap around.\<close>

lemma microseconds:
  fixes t c :: u32
  assumes "1000 * (uint t + uint c) < 2 ^ 32"
  shows "uint ((t + c) * 1000) = 1000 * (uint t + uint c)"
proof -
  have pos: "0 \<le> uint t + uint c" by simp
  have "uint (t + c) = (uint t + uint c) mod 2 ^ 32" by (simp add: uint_word_ariths)
  also have "\<dots> = uint t + uint c" using assms pos by (intro mod_pos_pos_trivial; simp)
  finally have sum: "uint (t + c) = uint t + uint c" .
  have "uint ((t + c) * 1000) = uint (t + c) * uint (1000 :: u32) mod 2 ^ 32"
    by (simp only: uint_word_ariths) simp
  also have "\<dots> = 1000 * (uint t + uint c) mod 2 ^ 32" by (simp add: sum mult.commute)
  also have "\<dots> = 1000 * (uint t + uint c)" using assms pos by (intro mod_pos_pos_trivial; simp)
  finally show ?thesis .
qed

lemma item_shown_frame:
  assumes "item_shown (VideoItem v) jc"
  obtains f where "frame_payload f (payload v)" and "long_enough f" and "frame_time_of f = Absolute (timestamp v)"
    and "shown 0 [f] = [jc]"
proof -
  from assms obtain frameT c where c: "unat c < 2 ^ 24" "1000 * (uint (timestamp v) + uint c) < 2 ^ 32" and
    "(\<exists>a b l s p. payload v = sequence_header frameT c (avc_configuration a b l s p) \<and> length s < 2 ^ 16 \<and> length p < 2 ^ 16 \<and>
        jc = VideoFormat (1000 * (uint (timestamp v) + uint c)) 4 (naluHeader @ s) (naluHeader @ p)) \<or>
     (\<exists>t bytes units. payload v = [push_bit 4 frameT OR 7, 1] @ toBigEndian24 c @ concat (map sized_unit ((t # bytes) # units)) \<and>
        jc = VideoPacketJava (1000 * (uint (timestamp v) + uint c)) (bytes @ concat (map sized_unit units)))"
    unfolding item_shown.simps by blast
  note micro = microseconds [OF c(2), symmetric]
  then consider (config) a b l s p where "payload v = sequence_header frameT c (avc_configuration a b l s p)" "length s < 2 ^ 16"
      "length p < 2 ^ 16" "jc = VideoFormat (uint ((timestamp v + c) * 1000)) 4 (naluHeader @ s) (naluHeader @ p)"
    | (picture) t bytes units where "payload v = [push_bit 4 frameT OR 7, 1] @ toBigEndian24 c @ concat (map sized_unit ((t # bytes) # units))"
      "jc = VideoPacketJava (uint ((timestamp v + c) * 1000)) (bytes @ concat (map sized_unit units))"
    using \<open>_ \<or> _\<close> unfolding micro by blast
  then show ?thesis
  proof cases
    case config
    show ?thesis
      by (rule that [of "ConfigFrame (Absolute (timestamp v)) c s p"]) (use config c(1) in \<open>auto simp: Let_def\<close>)
  next
    case picture
    show ?thesis
      by (rule that [of "PictureFrame (Absolute (timestamp v)) c (concat (map sized_unit ((t # bytes) # units)))"])
         (use picture c(1) in \<open>auto simp: Let_def sized_unit_def toBigEndian32_def\<close>)
  qed
qed

definition jni_ready :: "jni \<Rightarrow> bool" where
  "jni_ready j \<longleftrightarrow> jni_listener j \<and> (\<forall>name. jni_method j name)"

lemma shown_absolute: "frame_time_of f = Absolute t \<Longrightarrow> shown timebase [f] = shown 0 [f]"
  by (cases f) (simp_all add: Let_def)

definition same_state :: "'w android \<Rightarrow> 'w android \<Rightarrow> bool" where
  "same_state a a' \<longleftrightarrow> jni_session a' = jni_session a \<and> isRunning a' = isRunning a \<and> isActive a' = isActive a"

lemma same_state_simps [simp]:
  "same_state a a" "same_state a (call_java c a') = same_state a a'"
  "same_state a (a'\<lparr>videoTimebase := v\<rparr>) = same_state a a'"
  "same_state a (a'\<lparr>audioTimebase := v\<rparr>) = same_state a a'"
  by (simp_all add: same_state_def call_java_def)

lemma video_same_state:
  assumes "collector_notified j (VideoReceived m) a = Some a'"
  shows "same_state a a'"
proof (cases "unpackVideoData (video_message_data m) (next_timebase m (videoTimebase a)) True")
  case None
  with assms show ?thesis
    by (simp add: collector_notified_def notifyVideoPacketReceivedPacketReceived_def Let_def split: if_splits) auto
next
  case (Some r)
  obtain descriptor begins ts where "r = (descriptor, begins, ts)" by (cases r)
  with Some assms show ?thesis
    by (simp add: collector_notified_def notifyVideoPacketReceivedPacketReceived_def Let_def split: if_splits) auto
qed

lemma item_turn:
  assumes "arrives e pending chunk i bytes" and "item_sendable chunk i" and "item_shown i c" and "jni_ready j"
    and "jni_session a = Some t" and "pending (sock_world t) = bytes @ tail" and "media_delegate t = Some 0"
    and "\<not> stopped t"
  shows "\<exists>a' t'. android_turn j e chunk a = Some (Some a') \<and> java_calls a' = java_calls a @ [c] \<and>
    jni_session a' = Some t' \<and> pending (sock_world t') = tail \<and> media_delegate t' = Some 0 \<and> \<not> stopped t' \<and>
    android_isConnected a' = android_isConnected a"
proof -
  from assms(1,6,7) obtain t' v where
    t': "retriever_step e chunk t = Some (Some t')" "calls t' = calls t @ [(0, v)]" "carries i v"
      "pending (sock_world t') = tail" "media_delegate t' = media_delegate t" "stopped t' = stopped t"
    unfolding arrives_def hands_over_def by blast
  let ?a = "a\<lparr>jni_session := Some t'\<rparr>"
  have turn: "android_turn j e chunk a = Some (collector_notified j v ?a)"
    using assms(5,8) t'(1,2) by (simp add: android_turn_def with_session_def collector_calls_def)
  have "\<exists>a'. collector_notified j v ?a = Some a' \<and> java_calls a' = java_calls a @ [c] \<and> jni_session a' = Some t' \<and>
      android_isConnected a' = android_isConnected a"
  proof (cases i)
    case (VideoItem x)
    with t'(3) obtain m where m: "v = VideoReceived m" "video_message_data m = payload x" "timestamp m = timestamp x"
        "chunkStreamType m = Type0"
      by (cases v) auto
    from assms(3) VideoItem obtain f where
      f: "frame_payload f (payload x)" "long_enough f" "frame_time_of f = Absolute (timestamp x)" "shown 0 [f] = [c]"
      using item_shown_frame [of x c] by metis
    have "\<not> hasExtendedTimestamp m"
      using assms(2) VideoItem m(3) by (simp add: item_sendable_def sendable_def hasExtendedTimestamp_def)
    with f m have "frame_message f m"
      by (simp add: frame_message_def)
    from frame_notified [OF this f(2), of j ?a] assms(4) obtain a' where
      a': "collector_notified j v ?a = Some a'" "java_calls a' = java_calls a @ shown (videoTimebase a) [f]"
      by (auto simp: jni_ready_def m(1))
    then show ?thesis
      using video_same_state [of j m ?a a'] f(4) shown_absolute [OF f(3)]
      by (auto simp: m(1) same_state_def android_isConnected_def)
  next
    case (AudioItem x)
    with t'(3) obtain m where m: "v = AudioReceived m" "audio_message_data m = payload x" "timestamp m = timestamp x"
        "chunkStreamType m = Type0"
      by (cases v) auto
    have "\<not> hasExtendedTimestamp m" "payload x \<noteq> []"
      using assms(2) AudioItem m(3) by (simp_all add: item_sendable_def sendable_def hasExtendedTimestamp_def)
    then show ?thesis
      using assms(3,4) AudioItem m
      by (simp add: collector_notified_def notifyAudioPacketReceivedPacketReceived_def Let_def next_timebase_def jni_ready_def
          call_java_def android_isConnected_def)
  qed
  then show ?thesis
    using turn t'(4-6) assms(7,8) by auto
qed

lemma turns:
  assumes "list_all2 (\<lambda>i b. arrives e pending chunk i (concat b)) items bs" and "list_all2 item_shown items cs"
    and "\<forall>i \<in> set items. item_sendable chunk i" and "jni_ready j"
    and "jni_session a = Some t" and "pending (sock_world t) = concat (map concat bs) @ tail" and "media_delegate t = Some 0"
    and "\<not> stopped t"
  shows "\<exists>a'. android_turns j e chunk (length items) a = Some (Some a') \<and> java_calls a' = java_calls a @ cs \<and>
    android_isConnected a' = android_isConnected a"
  using assms(1-3,5-8)
proof (induction items bs arbitrary: cs a t rule: list_all2_induct)
  case (Cons i items b bs)
  from Cons.prems(1) obtain c cs' where cs: "cs = c # cs'" "item_shown i c" "list_all2 item_shown items cs'"
    by (auto simp: list_all2_Cons1)
  have "pending (sock_world t) = concat b @ (concat (map concat bs) @ tail)"
    using Cons.prems(4) by simp
  from item_turn [OF Cons.hyps(1) _ cs(2) assms(4) Cons.prems(3) this Cons.prems(5,6)] Cons.prems(2) obtain a1 t1 where
    a1: "android_turn j e chunk a = Some (Some a1)" "java_calls a1 = java_calls a @ [c]" "jni_session a1 = Some t1"
      "pending (sock_world t1) = concat (map concat bs) @ tail" "media_delegate t1 = Some 0" "\<not> stopped t1"
      "android_isConnected a1 = android_isConnected a"
    by auto
  from Cons.IH [OF cs(3) _ a1(3-6)] Cons.prems(2) a1 cs(1) show ?case
    by auto
qed simp

lemma connected:
  fixes a :: "'w android"
  assumes "reliable (net e) pending writes"
    and "tr_resolve (net e) address port w = (NoError, w1)" and "tr_connect (net e) w1 = (NoError, True, w2)"
    and "pending w2 = RtmpProtocolVersion # s1 @ s2 @ wa @ b @ c @ accepted @ created @ begins @ status @ access @ tail"
    and "length s1 = c1_defaultSize" and "length s2 = c1_defaultSize"
    and "server_accepts ack chunk wa b c accepted created" and "0 < ack"
    and "server_plays begins status access" and "jni_ready j"
    and "address \<noteq> []" and "port \<noteq> []" and "app \<noteq> []" and "url \<noteq> []"
    and "jni_session a = None" and "\<not> isRunning a"
  shows "\<exists>a' t. android_start j e w address port app url a = Some a' \<and> android_isConnected a' \<and>
    java_calls a' = java_calls a @ [VoidMethod ''sessionStarted''] \<and> jni_session a' = Some t \<and>
    pending (sock_world t) = tail \<and> media_delegate t = Some 0 \<and> \<not> stopped t \<and> worker t = Some chunk"
proof -
  let ?s = "addMediaDelegate 0 (new_watcher_session (net e) w new_session_settings)"
  have s: "sock_delegates ?s = [UserDelegate 0]" "session_delegates ?s = [0]" "\<not> sock_open ?s" "calls ?s = []"
    "sock_world ?s = w" "media_delegate ?s = Some 0" "stopped ?s"
    by (simp_all add: addMediaDelegate_def session_addDelegate_def socket_addDelegate_def addDelegate_def new_watcher_session_def
        new_client_session_def new_rtmp_session_def new_socket_def watcher_session.defs client_session.defs rtmp_session.defs
        socket.defs)
  obtain u where u: "session_start e (watcher_handshake e) address port app url ?s = watcher_handshake e u"
    "calls u = [(0, SocketEvent WillConnect), (0, SocketEvent DidConnect)]" "sock_open u" "sock_world u = w2"
    "session_delegates u = [0]" "media_delegate u = Some 0" "stopped u"
    using start_connected [OF s(1-3) assms(11,12), of e w1 w2 "watcher_handshake e" app url] assms(2,3) s by auto
  have "pending (sock_world u) = RtmpProtocolVersion # s1 @ s2 @ wa @ b @ c @ accepted @ created @ begins @ status @ access @ tail"
    using assms(4) u(4) by simp
  from watcher_runs [OF assms(1) u(3) this assms(5-9) u(7)] obtain t where
    t: "watcher_handshake e u = Some t" "pending (sock_world t) = tail" "\<not> stopped t" "worker t = Some chunk"
      "media_delegate t = Some 0" "calls t = calls u @ [(0, SessionStarted), (0, HandshakeDone)]"
    using u(5,6) by auto
  show ?thesis
    using assms(10-16) s(4) u(1,2) t
    by (auto simp: android_start_def android_session_def Let_def with_session_def collector_calls_def collector_notified_def
       setActive_def callVoidMethod_def call_java_def markRunning_def android_isConnected_def jni_ready_def)
qed


text \<open>A picture and a sound.\<close>

definition sample_picture :: flv_video_tag where
  "sample_picture = new_flv_video_tag\<lparr>payload := [0x17, 1, 0, 0, 80, 0, 0, 0, 2, 0x65, 9], payloadSize := 11, timestamp := 40\<rparr>"


end
