(* ===== verification/JniThreads.thy ===== *)
theory JniThreads
imports AndroidBridge
begin

text \<open>
  The environment of Java. The collector of \<open>bridge_watcher_session.cc\<close> keeps one \<open>JNIEnv\<close> for whatever thread notifies it:
  each notification first detaches the thread it is in, if there is an environment at all, and attaches it again
  (\<open>updateEnv\<close>); then it calls the functions of the environment one after the other. Here each of these is a step,
  and any number of threads take theirs in any order. The loader of the library (\<open>bridge_utils.cc\<close>) is at the end.
\<close>

section \<open>The virtual machine\<close>

text \<open>The invocation interface of Java, over a state of the machine. \<open>DetachCurrentThread\<close> is \<open>None\<close> when it ends the
  program; \<open>runs_java\<close> are the threads that have a Java method on their stack.\<close>

record 'v jvm =
  GetEnv :: "nat \<Rightarrow> 'v \<Rightarrow> nat option"
  AttachCurrentThread :: "nat \<Rightarrow> 'v \<Rightarrow> nat \<times> 'v"
  DetachCurrentThread :: "nat \<Rightarrow> 'v \<Rightarrow> 'v option"
  DestroyJavaVM :: "nat \<Rightarrow> 'v \<Rightarrow> 'v"
  RunMethod :: "nat \<Rightarrow> java_call \<Rightarrow> 'v \<Rightarrow> 'v"
  runs_java :: "nat \<Rightarrow> 'v \<Rightarrow> bool"

text \<open>What the interface documents: an environment belongs to one thread; attaching and detaching concern the thread that
  calls them; a thread that runs Java is attached and cannot be detached; a method that has returned leaves the
  threads as they were.\<close>

definition elsewhere :: "'v jvm \<Rightarrow> nat \<Rightarrow> 'v \<Rightarrow> 'v \<Rightarrow> bool" where
  "elsewhere m t w w' \<longleftrightarrow>
     (\<forall>u. u \<noteq> t \<longrightarrow> GetEnv m u w' = GetEnv m u w) \<and> (\<forall>u. runs_java m u w' = runs_java m u w)"

definition documented_vm :: "'v jvm \<Rightarrow> bool" where
  "documented_vm m \<longleftrightarrow>
     (\<forall>t u w n. GetEnv m t w = Some n \<and> GetEnv m u w = Some n \<longrightarrow> t = u) \<and>
     (\<forall>t w n w'. GetEnv m t w = None \<and> AttachCurrentThread m t w = (n, w') \<longrightarrow> GetEnv m t w' = Some n \<and> elsewhere m t w w') \<and>
     (\<forall>t w w'. DetachCurrentThread m t w = Some w' \<longrightarrow>
        elsewhere m t w w' \<and> GetEnv m t w' = (if runs_java m t w then GetEnv m t w else None)) \<and>
     (\<forall>t w. DetachCurrentThread m t w = None \<longrightarrow> runs_java m t w) \<and>
     (\<forall>t w. runs_java m t w \<longrightarrow> GetEnv m t w \<noteq> None) \<and>
     (\<forall>t c w. GetEnv m t (RunMethod m t c w) = GetEnv m t w \<and> elsewhere m t w (RunMethod m t c w))"

definition getJNIEnv :: "'v jvm \<Rightarrow> nat \<Rightarrow> 'v \<Rightarrow> nat \<times> 'v" where
  "getJNIEnv m t w = (case GetEnv m t w of Some n \<Rightarrow> (n, w) | None \<Rightarrow> AttachCurrentThread m t w)"

section \<open>What a notification calls\<close>

text \<open>\<open>PassEnv\<close> is the argument \<open>this->env_\<close> of \<open>getLiveSessionListener\<close> and \<open>callVoidMethod\<close>: what these call goes through the
  environment they were given, everything else through \<open>env_\<close> as it is by then.\<close>

datatype jni_call =
    PassEnv
  | GetObjectClass
  | GetFieldID string
  | GetObjectField
  | GetMethodID string
  | NewStringUTF string
  | NewObject
  | NewByteArray v8
  | CallVoidMethod java_call

text \<open>The result is the collector behind what it does before \<open>updateEnv\<close>, and the functions it calls behind that; with
  \<open>None\<close> it returns before.\<close>

type_synonym 'w prepared = "('w android \<times> jni_call list option) option"

definition getLiveSessionListener :: "jni_call list" where
  "getLiveSessionListener = [PassEnv, GetObjectClass, GetFieldID ''watcherLiveSessionListener'', GetObjectField]"

definition void_method :: "jni \<Rightarrow> string \<Rightarrow> jni_call list" where
  "void_method j name =
     [PassEnv, GetObjectClass, GetMethodID name] @ (if jni_method j name then [CallVoidMethod (VoidMethod name)] else [])"

definition active_calls :: "jni \<Rightarrow> bool \<Rightarrow> 'w android \<Rightarrow> 'w prepared" where
  "active_calls j value a =
     Some (a\<lparr>isActive := value\<rparr>,
       Some (getLiveSessionListener @
         (if jni_listener j then void_method j (if value then ''sessionStarted'' else ''sessionEnded'') else [])))"

definition metadata_calls :: "jni \<Rightarrow> rtmp_metadata_message \<Rightarrow> 'w android \<Rightarrow> 'w prepared" where
  "metadata_calls j packet a =
     (if \<not> jni_settings j then Some (a, None)
      else do { h \<leftarrow> jint_of_double (height (metadata packet));
                w \<leftarrow> jint_of_double (width (metadata packet));
                f \<leftarrow> jint_of_double (framerate (metadata packet));
                c \<leftarrow> jint_of_double (audiochannels (metadata packet));
                Some (a, Some ([GetMethodID ''<init>'', NewStringUTF (videocodecidStr (metadata packet)), NewObject,
                    GetObjectClass, GetMethodID ''metadataPacketReceived''] @
                  (if jni_method j ''metadataPacketReceived''
                   then [CallVoidMethod (MetadataJava h w f c (videocodecidStr (metadata packet)))] else []))) })"

definition video_calls :: "jni \<Rightarrow> rtmp_video_message \<Rightarrow> 'w android \<Rightarrow> 'w prepared" where
  "video_calls j packet a =
     (let a = a\<lparr>videoTimebase := next_timebase packet (videoTimebase a)\<rparr>; bytes = video_message_data packet in
      if bytes = [] then Some (a, None)
      else do { (descriptor, begins, timebase) \<leftarrow> unpackVideoData bytes (videoTimebase a) True;
                let a = a\<lparr>videoTimebase := timebase\<rparr>;
                format \<leftarrow> (if video_isValid descriptor
                  then if jni_method j ''videoFormatPacketReceived''
                       then Some [NewByteArray (sps descriptor), NewByteArray (pps descriptor),
                         CallVoidMethod (VideoFormat (uint (videoTimebase a * 1000)) (nalUnitSize descriptor)
                                           (sps descriptor) (pps descriptor))]
                       else None
                  else Some []);
                picture \<leftarrow> (if length begins < 1 then Some []
                  else if length begins < 5 then None
                  else if jni_method j ''videoPacketReceived''
                       then Some [NewByteArray (drop 5 begins),
                         CallVoidMethod (VideoPacketJava (uint (videoTimebase a * 1000)) (drop 5 begins))]
                       else None);
                Some (a, Some ([GetObjectClass, GetMethodID ''videoFormatPacketReceived'', GetMethodID ''videoPacketReceived''] @
                  format @ picture)) })"

definition audio_calls :: "jni \<Rightarrow> rtmp_audio_message \<Rightarrow> 'w android \<Rightarrow> 'w prepared" where
  "audio_calls j packet a =
     (let a = a\<lparr>audioTimebase := next_timebase packet (audioTimebase a)\<rparr>; bytes = audio_message_data packet in
      if bytes = [] then Some (a, None)
      else Some (a, Some ([NewByteArray bytes, GetObjectClass, GetMethodID ''audioPacketReceived''] @
        (if jni_method j ''audioPacketReceived'' then [CallVoidMethod (AudioPacketJava (uint (audioTimebase a)) bytes)] else []))))"

definition notification_calls :: "jni \<Rightarrow> notification \<Rightarrow> 'w android \<Rightarrow> 'w prepared" where
  "notification_calls j v a =
     (case v of
        SocketEvent DidClose \<Rightarrow> active_calls j False a
      | SessionStarted \<Rightarrow> active_calls j True a
      | MetadataReceived packet \<Rightarrow> metadata_calls j packet a
      | VideoReceived packet \<Rightarrow> video_calls j packet a
      | AudioReceived packet \<Rightarrow> audio_calls j packet a
      | _ \<Rightarrow> Some (a, None))"

fun methods :: "jni_call list \<Rightarrow> java_call list" where
  "methods [] = []"
| "methods (CallVoidMethod c # cs) = c # methods cs"
| "methods (_ # cs) = methods cs"

definition calling :: "jni_call list \<Rightarrow> 'w android \<Rightarrow> 'w android" where
  "calling cs a = a\<lparr>java_calls := java_calls a @ methods cs\<rparr>"

lemma methods_append [simp]: "methods (cs @ ds) = methods cs @ methods ds"
  by (induction cs rule: methods.induct) simp_all

lemma calling_simps [simp]: "calling [] a = a"
  "calling (CallVoidMethod c # cs) a = calling cs (call_java c a)" "calling cs (calling ds a) = calling (ds @ cs) a"
  by (simp_all add: calling_def call_java_def)

text \<open>The functions a notification calls are those the sequential model tells of.\<close>

lemmas notified_defs = collector_notified_def notification_calls_def setActive_def active_calls_def callVoidMethod_def
  getLiveSessionListener_def void_method_def notifyMetadataPacketReceived_def metadata_calls_def
  notifyVideoPacketReceivedPacketReceived_def video_calls_def notifyAudioPacketReceivedPacketReceived_def audio_calls_def

lemma notification_calls_notified:
  "collector_notified j v a = map_option (\<lambda>(a', cs). calling (case cs of None \<Rightarrow> [] | Some cs \<Rightarrow> cs) a') (notification_calls j v a)"
proof (cases v)
  case (SocketEvent ev)
  then show ?thesis by (cases ev) (simp_all add: notified_defs calling_def call_java_def)
next
  case (MetadataReceived packet)
  then show ?thesis
    by (cases "jni_method j ''metadataPacketReceived''") (simp_all add: notified_defs calling_def call_java_def map_option_bind comp_def)
next
  case (VideoReceived packet)
  then show ?thesis
    by (cases "unpackVideoData (video_message_data packet) (next_timebase packet (videoTimebase a)) True")
       (auto simp: notified_defs calling_def call_java_def Let_def)
next
  case (AudioReceived packet)
  then show ?thesis by (simp add: notified_defs calling_def call_java_def Let_def)
qed (simp_all add: notified_defs calling_def call_java_def)

fun makes_reference :: "jni_call \<Rightarrow> bool" where
  "makes_reference GetObjectClass \<longleftrightarrow> True" | "makes_reference GetObjectField \<longleftrightarrow> True"
| "makes_reference (NewStringUTF x) \<longleftrightarrow> True" | "makes_reference NewObject \<longleftrightarrow> True"
| "makes_reference (NewByteArray x) \<longleftrightarrow> True" | "makes_reference _ \<longleftrightarrow> False"

text \<open>A thread that is attached has room for 16 local references.\<close>

lemma few_references:
  assumes "notification_calls j v a = Some (a', Some cs)"
  shows "length (filter makes_reference cs) \<le> 4"
proof (cases v)
  case (SocketEvent ev)
  with assms show ?thesis by (cases ev) (auto simp: notified_defs)
next
  case (MetadataReceived packet)
  with assms show ?thesis by (auto simp: notified_defs bind_Some_iff split: if_splits)
next
  case (VideoReceived packet)
  with assms show ?thesis by (auto simp: notified_defs bind_Some_iff Let_def split: if_splits)
next
  case (AudioReceived packet)
  with assms show ?thesis by (auto simp: notified_defs Let_def split: if_splits)
qed (use assms in \<open>auto simp: notified_defs\<close>)


section \<open>The collector and its threads\<close>

text \<open>Where a thread is in a notification: before \<open>DetachCurrentThread\<close>, before \<open>getJNIEnv\<close>, or behind \<open>updateEnv\<close>, perhaps in a
  function that was given an environment.\<close>

datatype jni_phase = Away | Detaching "jni_call list" | Attaching "jni_call list" | Calling "nat option" "jni_call list"

datatype jni_fault = DetachRefused | ForeignEnvironment

record ('v, 'w) bridge =
  vm :: 'v
  the_env :: "nat option"
  sender_ref :: bool
  threads :: "nat \<Rightarrow> jni_phase"
  view :: "'w android"
  fault :: "jni_fault option"

definition new_collector :: "'v \<Rightarrow> 'w android \<Rightarrow> ('v, 'w) bridge" where
  "new_collector w a = \<lparr> vm = w, the_env = None, sender_ref = True, threads = (\<lambda>_. Away), view = a, fault = None \<rparr>"

definition goes :: "nat \<Rightarrow> jni_phase \<Rightarrow> ('v, 'w) bridge \<Rightarrow> ('v, 'w) bridge" where
  "goes t ph b = b\<lparr>threads := (threads b)(t := ph)\<rparr>"

definition detach_first :: "'v jvm \<Rightarrow> nat \<Rightarrow> jni_call list \<Rightarrow> ('v, 'w) bridge \<Rightarrow> ('v, 'w) bridge" where
  "detach_first m t cs b =
     (if the_env b \<noteq> None
      then (case DetachCurrentThread m t (vm b) of
              None \<Rightarrow> b\<lparr>fault := Some DetachRefused\<rparr>
            | Some w \<Rightarrow> goes t (Attaching cs) (b\<lparr>vm := w\<rparr>))
      else goes t (Attaching cs) b)"

definition attach_then :: "'v jvm \<Rightarrow> nat \<Rightarrow> jni_call list \<Rightarrow> ('v, 'w) bridge \<Rightarrow> ('v, 'w) bridge" where
  "attach_then m t cs b =
     (case getJNIEnv m t (vm b) of (n, w) \<Rightarrow> goes t (Calling None cs) (b\<lparr>vm := w, the_env := Some n\<rparr>))"

text \<open>A call through an environment that is not that of the thread which calls is undefined.\<close>

definition call_env :: "'v jvm \<Rightarrow> nat \<Rightarrow> nat option \<Rightarrow> jni_call \<Rightarrow> jni_call list \<Rightarrow> ('v, 'w) bridge \<Rightarrow> ('v, 'w) bridge" where
  "call_env m t passed c cs b =
     (if c = PassEnv then goes t (Calling (the_env b) cs) b
      else let env = (case passed of None \<Rightarrow> the_env b | Some n \<Rightarrow> Some n) in
        if env = None \<or> env \<noteq> GetEnv m t (vm b) then b\<lparr>fault := Some ForeignEnvironment\<rparr>
        else goes t (Calling passed cs)
          (case c of
             CallVoidMethod x \<Rightarrow> b\<lparr>vm := RunMethod m t x (vm b), view := call_java x (view b)\<rparr>
           | _ \<Rightarrow> b))"

datatype bridge_event = Enters nat notification | Moves nat

fun bridge_do :: "jni \<Rightarrow> 'v jvm \<Rightarrow> bridge_event \<Rightarrow> ('v, 'w) bridge \<Rightarrow> ('v, 'w) bridge option" where
  "bridge_do j m (Enters t v) b =
     (if fault b \<noteq> None \<or> threads b t \<noteq> Away then None
      else case notification_calls j v (view b) of
             None \<Rightarrow> None
           | Some (a, cs) \<Rightarrow> Some (goes t (case cs of None \<Rightarrow> Away | Some cs \<Rightarrow> Detaching cs) (b\<lparr>view := a\<rparr>)))"
| "bridge_do j m (Moves t) b =
     (if fault b \<noteq> None then None
      else case threads b t of
             Away \<Rightarrow> None
           | Detaching cs \<Rightarrow> Some (detach_first m t cs b)
           | Attaching cs \<Rightarrow> Some (attach_then m t cs b)
           | Calling passed [] \<Rightarrow> Some (goes t Away b)
           | Calling passed (c # cs) \<Rightarrow> Some (call_env m t passed c cs b))"

abbreviation bridge_run :: "jni \<Rightarrow> 'v jvm \<Rightarrow> bridge_event list \<Rightarrow> ('v, 'w) bridge \<Rightarrow> ('v, 'w) bridge option" where
  "bridge_run j m \<equiv> for_each (bridge_do j m)"

text \<open>The destructor: without an environment it returns at once, and the global reference to the view stays.\<close>

definition collector_destroyed :: "'v jvm \<Rightarrow> nat \<Rightarrow> ('v, 'w) bridge \<Rightarrow> ('v, 'w) bridge" where
  "collector_destroyed m t b =
     (if the_env b = None then b
      else if the_env b \<noteq> GetEnv m t (vm b) then b\<lparr>fault := Some ForeignEnvironment\<rparr>
      else (case DetachCurrentThread m t (vm b) of
              None \<Rightarrow> b\<lparr>sender_ref := False, fault := Some DetachRefused\<rparr>
            | Some w \<Rightarrow> b\<lparr>sender_ref := False, vm := DestroyJavaVM m t w, the_env := None\<rparr>))"

section \<open>One notification at a time\<close>

lemma for_each_append: "for_each f (xs @ ys) s = do { s \<leftarrow> for_each f xs s; for_each f ys s }"
  by (induction xs arbitrary: s) (simp_all split: Option.bind_split)

lemma for_each_after: "for_each f xs s = Some s' \<Longrightarrow> for_each f (xs @ ys) s = for_each f ys s'"
  by (simp add: for_each_append)

lemma goes_simps [simp]: "vm (goes t ph b) = vm b" "the_env (goes t ph b) = the_env b" "view (goes t ph b) = view b"
  "fault (goes t ph b) = fault b" "sender_ref (goes t ph b) = sender_ref b" "threads (goes t ph b) = (threads b)(t := ph)"
  by (simp_all add: goes_def)

lemma elsewhere_refl [simp]: "elsewhere m t w w"
  by (simp add: elsewhere_def)

lemma own_environment: "documented_vm m \<Longrightarrow> GetEnv m t w = Some n \<Longrightarrow> GetEnv m u w = Some n \<Longrightarrow> t = u"
  unfolding documented_vm_def by blast

lemma getJNIEnv_documented:
  assumes "documented_vm m" and "getJNIEnv m t w = (n, w')"
  shows "GetEnv m t w' = Some n" "elsewhere m t w w'"
  using assms by (auto simp: documented_vm_def getJNIEnv_def split: option.splits)

lemma detach_documented:
  assumes "documented_vm m"
  shows "DetachCurrentThread m t w = Some w' \<Longrightarrow> elsewhere m t w w'"
    "DetachCurrentThread m t w = None \<Longrightarrow> runs_java m t w"
    "DetachCurrentThread m t w = Some w' \<Longrightarrow> runs_java m t w \<Longrightarrow> GetEnv m t w' = GetEnv m t w"
  using assms by (auto simp: documented_vm_def)

lemma run_documented:
  assumes "documented_vm m"
  shows "GetEnv m t (RunMethod m t c w) = GetEnv m t w" "elsewhere m t w (RunMethod m t c w)"
  using assms by (simp_all add: documented_vm_def)

text \<open>The thread of an event, and what it leaves of the other threads.\<close>

fun event_thread :: "bridge_event \<Rightarrow> nat" where
  "event_thread (Enters t v) = t" | "event_thread (Moves t) = t"

lemma bridge_do_elsewhere:
  assumes "documented_vm m" and "bridge_do j m ev b = Some b'"
  shows "elsewhere m (event_thread ev) (vm b) (vm b')" "u \<noteq> event_thread ev \<Longrightarrow> threads b' u = threads b u"
proof -
  note laws = getJNIEnv_documented(2) [OF assms(1)] detach_documented(1) [OF assms(1)] run_documented(2) [OF assms(1)]
  show "elsewhere m (event_thread ev) (vm b) (vm b')"
  proof (cases ev)
    case (Moves t)
    with assms(2) show ?thesis
      by (auto simp: detach_first_def attach_then_def call_env_def Let_def laws
          split: if_splits jni_phase.splits list.splits option.splits prod.splits jni_call.splits)
  qed (use assms(2) in \<open>auto split: if_splits option.splits\<close>)
  show "threads b' u = threads b u" if "u \<noteq> event_thread ev"
  proof (cases ev)
    case (Moves t)
    with assms(2) that show ?thesis
      by (auto simp: detach_first_def attach_then_def call_env_def Let_def
          split: if_splits jni_phase.splits list.splits option.splits prod.splits jni_call.splits)
  qed (use assms(2) that in \<open>auto split: if_splits option.splits\<close>)
qed

text \<open>The notifications do not overlap, and none is made by a thread that runs Java.\<close>

fun may_do :: "'v jvm \<Rightarrow> bridge_event \<Rightarrow> ('v, 'w) bridge \<Rightarrow> bool" where
  "may_do m (Enters t v) b \<longleftrightarrow> (\<forall>u. threads b u = Away) \<and> \<not> runs_java m t (vm b)"
| "may_do m (Moves t) b \<longleftrightarrow> True"

fun serial :: "jni \<Rightarrow> 'v jvm \<Rightarrow> bridge_event list \<Rightarrow> ('v, 'w) bridge \<Rightarrow> bool" where
  "serial j m [] b \<longleftrightarrow> True"
| "serial j m (ev # evs) b \<longleftrightarrow> may_do m ev b \<and> (case bridge_do j m ev b of None \<Rightarrow> True | Some b \<Rightarrow> serial j m evs b)"

fun notified :: "bridge_event list \<Rightarrow> notification list" where
  "notified [] = []"
| "notified (Enters t v # evs) = v # notified evs"
| "notified (Moves t # evs) = notified evs"

fun still_calls :: "jni_phase \<Rightarrow> jni_call list" where
  "still_calls Away = []" | "still_calls (Detaching cs) = cs" | "still_calls (Attaching cs) = cs" | "still_calls (Calling passed cs) = cs"

fun moves_left :: "jni_phase \<Rightarrow> nat" where
  "moves_left Away = 0" | "moves_left (Detaching cs) = length cs + 3" | "moves_left (Attaching cs) = length cs + 2"
| "moves_left (Calling passed cs) = length cs + 1"

definition has_env :: "'v jvm \<Rightarrow> nat \<Rightarrow> ('v, 'w) bridge \<Rightarrow> bool" where
  "has_env m t b \<longleftrightarrow> the_env b \<noteq> None \<and> the_env b = GetEnv m t (vm b)"

text \<open>At most the thread \<open>t\<close> is in a notification, and when it is through Java has been called as \<open>a\<close> tells.\<close>

definition one_inside :: "'v jvm \<Rightarrow> nat \<Rightarrow> 'w android \<Rightarrow> ('v, 'w) bridge \<Rightarrow> bool" where
  "one_inside m t a b \<longleftrightarrow>
     fault b = None \<and> (\<forall>u. u \<noteq> t \<longrightarrow> threads b u = Away) \<and> calling (still_calls (threads b t)) (view b) = a \<and>
     (\<forall>passed cs. threads b t = Calling passed cs \<longrightarrow> has_env m t b \<and> (passed = None \<or> passed = the_env b)) \<and>
     ((\<exists>cs. threads b t = Detaching cs) \<longrightarrow> \<not> runs_java m t (vm b))"

lemma one_inside_move:
  assumes m: "documented_vm m" and b: "one_inside m t a b" and ph: "threads b t \<noteq> Away"
  shows "\<exists>b'. bridge_do j m (Moves t) b = Some b' \<and> one_inside m t a b' \<and> Suc (moves_left (threads b' t)) = moves_left (threads b t)"
proof (cases "threads b t")
  case (Detaching cs)
  have "DetachCurrentThread m t (vm b) \<noteq> None"
    using detach_documented(2) [OF m] b Detaching by (auto simp: one_inside_def)
  then show ?thesis
    using Detaching b detach_documented(1) [OF m, of t "vm b"]
    by (auto simp: one_inside_def detach_first_def elsewhere_def split: option.split)
next
  case (Attaching cs)
  obtain n w where "getJNIEnv m t (vm b) = (n, w)" by (cases "getJNIEnv m t (vm b)")
  with getJNIEnv_documented [OF m this] show ?thesis
    using Attaching b by (auto simp: one_inside_def attach_then_def has_env_def elsewhere_def)
next
  case (Calling passed cs)
  show ?thesis
  proof (cases cs)
    case (Cons c ds)
    then show ?thesis
      using Calling b run_documented [OF m]
      by (cases c) (auto simp: one_inside_def call_env_def Let_def has_env_def elsewhere_def calling_def call_java_def)
  qed (use Calling b in \<open>auto simp: one_inside_def\<close>)
qed (use ph in simp)


lemma one_inside_runs:
  assumes "documented_vm m" and "one_inside m t a b"
  shows "\<exists>b'. bridge_run j m (replicate (moves_left (threads b t)) (Moves t)) b = Some b' \<and>
    threads b' t = Away \<and> one_inside m t a b' \<and> view b' = a"
  using assms(2)
proof (induction "moves_left (threads b t)" arbitrary: b)
  case 0
  then have "threads b t = Away" by (cases "threads b t") simp_all
  with 0 show ?case by (simp add: one_inside_def)
next
  case (Suc k)
  then have "threads b t \<noteq> Away" by auto
  from one_inside_move [OF assms(1) Suc.prems this, of j] obtain b1 where b1:
    "bridge_do j m (Moves t) b = Some b1" "one_inside m t a b1" "Suc (moves_left (threads b1 t)) = moves_left (threads b t)" by blast
  from Suc.hyps(1) [OF _ b1(2)] Suc.hyps(2) b1(3) obtain b' where
    "bridge_run j m (replicate (moves_left (threads b1 t)) (Moves t)) b1 = Some b'"
    "threads b' t = Away" "one_inside m t a b'" "view b' = a" by fastforce
  then show ?case unfolding b1(3) [symmetric] by (intro exI [of _ b']) (simp add: b1(1) del: bridge_do.simps)
qed

lemma one_inside_serial:
  assumes m: "documented_vm m"
  shows "one_inside m t a b \<Longrightarrow> serial j m evs b \<Longrightarrow> bridge_run j m evs b = Some b' \<Longrightarrow>
    \<exists>t' a'. for_each (collector_notified j) (notified evs) a = Some a' \<and> one_inside m t' a' b'"
proof (induction evs arbitrary: t a b)
  case (Cons ev evs)
  from Cons.prems(3) obtain b1 where b1: "bridge_do j m ev b = Some b1" "bridge_run j m evs b1 = Some b'"
    by (auto simp: bind_Some_iff)
  with Cons.prems(2) have s1: "serial j m evs b1" "may_do m ev b" by simp_all
  show ?case
  proof (cases ev)
    case (Moves u)
    have "threads b u \<noteq> Away" using b1(1) Moves by (auto split: if_splits)
    with Cons.prems(1) have inside: "u = t \<and> threads b t \<noteq> Away" by (auto simp: one_inside_def)
    then obtain b2 where "bridge_do j m (Moves t) b = Some b2" "one_inside m t a b2"
      using one_inside_move [OF m Cons.prems(1), of j] by blast
    with b1(1) Moves inside have "one_inside m t a b1" by simp
    from Cons.IH [OF this s1(1) b1(2)] Moves show ?thesis by simp
  next
    case (Enters u v)
    with s1(2) have free: "\<forall>x. threads b x = Away" "\<not> runs_java m u (vm b)" by simp_all
    with Cons.prems(1) have a: "view b = a" by (simp add: one_inside_def)
    from b1(1) Enters obtain a' cs where c: "notification_calls j v (view b) = Some (a', cs)"
      "b1 = goes u (case cs of None \<Rightarrow> Away | Some cs \<Rightarrow> Detaching cs) (b\<lparr>view := a'\<rparr>)"
      by (auto split: if_splits option.splits)
    define a1 where "a1 = calling (case cs of None \<Rightarrow> [] | Some cs \<Rightarrow> cs) a'"
    have "collector_notified j v a = Some a1"
      using c(1) a by (simp add: notification_calls_notified a1_def)
    moreover have "one_inside m u a1 b1"
      using c(2) free Cons.prems(1) by (cases cs) (simp_all add: one_inside_def a1_def)
    from Cons.IH [OF this s1(1) b1(2)] obtain t' a' where
      "for_each (collector_notified j) (notified evs) a1 = Some a'" "one_inside m t' a' b'" by blast
    ultimately show ?thesis using Enters by auto
  qed
qed auto

text \<open>C19: as long as the notifications do not overlap and none comes from a thread that runs Java, every function is called
  through the environment of the thread that calls it, nothing refuses to be detached, and in whatever threads the notifications are made, Java
  is called as by the collector of the sequential model; the notification under way can always be brought to its end.\<close>

theorem serial_notifications:
  assumes "documented_vm m" and "fault b = None" and "\<forall>u. threads b u = Away" and "serial j m evs b"
    and "bridge_run j m evs b = Some b'"
  shows "fault b' = None \<and>
    (\<exists>t k b''. bridge_run j m (replicate k (Moves t)) b' = Some b'' \<and> (\<forall>u. threads b'' u = Away) \<and> fault b'' = None \<and>
       for_each (collector_notified j) (notified evs) (view b) = Some (view b''))"
proof -
  have "one_inside m 0 (view b) b" using assms(2,3) by (simp add: one_inside_def)
  from one_inside_serial [OF assms(1) this assms(4,5)] obtain t a' where
    a': "for_each (collector_notified j) (notified evs) (view b) = Some a'" "one_inside m t a' b'" by blast
  from one_inside_runs [OF assms(1) a'(2), of j] obtain b'' where b'':
    "bridge_run j m (replicate (moves_left (threads b' t)) (Moves t)) b' = Some b''"
    "threads b'' t = Away" "one_inside m t a' b''" "view b'' = a'" by blast
  then have "\<forall>u. threads b'' u = Away" by (metis one_inside_def)
  moreover have "fault b' = None" "fault b'' = None" using a'(2) b''(3) by (simp_all add: one_inside_def)
  ultimately show ?thesis using a'(1) b''(1,4) by blast
qed

section \<open>A virtual machine\<close>

text \<open>The natively attached threads, and those that run Java; the environment of a thread is its number.\<close>

definition sample_vm :: "(nat set \<times> nat set) jvm" where
  "sample_vm =
     \<lparr> GetEnv = (\<lambda>t w. if t \<in> fst w \<union> snd w then Some t else None),
       AttachCurrentThread = (\<lambda>t w. (t, insert t (fst w), snd w)),
       DetachCurrentThread = (\<lambda>t w. if t \<in> snd w then None else Some (fst w - {t}, snd w)),
       DestroyJavaVM = (\<lambda>t w. w),
       RunMethod = (\<lambda>t c w. w),
       runs_java = (\<lambda>t w. t \<in> snd w) \<rparr>"

lemma sample_vm_documented: "documented_vm sample_vm"
  by (auto simp: documented_vm_def sample_vm_def elsewhere_def split: if_splits)

definition sample_jni :: jni where
  "sample_jni = \<lparr> jni_listener = True, jni_method = (\<lambda>_. True), jni_settings = True \<rparr>"

text \<open>The session starts in thread 1, and the connection fails in thread 2.\<close>

definition sample_collector :: "(nat set \<times> nat set, nat) bridge" where
  "sample_collector = new_collector ({}, {0}) new_android"

definition sample_events :: "bridge_event list" where
  "sample_events = Enters 1 SessionStarted # replicate 11 (Moves 1) @ Enters 2 (SocketEvent DidClose) # replicate 11 (Moves 2)"

lemmas bridge_defs = detach_first_def attach_then_def call_env_def Let_def getJNIEnv_def goes_def
lemmas active_defs = notification_calls_def active_calls_def getLiveSessionListener_def void_method_def call_java_def
lemmas sample_defs = new_collector_def sample_vm_def sample_jni_def sample_collector_def

lemma sample_events_run:
  "\<exists>b'. bridge_run sample_jni sample_vm sample_events sample_collector = Some b' \<and>
     java_calls (view b') = [VoidMethod ''sessionStarted'', VoidMethod ''sessionEnded'']"
  "serial sample_jni sample_vm sample_events sample_collector"
  by (simp_all add: sample_events_def numeral_eq_Suc bridge_defs active_defs sample_defs new_android_def fun_eq_iff)

theorem serial_notifications_witness:
  "\<exists>b'. bridge_run sample_jni sample_vm sample_events sample_collector = Some b' \<and> fault b' = None \<and>
    (\<exists>a. for_each (collector_notified sample_jni) [SessionStarted, SocketEvent DidClose] (view sample_collector) = Some a)"
proof -
  obtain b' where b': "bridge_run sample_jni sample_vm sample_events sample_collector = Some b'"
    using sample_events_run(1) by blast
  have "notified sample_events = [SessionStarted, SocketEvent DidClose]"
    by (simp add: sample_events_def numeral_eq_Suc)
  with serial_notifications [OF sample_vm_documented _ _ sample_events_run(2) b'] have
    "fault b' = None \<and> (\<exists>a. for_each (collector_notified sample_jni) [SessionStarted, SocketEvent DidClose] (view sample_collector) = Some a)"
    by (auto simp: sample_defs simp del: for_each.simps)
  with b' show ?thesis by blast
qed

section \<open>Two at a time\<close>

text \<open>The first three steps of a notification, whatever the other threads are in.\<close>

lemma enters_env:
  assumes m: "documented_vm m" and "fault b = None" and "threads b t = Away" and "\<not> runs_java m t (vm b)"
    and "notification_calls j v (view b) = Some (a, Some cs)"
  shows "\<exists>b'. bridge_run j m [Enters t v, Moves t, Moves t] b = Some b' \<and> fault b' = None \<and> has_env m t b' \<and>
    threads b' = (threads b)(t := Calling None cs) \<and> view b' = a \<and> elsewhere m t (vm b) (vm b')"
proof -
  define b1 where "b1 = goes t (Detaching cs) (b\<lparr>view := a\<rparr>)"
  have 1: "bridge_do j m (Enters t v) b = Some b1"
    using assms(2,3,5) by (simp add: b1_def)
  obtain w where w: "detach_first m t cs b1 = goes t (Attaching cs) (b1\<lparr>vm := w\<rparr>)" "elsewhere m t (vm b) w"
  proof (cases "the_env b = None")
    case True
    then show ?thesis by (intro that [of "vm b"]) (simp_all add: detach_first_def b1_def goes_def)
  next
    case False
    with detach_documented(2) [OF m] assms(4) obtain w where w: "DetachCurrentThread m t (vm b) = Some w" by blast
    with False detach_documented(1) [OF m w] show ?thesis
      by (intro that [of w]) (simp_all add: detach_first_def b1_def)
  qed
  obtain n w' where n: "getJNIEnv m t w = (n, w')" by (cases "getJNIEnv m t w")
  from getJNIEnv_documented [OF m n] w(2) have "elsewhere m t (vm b) w'" "GetEnv m t w' = Some n"
    by (simp_all add: elsewhere_def)
  then show ?thesis
    using 1 w(1) n assms(2) by (simp add: b1_def attach_then_def has_env_def del: bridge_do.simps(1))
qed

lemma first_call:
  assumes "notification_calls j v a = Some (a', Some cs)"
  shows "\<exists>c ds. c \<noteq> PassEnv \<and> (cs = c # ds \<or> cs = PassEnv # c # ds)"
proof (cases v)
  case (SocketEvent ev)
  with assms show ?thesis by (cases ev) (auto simp: notified_defs)
next
  case (MetadataReceived packet)
  with assms show ?thesis by (auto simp: notified_defs bind_Some_iff split: if_splits)
next
  case (VideoReceived packet)
  with assms show ?thesis by (auto simp: notified_defs bind_Some_iff Let_def split: if_splits)
next
  case (AudioReceived packet)
  with assms show ?thesis by (auto simp: notified_defs Let_def split: if_splits)
qed (use assms in \<open>auto simp: notified_defs\<close>)

lemma foreign_call:
  assumes "c \<noteq> PassEnv" and "cs = c # ds \<or> cs = PassEnv # c # ds" and "fault b = None" and "threads b t = Calling None cs"
    and "the_env b \<noteq> GetEnv m t (vm b)"
  shows "\<exists>k \<le> 2. \<exists>b'. bridge_run j m (replicate k (Moves t)) b = Some b' \<and> fault b' = Some ForeignEnvironment"
  using assms(2)
proof
  assume "cs = c # ds"
  with assms show ?thesis by (intro exI [of _ 1]) (auto simp: call_env_def)
next
  assume "cs = PassEnv # c # ds"
  with assms show ?thesis by (intro exI [of _ 2]) (auto simp: call_env_def numeral_2_eq_2 Let_def split: option.split)
qed

lemma the_env_call [simp]: "the_env (call_env m t passed c cs b) = the_env b"
  by (simp add: call_env_def Let_def split: jni_call.split)

text \<open>Once another thread has been through \<open>updateEnv\<close>, the environment is not that of \<open>t\<close>, and no step of any other
  thread makes it so.\<close>

lemma foreign_step:
  assumes m: "documented_vm m" and step: "bridge_do j m ev b = Some b'" and other: "event_thread ev \<noteq> t"
    and env: "the_env b \<noteq> None" "the_env b \<noteq> GetEnv m t (vm b)"
  shows "the_env b' \<noteq> None \<and> the_env b' \<noteq> GetEnv m t (vm b')"
proof -
  have same: "GetEnv m t (vm b') = GetEnv m t (vm b)"
    using bridge_do_elsewhere(1) [OF m step] other by (auto simp: elsewhere_def)
  show ?thesis
  proof (cases "\<exists>u cs. ev = Moves u \<and> threads b u = Attaching cs")
    case True
    then obtain u cs where u: "ev = Moves u" "threads b u = Attaching cs" by blast
    obtain n w where n: "getJNIEnv m u (vm b) = (n, w)" by (cases "getJNIEnv m u (vm b)")
    with step u have b': "the_env b' = Some n" "vm b' = w" by (auto simp: attach_then_def split: if_splits)
    from getJNIEnv_documented(1) [OF m n] own_environment [OF m] u other have "GetEnv m t w \<noteq> Some n" by auto
    with b' show ?thesis by auto
  next
    case False
    with step have "the_env b' = the_env b"
      by (cases ev) (auto simp: detach_first_def split: if_splits jni_phase.splits list.splits option.splits)
    with same env show ?thesis by simp
  qed
qed

lemma foreign_run:
  assumes m: "documented_vm m"
  shows "bridge_run j m evs b = Some b' \<Longrightarrow> \<forall>ev \<in> set evs. event_thread ev \<noteq> t \<Longrightarrow> the_env b \<noteq> None \<Longrightarrow>
    the_env b \<noteq> GetEnv m t (vm b) \<Longrightarrow> the_env b' \<noteq> GetEnv m t (vm b') \<and> threads b' t = threads b t"
proof (induction evs arbitrary: b)
  case (Cons ev evs)
  from Cons.prems(1) obtain b1 where b1: "bridge_do j m ev b = Some b1" "bridge_run j m evs b1 = Some b'"
    by (auto simp: bind_Some_iff)
  from Cons.prems(2) have other: "event_thread ev \<noteq> t" by simp
  from Cons.IH [OF b1(2)] foreign_step [OF m b1(1) other Cons.prems(3,4)] bridge_do_elsewhere(2) [OF m b1(1) other [symmetric]] Cons.prems(2)
  show ?case by simp
qed simp

text \<open>C33: notifications that overlap: while one thread is behind \<open>updateEnv\<close>, with a call still to make through the
  environment, another goes through \<open>getJNIEnv\<close>; then, whatever the other threads do until it is the first one's turn
  again, its next call goes through an environment that is not its own, which is undefined.\<close>

theorem overlapping_notifications:
  assumes "documented_vm m" and "fault b = None" and "threads b t = Calling None cs"
    and "cs = c # ds \<or> cs = PassEnv # c # ds" and "c \<noteq> PassEnv" and "threads b u = Attaching es" and "t \<noteq> u"
    and "\<forall>ev \<in> set evs. event_thread ev \<noteq> t" and "bridge_run j m (Moves u # evs) b = Some b1" and "fault b1 = None"
  shows "\<exists>k \<le> 2. \<exists>b'. bridge_run j m (replicate k (Moves t)) b1 = Some b' \<and> fault b' = Some ForeignEnvironment"
proof -
  obtain n w where n: "getJNIEnv m u (vm b) = (n, w)" by (cases "getJNIEnv m u (vm b)")
  let ?b = "attach_then m u es b"
  from getJNIEnv_documented(1) [OF assms(1) n] own_environment [OF assms(1)] assms(7) have "GetEnv m t w \<noteq> Some n" by blast
  with n assms(3,7) have env: "the_env ?b \<noteq> None" "the_env ?b \<noteq> GetEnv m t (vm ?b)" "threads ?b t = Calling None cs"
    by (auto simp: attach_then_def)
  have "bridge_run j m evs ?b = Some b1" using assms(2,6,9) by simp
  from foreign_run [OF assms(1) this assms(8) env(1,2)] env(3) have
    "the_env b1 \<noteq> GetEnv m t (vm b1)" "threads b1 t = Calling None cs" by simp_all
  with foreign_call [OF assms(5,4,10)] show ?thesis by blast
qed

theorem overlapping_notifications_witness:
  "\<exists>b k b'. bridge_run sample_jni sample_vm
      ([Enters 1 SessionStarted, Moves 1, Moves 1, Enters 2 (SocketEvent DidClose), Moves 2] @ [Moves 2, Moves 2]) sample_collector = Some b \<and>
    bridge_run sample_jni sample_vm (replicate k (Moves 1)) b = Some b' \<and> fault b' = Some ForeignEnvironment"
proof -
  let ?evs = "[Enters 1 SessionStarted, Moves 1, Moves 1, Enters 2 (SocketEvent DidClose), Moves 2]"
  have "\<exists>b ds es. bridge_run sample_jni sample_vm ?evs sample_collector = Some b \<and> fault b = None \<and>
      threads b 1 = Calling None (PassEnv # GetObjectClass # ds) \<and> threads b 2 = Attaching es \<and>
      (\<exists>b1. bridge_run sample_jni sample_vm [Moves 2, Moves 2] b = Some b1 \<and> fault b1 = None)"
    by (simp add: bridge_defs active_defs sample_defs new_android_def)
  then obtain b b1 ds es where b: "bridge_run sample_jni sample_vm ?evs sample_collector = Some b" "fault b = None"
      "threads b 1 = Calling None (PassEnv # GetObjectClass # ds)" "threads b 2 = Attaching es"
      "bridge_run sample_jni sample_vm [Moves 2, Moves 2] b = Some b1" "fault b1 = None"
    by blast
  from overlapping_notifications [OF sample_vm_documented b(2,3) _ _ b(4) _ _ b(5,6)] obtain k b' where
    "bridge_run sample_jni sample_vm (replicate k (Moves 1)) b1 = Some b'" "fault b' = Some ForeignEnvironment"
    by auto
  moreover have "bridge_run sample_jni sample_vm (?evs @ [Moves 2, Moves 2]) sample_collector = Some b1"
    unfolding for_each_after [OF b(1)] by (rule b(5))
  ultimately show ?thesis by blast
qed

text \<open>Java ends a session that is open: the thread that called \<open>end()\<close> closes the socket, and tells the collector.\<close>

fun user_numbers :: "delegate list \<Rightarrow> nat list" where
  "user_numbers [] = []"
| "user_numbers (UserDelegate n # ds) = n # user_numbers ds"
| "user_numbers (SessionDelegate # ds) = user_numbers ds"

lemma calls_told:
  fixes s :: "('w, 'a) rtmp_session_scheme"
  assumes "ev \<noteq> ReconnectionRequired"
  shows "calls (notify session_handler ev s) = calls s @ map (\<lambda>n. (n, SocketEvent ev)) (user_numbers (sock_delegates s))"
proof -
  have "calls (fold (\<lambda>d. session_handler d ev) ds s) = calls s @ map (\<lambda>n. (n, SocketEvent ev)) (user_numbers ds)" for ds
    using assms by (induction ds arbitrary: s rule: user_numbers.induct) simp_all
  then show ?thesis by (simp add: notify_def)
qed

lemma calls_closed:
  fixes s :: "'w watcher_session"
  assumes "sock_open s"
  shows "collector_calls s (watcher_end e s) =
    replicate (count_list (user_numbers (sock_delegates s)) 0) (SocketEvent WillClose) @
    replicate (count_list (user_numbers (sock_delegates s)) 0) (SocketEvent DidClose)"
proof -
  let ?s = "s\<lparr>stopped := True, worker := None\<rparr>"
  have told: "map snd (filter (\<lambda>(n, v). n = 0) (map (\<lambda>n. (n, SocketEvent ev)) ns)) = replicate (count_list ns 0) (SocketEvent ev)"
    for ev and ns :: "nat list"
    by (induction ns) simp_all
  have s: "sock_open ?s" "calls ?s = calls s" "sock_delegates ?s = sock_delegates s"
    using assms by (cases s, simp)+
  have "sock_delegates (notify session_handler WillClose ?s) = sock_delegates ?s"
    using quiet_notify [of ?s WillClose] by (simp add: quiet_def kept_def)
  then have "calls (watcher_end e s) = calls s @
      map (\<lambda>n. (n, SocketEvent WillClose)) (user_numbers (sock_delegates s)) @
      map (\<lambda>n. (n, SocketEvent DidClose)) (user_numbers (sock_delegates s))"
    using s by (simp add: watcher_end_def session_end_def socket_close_def Let_def calls_told)
  then show ?thesis by (simp add: collector_calls_def told)
qed

lemma the_env_stays: "bridge_do j m ev b = Some b' \<Longrightarrow> the_env b \<noteq> None \<Longrightarrow> the_env b' \<noteq> None"
  by (cases ev) (auto simp: detach_first_def attach_then_def split: if_splits jni_phase.splits list.splits option.splits prod.splits)

lemma the_env_stays_run: "bridge_run j m evs b = Some b' \<Longrightarrow> the_env b \<noteq> None \<Longrightarrow> the_env b' \<noteq> None"
proof (induction evs arbitrary: b)
  case (Cons ev evs)
  then obtain b1 where "bridge_do j m ev b = Some b1" "bridge_run j m evs b1 = Some b'" by (auto simp: bind_Some_iff)
  with Cons.IH the_env_stays [of j m ev b b1] Cons.prems(2) show ?case by blast
qed simp

text \<open>C32: Java ends a session that has started and is open, in a thread that runs Java and while no other notification
  is under way: the collector is told in that thread that the socket has closed, and its first step is to detach the
  thread, which the interface does not allow a thread that runs Java. If the machine answers by ending the program, as
  the Android runtime does, that is the end; if it refuses, the environment of the thread stays as it was, and the
  notification completes and tells Java, inside \<open>end()\<close>, that the session has ended.\<close>

theorem java_end_detaches:
  assumes "documented_vm m" and "\<not> runs_java m u w"
    and "bridge_run j m (Enters u SessionStarted # Moves u # Moves u # evs) (new_collector w a) = Some b"
    and "fault b = None" and "\<forall>x. threads b x = Away" and "runs_java m t (vm b)"
    and "sock_open s" and "UserDelegate 0 \<in> set (sock_delegates s)"
  shows "SocketEvent DidClose \<in> set (collector_calls s (watcher_end e s)) \<and>
    (\<exists>b'. bridge_run j m [Enters t (SocketEvent DidClose), Moves t] b = Some b' \<and>
       (case DetachCurrentThread m t (vm b) of
          None \<Rightarrow> fault b' = Some DetachRefused
        | Some w \<Rightarrow> GetEnv m t w = GetEnv m t (vm b) \<and>
            (\<exists>k b''. bridge_run j m (replicate k (Moves t)) b' = Some b'' \<and> fault b'' = None \<and> threads b'' t = Away \<and>
               \<not> isActive (view b'') \<and> java_calls (view b'') = java_calls (view b) @
                 (if jni_listener j \<and> jni_method j ''sessionEnded'' then [VoidMethod ''sessionEnded''] else []))))"
proof
  have "UserDelegate 0 \<in> set ds \<Longrightarrow> 0 < count_list (user_numbers ds) 0" for ds
    by (induction ds rule: user_numbers.induct) auto
  with assms(7,8) show "SocketEvent DidClose \<in> set (collector_calls s (watcher_end e s))"
    by (simp add: calls_closed)
  let ?b = "new_collector w a"
  obtain a' cs where "notification_calls j SessionStarted (view ?b) = Some (a', Some cs)"
    by (simp add: notification_calls_def active_calls_def)
  with enters_env [OF assms(1), of ?b u j SessionStarted] assms(2) obtain b1 where
    "bridge_run j m [Enters u SessionStarted, Moves u, Moves u] ?b = Some b1" "has_env m u b1"
    by (auto simp: new_collector_def simp del: for_each.simps)
  moreover from for_each_after [OF this(1), of evs] assms(3) have "bridge_run j m evs b1 = Some b"
    by (simp only: append.simps)
  moreover from calculation(2) have "the_env b1 \<noteq> None" unfolding has_env_def by blast
  ultimately have env: "the_env b \<noteq> None" using the_env_stays_run by blast
  obtain ds where ds: "notification_calls j (SocketEvent DidClose) (view b) = Some ((view b)\<lparr>isActive := False\<rparr>, Some ds)"
    "methods ds = (if jni_listener j \<and> jni_method j ''sessionEnded'' then [VoidMethod ''sessionEnded''] else [])"
    by (auto simp: notification_calls_def active_calls_def getLiveSessionListener_def void_method_def)
  define b0 where "b0 = goes t (Detaching ds) (b\<lparr>view := (view b)\<lparr>isActive := False\<rparr>\<rparr>)"
  have run: "bridge_run j m [Enters t (SocketEvent DidClose), Moves t] b = Some (detach_first m t ds b0)"
    using assms(4,5) ds(1) by (simp add: b0_def)
  show "\<exists>b'. bridge_run j m [Enters t (SocketEvent DidClose), Moves t] b = Some b' \<and>
       (case DetachCurrentThread m t (vm b) of
          None \<Rightarrow> fault b' = Some DetachRefused
        | Some w \<Rightarrow> GetEnv m t w = GetEnv m t (vm b) \<and>
            (\<exists>k b''. bridge_run j m (replicate k (Moves t)) b' = Some b'' \<and> fault b'' = None \<and> threads b'' t = Away \<and>
               \<not> isActive (view b'') \<and> java_calls (view b'') = java_calls (view b) @
                 (if jni_listener j \<and> jni_method j ''sessionEnded'' then [VoidMethod ''sessionEnded''] else [])))"
  proof (cases "DetachCurrentThread m t (vm b)")
    case None
    with run env show ?thesis by (auto simp: detach_first_def b0_def)
  next
    case (Some w')
    define b2 where "b2 = detach_first m t ds b0"
    have b2: "b2 = goes t (Attaching ds) (b0\<lparr>vm := w'\<rparr>)" using Some env by (simp add: b2_def detach_first_def b0_def)
    have "one_inside m t (calling ds ((view b)\<lparr>isActive := False\<rparr>)) b2"
      using assms(4,5) by (simp add: one_inside_def b2 b0_def)
    from one_inside_runs [OF assms(1) this, of j] obtain k b3 where b3:
      "bridge_run j m (replicate k (Moves t)) b2 = Some b3" "threads b3 t = Away"
      "one_inside m t (calling ds ((view b)\<lparr>isActive := False\<rparr>)) b3" "view b3 = calling ds ((view b)\<lparr>isActive := False\<rparr>)"
      by blast
    have "fault b3 = None" using b3(3) by (simp add: one_inside_def)
    moreover have "\<not> isActive (view b3)" "java_calls (view b3) = java_calls (view b) @ methods ds"
      by (simp_all add: b3(4) calling_def)
    moreover have "GetEnv m t w' = GetEnv m t (vm b)" using detach_documented(3) [OF assms(1) Some assms(6)] .
    ultimately show ?thesis
      unfolding run b2_def [symmetric] ds(2) [symmetric] using Some b3(1,2) by auto
  qed
qed

definition open_watcher :: "script watcher_session" where
  "open_watcher = (addMediaDelegate 0 (new_watcher_session script_transport \<lparr>inbox = [], outbox = []\<rparr> new_session_settings))\<lparr>sock_open := True\<rparr>"

theorem java_end_detaches_witness:
  "\<exists>b b'. bridge_run sample_jni sample_vm (Enters 1 SessionStarted # replicate 11 (Moves 1)) sample_collector = Some b \<and>
    bridge_run sample_jni sample_vm [Enters 0 (SocketEvent DidClose), Moves 0] b = Some b' \<and> fault b' = Some DetachRefused"
proof -
  have "replicate 11 (Moves 1) = Moves 1 # Moves 1 # replicate 9 (Moves (1::nat))" by (simp add: numeral_eq_Suc)
  moreover have "\<exists>b. bridge_run sample_jni sample_vm (Enters 1 SessionStarted # replicate 11 (Moves 1)) sample_collector = Some b \<and>
      fault b = None \<and> (\<forall>x. threads b x = Away) \<and> vm b = ({1}, {0})"
    by (simp add: numeral_eq_Suc bridge_defs active_defs sample_defs)
  ultimately obtain b where b: "bridge_run sample_jni sample_vm (Enters 1 SessionStarted # Moves 1 # Moves 1 # replicate 9 (Moves 1))
      sample_collector = Some b" "fault b = None" "\<forall>x. threads b x = Away" "vm b = ({1}, {0})"
    "bridge_run sample_jni sample_vm (Enters 1 SessionStarted # replicate 11 (Moves 1)) sample_collector = Some b"
    by auto
  have "sock_open open_watcher" "UserDelegate 0 \<in> set (sock_delegates open_watcher)"
    by (simp_all add: open_watcher_def addMediaDelegate_def session_addDelegate_def socket_addDelegate_def addDelegate_def)
  from java_end_detaches [OF sample_vm_documented _ b(1) [unfolded sample_collector_def] b(2,3) _ this, of 0] b(4,5) show ?thesis
    by (auto simp: sample_vm_def simp del: for_each.simps)
qed

section \<open>What is left behind\<close>

text \<open>A thread that has been notified stays attached when it leaves the collector, and nothing that other threads do
  detaches it: a native thread, the one of the socket or the worker, ends attached, which the interface forbids.\<close>

lemma left_attached:
  assumes m: "documented_vm m" and "bridge_run j m evs b = Some b'" and "\<forall>ev \<in> set evs. event_thread ev \<noteq> t"
  shows "GetEnv m t (vm b') = GetEnv m t (vm b)"
  using assms(2,3)
proof (induction evs arbitrary: b)
  case (Cons ev evs)
  from Cons.prems(1) obtain b1 where b1: "bridge_do j m ev b = Some b1" "bridge_run j m evs b1 = Some b'"
    by (auto simp: bind_Some_iff)
  from bridge_do_elsewhere(1) [OF m b1(1)] Cons.prems(2) have "GetEnv m t (vm b1) = GetEnv m t (vm b)"
    by (auto simp: elsewhere_def)
  with Cons.IH [OF b1(2)] Cons.prems(2) show ?case by simp
qed simp

text \<open>The destructor runs in whatever thread gives up the collector last: unless that is the one that was notified last,
  it deletes the reference through a foreign environment; and when nobody was notified the reference is leaked.\<close>

lemma destroyed_elsewhere:
  assumes "documented_vm m" and "has_env m t b" and "t \<noteq> u"
  shows "fault (collector_destroyed m u b) = Some ForeignEnvironment"
proof -
  obtain n where n: "the_env b = Some n" "GetEnv m t (vm b) = Some n" using assms(2) unfolding has_env_def by (metis not_None_eq)
  have "GetEnv m u (vm b) \<noteq> Some n" using own_environment [OF assms(1) n(2)] assms(3) by blast
  with n show ?thesis by (simp add: collector_destroyed_def)
qed

lemma destroyed_unused: "sender_ref (collector_destroyed m t (new_collector w a))"
  by (simp add: collector_destroyed_def new_collector_def)

section \<open>The loader\<close>

text \<open>The class \<open>RtmpSettings\<close> as a global reference, and the references that are alive; \<open>found\<close> is the reference
  \<open>NewGlobalRef\<close> makes of the class, if there is one.\<close>

record 'v library =
  machine :: 'v
  rtmpSettingsClass :: "nat option"
  global_refs :: "nat set"

definition getRtmpSettingsClass :: "'v library \<Rightarrow> nat option" where
  "getRtmpSettingsClass l = rtmpSettingsClass l"

definition JNI_OnLoad :: "'v jvm \<Rightarrow> nat option \<Rightarrow> nat \<Rightarrow> 'v library \<Rightarrow> 'v library" where
  "JNI_OnLoad m found t l =
     (case getJNIEnv m t (machine l) of
        (n, w) \<Rightarrow> l\<lparr>machine := w, rtmpSettingsClass := found, global_refs := global_refs l \<union> set_option found\<rparr>)"

definition JNI_OnUnload :: "'v jvm \<Rightarrow> nat \<Rightarrow> 'v library \<Rightarrow> 'v library" where
  "JNI_OnUnload m t l =
     (case getJNIEnv m t (machine l) of
        (n, w) \<Rightarrow>
          let l = l\<lparr>machine := w\<rparr> in
          case rtmpSettingsClass l of None \<Rightarrow> l | Some r \<Rightarrow> l\<lparr>global_refs := global_refs l - {r}\<rparr>)"

text \<open>A library that is unloaded keeps no reference of its own, but its pointer still names the one it has deleted; and a
  thread that loads it is attached.\<close>

lemma loaded_unloaded:
  assumes "documented_vm m" and "found = Some r" and "r \<notin> global_refs l"
  shows "getRtmpSettingsClass (JNI_OnLoad m found t l) = found"
    "GetEnv m t (machine (JNI_OnLoad m found t l)) \<noteq> None"
    "global_refs (JNI_OnUnload m u (JNI_OnLoad m found t l)) = global_refs l"
    "getRtmpSettingsClass (JNI_OnUnload m u (JNI_OnLoad m found t l)) = Some r"
  using assms getJNIEnv_documented(1) [OF assms(1), of t "machine l"]
  by (auto simp: getRtmpSettingsClass_def JNI_OnLoad_def JNI_OnUnload_def Let_def split: prod.split)

end
