(* ===== verification/TimedIo.thy ===== *)
theory TimedIo
imports Socket
begin

text \<open>
  \<open>readWithTimeout\<close> and \<open>writeWithTimeout\<close>: a timer and a transfer are started, and the loop around \<open>run_one\<close> runs
  their handlers until there is no work left. Which handler Boost.Asio runs next, and with which error, is the
  parameter \<open>next_handler\<close>; what it documents about it is \<open>asio\<close>. The two functions differ in the transfer only.
\<close>

section \<open>The loop\<close>

datatype completion = TimerHandler error_code | TransferHandler error_code nat

text \<open>The work the service still has, what was cancelled, and the variables that the handlers capture.\<close>

record io_wait =
  timer_waiting :: bool
  transfer_waiting :: bool
  timer_cancelled :: bool
  transfer_cancelled :: bool
  timer_result :: "error_code option"
  err_result :: "error_code option"
  bytesTransferred :: nat

definition new_io_wait :: io_wait where
  "new_io_wait = \<lparr> timer_waiting = True, transfer_waiting = True, timer_cancelled = False, transfer_cancelled = False,
     timer_result = None, err_result = None, bytesTransferred = 0 \<rparr>"

fun run_handler :: "completion \<Rightarrow> io_wait \<Rightarrow> io_wait" where
  "run_handler (TimerHandler e) s = s\<lparr>timer_waiting := False, timer_result := Some e\<rparr>"
| "run_handler (TransferHandler e n) s = s\<lparr>transfer_waiting := False, bytesTransferred := n, err_result := Some e\<rparr>"

definition cancel_other :: "io_wait \<Rightarrow> io_wait" where
  "cancel_other s =
     (if err_result s \<noteq> None then s\<lparr>timer_cancelled := True\<rparr>
      else if timer_result s \<noteq> None then s\<lparr>transfer_cancelled := True\<rparr> else s)"

partial_function (option) run_loop :: "(io_wait \<Rightarrow> completion) \<Rightarrow> io_wait \<Rightarrow> io_wait option" where
  "run_loop next_handler s =
     (if timer_waiting s \<or> transfer_waiting s
      then run_loop next_handler (cancel_other (run_handler (next_handler s) s))
      else Some s)"

text \<open>The error is the one the caller passed in, unless the transfer has ended.\<close>

definition transferWithTimeout :: "(io_wait \<Rightarrow> completion) \<Rightarrow> error_code \<Rightarrow> (error_code \<times> nat) option" where
  "transferWithTimeout next_handler ec =
     do { s \<leftarrow> run_loop next_handler new_io_wait;
          Some (case err_result s of Some e \<Rightarrow> e | None \<Rightarrow> ec, bytesTransferred s) }"

definition readWithTimeout :: "(io_wait \<Rightarrow> completion) \<Rightarrow> error_code \<Rightarrow> (error_code \<times> nat) option" where
  "readWithTimeout = transferWithTimeout"

definition writeWithTimeout :: "(io_wait \<Rightarrow> completion) \<Rightarrow> error_code \<Rightarrow> (error_code \<times> nat) option" where
  "writeWithTimeout = transferWithTimeout"

section \<open>What the code relies on\<close>

text \<open>
  \<open>asio n next_handler\<close>: \<open>run_one\<close> runs a handler that is waiting; the wait of a timer is aborted only if the
  timer was cancelled, and otherwise expires; a transfer of \<open>n\<close> bytes moves at most \<open>n\<close>, all of them when it
  has no error, and with an error fewer, where there are any to move: nothing is documented of the error of a transfer
  of no bytes.
\<close>

definition asio :: "nat \<Rightarrow> (io_wait \<Rightarrow> completion) \<Rightarrow> bool" where
  "asio n next_handler \<longleftrightarrow> (\<forall>s. timer_waiting s \<or> transfer_waiting s \<longrightarrow>
     (case next_handler s of
        TimerHandler e \<Rightarrow> timer_waiting s \<and> (e = NoError \<or> e = OperationAborted \<and> timer_cancelled s)
      | TransferHandler e k \<Rightarrow> transfer_waiting s \<and> k \<le> n \<and> (e = NoError \<longrightarrow> k = n) \<and> (e \<noteq> NoError \<and> 0 < n \<longrightarrow> k < n)))"

lemma asioE:
  assumes "asio n next_handler" and "timer_waiting s \<or> transfer_waiting s"
  obtains (timer) e where "next_handler s = TimerHandler e" "timer_waiting s"
      "e = NoError \<or> e = OperationAborted \<and> timer_cancelled s"
    | (transfer) e k where "next_handler s = TransferHandler e k" "transfer_waiting s" "k \<le> n" "0 < n \<Longrightarrow> e = NoError \<longleftrightarrow> k = n"
  using assms by (cases "next_handler s") (auto simp: asio_def split: completion.splits dest!: spec [of _ s])

lemmas run_loop_step = run_loop.simps [of next_handler s for next_handler s]

section \<open>Properties\<close>

text \<open>The state after the timer has expired first.\<close>

definition expired :: io_wait where
  "expired = new_io_wait\<lparr>timer_waiting := False, timer_result := Some NoError, transfer_cancelled := True\<rparr>"

text \<open>C37: the loop runs exactly two handlers and returns, in whichever order they come: what it returns are the error and
  the count of the transfer, never the error that the caller passed in; an error comes exactly with fewer bytes
  than were asked for, if any were; and the transfer is cancelled exactly when the timer has expired before it ended, otherwise
  the timer is.\<close>

theorem timed_transfer_returns:
  assumes "asio n next_handler"
  shows "\<exists>s e k. run_loop next_handler new_io_wait = Some s \<and> \<not> timer_waiting s \<and> \<not> transfer_waiting s \<and>
    timer_result s \<noteq> None \<and> err_result s = Some e \<and> bytesTransferred s = k \<and>
    readWithTimeout next_handler ec = Some (e, k) \<and> writeWithTimeout next_handler ec = Some (e, k) \<and>
    k \<le> n \<and> (0 < n \<longrightarrow> (e = NoError \<longleftrightarrow> k = n)) \<and>
    (if next_handler new_io_wait = TimerHandler NoError
     then next_handler expired = TransferHandler e k \<and> transfer_cancelled s
     else next_handler new_io_wait = TransferHandler e k \<and> \<not> transfer_cancelled s \<and> timer_cancelled s)"
proof -
  note defs = new_io_wait_def expired_def cancel_other_def
    readWithTimeout_def writeWithTimeout_def transferWithTimeout_def
  have w: "timer_waiting new_io_wait" "transfer_waiting new_io_wait" "\<not> timer_cancelled new_io_wait"
    by (simp_all add: new_io_wait_def)
  from w(1) have "timer_waiting new_io_wait \<or> transfer_waiting new_io_wait" ..
  with assms show ?thesis
  proof (cases rule: asioE)
    case (timer e0)
    with w have t: "next_handler new_io_wait = TimerHandler NoError" by simp
    have one: "cancel_other (run_handler (next_handler new_io_wait) new_io_wait) = expired"
      by (simp add: t) (simp add: defs)
    have "timer_waiting expired \<or> transfer_waiting expired" "\<not> timer_waiting expired"
      by (simp_all add: defs)
    from assms this(1) obtain e k where e: "next_handler expired = TransferHandler e k" "k \<le> n" "0 < n \<Longrightarrow> e = NoError \<longleftrightarrow> k = n"
      by (cases rule: asioE) (use \<open>\<not> timer_waiting expired\<close> in auto)
    let ?s = "cancel_other (run_handler (TransferHandler e k) expired)"
    have "run_loop next_handler new_io_wait = run_loop next_handler expired"
      by (subst run_loop.simps) (simp only: w one simp_thms if_True)
    also have "\<dots> = run_loop next_handler ?s"
      by (subst run_loop.simps) (simp only: e(1) if_True \<open>timer_waiting expired \<or> transfer_waiting expired\<close>)
    also have "\<dots> = Some ?s"
      by (subst run_loop.simps) (simp add: defs)
    finally have "run_loop next_handler new_io_wait = Some ?s" .
    with t e show ?thesis
      by (intro exI [of _ ?s] exI [of _ e] exI [of _ k]) (simp add: defs)
  next
    case (transfer e k)
    let ?s1 = "cancel_other (run_handler (TransferHandler e k) new_io_wait)"
    have s1: "timer_waiting ?s1 \<or> transfer_waiting ?s1" "\<not> transfer_waiting ?s1"
      by (simp_all add: defs)
    from assms this(1) obtain e' where e': "next_handler ?s1 = TimerHandler e'"
      by (cases rule: asioE) (use s1(2) in auto)
    let ?s = "cancel_other (run_handler (TimerHandler e') ?s1)"
    have "run_loop next_handler new_io_wait = run_loop next_handler ?s1"
      by (subst run_loop.simps) (simp only: w transfer(1) simp_thms if_True)
    also have "\<dots> = run_loop next_handler ?s"
      by (subst run_loop.simps) (simp only: e' if_True s1(1))
    also have "\<dots> = Some ?s"
      by (subst run_loop.simps) (simp add: defs)
    finally have "run_loop next_handler new_io_wait = Some ?s" .
    with transfer show ?thesis
      by (intro exI [of _ ?s] exI [of _ e] exI [of _ k]) (simp add: defs)
  qed
qed

text \<open>A peer that sends three of five bytes before the timer expires.\<close>

definition slow_peer :: "io_wait \<Rightarrow> completion" where
  "slow_peer s = (if timer_waiting s then TimerHandler NoError else TransferHandler OperationAborted 3)"

lemma asio_slow_peer: "asio 5 slow_peer"
  by (auto simp: asio_def slow_peer_def)

theorem timed_transfer_returns_witness:
  "readWithTimeout slow_peer NoError = Some (OperationAborted, 3)"
  using timed_transfer_returns [OF asio_slow_peer, of NoError] by (auto simp: slow_peer_def new_io_wait_def expired_def)

text \<open>A read whose timer expires first and is then aborted closes the socket, whatever has arrived: the bytes that
  came before the timer are in the buffer, but the connection is gone and every delegate has been asked to
  reconnect.\<close>

lemma timeout_closes:
  assumes "asio n next_handler" and "next_handler new_io_wait = TimerHandler NoError"
    and "next_handler expired = TransferHandler OperationAborted (length got)"
    and "readWithTimeout next_handler NoError = Some (ec, length got)"
    and "tr_read tr n (sock_world s) = (ec, got, w)" and "inert h" and "sock_open s" and "0 < n"
  shows "\<exists>s' t. receiveData h tr n s = (OperationAborted, length got, got @ replicate (n - length got) 0, s') \<and>
    length got < n \<and> \<not> sock_open s' \<and> sock_world s' = tr_close tr w \<and>
    s' = socket_close h tr (notify h ReconnectionRequired t) \<and> sock_delegates t = sock_delegates s"
proof -
  from timed_transfer_returns [OF assms(1), of NoError] assms(2-4,8)
  have ec: "ec = OperationAborted" and k: "length got \<le> n" "length got \<noteq> n"
    by auto
  let ?t = "s\<lparr>sock_world := w, npmD := updateData (tr_now tr w) (word_of_nat (length got)) (npmD s)\<rparr>"
  have c: "checkError h tr OperationAborted ?t = (True, socket_close h tr (notify h ReconnectionRequired ?t))"
    by (simp add: checkError_def asksReconnection_def shouldCloseTheSocket_def Let_def)
  show ?thesis
    using k assms(6,7)
    by (intro exI [of _ "socket_close h tr (notify h ReconnectionRequired ?t)"] exI [of _ ?t])
       (simp add: receiveData_def assms(5) ec Let_def c socket_close_inert notify_inert)
qed

end
