(* ===== verification/Workers.thy ===== *)
theory Workers
imports Desync
begin

text \<open>
  The thread of a watcher: \<open>startMediaPacketRetriever\<close> starts it, \<open>end()\<close> joins it, or detaches it when it is called
  by the worker itself, in a callback of the delegate. The thread that controls the session and the workers take
  their steps in any order. Then what holds when only the controller starts and ends the session, and what
  becomes of a worker that ends its session itself.
\<close>

section \<open>What a session keeps through a chain of calls\<close>

text \<open>A relation that no call on the socket breaks: it holds from the first to the last state of every chain.\<close>

locale chain_relation =
  fixes R :: "('w, 'a) rtmp_session_scheme \<Rightarrow> ('w, 'a) rtmp_session_scheme \<Rightarrow> bool"
  assumes own: "rtmp_session.more s' = rtmp_session.more s \<Longrightarrow> R s s'"
    and seq: "R s s1 \<Longrightarrow> R s1 s2 \<Longrightarrow> R s s2"
begin

lemma same: "R s s"
  by (rule own) simp

lemma quiet: "quiet s s' \<Longrightarrow> R s s'"
  by (rule own) (simp add: quiet_def kept_def)

lemma notify: "R s (notify_session ev s)"
  by (rule own) (use kept_notify_session [of ev s] in \<open>simp add: kept_def\<close>)

lemma send:
  assumes "send_then e ser p next s = Some s'" and "\<And>s1. next s1 = Some s' \<Longrightarrow> R s1 s'"
  shows "R s s'"
proof -
  obtain ec n s1 where r: "sendData session_handler (net e) (ser p) s = (ec, n, s1)"
    by (metis prod_cases3)
  with assms(1) have "(if ec = NoError then next s1 else Some s1) = Some s'"
    by (simp add: send_then_def sendPacket_def)
  then show ?thesis
    using seq [OF quiet [OF quiet_sendData [OF r]] assms(2)] quiet [OF quiet_sendData [OF r]] by (simp split: if_splits)
qed

lemma receive:
  assumes "receive_then e n deser next s = Some s'" and "\<And>p s1. next p s1 = Some s' \<Longrightarrow> R s1 s'"
  shows "R s s'"
proof -
  obtain ec k data s1 where r: "receiveData session_handler (net e) n s = (ec, k, data, s1)"
    by (metis prod_cases4)
  from assms(1) r obtain p where "(if ec = NoError then next p s1 else Some s1) = Some s'"
    by (auto simp: receive_then_def receivePacket_def bind_Some_iff)
  then show ?thesis
    using seq [OF quiet [OF quiet_receiveData [OF r]] assms(2)] quiet [OF quiet_receiveData [OF r]]
    by (simp split: if_splits)
qed

lemma receive_dynamic:
  assumes "receive_dynamic_then e n deser parse next s = Some s'" and "\<And>p s1. next p s1 = Some s' \<Longrightarrow> R s1 s'"
  shows "R s s'"
proof -
  obtain ec k data s1 where r: "receiveData session_handler (net e) n s = (ec, k, data, s1)"
    by (metis prod_cases4)
  from assms(1) r obtain m where
    m: "(case receiveData session_handler (net e) m s1 of (ec, n, data, s2) \<Rightarrow>
          \<exists>p. (if ec = NoError then next p s2 else Some s2) = Some s')"
    by (auto simp: receive_dynamic_then_def receiveDynamicPacket_def bind_Some_iff split: prod.splits) blast
  obtain ec' k' data' s2 where r': "receiveData session_handler (net e) m s1 = (ec', k', data', s2)"
    by (metis prod_cases4)
  have q: "R s s2"
    by (rule quiet [OF quiet_trans [OF quiet_receiveData [OF r] quiet_receiveData [OF r']]])
  from m r' obtain p where "(if ec' = NoError then next p s2 else Some s2) = Some s'"
    by auto
  then show ?thesis
    using seq [OF q assms(2)] q by (simp split: if_splits)
qed

lemma if_open: "if_open f s = Some s' \<Longrightarrow> (f s = Some s' \<Longrightarrow> R s s') \<Longrightarrow> R s s'"
  by (auto simp: if_open_def same split: if_splits)

lemma handshake:
  assumes "client_handshake e completed s = Some s'" and fin: "\<And>s1 s2. completed s1 = Some s2 \<Longrightarrow> R s1 s2"
  shows "R s s'"
proof -
  have s2: "R s1 s'" if "receiveS2 e completed s1 = Some s'" for s1
    by (rule receive [OF that [unfolded receiveS2_def]]) (auto simp: bind_Some_iff intro: seq [OF fin notify])
  have c2: "R s1 s'" if "sendC2 e completed p s1 = Some s'" for p s1
    by (rule send [OF that [unfolded sendC2_def Let_def] s2])
  have r1: "R s1 s'" if "receiveS1 e completed s1 = Some s'" for s1
    by (rule receive [OF that [unfolded receiveS1_def] c2])
  have r0: "R s1 s'" if "receiveS0 e completed s1 = Some s'" for s1
    by (rule receive [OF that [unfolded receiveS0_def]]) (auto split: if_splits intro: r1 same)
  have c1: "R s1 s'" if "sendC1 e completed s1 = Some s'" for s1
    by (rule send [OF that [unfolded sendC1_def] r0])
  show ?thesis
    by (rule send [OF assms(1) [unfolded client_handshake_def sendC0_def] c1])
qed

lemma delegates:
  assumes hs: "\<And>s1 s2. handshake s1 = Some s2 \<Longrightarrow> R s1 s2"
  shows "for_each (session_didConnect handshake) ds s = Some s' \<Longrightarrow> R s s'"
proof (induction ds arbitrary: s)
  case (Cons d ds)
  then obtain s1 where s1: "session_didConnect handshake d s = Some s1" "for_each (session_didConnect handshake) ds s1 = Some s'"
    by (auto simp: bind_Some_iff)
  have "R s (call n ev s)" for n ev
    by (rule own) (cases s, simp add: call_def)
  with hs s1(1) have "R s s1"
    by (auto simp: session_didConnect_def split: delegate.splits)
  from seq [OF this Cons.IH [OF s1(2)]] show ?case .
qed (simp add: same)

lemma failure: "R s (notify_failure session_handler m s)"
proof -
  have "quiet s (fold (\<lambda>d s. session_handler d DidClose (session_handler d ReconnectionRequired
      (session_handler d (FailedToConnect m) s))) ds s)" for ds
  proof (induction ds arbitrary: s)
    case (Cons d ds)
    show ?case
      using quiet_trans [OF quiet_trans [OF quiet_trans [OF quiet_handler quiet_handler] quiet_handler] Cons.IH] by simp
  qed simp
  then show ?thesis
    by (simp add: notify_failure_def quiet)
qed

lemma start:
  assumes "start_connection e handshake address port s = Some s'" and hs: "\<And>s1 s2. handshake s1 = Some s2 \<Longrightarrow> R s1 s2"
  shows "R s s'"
proof -
  have did: "R s1 s'" if "connectImpl session_handler (net e) (session_didConnect handshake) s1 = Some s'" for s1
  proof -
    obtain ec is_open w where c: "tr_connect (net e) (sock_world s1) = (ec, is_open, w)" by (metis prod_cases3)
    let ?s2 = "s1\<lparr>sock_world := w, sock_open := is_open\<rparr>"
    have "R s1 ?s2" by (rule own) simp
    moreover have "R ?s2 s'"
      using that c failure delegates [OF hs] by (auto simp: connectImpl_def Let_def split: if_splits)
    ultimately show ?thesis by (rule seq)
  qed
  have res: "R s1 s'" if "resolve session_handler (net e) (session_didConnect handshake) s1 = Some s'" for s1
  proof -
    let ?s2 = "notify session_handler WillConnect s1"
    obtain ec w where c: "tr_resolve (net e) (sock_address ?s2) (sock_port ?s2) (sock_world ?s2) = (ec, w)"
      by (metis prod.exhaust)
    let ?s3 = "?s2\<lparr>sock_world := w\<rparr>"
    have "R s1 ?s2" by (rule quiet [OF quiet_notify])
    moreover have "R ?s2 ?s3" by (rule own) simp
    moreover have "R ?s3 s'"
      using that c failure did by (auto simp: resolve_def Let_def split: if_splits)
    ultimately show ?thesis by (blast intro: seq)
  qed
  let ?s1 = "socket_addDelegate SessionDelegate (socket_removeDelegate SessionDelegate s)"
  let ?s2 = "socket_close session_handler (net e) ?s1"
  let ?s3 = "?s2\<lparr>sock_address := address, sock_port := port\<rparr>"
  have 1: "R s ?s1" by (rule own) (simp add: socket_addDelegate_def socket_removeDelegate_def)
  have 2: "R ?s1 ?s2" by (rule quiet [OF quiet_close])
  have 3: "R ?s2 ?s3" by (rule own) simp
  show ?thesis
    using assms(1) 1 seq [OF 1 seq [OF 2 seq [OF 3 res]]]
    by (auto simp: start_connection_def socket_connect_def Let_def split: if_splits)
qed

end

section \<open>What becomes of the worker in a start and in a turn\<close>

text \<open>A chain leaves the worker alone, or starts one in a session that had none.\<close>

definition spawns :: "'w watcher_session \<Rightarrow> 'w watcher_session \<Rightarrow> bool" where
  "spawns s s' \<longleftrightarrow> stopped s' = stopped s \<and> worker s' = worker s \<or> stopped s \<and> \<not> stopped s' \<and> worker s' \<noteq> None"

lemma kept_worker:
  fixes s s' :: "'w watcher_session"
  assumes "rtmp_session.more s' = rtmp_session.more s"
  shows "stopped s' = stopped s" "worker s' = worker s"
  using assms by (cases s; cases s'; simp)+

interpretation spawn: chain_relation spawns
  by unfold_locales (auto simp: spawns_def dest: kept_worker)

lemma spawns_update [simp]:
  "spawns (s\<lparr>settings := cfg\<rparr>) s' = spawns s s'" "spawns (s\<lparr>windowAck := n\<rparr>) s' = spawns s s'"
  by (cases s, simp add: spawns_def)+

lemma watcher_ready_spawns: "spawns s (watcher_startMediaPacketRetriever (watcher_sessionReady e s))"
proof -
  have "rtmp_session.more (notify_session SessionStarted (s\<lparr>npmD := m\<rparr>)) = rtmp_session.more s" for m
    using kept_notify_session [of SessionStarted "s\<lparr>npmD := m\<rparr>"] by (simp add: kept_def)
  then have "rtmp_session.more (watcher_sessionReady e s) = rtmp_session.more s"
    by (simp add: watcher_sessionReady_def Let_def)
  from kept_worker [OF this] show ?thesis
    by (simp add: spawns_def watcher_startMediaPacketRetriever_def)
qed

lemma handshakeCompleted_spawns:
  assumes "watcher_handshakeCompleted e s = Some s'"
  shows "spawns s s'"
proof -
  have access: "spawns s1 s'" if "watcher_receiveRtmpSampleAccessMessage e s1 = Some s'" for s1
    by (rule spawn.if_open [OF that [unfolded watcher_receiveRtmpSampleAccessMessage_def]], rule spawn.receive_dynamic, assumption)
       (auto intro: watcher_ready_spawns spawn.same split: if_splits)
  have status: "spawns s1 s'" if "watcher_receivePlayOnStatusCommandMessageResponse e s1 = Some s'" for s1
    by (rule spawn.if_open [OF that [unfolded watcher_receivePlayOnStatusCommandMessageResponse_def]],
        rule spawn.receive_dynamic, assumption)
       (auto intro: access spawn.seq [OF spawn.notify spawn.quiet [OF quiet_close]] split: if_splits)
  have begins: "spawns s1 s'" if "watcher_receiveStreamBeginMessage e s1 = Some s'" for s1
    by (rule spawn.if_open [OF that [unfolded watcher_receiveStreamBeginMessage_def]], rule spawn.receive_dynamic, assumption)
       (rule status)
  have play: "spawns s1 s'" if "watcher_sendPlayCommandMessage e s1 = Some s'" for s1
    by (rule spawn.if_open [OF that [unfolded watcher_sendPlayCommandMessage_def]], erule spawn.send, rule begins)
  have created: "spawns s1 s'" if "watcher_receiveCreateStreamCommandResponse e s1 = Some s'" for s1
    by (rule spawn.if_open [OF that [unfolded watcher_receiveCreateStreamCommandResponse_def]],
        rule spawn.receive_dynamic, assumption)
       (auto intro: play spawn.same split: if_splits)
  have create: "spawns s1 s'" if "watcher_sendCreateStreamCommand e s1 = Some s'" for s1
    by (rule spawn.if_open [OF that [unfolded watcher_sendCreateStreamCommand_def]], erule spawn.send, rule created)
  have connected: "spawns s1 s'" if "watcher_receiveConnectionCommandResponse e s1 = Some s'" for s1
    by (rule spawn.if_open [OF that [unfolded watcher_receiveConnectionCommandResponse_def]],
        rule spawn.receive_dynamic, assumption)
       (auto intro: create spawn.same split: if_splits)
  have chunk: "spawns s1 s'" if "watcher_receiveSetChunkSize e s1 = Some s'" for s1
    by (rule spawn.if_open [OF that [unfolded watcher_receiveSetChunkSize_def]], rule spawn.receive, assumption)
       (auto simp: bind_Some_iff dest: connected)
  have ack: "spawns s1 s'" if "watcher_sendWindowAcknowledgeSize e s1 = Some s'" for s1
    by (rule spawn.if_open [OF that [unfolded watcher_sendWindowAcknowledgeSize_def]])
       (auto intro: spawn.send chunk spawn.same split: if_splits)
  have bandwidth: "spawns s1 s'" if "watcher_receiveSetPeerBandWidth e s1 = Some s'" for s1
    by (rule spawn.if_open [OF that [unfolded watcher_receiveSetPeerBandWidth_def]], rule spawn.receive, assumption, rule ack)
  have window: "spawns s1 s'" if "watcher_receiveWindowAcknowledgeSize e s1 = Some s'" for s1
    by (rule spawn.if_open [OF that [unfolded watcher_receiveWindowAcknowledgeSize_def]], rule spawn.receive, assumption)
       (auto dest: bandwidth)
  have connect: "spawns s1 s'" if "watcher_sendConnectCommandMessage e s1 = Some s'" for s1
    by (rule spawn.if_open [OF that [unfolded watcher_sendConnectCommandMessage_def]], erule spawn.send, rule window)
  show ?thesis
    by (rule spawn.if_open [OF assms [unfolded watcher_handshakeCompleted_def watcher_sendSetChunkSize_def]])
       (auto simp: bind_Some_iff intro: spawn.send connect)
qed

text \<open>The two ways to start a session.\<close>

definition watcher_starts :: "'w host \<Rightarrow> 'w watcher_session \<Rightarrow> 'w watcher_session \<Rightarrow> bool" where
  "watcher_starts e s s' \<longleftrightarrow>
     (\<exists>address port stream. watcher_start e address port stream s = Some s') \<or>
     (\<exists>address port app stream. session_start e (watcher_handshake e) address port app stream s = Some s')"

lemma watcher_starts_spawns:
  assumes "watcher_starts e s s'"
  shows "spawns s s'"
proof -
  have hs: "spawns s1 s2" if "watcher_handshake e s1 = Some s2" for s1 s2
    by (rule spawn.handshake [OF that [unfolded watcher_handshake_def]]) (rule handshakeCompleted_spawns)
  have own: "spawns s (s\<lparr>appName := a, session_streamName := n\<rparr>)" for a n
    by (rule spawn.own) simp
  from assms show ?thesis
    unfolding watcher_starts_def watcher_start_def session_start_joined_def session_start_def extractAppNameAndStreamID_def Let_def
    by (auto intro: spawn.seq [OF own] spawn.start [OF _ hs])
qed

text \<open>A turn of the worker.\<close>

lemma quiet_receivePayload:
  assumes "receivePayload session_handler tr ty maxSize header chunk s = Some (ec, n, p, c, s')"
  shows "quiet s s'"
proof -
  from assms obtain v c1 where v:
    "(case v of None \<Rightarrow> Some (InvalidArgument, length header, BlankPacket, c1, s)
       | Some q \<Rightarrow> (case receiveData session_handler tr (unat (rc_size c1)) s of
           (ec, n, data, s) \<Rightarrow>
             if ec = NoError then do { (q, c1) \<leftarrow> take_payload q data c1; Some (ec, n, q, c1, s) }
             else Some (ec, n, BlankPacket, c1, s))) = Some (ec, n, p, c, s')"
    by (auto simp: receivePayload_def bind_Some_iff)
  obtain ec1 n1 d1 s1 where r: "receiveData session_handler tr (unat (rc_size c1)) s = (ec1, n1, d1, s1)"
    by (metis prod_cases4)
  from v r quiet_receiveData [OF r] show ?thesis
    by (auto simp: bind_Some_iff split: option.splits if_splits)
qed

lemma quiet_receiveStreamID:
  "receiveStreamID session_handler tr ty maxSize header chunk s = Some (ec, n, p, c, s') \<Longrightarrow> quiet s s'"
  by (auto simp: receiveStreamID_def split: prod.splits if_splits
      intro: quiet_trans [OF quiet_receiveData quiet_receivePayload] quiet_receiveData)

lemma quiet_receiveExtentedTimestamp:
  "receiveExtentedTimestamp session_handler tr ty maxSize header chunk s = Some (ec, n, p, c, s') \<Longrightarrow> quiet s s'"
  by (auto simp: receiveExtentedTimestamp_def Let_def split: prod.splits if_splits chunk_stream_type.splits
      intro: quiet_trans [OF quiet_receiveData quiet_receivePayload] quiet_trans [OF quiet_receiveData quiet_receiveStreamID]
        quiet_receiveData)

lemma quiet_receiveMessageType:
  "receiveMessageType session_handler tr ty maxSize x header chunk s = Some (ec, n, p, c, s') \<Longrightarrow> quiet s s'"
  by (auto simp: receiveMessageType_def Let_def split: prod.splits if_splits chunk_stream_type.splits
      intro: quiet_trans [OF quiet_receiveData quiet_receivePayload] quiet_trans [OF quiet_receiveData quiet_receiveStreamID]
        quiet_trans [OF quiet_receiveData quiet_receiveExtentedTimestamp] quiet_receiveData)

lemma quiet_receiveBodySize:
  "receiveBodySize session_handler tr ty maxSize x header chunk s = Some (ec, n, p, c, s') \<Longrightarrow> quiet s s'"
  by (auto simp: receiveBodySize_def split: prod.splits if_splits
      intro: quiet_trans [OF quiet_receiveData quiet_receiveMessageType] quiet_receiveData)

lemma quiet_receiveTimestamp:
  "receiveTimestamp session_handler tr ty maxSize header chunk s = Some (ec, n, p, c, s') \<Longrightarrow> quiet s s'"
  by (auto simp: receiveTimestamp_def Let_def bind_Some_iff split: prod.splits if_splits
      intro: quiet_trans [OF quiet_receiveData quiet_receiveBodySize] quiet_trans [OF quiet_receiveData quiet_receivePayload]
        quiet_receiveData)

lemma quiet_receiveChunk:
  "receiveChunk session_handler tr maxSize chunk s = Some (ec, n, p, c, s') \<Longrightarrow> quiet s s'"
  by (auto simp: receiveChunk_def Let_def bind_Some_iff split: prod.splits if_splits
      intro: quiet_trans [OF quiet_receiveData quiet_receiveTimestamp] quiet_trans [OF quiet_receiveData quiet_receivePayload]
        quiet_receiveData)

lemma continuation_loop_quiet:
  assumes "continuation_loop h tr maxSize error next chunk s = Some r"
  shows "h = session_handler \<longrightarrow> (\<forall>error' chunk' s'. r = Some (error', chunk', s') \<longrightarrow> quiet s s')"
proof (rule continuation_loop.raw_induct [OF _ assms], goal_cases)
  case (1 loop h tr maxSize error nextChunkSize chunk s r)
  show ?case
  proof (intro impI allI)
    fix error' chunk' s'
    assume h: "h = session_handler" and r: "r = Some (error', chunk', s')"
    show "quiet s s'"
    proof (cases "rc_size chunk > 0")
      case True
      then obtain ec n p c s1 where
        c: "receiveChunk session_handler tr maxSize (chunk\<lparr>rc_total := nextChunkSize\<rparr>) s = Some (ec, n, p, c, s1)"
        using 1(2) h r by (auto split: option.splits)
      then obtain error2 next2 chunk2 where "loop h tr maxSize error2 next2 chunk2 s1 = Some r"
        using 1(2) True h by (simp add: Let_def)
      from 1(1) [OF this] h r have "quiet s1 s'" by blast
      with quiet_receiveChunk [OF c] show ?thesis by (rule quiet_trans)
    next
      case False
      with 1(2) r show ?thesis by simp
    qed
  qed
qed

lemma quiet_receiveDynamicPacketWithDynamicHeader:
  assumes "receiveDynamicPacketWithDynamicHeader session_handler tr maxSize s = Some (Some (ec, n, packet, s'))"
  shows "quiet s s'"
proof -
  obtain ec1 n1 p1 c1 s1 where r: "receiveChunk session_handler tr maxSize new_rtmp_chunk s = Some (ec1, n1, p1, c1, s1)"
    using assms by (auto simp: receiveDynamicPacketWithDynamicHeader_def split: option.splits)
  note q = quiet_receiveChunk [OF r]
  show ?thesis
  proof (cases "ec1 = NoError")
    case True
    with assms r obtain next2 chunk2 e2 c2 where
      "continuation_loop session_handler tr maxSize ec1 next2 chunk2 s1 = Some (Some (e2, c2, s'))"
      by (auto simp: receiveDynamicPacketWithDynamicHeader_def Let_def bind_Some_iff split: option.splits)
    from continuation_loop_quiet [OF this] q show ?thesis by (blast intro: quiet_trans)
  next
    case False
    with assms r q show ?thesis by (simp add: receiveDynamicPacketWithDynamicHeader_def)
  qed
qed

lemma retriever_step_worker:
  assumes "retriever_step e chunk s = Some (Some s')"
  shows "stopped s' = stopped s" "worker s' = worker s" "sock_delegates s' = sock_delegates s" "sock_open s' \<Longrightarrow> sock_open s"
proof -
  obtain ec n p s1 where
    r: "receiveDynamicPacketWithDynamicHeader session_handler (net e) chunk s = Some (Some (ec, n, p, s1))"
      "mediaPacketReceived ec n p s1 = Some s'"
    using assms by (auto simp: retriever_step_def split: option.splits)
  have "rtmp_session.more s1 = rtmp_session.more s"
    using quiet_receiveDynamicPacketWithDynamicHeader [OF r(1)] by (simp add: quiet_def kept_def)
  moreover have m: "rtmp_session.more s' = rtmp_session.more s1" "sock_delegates s' = sock_delegates s1" "sock_open s' = sock_open s1"
    using r(2) by (cases s1, auto simp: mediaPacketReceived_def call_media_delegate_def call_def updateCurrentMetrics_def
        bind_Some_iff Let_def split: if_splits media_packet.splits option.splits)+
  ultimately have "rtmp_session.more s' = rtmp_session.more s" by simp
  then show "stopped s' = stopped s" "worker s' = worker s"
    by (simp_all only: kept_worker [of s' s])
  show "sock_delegates s' = sock_delegates s" "sock_open s' \<Longrightarrow> sock_open s"
    using quiet_receiveDynamicPacketWithDynamicHeader [OF r(1)] m(2,3) by (auto simp: quiet_def kept_def)
qed

section \<open>The threads\<close>

text \<open>
  A worker tests the flag, then takes a turn, and is in a callback when the turn has told a delegate something. In a
  callback it may call the session, and \<open>end()\<close> may make it wait for another thread. The controller is the thread
  that owns the session. \<open>joinable\<close> is the thread that \<open>worker_\<close> stands for; \<open>crashed\<close> is the end of the program:
  a thread assigned over one that is joinable, one that is detached or joined twice, an exception in a worker.
\<close>

datatype worker_phase = Testing | Turning | InCallback | Joins nat | Ended

record 'w workshop =
  shop_session :: "'w watcher_session"
  threads :: "nat \<Rightarrow> (u32 \<times> worker_phase) option"
  spawned :: nat
  joinable :: "nat option"
  controller_joins :: "nat option"
  crashed :: bool

definition new_workshop :: "'w watcher_session \<Rightarrow> 'w workshop" where
  "new_workshop s = \<lparr> shop_session = s, threads = Map.empty, spawned = 0, joinable = None, controller_joins = None,
     crashed = False \<rparr>"

text \<open>The one who calls: the controller, or a worker.\<close>

type_synonym caller = "nat option"

fun free_to_call :: "caller \<Rightarrow> 'w workshop \<Rightarrow> bool" where
  "free_to_call None p \<longleftrightarrow> controller_joins p = None"
| "free_to_call (Some n) p \<longleftrightarrow> (\<exists>c. threads p n = Some (c, InCallback))"

definition set_phase :: "nat \<Rightarrow> worker_phase \<Rightarrow> 'w workshop \<Rightarrow> 'w workshop" where
  "set_phase n ph p = (case threads p n of None \<Rightarrow> p | Some (c, _) \<Rightarrow> p\<lparr>threads := (threads p)(n \<mapsto> (c, ph))\<rparr>)"

text \<open>\<open>worker_ = std::thread(...)\<close>, where the session has started a worker.\<close>

definition launch :: "'w watcher_session \<Rightarrow> 'w workshop \<Rightarrow> 'w workshop" where
  "launch s' p =
     (let p' = p\<lparr>shop_session := s'\<rparr> in
      if stopped (shop_session p) \<and> \<not> stopped s' then
        (case worker s' of
           None \<Rightarrow> p'
         | Some c \<Rightarrow>
             if joinable p = None
             then p'\<lparr>threads := (threads p)(spawned p \<mapsto> (c, Testing)), joinable := Some (spawned p), spawned := Suc (spawned p)\<rparr>
             else p'\<lparr>crashed := True\<rparr>)
      else p')"

text \<open>\<open>end()\<close>: the flag, then a join, a detach or neither, then the end of the session.\<close>

definition end_session :: "'w host \<Rightarrow> 'w workshop \<Rightarrow> 'w workshop" where
  "end_session e p = p\<lparr>shop_session := session_end e ((shop_session p)\<lparr>worker := None\<rparr>), joinable := None\<rparr>"

definition is_joined :: "nat \<Rightarrow> 'w workshop \<Rightarrow> bool" where
  "is_joined n p \<longleftrightarrow> controller_joins p = Some n \<or> (\<exists>m c. threads p m = Some (c, Joins n))"

definition end_called :: "'w host \<Rightarrow> caller \<Rightarrow> 'w workshop \<Rightarrow> 'w workshop" where
  "end_called e who p =
     (let p = p\<lparr>shop_session := (shop_session p)\<lparr>stopped := True\<rparr>\<rparr> in
      case joinable p of
        None \<Rightarrow> end_session e p
      | Some n \<Rightarrow>
          if is_joined n p then p\<lparr>crashed := True\<rparr>
          else case who of
            None \<Rightarrow> p\<lparr>controller_joins := Some n\<rparr>
          | Some m \<Rightarrow> if m = n then end_session e p else set_phase m (Joins n) p)"

text \<open>The thread that was waited for has ended.\<close>

definition joined :: "'w host \<Rightarrow> caller \<Rightarrow> 'w workshop \<Rightarrow> 'w workshop" where
  "joined e who p =
     (case who of
        None \<Rightarrow> end_session e (p\<lparr>controller_joins := None\<rparr>)
      | Some m \<Rightarrow> end_session e (set_phase m InCallback p))"

fun waits_for :: "caller \<Rightarrow> nat \<Rightarrow> 'w workshop \<Rightarrow> bool" where
  "waits_for None n p \<longleftrightarrow> controller_joins p = Some n"
| "waits_for (Some m) n p \<longleftrightarrow> (\<exists>c. threads p m = Some (c, Joins n))"

definition has_ended :: "nat \<Rightarrow> 'w workshop \<Rightarrow> bool" where
  "has_ended n p \<longleftrightarrow> (\<exists>c. threads p n = Some (c, Ended))"

datatype worker_event =
    Starts caller
  | Ends caller
  | Joined caller
  | Tests nat
  | Turns nat
  | Throws nat
  | Returns nat

inductive worker_step :: "'w host \<Rightarrow> worker_event \<Rightarrow> 'w workshop \<Rightarrow> 'w workshop \<Rightarrow> bool" for e where
  starts: "\<not> crashed p \<Longrightarrow> free_to_call who p \<Longrightarrow> watcher_starts e (shop_session p) s' \<Longrightarrow>
    worker_step e (Starts who) p (launch s' p)"
| ends: "\<not> crashed p \<Longrightarrow> free_to_call who p \<Longrightarrow> worker_step e (Ends who) p (end_called e who p)"
| joined: "\<not> crashed p \<Longrightarrow> waits_for who n p \<Longrightarrow> has_ended n p \<Longrightarrow> worker_step e (Joined who) p (joined e who p)"
| tests: "\<not> crashed p \<Longrightarrow> threads p n = Some (c, Testing) \<Longrightarrow>
    worker_step e (Tests n) p (set_phase n (if \<not> stopped (shop_session p) then Turning else Ended) p)"
| turns: "\<not> crashed p \<Longrightarrow> threads p n = Some (c, Turning) \<Longrightarrow> retriever_step e c (shop_session p) = Some (Some s') \<Longrightarrow>
    worker_step e (Turns n) p
      (set_phase n (if calls s' = calls (shop_session p) then Testing else InCallback) (p\<lparr>shop_session := s'\<rparr>))"
| throws: "\<not> crashed p \<Longrightarrow> threads p n = Some (c, Turning) \<Longrightarrow> retriever_step e c (shop_session p) = Some None \<Longrightarrow>
    worker_step e (Throws n) p (p\<lparr>crashed := True\<rparr>)"
| returns: "\<not> crashed p \<Longrightarrow> threads p n = Some (c, InCallback) \<Longrightarrow> worker_step e (Returns n) p (set_phase n Testing p)"

inductive_cases worker_stepE: "worker_step e ev p p'"
inductive_simps worker_step_simps [simp]:
  "worker_step e (Starts who) p p'" "worker_step e (Ends who) p p'" "worker_step e (Joined who) p p'"
  "worker_step e (Tests n) p p'" "worker_step e (Turns n) p p'" "worker_step e (Throws n) p p'" "worker_step e (Returns n) p p'"

inductive worker_run :: "'w host \<Rightarrow> worker_event list \<Rightarrow> 'w workshop \<Rightarrow> 'w workshop \<Rightarrow> bool" for e where
  none: "worker_run e [] p p"
| some: "worker_step e ev p p1 \<Longrightarrow> worker_run e evs p1 p' \<Longrightarrow> worker_run e (ev # evs) p p'"

inductive_simps worker_run_simps [simp]: "worker_run e [] p p'" "worker_run e (ev # evs) p p'"

text \<open>The session is started and ended by the controller, and by no callback of a worker. A turn of the worker may still
  throw.\<close>

fun from_outside :: "worker_event \<Rightarrow> bool" where
  "from_outside (Starts who) \<longleftrightarrow> who = None"
| "from_outside (Ends who) \<longleftrightarrow> who = None"
| "from_outside ev \<longleftrightarrow> True"

definition alive :: "nat \<Rightarrow> 'w workshop \<Rightarrow> bool" where
  "alive n p \<longleftrightarrow> (\<exists>c ph. threads p n = Some (c, ph) \<and> ph \<noteq> Ended)"

section \<open>A controller that keeps the session to itself\<close>

definition orderly :: "'w workshop \<Rightarrow> bool" where
  "orderly p \<longleftrightarrow> \<not> crashed p \<and> (\<forall>n. alive n p \<longrightarrow> joinable p = Some n) \<and>
     (\<forall>n c m. threads p n \<noteq> Some (c, Joins m)) \<and>
     (\<forall>n. spawned p \<le> n \<longrightarrow> threads p n = None) \<and>
     (case joinable p of
        None \<Rightarrow> stopped (shop_session p) \<and> controller_joins p = None
      | Some n \<Rightarrow> threads p n \<noteq> None \<and> controller_joins p = (if stopped (shop_session p) then Some n else None))"

lemma orderly_new: "stopped s \<Longrightarrow> orderly (new_workshop s)"
  by (simp add: orderly_def new_workshop_def alive_def)

lemma session_end_stopped:
  fixes s :: "'w watcher_session"
  shows "stopped (session_end e s) = stopped s"
  using quiet_close [of s "net e"] kept_worker [of "session_end e s" s]
  by (simp add: session_end_def quiet_def kept_def)

lemma is_joined_update [simp]: "is_joined n (p\<lparr>shop_session := s\<rparr>) = is_joined n p"
  by (simp add: is_joined_def)

lemma orderly_launch:
  assumes "orderly p" and "spawns (shop_session p) s'" and "stopped (shop_session p) \<Longrightarrow> \<not> stopped s' \<Longrightarrow> joinable p = None"
  shows "orderly (launch s' p)"
  using assms by (auto simp: spawns_def launch_def orderly_def alive_def Let_def split: option.splits)

lemma orderly_step:
  assumes "worker_step e ev p p'" and "from_outside ev" and "\<forall>n. ev \<noteq> Throws n" and "orderly p"
  shows "orderly p'"
  using assms(1)
proof cases
  case (starts who s')
  with assms(2,4) have "stopped (shop_session p) \<Longrightarrow> joinable p = None"
    by (auto simp: orderly_def split: option.splits)
  with orderly_launch [OF assms(4) watcher_starts_spawns [OF starts(5)]] show ?thesis
    by (simp add: starts(2))
next
  case (ends who)
  with assms(2) have free: "who = None" "controller_joins p = None" by simp_all
  with assms(4) have "\<not> is_joined n p" for n
    by (auto simp: is_joined_def orderly_def)
  with free assms(4) show ?thesis
    by (auto simp: ends end_called_def end_session_def Let_def orderly_def alive_def session_end_stopped split: option.splits)
next
  case (joined who n)
  have who: "who = None"
  proof (cases who)
    case (Some m)
    with joined assms(4) show ?thesis by (auto simp: orderly_def)
  qed
  with joined have n: "controller_joins p = Some n" "has_ended n p" by simp_all
  with assms(4) have j: "joinable p = Some n" and st: "stopped (shop_session p)"
    by (auto simp: orderly_def split: option.splits if_splits)
  have "\<not> alive m p" for m
  proof
    assume a: "alive m p"
    with assms(4) j have "m = n" by (simp add: orderly_def)
    with a n(2) show False by (auto simp: alive_def has_ended_def)
  qed
  with assms(4) st show ?thesis
    unfolding joined who
    by (auto simp: joined_def end_session_def orderly_def alive_def session_end_stopped)
next
  case (tests n c)
  with assms(4) show ?thesis
    by (auto simp: orderly_def alive_def set_phase_def split: option.splits if_splits)
next
  case (turns n c s')
  have "stopped s' = stopped (shop_session p)"
    by (rule retriever_step_worker [OF turns(5)])
  with turns assms(4) show ?thesis
    by (auto simp: orderly_def alive_def set_phase_def split: option.splits if_splits)
next
  case (throws n c)
  with assms(3) show ?thesis by simp
next
  case (returns n c)
  with assms(4) show ?thesis
    by (auto simp: orderly_def alive_def set_phase_def split: option.splits if_splits)
qed

text \<open>A turn that throws is the last step of all.\<close>

lemma worker_run_crashed: "worker_run e evs p p' \<Longrightarrow> crashed p \<Longrightarrow> evs = [] \<and> p' = p"
  by (induction rule: worker_run.induct) (auto elim: worker_stepE)

lemma orderly_run:
  "worker_run e evs p p' \<Longrightarrow> \<forall>ev \<in> set evs. from_outside ev \<Longrightarrow> orderly p \<Longrightarrow>
    (if \<exists>n. Throws n \<in> set evs
     then \<exists>p1 n c. orderly p1 \<and> p' = p1\<lparr>crashed := True\<rparr> \<and> threads p1 n = Some (c, Turning) \<and>
       retriever_step e c (shop_session p1) = Some None
     else orderly p')"
proof (induction rule: worker_run.induct)
  case (some ev p p1 evs p')
  show ?case
  proof (cases "\<exists>n. ev = Throws n")
    case True
    with some.hyps(1) obtain n c where n: "p1 = p\<lparr>crashed := True\<rparr>" "threads p n = Some (c, Turning)"
      "retriever_step e c (shop_session p) = Some None" by auto
    with worker_run_crashed [OF some.hyps(2)] have "p' = p1" by simp
    with n True some.prems(2) show ?thesis by auto
  next
    case False
    then have "\<And>n. (Throws n \<in> set (ev # evs)) = (Throws n \<in> set evs)" by auto
    with False some.IH some.prems orderly_step [OF some.hyps(1)] show ?thesis by simp
  qed
qed simp

lemma orderly_crashed [simp]: "crashed (p\<lparr>crashed := True\<rparr>)" "alive n (p\<lparr>crashed := b\<rparr>) = alive n p"
  by (simp_all add: alive_def)

lemma orderly_alive: "orderly p \<Longrightarrow> alive n p \<Longrightarrow> alive m p \<Longrightarrow> n = m"
  unfolding orderly_def by (metis option.inject)


text \<open>How many steps a worker still takes once the flag is set.\<close>

fun steps_left :: "worker_phase \<Rightarrow> nat" where
  "steps_left Turning = 3" | "steps_left InCallback = 2" | "steps_left Testing = 1" | "steps_left _ = 0"

lemma joining_step:
  assumes "worker_step e ev p p'" and "from_outside ev" and "ev \<noteq> Joined None" and "orderly p" and "controller_joins p = Some n"
    and "threads p n = Some (c, ph)" and "ph = Turning \<longrightarrow> retriever_step e c (shop_session p) \<noteq> Some None"
  shows "(\<forall>m. ev \<noteq> Throws m) \<and> controller_joins p' = Some n \<and>
    (\<exists>ph'. threads p' n = Some (c, ph') \<and> steps_left ph' < steps_left ph)"
proof -
  have j: "joinable p = Some n" and st: "stopped (shop_session p)"
    using assms(4,5) by (auto simp: orderly_def split: option.splits if_splits)
  have one: "m = n" if "threads p m = Some (d, x)" "x \<noteq> Ended" for m d x
    using assms(4) j that by (auto simp: orderly_def alive_def)
  from assms(1) show ?thesis
  proof cases
    case (joined who m)
    with assms(3,4) show ?thesis by (cases who) (auto simp: orderly_def)
  next
    case (throws m d)
    with one have "m = n" by blast
    with throws assms(6,7) show ?thesis by simp
  qed (use assms one st in \<open>auto simp: set_phase_def split: if_splits\<close>)
qed

lemma joining_run:
  "worker_run e evs p p' \<Longrightarrow> \<forall>ev \<in> set evs. from_outside ev \<Longrightarrow> Joined None \<notin> set evs \<Longrightarrow> orderly p \<Longrightarrow>
    controller_joins p = Some n \<Longrightarrow> threads p n = Some (c, ph) \<Longrightarrow>
    (ph = Turning \<longrightarrow> retriever_step e c (shop_session p) \<noteq> Some None) \<Longrightarrow>
    controller_joins p' = Some n \<and> orderly p' \<and>
    (\<exists>ph'. threads p' n = Some (c, ph') \<and> steps_left ph' + length evs \<le> steps_left ph \<and> (evs = [] \<longrightarrow> p' = p))"
proof (induction arbitrary: ph rule: worker_run.induct)
  case (some ev p p1 evs p')
  from some.prems have ev: "from_outside ev" "ev \<noteq> Joined None" by auto
  from joining_step [OF some.hyps(1) ev some.prems(3-6)] obtain ph1 where
    1: "\<forall>m. ev \<noteq> Throws m" "controller_joins p1 = Some n" "threads p1 n = Some (c, ph1)" "steps_left ph1 < steps_left ph" by blast
  have "steps_left ph \<le> 3" by (cases ph) simp_all
  with 1(4) have "ph1 \<noteq> Turning" by auto
  with some.IH [OF _ _ orderly_step [OF some.hyps(1) ev(1) 1(1) some.prems(3)] 1(2,3)] some.prems(1,2) 1(4) show ?case
    by fastforce
qed simp

text \<open>C27: \<open>end()\<close> returns, as long as no callback starts or ends the session: while it waits for the worker, at most three
  steps can be taken, and as long as it waits some step can, if the turn that the worker may be in comes back, and is not
  undefined. A callback that does end or start it meanwhile ends the program (lemma \<open>end_race\<close>).\<close>

theorem end_returns:
  assumes "stopped s" and "worker_run e evs0 (new_workshop s) p" and "\<forall>ev \<in> set evs0. from_outside ev"
    and "controller_joins p = Some n"
    and "\<forall>c. threads p n = Some (c, Turning) \<longrightarrow> (\<exists>s'. retriever_step e c (shop_session p) = Some (Some s'))"
    and "worker_run e evs p p'" and "\<forall>ev \<in> set evs. from_outside ev" and "Joined None \<notin> set evs"
  shows "length evs \<le> 3 \<and> (\<exists>ev p''. from_outside ev \<and> worker_step e ev p' p'')"
proof -
  have o: "orderly p"
  proof (rule ccontr)
    assume "\<not> orderly p"
    with orderly_run [OF assms(2,3) orderly_new [OF assms(1)]] obtain p1 m d where
      p1: "orderly p1" "p = p1\<lparr>crashed := True\<rparr>" "threads p1 m = Some (d, Turning)" "retriever_step e d (shop_session p1) = Some None"
      by (auto split: if_splits)
    with assms(4) have "m = n" by (auto simp: orderly_def alive_def split: option.splits if_splits)
    with p1 assms(5) show False by simp
  qed
  with assms(4) obtain c ph where t: "threads p n = Some (c, ph)"
    by (auto simp: orderly_def split: option.splits if_splits)
  have "ph = Turning \<longrightarrow> retriever_step e c (shop_session p) \<noteq> Some None"
    using assms(5) t by auto
  from joining_run [OF assms(6-8) o assms(4) t this] obtain ph' where
    r: "controller_joins p' = Some n" "orderly p'" "threads p' n = Some (c, ph')"
      "steps_left ph' + length evs \<le> steps_left ph" "evs = [] \<longrightarrow> p' = p" by blast
  have "steps_left ph \<le> 3" by (cases ph) simp_all
  with r(4) have len: "length evs \<le> 3" by simp
  have ok: "\<not> crashed p'" using r(2) by (simp add: orderly_def)
  have "\<exists>ev p''. from_outside ev \<and> worker_step e ev p' p''"
  proof (cases ph')
    case Turning
    have "length evs = 0"
      using r(4) \<open>steps_left ph \<le> 3\<close> unfolding Turning steps_left.simps by linarith
    then have "evs = []" by simp
    with r(3,5) Turning assms(5) obtain s' where "retriever_step e c (shop_session p') = Some (Some s')" by auto
    from worker_step.turns [OF ok r(3) [unfolded Turning] this] show ?thesis
      by (intro exI [of _ "Turns n"] exI conjI) simp_all
  next
    case Testing
    from worker_step.tests [OF ok r(3) [unfolded Testing]] show ?thesis
      by (intro exI [of _ "Tests n"] exI conjI) simp_all
  next
    case InCallback
    from worker_step.returns [OF ok r(3) [unfolded InCallback]] show ?thesis
      by (intro exI [of _ "Returns n"] exI conjI) simp_all
  next
    case (Joins m)
    with r(2,3) show ?thesis by (auto simp: orderly_def)
  next
    case Ended
    then have "worker_step e (Joined None) p' (joined e None p')"
      using worker_step.joined [of p' None n e] ok r(1,3) by (auto simp: has_ended_def)
    then show ?thesis by (intro exI [of _ "Joined None"]) auto
  qed
  with len show ?thesis by blast
qed

text \<open>The state in which the worker \<open>n\<close>, detached by its own callback, is in a turn again, beside the worker that the restart
  has started.\<close>

definition revived :: "nat \<Rightarrow> u32 \<Rightarrow> u32 \<Rightarrow> 'w watcher_session \<Rightarrow> 'w workshop \<Rightarrow> 'w workshop" where
  "revived n c d s' p =
     p\<lparr>shop_session := s', threads := (threads p)(spawned p \<mapsto> (d, Testing), n \<mapsto> (c, Turning)), joinable := Some (spawned p),
       spawned := Suc (spawned p)\<rparr>"

lemma detached_restarts:
  assumes "threads p n = Some (c, InCallback)" and "joinable p = Some n" and "controller_joins p = None" and "\<not> crashed p"
    and "\<not> is_joined n p" and "threads p (spawned p) = None"
    and "watcher_starts e (watcher_end e (shop_session p)) s'" and "\<not> stopped s'"
  shows "\<exists>d. worker_run e [Ends (Some n), Starts None, Returns n, Tests n] p (revived n c d s' p)"
proof -
  let ?m = "spawned p"
  have m: "n \<noteq> ?m" using assms(1,6) by auto
  define pe where "pe = end_called e (Some n) p"
  have pe: "pe = p\<lparr>shop_session := watcher_end e (shop_session p), joinable := None\<rparr>"
    using assms(2,5) by (simp add: pe_def end_called_def end_session_def watcher_end_def Let_def)
  have st: "stopped (watcher_end e (shop_session p))"
    by (simp add: watcher_end_def session_end_stopped)
  with watcher_starts_spawns [OF assms(7)] assms(8) obtain d where d: "worker s' = Some d"
    by (auto simp: spawns_def)
  define ps where "ps = launch s' pe"
  have ps: "ps = p\<lparr>shop_session := s', threads := (threads p)(?m \<mapsto> (d, Testing)), joinable := Some ?m, spawned := Suc ?m\<rparr>"
    using st assms(8) d by (simp add: ps_def launch_def pe Let_def)
  have "worker_step e (Ends (Some n)) p pe" "worker_step e (Starts None) pe ps"
    unfolding pe_def ps_def using assms(1,3,4,7) pe by (auto simp: pe_def)
  moreover have "worker_step e (Returns n) ps (set_phase n Testing ps)"
    "worker_step e (Tests n) (set_phase n Testing ps) (revived n c d s' p)"
    using assms(1,4,8) m by (simp_all add: ps set_phase_def revived_def)
  ultimately show ?thesis by (intro exI [of _ d]) (auto simp del: worker_step_simps)
qed

lemma end_joins_new:
  assumes m: "n \<noteq> spawned p" and "controller_joins p = None" and "\<not> crashed p" and "\<not> (\<exists>m c. threads p m = Some (c, Joins (spawned p)))"
  shows "\<exists>p2. worker_run e [Ends None, Tests (spawned p), Joined None] (revived n c d s' p) p2 \<and>
    \<not> crashed p2 \<and> controller_joins p2 = None \<and> stopped (shop_session p2) \<and> threads p2 n = Some (c, Turning)"
proof -
  let ?m = "spawned p" and ?p1 = "revived n c d s' p"
  define pj where "pj = end_called e None ?p1"
  have "\<not> is_joined ?m ?p1" using assms(2,4) by (auto simp: is_joined_def revived_def)
  moreover have "joinable ?p1 = Some ?m" "shop_session ?p1 = s'" by (simp_all add: revived_def)
  ultimately have pj: "pj = ?p1\<lparr>shop_session := s'\<lparr>stopped := True\<rparr>, controller_joins := Some ?m\<rparr>"
    by (simp add: pj_def end_called_def Let_def)
  define pd where "pd = set_phase ?m Ended pj"
  have "worker_step e (Ends None) ?p1 pj"
    using worker_step.ends [of ?p1 None e] assms(2,3) by (simp add: pj_def revived_def)
  moreover have "worker_step e (Tests ?m) pj pd" "worker_step e (Joined None) pd (joined e None pd)"
    using assms(3) m by (auto simp: pj pd_def set_phase_def has_ended_def revived_def)
  ultimately have "worker_run e [Ends None, Tests ?m, Joined None] ?p1 (joined e None pd)"
    by (auto simp del: worker_step_simps)
  moreover have "\<not> crashed (joined e None pd) \<and> controller_joins (joined e None pd) = None \<and>
      stopped (shop_session (joined e None pd)) \<and> threads (joined e None pd) n = Some (c, Turning)"
    using assms(3) m by (simp add: joined_def end_session_def session_end_stopped pd_def set_phase_def pj revived_def)
  ultimately show ?thesis by blast
qed

text \<open>C31: a callback that ends its session detaches the worker that runs it; if the session is started again before the
  callback has returned, the flag is down again and the old worker goes on beside the new one, on the same socket
  and the same state; and the next \<open>end()\<close> waits for the new one only: it returns while the old one is in a turn.\<close>

theorem ended_worker_revived:
  assumes "threads p n = Some (c, InCallback)" and "joinable p = Some n" and "controller_joins p = None" and "\<not> crashed p"
    and "\<not> is_joined n p" and "threads p (spawned p) = None" and "\<not> (\<exists>m c. threads p m = Some (c, Joins (spawned p)))"
    and "watcher_starts e (watcher_end e (shop_session p)) s'" and "\<not> stopped s'"
  shows "\<exists>p1 p2. worker_run e [Ends (Some n), Starts None, Returns n, Tests n] p p1 \<and>
    alive n p1 \<and> alive (spawned p) p1 \<and> n \<noteq> spawned p \<and>
    worker_run e [Ends None, Tests (spawned p), Joined None] p1 p2 \<and>
    \<not> crashed p2 \<and> controller_joins p2 = None \<and> stopped (shop_session p2) \<and> threads p2 n = Some (c, Turning)"
proof -
  let ?m = "spawned p"
  have m: "n \<noteq> ?m" using assms(1,6) by auto
  obtain d where run: "worker_run e [Ends (Some n), Starts None, Returns n, Tests n] p (revived n c d s' p)"
    using detached_restarts [OF assms(1-6,8,9)] by blast
  have "alive n (revived n c d s' p)" "alive ?m (revived n c d s' p)"
    using m by (simp_all add: alive_def revived_def)
  moreover obtain p2 where "worker_run e [Ends None, Tests ?m, Joined None] (revived n c d s' p) p2"
    "\<not> crashed p2 \<and> controller_joins p2 = None \<and> stopped (shop_session p2) \<and> threads p2 n = Some (c, Turning)"
    using end_joins_new [OF m assms(3,4,7)] by blast
  ultimately show ?thesis using m run by blast
qed

text \<open>While the controller waits in \<open>end()\<close>, a callback that calls the session ends the program: \<open>end()\<close> detaches the
  thread that is being joined, and a start assigns a thread over it.\<close>

lemma end_race:
  assumes "threads p n = Some (c, InCallback)" and "joinable p = Some n" and "controller_joins p = Some n" and "\<not> crashed p"
    and "stopped (shop_session p)"
  shows "\<exists>p'. worker_step e (Ends (Some n)) p p' \<and> crashed p'"
    and "watcher_starts e (shop_session p) s' \<Longrightarrow> \<not> stopped s' \<Longrightarrow>
      \<exists>p'. worker_step e (Starts (Some n)) p p' \<and> crashed p'"
proof -
  show "\<exists>p'. worker_step e (Ends (Some n)) p p' \<and> crashed p'"
    using assms by (auto simp: end_called_def is_joined_def Let_def)
  assume s': "watcher_starts e (shop_session p) s'" "\<not> stopped s'"
  with watcher_starts_spawns [OF s'(1)] assms(5) obtain d where "worker s' = Some d"
    by (auto simp: spawns_def)
  then have "crashed (launch s' p)"
    using s'(2) assms(2,5) by (simp add: launch_def Let_def)
  with s' assms(1,4) show "\<exists>p'. worker_step e (Starts (Some n)) p p' \<and> crashed p'"
    by (intro exI [of _ "launch s' p"]) auto
qed

text \<open>A session that is started again while its worker runs keeps that worker, and the chunk size it was started with.\<close>

lemma restart_keeps_worker: "watcher_starts e s s' \<Longrightarrow> \<not> stopped s \<Longrightarrow> \<not> stopped s' \<and> worker s' = worker s"
  using watcher_starts_spawns [of e s s'] by (auto simp: spawns_def)

section \<open>A server that answers\<close>

definition answering :: "script transport" where
  "answering = script_transport\<lparr>tr_connect :=
     (\<lambda>w. (NoError, True, w\<lparr>inbox := sample_replies [reply_begin, reply_status, reply_access]\<rparr>))\<rparr>"

definition answering_host :: "script host" where
  "answering_host = sample_host\<lparr>net := answering\<rparr>"

lemma net_answering [simp]: "net answering_host = answering"
  by (simp add: answering_host_def)

lemma answering_reliable: "reliable answering inbox outbox"
  using script_reliable by (simp add: reliable_def delivers_def logs_def answering_def)

lemma answering_dead: "dead answering (\<lambda>w. inbox w = [])"
  by (simp add: dead_def answering_def script_transport_def)

definition idle_watcher :: "script watcher_session" where
  "idle_watcher = addMediaDelegate 7 (new_watcher_session answering \<lparr>inbox = [], outbox = []\<rparr> new_session_settings)"

lemma idle_watcher [simp]:
  "sock_delegates idle_watcher = [UserDelegate 7]" "session_delegates idle_watcher = [7]" "\<not> sock_open idle_watcher"
  "stopped idle_watcher"
  by (simp_all add: idle_watcher_def addMediaDelegate_def session_addDelegate_def socket_addDelegate_def addDelegate_def
      new_watcher_session_def new_client_session_def new_rtmp_session_def new_socket_def watcher_session.defs
      client_session.defs rtmp_session.defs socket.defs)

lemma answered_start:
  assumes "sock_delegates s = [UserDelegate 7]" and "session_delegates s = [7]" and "\<not> sock_open s" and "stopped s"
  shows "\<exists>s'. session_start answering_host (watcher_handshake answering_host) ''h'' ''1935'' ''app'' ''cam'' s = Some s' \<and>
    \<not> stopped s' \<and> worker s' = Some 4096 \<and> inbox (sock_world s') = [] \<and> sock_open s'"
proof -
  let ?w = "(sock_world s)\<lparr>inbox := sample_replies [reply_begin, reply_status, reply_access]\<rparr>"
  obtain u where u: "session_start answering_host (watcher_handshake answering_host) ''h'' ''1935'' ''app'' ''cam'' s
      = watcher_handshake answering_host u" "sock_open u" "sock_world u = ?w" "stopped u"
    using start_connected [OF assms(1-3), of "''h''" "''1935''" answering_host "sock_world s" ?w
        "watcher_handshake answering_host" "''app''" "''cam''"] assms(4)
    by (auto simp: answering_def script_transport_def)
  have "inbox (sock_world u) = RtmpProtocolVersion # replicate c1_defaultSize 1 @ replicate c1_defaultSize 2
      @ reply_window @ reply_bandwidth @ reply_chunk @ reply_connected @ reply_created
      @ reply_begin @ reply_status @ reply_access @ []"
    by (simp add: u(3) sample_replies_def del: replicate.simps)
  from watcher_runs [where pending = inbox and writes = outbox and e = answering_host and tail = "[]" and ack = 2500000
      and chunk = 4096, OF _ u(2) this length_replicate length_replicate sample_server _ sample_plays u(4)]
  obtain s' where "watcher_handshake answering_host u = Some s'" "\<not> stopped s'" "worker s' = Some 4096"
    "inbox (sock_world s') = []" "sock_open s'"
    by (auto simp: answering_reliable)
  with u(1) show ?thesis by simp
qed

lemma answered:
  assumes "sock_delegates s = [UserDelegate 7]" and "session_delegates s = [7]" and "\<not> sock_open s" and "stopped s"
  shows "\<exists>s'. watcher_starts answering_host s s' \<and> \<not> stopped s' \<and> worker s' = Some 4096 \<and> inbox (sock_world s') = []"
  using answered_start [OF assms] unfolding watcher_starts_def by blast


text \<open>A worker in a turn on a connection that has nothing more to read.\<close>

theorem end_returns_witness:
  "\<exists>p. worker_run answering_host [Starts None, Tests 0, Ends None] (new_workshop idle_watcher) p \<and>
     controller_joins p = Some 0 \<and> (\<exists>ev p'. from_outside ev \<and> worker_step answering_host ev p p')"
proof -
  obtain s' where s': "watcher_starts answering_host idle_watcher s'" "\<not> stopped s'" "worker s' = Some 4096"
    "inbox (sock_world s') = []"
    using answered [of idle_watcher] by auto
  define p1 where "p1 = launch s' (new_workshop idle_watcher)"
  define p2 where "p2 = set_phase 0 Turning p1"
  define p where "p = end_called answering_host None p2"
  have 1: "p1 = \<lparr> shop_session = s', threads = [0 \<mapsto> (4096, Testing)], spawned = 1, joinable = Some 0, controller_joins = None,
      crashed = False \<rparr>"
    using s' by (simp add: p1_def launch_def new_workshop_def)
  have 2: "p2 = p1\<lparr>threads := [0 \<mapsto> (4096, Turning)]\<rparr>"
    by (simp add: p2_def 1 set_phase_def)
  have 3: "p = p2\<lparr>shop_session := s'\<lparr>stopped := True\<rparr>, controller_joins := Some 0\<rparr>"
    by (simp add: p_def 2 1 end_called_def is_joined_def Let_def)
  have "worker_step answering_host (Starts None) (new_workshop idle_watcher) p1"
    using worker_step.starts [of "new_workshop idle_watcher" None answering_host s'] s'(1)
    by (simp add: p1_def new_workshop_def)
  moreover have "worker_step answering_host (Tests 0) p1 p2"
    using s'(2) by (simp add: p2_def 1)
  moreover have "worker_step answering_host (Ends None) p2 p"
    using worker_step.ends [of p2 None answering_host] by (simp add: p_def 2 1)
  ultimately have r: "worker_run answering_host [Starts None, Tests 0, Ends None] (new_workshop idle_watcher) p"
    by (blast intro: worker_run.intros)
  have "inbox (sock_world (s'\<lparr>stopped := True\<rparr>)) = []"
    using s'(4) by (cases s') simp
  from retriever_step_dead [of answering_host "\<lambda>w. inbox w = []", OF _ this, of 4096] answering_dead
  obtain t where "retriever_step answering_host 4096 (s'\<lparr>stopped := True\<rparr>) = Some (Some t)" by auto
  then have t: "\<forall>c. threads p 0 = Some (c, Turning) \<longrightarrow> (\<exists>s'. retriever_step answering_host c (shop_session p) = Some (Some s'))"
    by (auto simp: 3 2 1)
  have "controller_joins p = Some 0" by (simp add: 3)
  moreover from end_returns [OF _ r _ this t worker_run.none]
  have "\<exists>ev p'. from_outside ev \<and> worker_step answering_host ev p p'"
    by (simp del: worker_run_simps worker_step_simps)
  ultimately show ?thesis using r by blast
qed

theorem ended_worker_revived_witness:
  "\<exists>p1 p2. worker_run answering_host [Ends (Some 0), Starts None, Returns 0, Tests 0]
       \<lparr> shop_session = idle_watcher\<lparr>stopped := False, sock_open := True\<rparr>, threads = [0 \<mapsto> (4096, InCallback)], spawned = 1,
         joinable = Some 0, controller_joins = None, crashed = False \<rparr> p1 \<and> alive 0 p1 \<and> alive 1 p1 \<and>
     worker_run answering_host [Ends None, Tests 1, Joined None] p1 p2 \<and> controller_joins p2 = None \<and> alive 0 p2"
proof -
  let ?s = "idle_watcher\<lparr>stopped := False, sock_open := True\<rparr>"
  let ?p = "\<lparr> shop_session = ?s, threads = [0 \<mapsto> (4096, InCallback)], spawned = 1, joinable = Some 0, controller_joins = None,
      crashed = False \<rparr> :: script workshop"
  have "sock_delegates (watcher_end answering_host ?s) = [UserDelegate 7]" "session_delegates (watcher_end answering_host ?s) = [7]"
    "\<not> sock_open (watcher_end answering_host ?s)" "stopped (watcher_end answering_host ?s)"
    using idle_watcher
    by (cases idle_watcher, simp add: watcher_end_def session_end_def socket_close_def notify_def session_handler_def call_def Let_def)+
  from answered [OF this] obtain s' where "watcher_starts answering_host (watcher_end answering_host ?s) s'" "\<not> stopped s'"
    by blast
  moreover have "\<not> is_joined 0 ?p" "\<not> (\<exists>m c. threads ?p m = Some (c, Joins (spawned ?p)))"
    by (auto simp: is_joined_def split: if_splits)
  ultimately obtain p1 p2 where "worker_run answering_host [Ends (Some 0), Starts None, Returns 0, Tests 0] ?p p1"
      "alive 0 p1" "alive (spawned ?p) p1" "worker_run answering_host [Ends None, Tests (spawned ?p), Joined None] p1 p2"
      "controller_joins p2 = None" "threads p2 0 = Some (4096, Turning)"
    using ended_worker_revived [of ?p 0 4096 answering_host s'] by (simp del: worker_run_simps) blast
  moreover from this(6) have "alive 0 p2" by (simp add: alive_def)
  ultimately show ?thesis
    by (simp only: workshop.simps) blast
qed

end
