(* ===== verification/ConnectSteps.thy ===== *)
theory ConnectSteps
imports Workers
begin

text \<open>
  The thread of the socket: \<open>connect\<close> starts it, and it resolves the address, connects, and runs the whole chain of
  requests, while the thread that called \<open>start()\<close> has gone on. Here the chain of a watcher is cut into its requests,
  one step each; a start that nobody disturbs is shown to be the start of the sequential model.
\<close>

section \<open>The chain of requests, one at a time\<close>

datatype request =
    SendC0 | SendC1 | ReceiveS0 | ReceiveS1 | SendC2 handshake_c1 | ReceiveS2
  | SendSetChunkSize | SendConnectCommandMessage | ReceiveWindowAcknowledgeSize | ReceiveSetPeerBandWidth
  | SendWindowAcknowledgeSize | ReceiveSetChunkSize | ReceiveConnectionCommandResponse | SendCreateStreamCommand
  | ReceiveCreateStreamCommandResponse | SendPlayCommandMessage | ReceiveStreamBeginMessage
  | ReceivePlayOnStatusCommandMessageResponse | ReceiveRtmpSampleAccessMessage
  | SessionReady | StartMediaPacketRetriever | AnnounceHandshake

text \<open>What is left to do when a request has been sent or read: the next request, or nothing; behind S2 there is always
  the announcement of the handshake, which \<open>receiveS2\<close> makes when everything it called has returned.\<close>

type_synonym 'w progress = "(request option \<times> 'w watcher_session) option"

definition sent_then :: "'w host \<Rightarrow> ('p \<Rightarrow> v8) \<Rightarrow> 'p \<Rightarrow> request option \<Rightarrow> request option \<Rightarrow> 'w watcher_session \<Rightarrow> 'w progress" where
  "sent_then e ser packet next back s =
     (case sendPacket session_handler (net e) ser packet s of
        (ec, n, s) \<Rightarrow> Some (if ec = NoError then next else back, s))"

definition received_then ::
  "'w host \<Rightarrow> nat \<Rightarrow> (v8 \<Rightarrow> 'p option) \<Rightarrow> ('p \<Rightarrow> 'w watcher_session \<Rightarrow> 'w progress) \<Rightarrow> request option
    \<Rightarrow> 'w watcher_session \<Rightarrow> 'w progress" where
  "received_then e n deser next back s =
     do { (ec, k, packet, s) \<leftarrow> receivePacket session_handler (net e) n deser s;
          if ec = NoError then next packet s else Some (back, s) }"

definition received_dynamic_then ::
  "'w host \<Rightarrow> nat \<Rightarrow> (v8 \<Rightarrow> 'm rtmp_message_scheme option) \<Rightarrow> ('m rtmp_message_scheme \<Rightarrow> 'm rtmp_message_scheme option)
    \<Rightarrow> ('m rtmp_message_scheme \<Rightarrow> 'w watcher_session \<Rightarrow> 'w progress) \<Rightarrow> request option \<Rightarrow> 'w watcher_session \<Rightarrow> 'w progress" where
  "received_dynamic_then e n deser parse next back s =
     do { (ec, k, packet, s) \<leftarrow> receiveDynamicPacket session_handler (net e) n deser parse s;
          if ec = NoError then next packet s else Some (back, s) }"

definition while_open :: "('w watcher_session \<Rightarrow> 'w progress) \<Rightarrow> 'w watcher_session \<Rightarrow> 'w progress" where
  "while_open f s = (if sock_open s then f s else Some (Some AnnounceHandshake, s))"

abbreviation "unwind \<equiv> Some AnnounceHandshake"

fun request_step :: "'w host \<Rightarrow> request \<Rightarrow> 'w watcher_session \<Rightarrow> 'w progress" where
  "request_step e SendC0 s = sent_then e (\<lambda>p. c0_data (c0_serialize p)) new_c0 (Some SendC1) None s"
| "request_step e SendC1 s =
     sent_then e (\<lambda>p. c1_data (c1_serialize (rng e (sock_world s)) p)) new_c1 (Some ReceiveS0) None s"
| "request_step e ReceiveS0 s = received_then e c0_defaultSize (\<lambda>data. Some (c0_deserialize data new_c0))
     (\<lambda>s0 s. Some (if c0_version s0 = session_version then Some ReceiveS1 else None, s)) None s"
| "request_step e ReceiveS1 s = received_then e c1_defaultSize (\<lambda>data. c1_deserialize data new_c1)
     (\<lambda>s1 s. Some (Some (SendC2 s1), s)) None s"
| "request_step e (SendC2 s1) s =
     (let w = sock_world s in
      sent_then e (\<lambda>p. c1_data (c2_serialize (rng e w) p)) (new_c2 (currentTimeMillis e w) s1) (Some ReceiveS2) None s)"
| "request_step e ReceiveS2 s = received_then e c1_defaultSize (\<lambda>data. c1_deserialize data new_c1)
     (\<lambda>s2 s. Some (Some SendSetChunkSize, s)) None s"
| "request_step e SendSetChunkSize s =
     while_open (\<lambda>s. do { command \<leftarrow> set_chunk_size_serialize (set_chunk_size_message (cfg_chunkSize (settings s)));
                          sent_then e payload command (Some SendConnectCommandMessage) unwind s }) s"
| "request_step e SendConnectCommandMessage s =
     while_open (\<lambda>s. sent_then e (\<lambda>m. payload (connect_serialize (dict_order e) m))
                       (connect_message (sock_address s) (sock_port s) (appName s))
                       (Some ReceiveWindowAcknowledgeSize) unwind s) s"
| "request_step e ReceiveWindowAcknowledgeSize s =
     while_open (received_then e window_ack_defaultSize (\<lambda>data. window_ack_deserialize data new_window_ack_message)
       (\<lambda>packet s. Some (Some ReceiveSetPeerBandWidth, s\<lparr>windowAck := windowAcknowledgementSize packet\<rparr>)) unwind) s"
| "request_step e ReceiveSetPeerBandWidth s =
     while_open (received_then e set_peer_bandwidth_defaultSize
       (\<lambda>data. set_peer_bandwidth_deserialize data new_set_peer_bandwidth_message)
       (\<lambda>packet s. Some (Some SendWindowAcknowledgeSize, s)) unwind) s"
| "request_step e SendWindowAcknowledgeSize s =
     while_open (\<lambda>s. if windowAck s \<le> 0 then Some (unwind, s)
       else sent_then e (\<lambda>m. payload (window_ack_serialize m)) (window_ack_message (windowAck s))
              (Some ReceiveSetChunkSize) unwind s) s"
| "request_step e ReceiveSetChunkSize s =
     while_open (received_then e set_chunk_size_defaultSize
       (\<lambda>data. set_chunk_size_deserialize data new_set_chunk_size_message)
       (\<lambda>packet s. do { n \<leftarrow> scs_chunkSize packet;
                        Some (Some ReceiveConnectionCommandResponse, s\<lparr>settings := (settings s)\<lparr>cfg_chunkSize := n\<rparr>\<rparr>) })
       unwind) s"
| "request_step e ReceiveConnectionCommandResponse s =
     while_open (received_dynamic_then e response_headerSize
       (\<lambda>data. response_deserialize data new_connect_message) connect_response_deserialize_payload
       (\<lambda>packet s. Some (if connect_response_isSuccessfull packet then Some SendCreateStreamCommand else unwind, s)) unwind) s"
| "request_step e SendCreateStreamCommand s =
     while_open (sent_then e (\<lambda>m. payload (create_stream_serialize (dict_order e) m)) create_stream_message
       (Some ReceiveCreateStreamCommandResponse) unwind) s"
| "request_step e ReceiveCreateStreamCommandResponse s =
     while_open (received_dynamic_then e response_headerSize
       (\<lambda>data. response_deserialize data create_stream_message) create_stream_response_deserialize_payload
       (\<lambda>packet s. Some (if create_stream_response_isSuccessfull packet then Some SendPlayCommandMessage else unwind, s)) unwind) s"
| "request_step e SendPlayCommandMessage s =
     while_open (\<lambda>s. sent_then e (\<lambda>m. payload (play_serialize m)) (play_message (session_streamName s))
       (Some ReceiveStreamBeginMessage) unwind s) s"
| "request_step e ReceiveStreamBeginMessage s =
     while_open (received_dynamic_then e response_headerSize
       (\<lambda>data. stream_begin_deserialize data new_stream_begin_message) stream_begin_deserialize_payload
       (\<lambda>packet s. Some (Some ReceivePlayOnStatusCommandMessageResponse, s)) unwind) s"
| "request_step e ReceivePlayOnStatusCommandMessageResponse s =
     while_open (received_dynamic_then e response_headerSize
       (\<lambda>data. response_deserialize data new_command_message) onstatus_response_deserialize_payload
       (\<lambda>packet s. Some
          (if onstatus_response_isSuccessfull packet then (Some ReceiveRtmpSampleAccessMessage, s)
           else (unwind, socket_close session_handler (net e) (notify_session (SocketEvent ReconnectionRequired) s)))) unwind) s"
| "request_step e ReceiveRtmpSampleAccessMessage s =
     while_open (received_dynamic_then e response_headerSize
       (\<lambda>data. response_deserialize data new_sample_access_message) sample_access_deserialize_payload
       (\<lambda>packet s. Some (if sample_access_isSuccessfull packet then Some SessionReady else unwind, s)) unwind) s"
| "request_step e SessionReady s = Some (Some StartMediaPacketRetriever, watcher_sessionReady e s)"
| "request_step e StartMediaPacketRetriever s = Some (unwind, watcher_startMediaPacketRetriever s)"
| "request_step e AnnounceHandshake s = Some (None, notify_session HandshakeDone s)"

text \<open>How far a request is from the end of the chain.\<close>

fun requests_left :: "request \<Rightarrow> nat" where
  "requests_left SendC0 = 22" | "requests_left SendC1 = 21" | "requests_left ReceiveS0 = 20" | "requests_left ReceiveS1 = 19"
| "requests_left (SendC2 s1) = 18" | "requests_left ReceiveS2 = 17" | "requests_left SendSetChunkSize = 16"
| "requests_left SendConnectCommandMessage = 15" | "requests_left ReceiveWindowAcknowledgeSize = 14"
| "requests_left ReceiveSetPeerBandWidth = 13" | "requests_left SendWindowAcknowledgeSize = 12"
| "requests_left ReceiveSetChunkSize = 11" | "requests_left ReceiveConnectionCommandResponse = 10"
| "requests_left SendCreateStreamCommand = 9" | "requests_left ReceiveCreateStreamCommandResponse = 8"
| "requests_left SendPlayCommandMessage = 7" | "requests_left ReceiveStreamBeginMessage = 6"
| "requests_left ReceivePlayOnStatusCommandMessageResponse = 5" | "requests_left ReceiveRtmpSampleAccessMessage = 4"
| "requests_left SessionReady = 3" | "requests_left StartMediaPacketRetriever = 2" | "requests_left AnnounceHandshake = 1"

lemmas request_helpers = sent_then_def received_then_def received_dynamic_then_def while_open_def

lemma request_step_left: "request_step e r s = Some (Some r', s') \<Longrightarrow> requests_left r' < requests_left r"
  by (cases r) (auto simp: request_helpers Let_def split: Option.bind_splits prod.splits if_splits)

text \<open>The rest of the chain from a request on, as the sequential model has it.\<close>

fun request_chain :: "'w host \<Rightarrow> request \<Rightarrow> 'w watcher_session \<Rightarrow> 'w watcher_session option" where
  "request_chain e SendC0 s = sendC0 e (watcher_handshakeCompleted e) s"
| "request_chain e SendC1 s = sendC1 e (watcher_handshakeCompleted e) s"
| "request_chain e ReceiveS0 s = receiveS0 e (watcher_handshakeCompleted e) s"
| "request_chain e ReceiveS1 s = receiveS1 e (watcher_handshakeCompleted e) s"
| "request_chain e (SendC2 s1) s = sendC2 e (watcher_handshakeCompleted e) s1 s"
| "request_chain e ReceiveS2 s = receiveS2 e (watcher_handshakeCompleted e) s"
| "request_chain e SendSetChunkSize s = map_option (notify_session HandshakeDone) (watcher_sendSetChunkSize e s)"
| "request_chain e SendConnectCommandMessage s = map_option (notify_session HandshakeDone) (watcher_sendConnectCommandMessage e s)"
| "request_chain e ReceiveWindowAcknowledgeSize s =
     map_option (notify_session HandshakeDone) (watcher_receiveWindowAcknowledgeSize e s)"
| "request_chain e ReceiveSetPeerBandWidth s = map_option (notify_session HandshakeDone) (watcher_receiveSetPeerBandWidth e s)"
| "request_chain e SendWindowAcknowledgeSize s = map_option (notify_session HandshakeDone) (watcher_sendWindowAcknowledgeSize e s)"
| "request_chain e ReceiveSetChunkSize s = map_option (notify_session HandshakeDone) (watcher_receiveSetChunkSize e s)"
| "request_chain e ReceiveConnectionCommandResponse s =
     map_option (notify_session HandshakeDone) (watcher_receiveConnectionCommandResponse e s)"
| "request_chain e SendCreateStreamCommand s = map_option (notify_session HandshakeDone) (watcher_sendCreateStreamCommand e s)"
| "request_chain e ReceiveCreateStreamCommandResponse s =
     map_option (notify_session HandshakeDone) (watcher_receiveCreateStreamCommandResponse e s)"
| "request_chain e SendPlayCommandMessage s = map_option (notify_session HandshakeDone) (watcher_sendPlayCommandMessage e s)"
| "request_chain e ReceiveStreamBeginMessage s = map_option (notify_session HandshakeDone) (watcher_receiveStreamBeginMessage e s)"
| "request_chain e ReceivePlayOnStatusCommandMessageResponse s =
     map_option (notify_session HandshakeDone) (watcher_receivePlayOnStatusCommandMessageResponse e s)"
| "request_chain e ReceiveRtmpSampleAccessMessage s =
     map_option (notify_session HandshakeDone) (watcher_receiveRtmpSampleAccessMessage e s)"
| "request_chain e SessionReady s =
     Some (notify_session HandshakeDone (watcher_startMediaPacketRetriever (watcher_sessionReady e s)))"
| "request_chain e StartMediaPacketRetriever s = Some (notify_session HandshakeDone (watcher_startMediaPacketRetriever s))"
| "request_chain e AnnounceHandshake s = Some (notify_session HandshakeDone s)"

lemmas chain_helpers = send_then_def receive_then_def receive_dynamic_then_def if_open_def
lemmas handshake_chain = sendC0_def sendC1_def receiveS0_def receiveS1_def sendC2_def receiveS2_def watcher_handshakeCompleted_def
lemmas watcher_chain = watcher_sendSetChunkSize_def watcher_sendConnectCommandMessage_def watcher_receiveWindowAcknowledgeSize_def
  watcher_receiveSetPeerBandWidth_def watcher_sendWindowAcknowledgeSize_def watcher_receiveSetChunkSize_def
  watcher_receiveConnectionCommandResponse_def watcher_sendCreateStreamCommand_def watcher_receiveCreateStreamCommandResponse_def
  watcher_sendPlayCommandMessage_def watcher_receiveStreamBeginMessage_def watcher_receivePlayOnStatusCommandMessageResponse_def
  watcher_receiveRtmpSampleAccessMessage_def

lemma request_chain_step:
  "request_chain e r s =
     (case request_step e r s of None \<Rightarrow> None | Some (None, s') \<Rightarrow> Some s' | Some (Some r', s') \<Rightarrow> request_chain e r' s')"
proof (cases r)
  case SendC0
  then show ?thesis by (simp add: sendC0_def chain_helpers request_helpers split: prod.split)
next
  case SendC1
  then show ?thesis by (simp add: sendC1_def chain_helpers request_helpers split: prod.split)
next
  case ReceiveS0
  then show ?thesis
    by (auto simp: receiveS0_def chain_helpers request_helpers split: Option.bind_split)
next
  case ReceiveS1
  then show ?thesis
    by (auto simp: receiveS1_def chain_helpers request_helpers split: Option.bind_split)
next
  case (SendC2 s1)
  then show ?thesis by (simp add: sendC2_def chain_helpers request_helpers Let_def split: prod.split)
next
  case ReceiveS2
  then show ?thesis
    by (auto simp: receiveS2_def watcher_handshakeCompleted_def chain_helpers request_helpers map_option_case
        split: Option.bind_split option.split)
qed (auto simp: watcher_chain chain_helpers request_helpers split: Option.bind_split prod.split)

section \<open>The thread of the socket\<close>

text \<open>It resolves the address and connects, tells each delegate that it is connected, and is inside the chain of
  requests when that delegate is the session. \<open>async_connect\<close> opens the socket; when somebody closes the socket before
  the connection stands, its result is \<open>operation_aborted\<close>.\<close>

datatype conn_phase = Resolving | Connecting | Telling "delegate list" | Requesting request "delegate list" | Finished

fun conn_step :: "'w host \<Rightarrow> conn_phase \<Rightarrow> 'w watcher_session \<Rightarrow> (conn_phase \<times> 'w watcher_session) option" where
  "conn_step e Resolving s =
     (let s = notify session_handler WillConnect s in
      case tr_resolve (net e) (sock_address s) (sock_port s) (sock_world s) of
        (ec, w) \<Rightarrow>
          let s = s\<lparr>sock_world := w\<rparr> in
          Some (if ec = NoError then (Connecting, s\<lparr>sock_open := True\<rparr>)
                else (Finished, notify_failure session_handler (resolve_failed (net e) ec s) s)))"
| "conn_step e Connecting s =
     (case (if sock_open s then tr_connect (net e) (sock_world s) else (OperationAborted, False, sock_world s)) of
        (ec, is_open, w) \<Rightarrow>
          let s = s\<lparr>sock_world := w, sock_open := is_open\<rparr> in
          Some (if ec = NoError \<and> sock_open s then (Telling (invoke_targets (\<lambda>_. True) (sock_delegates s)), s)
                else (Finished, notify_failure session_handler (connect_failed (net e) ec s) s)))"
| "conn_step e (Telling []) s = Some (Finished, s)"
| "conn_step e (Telling (UserDelegate n # ds)) s = Some (Telling ds, call n (SocketEvent DidConnect) s)"
| "conn_step e (Telling (SessionDelegate # ds)) s = Some (Requesting SendC0 ds, s)"
| "conn_step e (Requesting r ds) s =
     (case request_step e r s of
        None \<Rightarrow> None
      | Some (None, s) \<Rightarrow> Some (Telling ds, s)
      | Some (Some r, s) \<Rightarrow> Some (Requesting r ds, s))"
| "conn_step e Finished s = Some (Finished, s)"

fun conn_steps :: "'w host \<Rightarrow> nat \<Rightarrow> conn_phase \<Rightarrow> 'w watcher_session \<Rightarrow> (conn_phase \<times> 'w watcher_session) option" where
  "conn_steps e 0 ph s = Some (ph, s)"
| "conn_steps e (Suc k) ph s = (case conn_step e ph s of None \<Rightarrow> None | Some (ph, s) \<Rightarrow> conn_steps e k ph s)"

text \<open>What \<open>start()\<close> does before the thread runs.\<close>

definition registered :: "'w watcher_session \<Rightarrow> 'w watcher_session" where
  "registered s = socket_addDelegate SessionDelegate (socket_removeDelegate SessionDelegate s)"

definition before_thread :: "'w host \<Rightarrow> string \<Rightarrow> string \<Rightarrow> 'w watcher_session \<Rightarrow> 'w watcher_session" where
  "before_thread e address port s =
     (socket_close session_handler (net e) (registered s))\<lparr>sock_address := address, sock_port := port\<rparr>"

text \<open>What is left for the thread to do, as the sequential model has it.\<close>

fun conn_rest :: "'w host \<Rightarrow> conn_phase \<Rightarrow> 'w watcher_session \<Rightarrow> 'w watcher_session option" where
  "conn_rest e Resolving s = resolve session_handler (net e) (session_didConnect (watcher_handshake e)) s"
| "conn_rest e Connecting s = connectImpl session_handler (net e) (session_didConnect (watcher_handshake e)) s"
| "conn_rest e (Telling ds) s = for_each (session_didConnect (watcher_handshake e)) ds s"
| "conn_rest e (Requesting r ds) s =
     do { s \<leftarrow> request_chain e r s; for_each (session_didConnect (watcher_handshake e)) ds s }"
| "conn_rest e Finished s = Some s"

lemma conn_rest_step:
  assumes "ph = Connecting \<longrightarrow> sock_open s"
  shows "conn_rest e ph s = do { (ph', s') \<leftarrow> conn_step e ph s; conn_rest e ph' s' }"
proof (cases ph)
  case Resolving
  then show ?thesis
    by (simp add: resolve_def connectImpl_def Let_def split: prod.split)
next
  case Connecting
  with assms show ?thesis
    by (simp add: connectImpl_def Let_def split: prod.split)
next
  case (Telling ds)
  then show ?thesis
    by (cases "(e, Telling ds, s)" rule: conn_step.cases)
       (simp_all add: session_didConnect_def watcher_handshake_def client_handshake_def)
next
  case (Requesting r ds)
  then show ?thesis
    by (subst Requesting, subst conn_rest.simps, subst request_chain_step)
       (simp split: option.split prod.split)
qed simp

lemma conn_step_connecting: "conn_step e ph s = Some (Connecting, s') \<Longrightarrow> sock_open s'"
  by (cases "(e, ph, s)" rule: conn_step.cases) (auto simp: Let_def split: prod.splits option.splits if_splits)

lemma Finished_stays [simp]: "conn_steps e k Finished s = Some (Finished, s)"
  by (induction k) simp_all

lemma conn_steps_add:
  "conn_steps e (j + k) ph s = do { (ph', s') \<leftarrow> conn_steps e j ph s; conn_steps e k ph' s' }"
  by (induction j arbitrary: ph s) (simp_all split: option.split prod.split)

text \<open>How many steps the thread still takes, behind the connection.\<close>

fun telling_left :: "delegate list \<Rightarrow> nat" where
  "telling_left [] = 1"
| "telling_left (UserDelegate n # ds) = Suc (telling_left ds)"
| "telling_left (SessionDelegate # ds) = 23 + telling_left ds"

fun conn_left :: "delegate list \<Rightarrow> conn_phase \<Rightarrow> nat" where
  "conn_left ds Resolving = Suc (Suc (telling_left ds))"
| "conn_left ds Connecting = Suc (telling_left ds)"
| "conn_left _ (Telling ds) = telling_left ds"
| "conn_left _ (Requesting r ds) = requests_left r + telling_left ds"
| "conn_left _ Finished = 0"

lemma telling_left_pos [simp]: "0 < telling_left ds"
  by (cases ds rule: telling_left.cases) simp_all

lemma requests_left_pos [simp]: "0 < requests_left r"
  by (cases r) simp_all

lemma conn_step_left:
  assumes "conn_step e ph s = Some (ph', s')" and "ph \<noteq> Finished"
  shows "conn_left (sock_delegates s') ph' < conn_left (sock_delegates s) ph"
proof -
  have n: "sock_delegates (notify session_handler ev t) = sock_delegates t" for ev and t :: "'a watcher_session"
    using quiet_notify [of t ev] by (simp add: quiet_def kept_def)
  show ?thesis
    using assms
    by (cases "(e, ph, s)" rule: conn_step.cases)
       (auto simp: Let_def n dest: request_step_left split: prod.splits option.splits if_splits)
qed

lemma conn_steps_rest:
  assumes "ph = Connecting \<longrightarrow> sock_open s"
  shows "\<exists>k \<le> conn_left (sock_delegates s) ph. conn_steps e k ph s = map_option (Pair Finished) (conn_rest e ph s)"
  using assms
proof (induction "conn_left (sock_delegates s) ph" arbitrary: ph s rule: less_induct)
  case less
  show ?case
  proof (cases "ph = Finished")
    case False
    show ?thesis
    proof (cases "conn_step e ph s")
      case None
      then have "conn_steps e 1 ph s = map_option (Pair Finished) (conn_rest e ph s)"
        using conn_rest_step [OF less.prems] by simp
      moreover have "0 < conn_left (sock_delegates s) ph" using False by (cases ph) simp_all
      ultimately show ?thesis by (intro exI [of _ 1]) simp
    next
      case (Some r)
      then obtain ph' s' where r: "conn_step e ph s = Some (ph', s')" by (cases r) auto
      from conn_step_left [OF r False] less.hyps [of s' ph'] conn_step_connecting r obtain k where
        "k \<le> conn_left (sock_delegates s') ph'" "conn_steps e k ph' s' = map_option (Pair Finished) (conn_rest e ph' s')"
        by blast
      with conn_step_left [OF r False] conn_rest_step [OF less.prems] r show ?thesis
        by (intro exI [of _ "Suc k"]) simp
    qed
  qed (simp add: exI [of _ 0])
qed

text \<open>A start that nobody disturbs: the steps of the thread of the socket, one after the other, make exactly what the
  start of the sequential model makes, whether that is a session that plays, one that has failed, or undefined.\<close>

theorem undisturbed_start:
  assumes "address \<noteq> []" and "port \<noteq> []"
  shows "\<exists>k \<le> 26 + 23 * length (sock_delegates s).
    conn_steps e k Resolving (before_thread e address port s) =
      map_option (Pair Finished) (start_connection e (watcher_handshake e) address port s)"
proof -
  let ?s = "before_thread e address port s"
  have "sock_delegates (socket_close session_handler (net e) (registered s)) = sock_delegates (registered s)"
    using quiet_close [of "registered s" "net e"] by (simp add: quiet_def kept_def)
  moreover have "length (removeDelegate (\<lambda>_. True) SessionDelegate q) \<le> length q" for q
    by (induction q) simp_all
  ultimately have "length (sock_delegates ?s) \<le> Suc (length (sock_delegates s))"
    by (simp add: before_thread_def registered_def socket_addDelegate_def socket_removeDelegate_def addDelegate_def)
  moreover have "telling_left ds \<le> Suc (23 * length ds)" for ds
    by (induction ds rule: telling_left.induct) simp_all
  from this [of "sock_delegates ?s"] have "conn_left (sock_delegates ?s) Resolving \<le> 3 + 23 * length (sock_delegates ?s)"
    by simp
  ultimately have "conn_left (sock_delegates ?s) Resolving \<le> 26 + 23 * length (sock_delegates s)"
    by simp
  moreover have "start_connection e (watcher_handshake e) address port s = conn_rest e Resolving ?s"
    using assms by (simp add: start_connection_def socket_connect_def before_thread_def registered_def Let_def)
  moreover obtain k where "k \<le> conn_left (sock_delegates ?s) Resolving"
    "conn_steps e k Resolving ?s = map_option (Pair Finished) (conn_rest e Resolving ?s)"
    using conn_steps_rest [of Resolving ?s e] by auto
  ultimately show ?thesis
    by (intro exI [of _ k]) simp
qed

theorem undisturbed_start_witness:
  "\<exists>k s'. k \<le> 49 \<and> conn_steps answering_host k Resolving (before_thread answering_host ''h'' ''1935''
       (idle_watcher\<lparr>appName := ''app'', session_streamName := ''cam''\<rparr>)) = Some (Finished, s') \<and> \<not> stopped s'"
proof -
  let ?s = "idle_watcher\<lparr>appName := ''app'', session_streamName := ''cam''\<rparr>"
  obtain s' where s': "start_connection answering_host (watcher_handshake answering_host) ''h'' ''1935'' ?s = Some s'" "\<not> stopped s'"
    using answered_start [of idle_watcher] by (auto simp: session_start_def)
  have "length (sock_delegates ?s) = 1"
    using idle_watcher(1) by (cases idle_watcher) simp
  with undisturbed_start [of "''h''" "''1935''" ?s answering_host] s' show ?thesis by auto
qed

end
