(* ===== verification/ConnectThread.thy ===== *)
theory ConnectThread
imports ConnectSteps
begin

text \<open>
  The controller of a watcher, the thread of its socket and its worker, which take their steps in any order, and what
  they keep. One request of the chain is one step, and so is a turn of the worker; the delegates do not call the session
  back. \<open>close()\<close> waits for the thread of the socket, so a step in which
  another thread closes the socket can only be taken when that thread has finished.
\<close>

section \<open>The threads\<close>

text \<open>\<open>conn_thread\<close> is the thread that \<open>thread_\<close> of the socket stands for. When \<open>closing\<close> is a thread, the controller is in
  \<open>close()\<close> and waits for it; behind that it connects again, or returns from \<open>end()\<close>.\<close>

record 'w station =
  shop :: "'w workshop"
  conns :: "nat \<Rightarrow> conn_phase option"
  conn_count :: nat
  conn_thread :: "nat option"
  closing :: "(nat \<times> (string \<times> string) option) option"

definition new_station :: "'w watcher_session \<Rightarrow> 'w station" where
  "new_station s = \<lparr> shop = new_workshop s, conns = Map.empty, conn_count = 0, conn_thread = None, closing = None \<rparr>"

abbreviation the_session :: "'w station \<Rightarrow> 'w watcher_session" where
  "the_session p \<equiv> shop_session (shop p)"

definition with_shop_session :: "'w watcher_session \<Rightarrow> 'w station \<Rightarrow> 'w station" where
  "with_shop_session s p = p\<lparr>shop := (shop p)\<lparr>shop_session := s\<rparr>\<rparr>"

definition controller_idle :: "'w station \<Rightarrow> bool" where
  "controller_idle p \<longleftrightarrow> controller_joins (shop p) = None \<and> closing p = None"

text \<open>\<open>thread_ = boost::thread(...)\<close>: a thread that was joinable is detached.\<close>

fun start_thread :: "(string \<times> string) option \<Rightarrow> 'w station \<Rightarrow> 'w station" where
  "start_thread None p = p"
| "start_thread (Some (address, port)) p =
     (with_shop_session ((the_session p)\<lparr>sock_address := address, sock_port := port\<rparr>) p)
       \<lparr>conns := (conns p)(conn_count p \<mapsto> Resolving), conn_thread := Some (conn_count p), conn_count := Suc (conn_count p)\<rparr>"

text \<open>The controller was in a call that may have closed the socket.\<close>

definition controller_closed :: "'w workshop \<Rightarrow> (string \<times> string) option \<Rightarrow> 'w station \<Rightarrow> 'w station" where
  "controller_closed sh next p =
     (let p' = p\<lparr>shop := sh\<rparr> in
      if sock_open (the_session p) \<and> \<not> sock_open (shop_session sh) then
        (case conn_thread p of
           Some n \<Rightarrow> p'\<lparr>closing := Some (n, next)\<rparr>
         | None \<Rightarrow> start_thread next p')
      else start_thread next p')"

definition station_start :: "'w host \<Rightarrow> string \<Rightarrow> string \<Rightarrow> string \<Rightarrow> string \<Rightarrow> 'w station \<Rightarrow> 'w station" where
  "station_start e address port app stream p =
     (let s = registered ((the_session p)\<lparr>appName := app, session_streamName := stream\<rparr>) in
      if address = [] \<or> port = [] then with_shop_session s p
      else controller_closed ((shop p)\<lparr>shop_session := socket_close session_handler (net e) s\<rparr>) (Some (address, port)) p)"

definition station_end :: "'w host \<Rightarrow> 'w station \<Rightarrow> 'w station" where
  "station_end e p = controller_closed (end_called e None (shop p)) None p"

text \<open>The thread of the socket, or a worker, has gone from the session \<open>s\<close> to \<open>s'\<close>: \<open>close()\<close> detaches the thread of the
  socket when it is called by itself, and joins it otherwise.\<close>

definition closed_by :: "nat option \<Rightarrow> 'w watcher_session \<Rightarrow> 'w watcher_session \<Rightarrow> 'w station \<Rightarrow> bool" where
  "closed_by me s s' p \<longleftrightarrow> sock_open s \<and> \<not> sock_open s' \<and> (me = None \<or> (\<exists>n r ds. me = Some n \<and> conns p n = Some (Requesting r ds)))"

definition may_close :: "nat option \<Rightarrow> 'w station \<Rightarrow> bool" where
  "may_close me p \<longleftrightarrow> (case conn_thread p of None \<Rightarrow> True | Some m \<Rightarrow> me = Some m \<or> conns p m = Some Finished)"

datatype station_event =
    CStarts string string string string
  | CEnds
  | CJoined
  | CClosed
  | CConn nat
  | CThrows nat
  | CWorker worker_event

fun of_worker :: "worker_event \<Rightarrow> bool" where
  "of_worker (Starts who) \<longleftrightarrow> False" | "of_worker (Ends who) \<longleftrightarrow> False" | "of_worker (Joined who) \<longleftrightarrow> False"
| "of_worker ev \<longleftrightarrow> True"

inductive station_step :: "'w host \<Rightarrow> station_event \<Rightarrow> 'w station \<Rightarrow> 'w station \<Rightarrow> bool" for e where
  starts: "\<not> crashed (shop p) \<Longrightarrow> controller_idle p \<Longrightarrow>
    station_step e (CStarts address port app stream) p (station_start e address port app stream p)"
| ends: "\<not> crashed (shop p) \<Longrightarrow> controller_idle p \<Longrightarrow> station_step e CEnds p (station_end e p)"
| joined: "closing p = None \<Longrightarrow> worker_step e (Joined None) (shop p) sh \<Longrightarrow> station_step e CJoined p (controller_closed sh None p)"
| closed: "\<not> crashed (shop p) \<Longrightarrow> closing p = Some (n, next) \<Longrightarrow> conns p n = Some Finished \<Longrightarrow>
    station_step e CClosed p (start_thread next (p\<lparr>closing := None, conn_thread := None\<rparr>))"
| conn: "\<not> crashed (shop p) \<Longrightarrow> conns p n = Some ph \<Longrightarrow> ph \<noteq> Finished \<Longrightarrow> conn_step e ph (the_session p) = Some (ph', s') \<Longrightarrow>
    closed_by (Some n) (the_session p) s' p \<longrightarrow> may_close (Some n) p \<Longrightarrow>
    station_step e (CConn n) p
      (p\<lparr>shop := launch s' (shop p), conns := (conns p)(n \<mapsto> ph'),
         conn_thread := (if closed_by (Some n) (the_session p) s' p then None else conn_thread p)\<rparr>)"
| throws: "\<not> crashed (shop p) \<Longrightarrow> conns p n = Some ph \<Longrightarrow> conn_step e ph (the_session p) = None \<Longrightarrow>
    station_step e (CThrows n) p (p\<lparr>shop := (shop p)\<lparr>crashed := True\<rparr>\<rparr>)"
| work: "of_worker ev \<Longrightarrow> worker_step e ev (shop p) sh \<Longrightarrow>
    closed_by None (the_session p) (shop_session sh) p \<longrightarrow> may_close None p \<Longrightarrow>
    station_step e (CWorker ev) p
      (p\<lparr>shop := sh, conn_thread := (if closed_by None (the_session p) (shop_session sh) p then None else conn_thread p)\<rparr>)"

inductive_cases station_stepE: "station_step e ev p p'"
inductive_simps station_step_simps [simp]:
  "station_step e (CStarts address port app stream) p p'" "station_step e CEnds p p'" "station_step e CJoined p p'"
  "station_step e CClosed p p'" "station_step e (CConn n) p p'" "station_step e (CThrows n) p p'" "station_step e (CWorker ev) p p'"

inductive station_run :: "'w host \<Rightarrow> station_event list \<Rightarrow> 'w station \<Rightarrow> 'w station \<Rightarrow> bool" for e where
  none: "station_run e [] p p"
| some: "station_step e ev p p1 \<Longrightarrow> station_run e evs p1 p' \<Longrightarrow> station_run e (ev # evs) p p'"

inductive_simps station_run_simps [simp]: "station_run e [] p p'" "station_run e (ev # evs) p p'"

section \<open>A controller that starts the session when its threads have ended\<close>

definition conn_alive :: "nat \<Rightarrow> 'w station \<Rightarrow> bool" where
  "conn_alive n p \<longleftrightarrow> (\<exists>ph. conns p n = Some ph \<and> ph \<noteq> Finished)"

definition still :: "'w station \<Rightarrow> bool" where
  "still p \<longleftrightarrow> (\<forall>n. \<not> conn_alive n p) \<and> (\<forall>n. \<not> alive n (shop p))"

fun polite :: "station_event \<Rightarrow> 'w station \<Rightarrow> bool" where
  "polite (CStarts address port app stream) p \<longleftrightarrow> still p"
| "polite (CThrows n) p \<longleftrightarrow> False"
| "polite (CWorker (Throws n)) p \<longleftrightarrow> False"
| "polite ev p \<longleftrightarrow> True"

text \<open>The thread of the socket may still start a worker.\<close>

fun may_launch :: "conn_phase \<Rightarrow> bool" where
  "may_launch (Telling ds) \<longleftrightarrow> SessionDelegate \<in> set ds"
| "may_launch (Requesting r ds) \<longleftrightarrow> r \<noteq> AnnounceHandshake"
| "may_launch Finished \<longleftrightarrow> False"
| "may_launch _ \<longleftrightarrow> True"

fun once :: "conn_phase \<Rightarrow> bool" where
  "once (Telling ds) \<longleftrightarrow> count_list ds SessionDelegate \<le> 1"
| "once (Requesting r ds) \<longleftrightarrow> SessionDelegate \<notin> set ds"
| "once _ \<longleftrightarrow> True"

definition settled :: "'w station \<Rightarrow> bool" where
  "settled p \<longleftrightarrow>
     orderly (shop p) \<and> (\<not> stopped (the_session p) \<longrightarrow> (\<exists>n. alive n (shop p))) \<and>
     count_list (sock_delegates (the_session p)) SessionDelegate \<le> 1 \<and>
     (\<forall>n ph. conns p n = Some ph \<longrightarrow> n < conn_count p \<and> once ph \<and>
        (ph \<noteq> Finished \<longrightarrow> Suc n = conn_count p) \<and>
        (ph = Resolving \<longrightarrow> \<not> sock_open (the_session p) \<and> conn_thread p = Some n) \<and>
        (ph \<noteq> Finished \<and> sock_open (the_session p) \<longrightarrow> conn_thread p = Some n) \<and>
        (may_launch ph \<longrightarrow> joinable (shop p) = None)) \<and>
     (\<forall>n. conn_thread p = Some n \<longrightarrow> Suc n = conn_count p \<and> conns p n \<noteq> None) \<and>
     (\<forall>n next. closing p = Some (n, next) \<longrightarrow>
        \<not> sock_open (the_session p) \<and> conn_thread p = Some n \<and> controller_joins (shop p) = None \<and>
        conns p n \<noteq> Some Resolving \<and> (next \<noteq> None \<longrightarrow> still p))"

section \<open>The invariant\<close>

lemma notify_session_socket [simp]:
  "sock_delegates (notify_session ev s) = sock_delegates s" "rtmp_session.more (notify_session ev s) = rtmp_session.more s"
  using kept_notify_session [of ev s] by (simp_all add: kept_def)

lemma quiet_socket:
  assumes "quiet s s'"
  shows "sock_delegates s' = sock_delegates s" "sock_open s' \<Longrightarrow> sock_open s"
  using assms by (auto simp: quiet_def kept_def)

lemma quiet_failure: "quiet s (notify_failure session_handler m s)"
proof -
  have "quiet s (fold (\<lambda>d s. session_handler d DidClose (session_handler d ReconnectionRequired
      (session_handler d (FailedToConnect m) s))) ds s)" for ds
  proof (induction ds arbitrary: s)
    case (Cons d ds)
    show ?case
      using quiet_trans [OF quiet_trans [OF quiet_trans [OF quiet_handler quiet_handler] quiet_handler] Cons.IH] by simp
  qed simp
  then show ?thesis by (simp add: notify_failure_def)
qed

lemma quiet_receiveDynamicPacket:
  assumes "receiveDynamicPacket session_handler tr n deser parse s = Some (ec, k, p, s')"
  shows "quiet s s'"
  using assms
  by (auto simp: receiveDynamicPacket_def split: Option.bind_splits prod.splits
      intro: quiet_trans [OF quiet_receiveData quiet_receiveData])

text \<open>What a request does to the socket and to the worker.\<close>

definition safe_change :: "'w watcher_session \<Rightarrow> 'w watcher_session \<Rightarrow> bool" where
  "safe_change s s' \<longleftrightarrow> sock_delegates s' = sock_delegates s \<and> (sock_open s' \<longrightarrow> sock_open s) \<and>
     stopped s' = stopped s \<and> worker s' = worker s"

lemma safe_quiet: "quiet s s' \<Longrightarrow> safe_change s s'"
proof -
  assume q: "quiet s s'"
  then have "rtmp_session.more s' = rtmp_session.more s" by (simp add: quiet_def kept_def)
  from kept_worker [OF this] quiet_socket [OF q] show ?thesis by (simp add: safe_change_def)
qed

lemma safe_trans: "safe_change s s1 \<Longrightarrow> safe_change s1 s2 \<Longrightarrow> safe_change s s2"
  by (simp add: safe_change_def)

lemma safe_update [simp]:
  "safe_change s (s1\<lparr>windowAck := n\<rparr>) = safe_change s s1" "safe_change s (s1\<lparr>settings := cfg\<rparr>) = safe_change s s1"
  "safe_change s (s1\<lparr>npmD := m\<rparr>) = safe_change s s1" "safe_change s s"
  by (cases s1; simp add: safe_change_def)+

lemma safe_notify_session: "safe_change s (notify_session ev s)"
  using kept_worker [of "notify_session ev s" s] by (simp add: safe_change_def)

lemma safe_sent:
  "sent_then e ser packet next back s = Some (r', s') \<Longrightarrow> safe_change s s'"
  by (auto simp: sent_then_def sendPacket_def split: prod.splits intro: safe_quiet quiet_sendData)

lemma safe_received:
  assumes "received_then e n deser next back s = Some (r', s')"
    and "\<And>p s1. next p s1 = Some (r', s') \<Longrightarrow> safe_change s1 s'"
  shows "safe_change s s'"
  using assms
  by (auto simp: received_then_def receivePacket_def bind_Some_iff split: prod.splits if_splits
      intro: safe_trans [OF safe_quiet [OF quiet_receiveData]] safe_quiet [OF quiet_receiveData])

lemma safe_received_dynamic:
  assumes "received_dynamic_then e n deser parse next back s = Some (r', s')"
    and "\<And>p s1. next p s1 = Some (r', s') \<Longrightarrow> safe_change s1 s'"
  shows "safe_change s s'"
  using assms
  by (auto simp: received_dynamic_then_def bind_Some_iff split: prod.splits if_splits
      intro: safe_trans [OF safe_quiet [OF quiet_receiveDynamicPacket]] safe_quiet [OF quiet_receiveDynamicPacket])

lemma safe_while_open:
  assumes "while_open f s = Some (r', s')" and "f s = Some (r', s') \<Longrightarrow> safe_change s s'"
  shows "safe_change s s'"
  using assms by (auto simp: while_open_def split: if_splits)

lemma safe_close_notified: "safe_change s (socket_close session_handler tr (notify_session ev s))"
  by (rule safe_trans [OF safe_notify_session safe_quiet [OF quiet_close]])

lemma request_step_safe:
  assumes "request_step e r s = Some (r', s')" and "r \<noteq> StartMediaPacketRetriever"
  shows "safe_change s s'"
proof -
  have ready: "safe_change s (watcher_sessionReady e s)"
    by (auto simp: watcher_sessionReady_def Let_def intro!: safe_trans [OF _ safe_notify_session])
  show ?thesis
    using assms
    by (cases r)
       (auto simp: Let_def bind_Some_iff ready safe_notify_session safe_close_notified split: if_splits
         intro: safe_sent elim!: safe_received safe_received_dynamic safe_while_open)
qed

text \<open>The steps of the thread of the socket.\<close>

lemma notify_delegates [simp]:
  fixes s :: "'w watcher_session"
  shows "sock_delegates (notify session_handler ev s) = sock_delegates s"
    "sock_delegates (notify_failure session_handler m s) = sock_delegates s"
  using quiet_socket(1) [OF quiet_notify [of s ev]] quiet_socket(1) [OF quiet_failure [of s m]] .

lemma conn_step_socket:
  assumes "conn_step e ph s = Some (ph', s')" and "ph \<noteq> Finished"
  shows "sock_delegates s' = sock_delegates s" "sock_open s' \<Longrightarrow> ph = Resolving \<or> sock_open s" "ph' \<noteq> Resolving"
proof -
  have start: "sock_delegates (watcher_startMediaPacketRetriever t) = sock_delegates t"
    "sock_open (watcher_startMediaPacketRetriever t) = sock_open t" for t :: "'a watcher_session"
    by (cases t, simp add: watcher_startMediaPacketRetriever_def)+
  have req: "sock_delegates s' = sock_delegates s \<and> (sock_open s' \<longrightarrow> sock_open s)" if "request_step e r s = Some (r', s')" for r r'
  proof (cases "r = StartMediaPacketRetriever")
    case False
    from request_step_safe [OF that False] show ?thesis by (simp add: safe_change_def)
  qed (use that start in auto)
  have "sock_delegates s' = sock_delegates s \<and> (sock_open s' \<longrightarrow> ph = Resolving \<or> sock_open s) \<and> ph' \<noteq> Resolving"
  proof (cases ph)
    case Connecting
    with assms(1) show ?thesis
      by (auto simp: Let_def split: prod.splits if_splits dest: quiet_socket(2) [OF quiet_failure])
  next
    case (Telling ds)
    with assms show ?thesis
      by (cases "(e, Telling ds, s)" rule: conn_step.cases) auto
  next
    case (Requesting r ds)
    with assms(1) req show ?thesis by (auto split: option.splits)
  qed (use assms in \<open>auto simp: Let_def split: prod.splits if_splits\<close>)
  then show "sock_delegates s' = sock_delegates s" "sock_open s' \<Longrightarrow> ph = Resolving \<or> sock_open s" "ph' \<noteq> Resolving"
    by blast+
qed

lemma conn_step_phase:
  assumes "conn_step e ph s = Some (ph', s')" and "once ph" and "count_list (sock_delegates s) SessionDelegate \<le> 1"
  shows "once ph'" "may_launch ph' \<Longrightarrow> may_launch ph"
proof -
  have "once ph' \<and> (may_launch ph' \<longrightarrow> may_launch ph)"
  proof (cases ph)
    case (Telling ds)
    with assms show ?thesis
      by (cases "(e, Telling ds, s)" rule: conn_step.cases) (auto simp: count_list_0_iff)
  next
    case (Requesting r ds)
    with assms(1,2) show ?thesis
      by (cases "r = AnnounceHandshake") (auto simp: count_list_0_iff split: option.splits)
  qed (use assms in \<open>auto simp: Let_def split: prod.splits if_splits\<close>)
  then show "once ph'" "may_launch ph' \<Longrightarrow> may_launch ph" by blast+
qed

lemma request_step_launch:
  assumes "request_step e r s = Some (r', s')"
  shows "spawns s s'" "stopped s \<Longrightarrow> \<not> stopped s' \<Longrightarrow> r = StartMediaPacketRetriever \<and> r' = unwind"
proof -
  have "spawns s s' \<and> (stopped s \<and> \<not> stopped s' \<longrightarrow> r = StartMediaPacketRetriever \<and> r' = unwind)"
  proof (cases "r = StartMediaPacketRetriever")
    case True
    with assms show ?thesis
      by (auto simp: watcher_startMediaPacketRetriever_def spawns_def split: if_splits)
  next
    case False
    from request_step_safe [OF assms False] show ?thesis by (simp add: safe_change_def spawns_def)
  qed
  then show "spawns s s'" "stopped s \<Longrightarrow> \<not> stopped s' \<Longrightarrow> r = StartMediaPacketRetriever \<and> r' = unwind"
    by blast+
qed

lemma same_worker [simp]:
  fixes s :: "'w watcher_session"
  shows "stopped (notify session_handler ev s) = stopped s" "worker (notify session_handler ev s) = worker s"
    "stopped (notify_failure session_handler m s) = stopped s" "worker (notify_failure session_handler m s) = worker s"
    "stopped (s\<lparr>sock_world := w\<rparr>) = stopped s" "worker (s\<lparr>sock_world := w\<rparr>) = worker s"
    "stopped (s\<lparr>sock_open := b\<rparr>) = stopped s" "worker (s\<lparr>sock_open := b\<rparr>) = worker s"
    "stopped (call n c s) = stopped s" "worker (call n c s) = worker s"
    "stopped (notify_session v s) = stopped s" "worker (notify_session v s) = worker s"
  using safe_quiet [OF quiet_notify [of s ev]] safe_quiet [OF quiet_failure [of s m]] safe_notify_session [of s v]
  by (simp_all add: safe_change_def) (cases s, simp add: call_def)+

lemma conn_step_launch:
  assumes "conn_step e ph s = Some (ph', s')" and "once ph"
  shows "spawns s s'" "stopped s \<Longrightarrow> \<not> stopped s' \<Longrightarrow> may_launch ph \<and> \<not> may_launch ph'"
    "\<not> may_launch ph \<Longrightarrow> sock_open s' = sock_open s"
proof -
  have "spawns s s' \<and> (stopped s \<and> \<not> stopped s' \<longrightarrow> may_launch ph \<and> \<not> may_launch ph') \<and>
    (\<not> may_launch ph \<longrightarrow> sock_open s' = sock_open s)"
  proof (cases ph)
    case (Telling ds)
    with assms(1) show ?thesis
      by (cases "(e, Telling ds, s)" rule: conn_step.cases) (auto simp: spawns_def)
  next
    case (Requesting r ds)
    with assms(1) obtain r' where r: "request_step e r s = Some (r', s')"
      "ph' = (case r' of None \<Rightarrow> Telling ds | Some r' \<Rightarrow> Requesting r' ds)"
      by (auto split: option.splits)
    with request_step_launch [OF r(1)] Requesting show ?thesis by auto
  qed (use assms(1) in \<open>auto simp: Let_def spawns_def split: prod.splits if_splits\<close>)
  then show "spawns s s'" "stopped s \<Longrightarrow> \<not> stopped s' \<Longrightarrow> may_launch ph \<and> \<not> may_launch ph'"
    "\<not> may_launch ph \<Longrightarrow> sock_open s' = sock_open s"
    by blast+
qed

lemma still_free:
  assumes "settled p" and "controller_idle p" and "still p"
  shows "joinable (shop p) = None" "stopped (the_session p)"
  using assms by (auto simp: settled_def controller_idle_def orderly_def still_def split: option.splits if_splits)

lemma settled_new: "stopped s \<Longrightarrow> count_list (sock_delegates s) SessionDelegate \<le> 1 \<Longrightarrow> settled (new_station s)"
  using orderly_new [of s] by (simp add: settled_def new_station_def new_workshop_def)

lemma settled_last:
  assumes "settled p" and "conn_alive n p"
  shows "Suc n = conn_count p" "conn_thread p = Some m \<Longrightarrow> m = n" "conn_alive m p \<Longrightarrow> m = n"
proof -
  have last: "Suc k = conn_count p" if "conn_alive k p" for k
    using assms(1) that by (auto simp: settled_def conn_alive_def)
  then show "Suc n = conn_count p" using assms(2) .
  show "conn_alive m p \<Longrightarrow> m = n" using last [OF assms(2)] last [of m] by simp
  assume "conn_thread p = Some m"
  then have "Suc m = conn_count p" using assms(1) by (auto simp: settled_def)
  with last [OF assms(2)] show "m = n" by simp
qed


text \<open>The steps of the controller.\<close>

lemma registered_delegates:
  assumes "count_list (sock_delegates s) SessionDelegate \<le> 1"
  shows "count_list (sock_delegates (registered s)) SessionDelegate \<le> 1"
proof -
  have "count_list (removeDelegate (\<lambda>_. True) d q) d = count_list q d - 1" for d :: delegate and q
    by (induction q) auto
  with assms show ?thesis
    by (simp add: registered_def socket_addDelegate_def socket_removeDelegate_def addDelegate_def)
qed

lemma settled_start_thread:
  assumes "settled p" and "closing p = None" and "controller_joins (shop p) = None" and "\<not> sock_open (the_session p)"
    and "next \<noteq> None \<longrightarrow> still p"
  shows "settled (start_thread next p)"
proof (cases "next")
  case (Some ap)
  obtain address port where ap: "ap = (address, port)" by (cases ap)
  have idle: "controller_idle p" using assms(2,3) by (simp add: controller_idle_def)
  from still_free [OF assms(1) idle] assms(5) Some have f: "joinable (shop p) = None" "stopped (the_session p)" "still p" by simp_all
  have "orderly (shop p)" using assms(1) by (simp add: settled_def)
  then have "orderly ((shop p)\<lparr>shop_session := (the_session p)\<lparr>sock_address := address, sock_port := port\<rparr>\<rparr>)"
    using f by (cases "the_session p") (auto simp: orderly_def alive_def)
  moreover have "stopped ((the_session p)\<lparr>sock_address := address, sock_port := port\<rparr>)"
    "sock_delegates ((the_session p)\<lparr>sock_address := address, sock_port := port\<rparr>) = sock_delegates (the_session p)"
    "\<not> sock_open ((the_session p)\<lparr>sock_address := address, sock_port := port\<rparr>)"
    using f assms(4) by (cases "the_session p", simp)+
  ultimately show ?thesis
    using assms(1,2) f unfolding Some ap
    by (auto simp: settled_def with_shop_session_def still_def conn_alive_def alive_def intro: less_SucI)
qed (use assms in simp)

lemma settled_shop:
  assumes "settled p" and "closing p = None" and "orderly sh" and "\<not> stopped (shop_session sh) \<longrightarrow> (\<exists>n. alive n sh)"
    and "count_list (sock_delegates (shop_session sh)) SessionDelegate \<le> 1"
    and "sock_open (shop_session sh) \<longrightarrow> sock_open (the_session p)" and "joinable (shop p) = None \<longrightarrow> joinable sh = None"
  shows "settled (p\<lparr>shop := sh\<rparr>)"
  using assms by (auto simp: settled_def)

lemma settled_controller_closed:
  assumes p: "settled p" "closing p = None" and sh: "settled (p\<lparr>shop := sh\<rparr>)"
    and "sock_open (the_session p) \<and> \<not> sock_open (shop_session sh) \<longrightarrow> controller_joins sh = None"
    and "next \<noteq> None \<longrightarrow> still (p\<lparr>shop := sh\<rparr>) \<and> controller_joins sh = None \<and> \<not> sock_open (shop_session sh)"
  shows "settled (controller_closed sh next p)"
proof -
  have start: "settled (start_thread next (p\<lparr>shop := sh\<rparr>))"
    using settled_start_thread [OF sh, of "next"] p(2) assms(5) sh by (cases "next") simp_all
  show ?thesis
  proof (cases "sock_open (the_session p) \<and> \<not> sock_open (shop_session sh) \<and> conn_thread p \<noteq> None")
    case True
    then obtain n where n: "conn_thread p = Some n" by auto
    have "conns p n \<noteq> Some Resolving" using p(1) True by (auto simp: settled_def)
    with n True sh assms(4,5) show ?thesis
      by (auto simp: controller_closed_def Let_def settled_def still_def conn_alive_def)
  next
    case False
    with start show ?thesis by (auto simp: controller_closed_def Let_def split: option.split)
  qed
qed

lemma settled_start:
  assumes "settled p" and "controller_idle p" and "still p"
  shows "settled (station_start e address port app stream p)"
proof -
  let ?s = "registered ((the_session p)\<lparr>appName := app, session_streamName := stream\<rparr>)"
  let ?c = "socket_close session_handler (net e) ?s"
  note f = still_free [OF assms]
  have idle: "closing p = None" "controller_joins (shop p) = None"
    using assms(2) by (simp_all add: controller_idle_def)
  have "stopped ((the_session p)\<lparr>appName := app, session_streamName := stream\<rparr>) = stopped (the_session p)"
    "sock_open ((the_session p)\<lparr>appName := app, session_streamName := stream\<rparr>) = sock_open (the_session p)"
    "sock_delegates ((the_session p)\<lparr>appName := app, session_streamName := stream\<rparr>) = sock_delegates (the_session p)"
    by (cases "the_session p", simp)+
  moreover have "stopped (registered s) = stopped s" "sock_open (registered s) = sock_open s" for s :: "'a watcher_session"
    by (cases s, simp add: registered_def socket_addDelegate_def socket_removeDelegate_def)+
  ultimately have s: "stopped ?s" "sock_open ?s = sock_open (the_session p)" "count_list (sock_delegates ?s) SessionDelegate \<le> 1"
    using f assms(1) registered_delegates [of "(the_session p)\<lparr>appName := app, session_streamName := stream\<rparr>"]
    by (simp_all add: settled_def)
  have c: "stopped ?c" "\<not> sock_open ?c" "count_list (sock_delegates ?c) SessionDelegate \<le> 1"
    using s safe_quiet [OF quiet_close [of ?s "net e"]] by (simp_all add: safe_change_def inert_session_handler)
  have "orderly ((shop p)\<lparr>shop_session := t\<rparr>)" if "stopped t" for t
    using assms(1) f that by (auto simp: settled_def orderly_def alive_def)
  then have sh: "settled (p\<lparr>shop := (shop p)\<lparr>shop_session := t\<rparr>\<rparr>)"
    if "stopped t" "count_list (sock_delegates t) SessionDelegate \<le> 1" "sock_open t \<longrightarrow> sock_open (the_session p)" for t
    using that by (intro settled_shop [OF assms(1) idle(1)]) simp_all
  have st: "still (p\<lparr>shop := (shop p)\<lparr>shop_session := t\<rparr>\<rparr>)" for t
    using assms(3) by (simp add: still_def conn_alive_def alive_def)
  show ?thesis
  proof (cases "address = [] \<or> port = []")
    case True
    with sh [OF s(1,3)] s(2) show ?thesis by (simp add: station_start_def with_shop_session_def)
  next
    case False
    have "settled (controller_closed ((shop p)\<lparr>shop_session := ?c\<rparr>) (Some (address, port)) p)"
      by (rule settled_controller_closed [OF assms(1) idle(1) sh [OF c(1,3)]]) (use c(2) idle st in simp_all)
    with False show ?thesis by (simp add: station_start_def Let_def)
  qed
qed

lemma session_end_socket:
  fixes s :: "'w watcher_session"
  shows "\<not> sock_open (session_end e s)" "sock_delegates (session_end e s) = sock_delegates s" "stopped (session_end e s) = stopped s"
  using safe_quiet [OF quiet_close [of s "net e"]]
  by (simp_all add: session_end_def safe_change_def inert_session_handler)

lemma stopped_update [simp]:
  fixes s :: "'w watcher_session"
  shows "sock_open (s\<lparr>stopped := b\<rparr>) = sock_open s" "sock_delegates (s\<lparr>stopped := b\<rparr>) = sock_delegates s"
    "sock_open (s\<lparr>worker := k\<rparr>) = sock_open s" "sock_delegates (s\<lparr>worker := k\<rparr>) = sock_delegates s"
    "sock_delegates (s\<lparr>stopped := b, worker := k\<rparr>) = sock_delegates s"
  by (cases s, simp)+

lemma end_called_session:
  fixes p :: "'w workshop"
  assumes "orderly p" and "controller_joins p = None"
  shows "stopped (shop_session (end_called e None p))"
    "sock_delegates (shop_session (end_called e None p)) = sock_delegates (shop_session p)"
    "joinable p = None \<Longrightarrow> \<not> sock_open (shop_session (end_called e None p)) \<and> controller_joins (end_called e None p) = None"
    "joinable p = Some n \<Longrightarrow> sock_open (shop_session (end_called e None p)) = sock_open (shop_session p) \<and>
       controller_joins (end_called e None p) = Some n"
    "sock_open (shop_session (end_called e None p)) \<Longrightarrow> sock_open (shop_session p)"
    "joinable (end_called e None p) = joinable p" "spawned (end_called e None p) = spawned p" "threads (end_called e None p) = threads p"
proof -
  have free: "\<not> is_joined n p" for n
    using assms by (auto simp: is_joined_def orderly_def)
  have e: "end_called e None p = (case joinable p of
      None \<Rightarrow> p\<lparr>shop_session := session_end e ((shop_session p)\<lparr>stopped := True, worker := None\<rparr>), joinable := None\<rparr>
    | Some n \<Rightarrow> p\<lparr>shop_session := (shop_session p)\<lparr>stopped := True\<rparr>, controller_joins := Some n\<rparr>)"
    using free by (simp add: end_called_def end_session_def Let_def split: option.split)
  show "stopped (shop_session (end_called e None p))"
    "sock_delegates (shop_session (end_called e None p)) = sock_delegates (shop_session p)"
    "joinable p = None \<Longrightarrow> \<not> sock_open (shop_session (end_called e None p)) \<and> controller_joins (end_called e None p) = None"
    "joinable p = Some n \<Longrightarrow> sock_open (shop_session (end_called e None p)) = sock_open (shop_session p) \<and>
       controller_joins (end_called e None p) = Some n"
    "sock_open (shop_session (end_called e None p)) \<Longrightarrow> sock_open (shop_session p)"
    "joinable (end_called e None p) = joinable p" "spawned (end_called e None p) = spawned p" "threads (end_called e None p) = threads p"
    using assms(2) by (simp_all add: e session_end_socket split: option.splits)
qed

lemma joined_session:
  fixes p :: "'w workshop"
  assumes "orderly p" and "worker_step e (Joined None) p sh"
  shows "stopped (shop_session sh)" "sock_delegates (shop_session sh) = sock_delegates (shop_session p)"
    "\<not> sock_open (shop_session sh)" "controller_joins sh = None" "joinable sh = None" "spawned sh = spawned p"
  using assms
  by (auto simp: joined_def end_session_def session_end_socket orderly_def split: option.splits if_splits)

lemma worker_step_session:
  assumes "worker_step e ev p sh" and "of_worker ev"
  shows "stopped (shop_session sh) = stopped (shop_session p)" "sock_delegates (shop_session sh) = sock_delegates (shop_session p)"
    "sock_open (shop_session sh) \<Longrightarrow> sock_open (shop_session p)" "joinable sh = joinable p" "spawned sh = spawned p"
    "controller_joins sh = controller_joins p" "\<exists>n c ph. threads p n = Some (c, ph) \<and> ph \<noteq> Ended"
    "\<not> stopped (shop_session p) \<Longrightarrow> alive n p \<Longrightarrow> ev \<noteq> Throws m \<Longrightarrow> alive n sh"
proof -
  have "stopped (shop_session sh) = stopped (shop_session p) \<and> sock_delegates (shop_session sh) = sock_delegates (shop_session p) \<and>
      (sock_open (shop_session sh) \<longrightarrow> sock_open (shop_session p)) \<and> joinable sh = joinable p \<and> spawned sh = spawned p \<and>
      controller_joins sh = controller_joins p \<and> (\<exists>n c ph. threads p n = Some (c, ph) \<and> ph \<noteq> Ended) \<and>
      (\<not> stopped (shop_session p) \<and> alive n p \<and> ev \<noteq> Throws m \<longrightarrow> alive n sh)"
    using assms(1)
  proof cases
    case (turns k c s')
    with retriever_step_worker [OF turns(5)] show ?thesis
      by (auto simp: set_phase_def alive_def split: option.splits)
  qed (use assms(2) in \<open>auto simp: set_phase_def alive_def split: option.splits\<close>)
  then show "stopped (shop_session sh) = stopped (shop_session p)" "sock_delegates (shop_session sh) = sock_delegates (shop_session p)"
    "sock_open (shop_session sh) \<Longrightarrow> sock_open (shop_session p)" "joinable sh = joinable p" "spawned sh = spawned p"
    "controller_joins sh = controller_joins p" "\<exists>n c ph. threads p n = Some (c, ph) \<and> ph \<noteq> Ended"
    "\<not> stopped (shop_session p) \<Longrightarrow> alive n p \<Longrightarrow> ev \<noteq> Throws m \<Longrightarrow> alive n sh"
    by blast+
qed

lemma launch_fields:
  "shop_session (launch s' p) = s'" "controller_joins (launch s' p) = controller_joins p"
  "\<not> (stopped (shop_session p) \<and> \<not> stopped s') \<Longrightarrow> launch s' p = p\<lparr>shop_session := s'\<rparr>"
  by (auto simp: launch_def Let_def split: option.split)

lemma launched:
  assumes "stopped (shop_session p)" and "\<not> stopped s'" and "spawns (shop_session p) s'" and "joinable p = None"
  shows "alive (spawned p) (launch s' p)" "spawned (launch s' p) = Suc (spawned p)" "joinable (launch s' p) = Some (spawned p)"
  using assms by (auto simp: launch_def Let_def spawns_def alive_def split: option.splits)

lemma settled_end:
  assumes p: "settled p" and "controller_idle p"
  shows "settled (station_end e p)"
proof -
  have idle: "closing p = None" "controller_joins (shop p) = None" and o: "orderly (shop p)"
    using assms by (simp_all add: controller_idle_def settled_def)
  note c = end_called_session [OF o idle(2), where e = e]
  have "worker_step e (Ends None) (shop p) (end_called e None (shop p))"
    using o idle(2) by (simp add: orderly_def)
  from orderly_step [OF this _ _ o] have "orderly (end_called e None (shop p))" by simp
  then have "settled (p\<lparr>shop := end_called e None (shop p)\<rparr>)"
    by (rule settled_shop [OF p idle(1)]) (use c p in \<open>auto simp: settled_def\<close>)
  with c show ?thesis
    unfolding station_end_def
    by (intro settled_controller_closed [OF p idle(1)]) (cases "joinable (shop p)"; auto)+
qed

lemma settled_closed:
  assumes p: "settled p" and "closing p = Some (n, k)" and "conns p n = Some Finished"
  shows "settled (start_thread k (p\<lparr>closing := None, conn_thread := None\<rparr>))"
proof -
  have c: "\<not> sock_open (the_session p)" "conn_thread p = Some n" "controller_joins (shop p) = None" "k \<noteq> None \<longrightarrow> still p"
    using p assms(2) by (auto simp: settled_def)
  have "ph \<noteq> Resolving" if "conns p m = Some ph" for m ph
    using that p c(2) assms(3) by (auto simp: settled_def)
  then have "settled (p\<lparr>closing := None, conn_thread := None\<rparr>)"
    using p c by (auto simp: settled_def)
  from settled_start_thread [OF this] c show ?thesis
    by (simp add: still_def conn_alive_def)
qed

lemma launch_free:
  assumes "settled p" and "spawns (the_session p) s'"
    and "stopped (the_session p) \<Longrightarrow> \<not> stopped s' \<Longrightarrow> joinable (shop p) = None"
  shows "\<not> stopped s' \<longrightarrow> (\<exists>k. alive k (launch s' (shop p)))"
proof (cases "stopped (the_session p) \<and> \<not> stopped s'")
  case True
  with assms(3) have "joinable (shop p) = None" by simp
  from launched(1) [OF _ _ assms(2) this] True show ?thesis by blast
next
  case False
  then have "alive k (launch s' (shop p)) = alive k (shop p)" for k
    by (simp add: launch_fields alive_def)
  with False assms(1) show ?thesis by (auto simp: settled_def)
qed

lemma closing_conn:
  assumes p: "settled p" and "conns p n = Some ph" and "ph \<noteq> Finished" and "closing p = Some (m, k)"
  shows "\<not> sock_open (the_session p) \<and> conn_thread p = Some n \<and> controller_joins (shop p) = None \<and> k = None \<and> m = n \<and> ph \<noteq> Resolving"
proof -
  have n: "conn_alive n p" using assms(2,3) by (auto simp: conn_alive_def)
  from p assms(4) have c: "\<not> sock_open (the_session p)" "conn_thread p = Some m" "controller_joins (shop p) = None"
    "conns p m \<noteq> Some Resolving" "k \<noteq> None \<longrightarrow> still p"
    by (auto simp: settled_def)
  moreover from c(5) n have "k = None" by (cases k) (auto simp: still_def)
  moreover from settled_last(2) [OF p n c(2)] have "m = n" by simp
  ultimately show ?thesis using assms(2) by auto
qed

lemma settled_conn:
  assumes p: "settled p" and "conns p n = Some ph" and "ph \<noteq> Finished" and "conn_step e ph (the_session p) = Some (ph', s')"
  shows "settled (p\<lparr>shop := launch s' (shop p), conns := (conns p)(n \<mapsto> ph'),
    conn_thread := (if closed_by (Some n) (the_session p) s' p then None else conn_thread p)\<rparr>)"
proof -
  let ?launch = "stopped (the_session p) \<and> \<not> stopped s'"
  let ?closed = "closed_by (Some n) (the_session p) s' p"
  have n: "conn_alive n p" using assms(2,3) by (auto simp: conn_alive_def)
  note last = settled_last [OF p n]
  have ph: "once ph" "may_launch ph \<longrightarrow> joinable (shop p) = None" "count_list (sock_delegates (the_session p)) SessionDelegate \<le> 1"
    "ph = Resolving \<or> sock_open (the_session p) \<longrightarrow> conn_thread p = Some n"
    using p assms(2,3) by (auto simp: settled_def)
  note ss = conn_step_socket [OF assms(4,3)]
  note ps = conn_step_phase [OF assms(4) ph(1,3)]
  note ls = conn_step_launch [OF assms(4) ph(1)]
  have o: "orderly (launch s' (shop p))"
    using p ls(1,2) ph(2) by (intro orderly_launch) (auto simp: settled_def)
  have free: "\<not> stopped s' \<longrightarrow> (\<exists>k. alive k (launch s' (shop p)))"
    using launch_free [OF p ls(1)] ls(2) ph(2) by blast
  have j: "may_launch ph' \<longrightarrow> joinable (launch s' (shop p)) = None"
    using ls(2) ps(2) ph(2) by (cases ?launch) (auto simp: launch_fields)
  have others: "m = n \<or> ph2 = Finished" if "conns p m = Some ph2" for m ph2
    using last(3) [of m] that by (auto simp: conn_alive_def)
  have waits: "\<not> sock_open s' \<and> conn_thread p = Some n \<and> k = None \<and> controller_joins (shop p) = None \<and> m = n \<and> \<not> ?closed"
    if "closing p = Some (m, k)" for m k
    using closing_conn [OF p assms(2,3) that] ss(2) by (auto simp: closed_by_def)
  have th: "conn_thread p = Some n" if "sock_open s'"
    using ss(2) [OF that] ph(4) by blast
  have "m < conn_count p \<and> once ph2 \<and> (ph2 \<noteq> Finished \<longrightarrow> Suc m = conn_count p) \<and>
      (ph2 = Resolving \<longrightarrow> \<not> sock_open s' \<and> (if ?closed then None else conn_thread p) = Some m) \<and>
      (ph2 \<noteq> Finished \<and> sock_open s' \<longrightarrow> (if ?closed then None else conn_thread p) = Some m) \<and>
      (may_launch ph2 \<longrightarrow> joinable (launch s' (shop p)) = None)"
    if m: "((conns p)(n \<mapsto> ph')) m = Some ph2" for m ph2
  proof (cases "m = n")
    case True
    with m have "ph2 = ph'" by simp
    moreover have "n < conn_count p" using last(1) by simp
    ultimately show ?thesis
      using True last(1) ps(1) ss(3) j th by (auto simp: closed_by_def)
  next
    case False
    with m others [of m ph2] have "ph2 = Finished" "conns p m = Some ph2" by auto
    with p show ?thesis by (auto simp: settled_def)
  qed
  moreover have "Suc m = conn_count p \<and> ((conns p)(n \<mapsto> ph')) m \<noteq> None"
    if "(if ?closed then None else conn_thread p) = Some m" for m
    using that p by (auto simp: settled_def split: if_splits)
  moreover have "\<not> sock_open s' \<and> (if ?closed then None else conn_thread p) = Some m \<and> controller_joins (shop p) = None \<and>
      ((conns p)(n \<mapsto> ph')) m \<noteq> Some Resolving \<and> k = None"
    if "closing p = Some (m, k)" for m k
    using waits [OF that] ss(3) by simp
  ultimately show ?thesis
    unfolding settled_def
    using o free ss(1) ph(3) by (simp add: launch_fields)
qed

lemma settled_work:
  assumes p: "settled p" and "worker_step e ev (shop p) sh" and "of_worker ev" and "\<forall>m. ev \<noteq> Throws m"
    and "closed_by None (the_session p) (shop_session sh) p \<longrightarrow> may_close None p"
  shows "settled (p\<lparr>shop := sh, conn_thread := (if closed_by None (the_session p) (shop_session sh) p then None else conn_thread p)\<rparr>)"
proof -
  note w = worker_step_session [OF assms(2,3)]
  let ?closed = "closed_by None (the_session p) (shop_session sh) p"
  have "from_outside ev" using assms(3,4) by (cases ev) simp_all
  then have "orderly sh"
    using p assms(4) by (intro orderly_step [OF assms(2)]) (simp_all add: settled_def)
  moreover have "\<not> stopped (shop_session sh) \<longrightarrow> (\<exists>k. alive k sh)"
  proof
    assume "\<not> stopped (shop_session sh)"
    with w(1) have "\<not> stopped (the_session p)" by simp
    moreover from this p obtain k where "alive k (shop p)" by (auto simp: settled_def)
    ultimately show "\<exists>k. alive k sh" using w(8) assms(4) by blast
  qed
  moreover have "k = None" if "closing p = Some (m, k)" for m k
  proof -
    have "\<not> still p" using w(7) by (auto simp: still_def alive_def)
    moreover have "k \<noteq> None \<longrightarrow> still p" using p that by (simp add: settled_def)
    ultimately show ?thesis by blast
  qed
  moreover have "?closed \<Longrightarrow> conn_thread p = None \<or> (\<exists>m. conn_thread p = Some m \<and> conns p m = Some Finished)"
    using assms(5) by (auto simp: may_close_def split: option.splits)
  ultimately show ?thesis
    unfolding settled_def
    using p w(1-6) by (auto simp: settled_def closed_by_def)
qed

lemma settled_step:
  assumes "station_step e ev p p'" and "polite ev p" and p: "settled p"
  shows "settled p'"
  using assms(1)
proof cases
  case (starts address port app stream)
  with assms(2) settled_start [OF p] show ?thesis by simp
next
  case ends
  with settled_end [OF p] show ?thesis by simp
next
  case (joined sh)
  have o: "orderly (shop p)" using p by (simp add: settled_def)
  note j = joined_session [OF o joined(4)]
  from orderly_step [OF joined(4) _ _ o] have "orderly sh" by simp
  then have "settled (p\<lparr>shop := sh\<rparr>)"
    by (rule settled_shop [OF p joined(3)]) (use j p in \<open>auto simp: settled_def\<close>)
  with j show ?thesis
    unfolding joined(2) by (intro settled_controller_closed [OF p joined(3)]) simp_all
next
  case (closed n k)
  with settled_closed [OF p] show ?thesis by simp
next
  case (conn n ph ph' s')
  with settled_conn [OF p] show ?thesis by simp
next
  case (throws n ph)
  with assms(2) show ?thesis by simp
next
  case (work ev sh)
  have "ev \<noteq> Throws m" for m using assms(2) work(1) by auto
  with work settled_work [OF p work(4,3)] show ?thesis by simp
qed

inductive polite_run :: "'w host \<Rightarrow> station_event list \<Rightarrow> 'w station \<Rightarrow> 'w station \<Rightarrow> bool" for e where
  none: "polite_run e [] p p"
| some: "station_step e ev p p1 \<Longrightarrow> polite ev p \<Longrightarrow> polite_run e evs p1 p' \<Longrightarrow> polite_run e (ev # evs) p p'"

inductive_simps polite_run_simps [simp]: "polite_run e [] p p'" "polite_run e (ev # evs) p p'"

lemma polite_run_append: "polite_run e evs p q \<Longrightarrow> polite_run e evs' q r \<Longrightarrow> polite_run e (evs @ evs') p r"
  by (induction rule: polite_run.induct) auto

lemma settled_run: "polite_run e evs p p' \<Longrightarrow> settled p \<Longrightarrow> settled p'"
  by (induction rule: polite_run.induct) (auto dest: settled_step)

end
