(* ===== verification/ConnectEnds.thy ===== *)
theory ConnectEnds
imports ConnectThread
begin

text \<open>
  What \<open>end()\<close> does to a connection that is being made, in every interleaving: in good time it leaves nothing behind, and
  the wait in it comes to an end; while the address is being resolved it is lost; and when the last reply has been read it
  comes too late for the worker.
\<close>

section \<open>An end in good time\<close>

text \<open>Steps that are not the controller's calls, and go well.\<close>

fun unasked :: "station_event \<Rightarrow> bool" where
  "unasked (CStarts address port app stream) \<longleftrightarrow> False"
| "unasked CEnds \<longleftrightarrow> False"
| "unasked (CThrows n) \<longleftrightarrow> False"
| "unasked (CWorker (Throws n)) \<longleftrightarrow> False"
| "unasked ev \<longleftrightarrow> True"

lemma unasked_polite: "unasked ev \<Longrightarrow> polite ev p"
  by (cases ev rule: unasked.cases) simp_all

text \<open>From the call of \<open>end()\<close> to its return: it waits for the worker, then for the thread of the socket.\<close>

definition ending :: "'w station \<Rightarrow> bool" where
  "ending p \<longleftrightarrow>
     (case closing p of
        Some (n, next) \<Rightarrow> next = None \<and> joinable (shop p) = None
      | None \<Rightarrow>
          if controller_joins (shop p) = None then still p \<and> \<not> sock_open (the_session p)
          else sock_open (the_session p) \<or> (\<forall>n. \<not> conn_alive n p)) \<and> stopped (the_session p)"

lemma no_worker: "settled p \<Longrightarrow> joinable (shop p) = None \<Longrightarrow> \<not> alive n (shop p)"
  by (auto simp: settled_def orderly_def)

lemma open_conn: "settled p \<Longrightarrow> sock_open (the_session p) \<Longrightarrow> conn_alive n p \<Longrightarrow> conn_thread p = Some n"
  by (auto simp: settled_def conn_alive_def)

lemma conn_alive_shop [simp]:
  "conn_alive n (p\<lparr>shop := sh\<rparr>) = conn_alive n p" "conn_alive n (p\<lparr>shop := sh, closing := c\<rparr>) = conn_alive n p"
  "conn_alive n (p\<lparr>shop := sh, conn_thread := t\<rparr>) = conn_alive n p"
  by (simp_all add: conn_alive_def)

lemma ending_ends:
  assumes "settled p" and "controller_idle p" and "sock_open (the_session p) \<or> (\<forall>n. \<not> conn_alive n p)"
  shows "ending (station_end e p)" "spawned (shop (station_end e p)) = spawned (shop p)"
proof -
  have idle: "closing p = None" "controller_joins (shop p) = None" and o: "orderly (shop p)"
    using assms(1,2) by (simp_all add: controller_idle_def settled_def)
  note c = end_called_session [OF o idle(2), where e = e]
  show "spawned (shop (station_end e p)) = spawned (shop p)"
    using c by (simp add: station_end_def controller_closed_def Let_def split: option.split)
  show "ending (station_end e p)"
  proof (cases "joinable (shop p)")
    case None
    have "\<not> alive k (end_called e None (shop p))" for k
      using no_worker [OF assms(1) None] c(8) by (simp add: alive_def)
    moreover have "\<not> conn_alive k p" if "\<not> sock_open (the_session p) \<or> conn_thread p = None" for k
      using that assms(3) open_conn [OF assms(1)] by fastforce
    ultimately show ?thesis
      using c(1,3,6) None idle
      by (auto simp: station_end_def controller_closed_def ending_def still_def Let_def split: option.split)
  next
    case (Some n)
    with c(1,4,6) idle assms(3) show ?thesis
      by (auto simp: station_end_def controller_closed_def ending_def Let_def)
  qed
qed

lemma ending_conn:
  assumes p: "settled p" and fin: "ending p" and "conns p n = Some ph" and "ph \<noteq> Finished"
    and "conn_step e ph (the_session p) = Some (ph', s')" and same: "spawned (launch s' (shop p)) \<le> spawned (shop p)"
  shows "ending (p\<lparr>shop := launch s' (shop p), conns := (conns p)(n \<mapsto> ph'),
    conn_thread := (if closed_by (Some n) (the_session p) s' p then None else conn_thread p)\<rparr>)"
proof -
  have o: "orderly (shop p)" using p by (simp add: settled_def)
  have n: "conn_alive n p" using assms(3,4) by (auto simp: conn_alive_def)
  have ph: "once ph" "may_launch ph \<longrightarrow> joinable (shop p) = None"
    using p assms(3,4) by (auto simp: settled_def)
  note ls = conn_step_launch [OF assms(5) ph(1)]
  have st: "stopped (the_session p)" using fin by (auto simp: ending_def split: option.splits)
  have st': "stopped s'"
  proof (rule ccontr)
    assume "\<not> stopped s'"
    with ls(2) st ph(2) launched(2) [OF st _ ls(1)] same show False
      by simp
  qed
  with st have l: "launch s' (shop p) = (shop p)\<lparr>shop_session := s'\<rparr>" by (simp add: launch_fields)
  show ?thesis
  proof (cases "closing p")
    case None
    with fin n have "controller_joins (shop p) \<noteq> None" "sock_open (the_session p)"
      by (auto simp: ending_def still_def split: if_splits)
    moreover from this(1) o have "joinable (shop p) \<noteq> None" by (auto simp: orderly_def split: option.splits)
    ultimately show ?thesis
      using None st' ls(3) ph(2) unfolding l by (auto simp: ending_def)
  next
    case (Some c)
    with fin st' show ?thesis unfolding l by (auto simp: ending_def)
  qed
qed

lemma ending_step:
  assumes step: "station_step e ev p p'" and "unasked ev" and p: "settled p" and fin: "ending p" and same: "spawned (shop p') \<le> spawned (shop p)"
  shows "ending p'"
proof -
  have o: "orderly (shop p)" using p by (simp add: settled_def)
  from step show ?thesis
  proof cases
    case (joined sh)
    note j = joined_session [OF o joined(4)]
    have "orderly sh" by (rule orderly_step [OF joined(4) _ _ o]) simp_all
    with j(5) have "\<not> alive k sh" for k by (simp add: orderly_def)
    moreover have "controller_joins (shop p) \<noteq> None" using joined(4) by auto
    with fin joined(3) have "sock_open (the_session p) \<or> (\<forall>n. \<not> conn_alive n p)" by (simp add: ending_def)
    then have "\<not> conn_alive k p" if "\<not> sock_open (the_session p) \<or> conn_thread p = None" for k
      using that open_conn [OF p, of k] by auto
    ultimately show ?thesis
      unfolding joined(2) using j joined(3)
      by (auto simp: controller_closed_def ending_def still_def Let_def split: option.split)
  next
    case (closed n k)
    have c: "conn_thread p = Some n" "\<not> sock_open (the_session p)" "controller_joins (shop p) = None" "joinable (shop p) = None"
        "k = None" "stopped (the_session p)"
      using p fin closed(4) by (auto simp: settled_def ending_def)
    have "\<not> conn_alive m p" for m
    proof
      assume m: "conn_alive m p"
      from settled_last(2) [OF p m c(1)] m closed(5) show False by (simp add: conn_alive_def)
    qed
    with c no_worker [OF p c(4)] show ?thesis
      unfolding closed(2) by (simp add: ending_def still_def conn_alive_def)
  next
    case (conn n ph ph' s')
    with same show ?thesis by (simp add: ending_conn [OF p fin conn(4-6)])
  next
    case (work ev sh)
    note w = worker_step_session [OF work(4,3)]
    have j: "joinable (shop p) \<noteq> None"
      using w(7) no_worker [OF p] by (auto simp: alive_def)
    with fin have c: "closing p = None" by (auto simp: ending_def split: option.splits)
    with fin w(7) have cj: "controller_joins (shop p) \<noteq> None" "sock_open (the_session p) \<or> (\<forall>n. \<not> conn_alive n p)" "stopped (the_session p)"
      by (auto simp: ending_def still_def alive_def split: if_splits)
    have "\<not> conn_alive n p" if "\<not> sock_open (shop_session sh)" for n
    proof
      assume n: "conn_alive n p"
      with cj(2) have "sock_open (the_session p)" by blast
      with open_conn [OF p this n] that work(5) n show False
        by (auto simp: closed_by_def may_close_def conn_alive_def)
    qed
    with c cj w(1,6) show ?thesis
      unfolding work(2) by (auto simp: ending_def conn_alive_def)
  qed (use assms(2) in simp_all)
qed

lemma spawned_step:
  assumes "station_step e ev p p'" and "unasked ev" and "settled p"
  shows "spawned (shop p) \<le> spawned (shop p')"
  using assms(1)
proof cases
  case (joined sh)
  have "orderly (shop p)" using assms(3) by (simp add: settled_def)
  from joined_session(6) [OF this joined(4)] show ?thesis
    unfolding joined(2) by (simp add: controller_closed_def Let_def split: option.split)
next
  case (closed n k)
  then show ?thesis by (cases k) (auto simp: with_shop_session_def)
next
  case (conn n ph ph' s')
  then show ?thesis by (simp add: launch_def Let_def split: option.split)
next
  case (work ev sh)
  with worker_step_session(5) [OF work(4,3)] show ?thesis by simp
qed (use assms(2) in simp_all)

lemma spawned_run:
  "station_run e evs p p' \<Longrightarrow> \<forall>ev \<in> set evs. unasked ev \<Longrightarrow> settled p \<Longrightarrow> spawned (shop p) \<le> spawned (shop p')"
  by (induction rule: station_run.induct)
     (auto dest: settled_step [OF _ unasked_polite] intro: order.trans [OF spawned_step])

lemma ending_run:
  "station_run e evs p p' \<Longrightarrow> \<forall>ev \<in> set evs. unasked ev \<Longrightarrow> settled p \<Longrightarrow> ending p \<Longrightarrow> spawned (shop p') \<le> spawned (shop p) \<Longrightarrow>
    ending p'"
proof (induction rule: station_run.induct)
  case (some ev p p1 evs p')
  have p1: "settled p1" using settled_step [OF some.hyps(1) unasked_polite] some.prems(1,2) by simp
  have "spawned (shop p1) \<le> spawned (shop p')"
    using spawned_run [OF some.hyps(2) _ p1] some.prems(1) by simp
  with some spawned_step [OF some.hyps(1) _ some.prems(2)] p1 show ?case
    using ending_step [OF some.hyps(1) _ some.prems(2,3)] by force
qed simp

text \<open>C7: the controller starts a session when no thread of it is alive, as it may after an end, and ends it when the socket
  is open, or when the thread of the socket has finished. Then, in every order in which the controller, the
  thread of the socket and the worker take their steps, when \<open>end()\<close> has returned no thread is alive and the socket is
  closed, unless the thread of the socket has started a worker while \<open>end()\<close> was under way.\<close>

theorem end_leaves_nothing:
  assumes "stopped s" and "count_list (sock_delegates s) SessionDelegate \<le> 1" and "polite_run e evs (new_station s) p"
    and "sock_open (the_session p) \<or> (\<forall>n. \<not> conn_alive n p)" and "station_step e CEnds p p1"
    and "station_run e evs1 p1 p2" and "\<forall>ev \<in> set evs1. unasked ev" and "controller_idle p2"
    and "spawned (shop p2) = spawned (shop p)"
  shows "(\<forall>n. \<not> conn_alive n p2) \<and> (\<forall>n. \<not> alive n (shop p2)) \<and> \<not> sock_open (the_session p2) \<and> stopped (the_session p2)"
proof -
  have p: "settled p" by (rule settled_run [OF assms(3) settled_new [OF assms(1,2)]])
  from assms(5) have e: "controller_idle p" "p1 = station_end e p" by simp_all
  have "settled p1" by (rule settled_step [OF assms(5) _ p]) simp
  with ending_run [OF assms(6,7)] ending_ends [OF p e(1) assms(4)] e(2) assms(9) have "ending p2" by simp
  with assms(8) show ?thesis by (simp add: ending_def controller_idle_def still_def)
qed

section \<open>An end too early, and an end too late\<close>

lemma conn_runs:
  assumes "settled p" and "conns p n = Some ph" and "conn_steps e k ph (the_session p) = Some (ph', s')"
  shows "\<exists>j p'. station_run e (replicate j (CConn n)) p p' \<and> settled p' \<and> conns p' n = Some ph' \<and> the_session p' = s' \<and>
    controller_joins (shop p') = controller_joins (shop p) \<and> closing p' = closing p"
  using assms
proof (induction k arbitrary: p ph)
  case 0
  then show ?case by (intro exI [of _ 0] exI [of _ p]) simp
next
  case (Suc k)
  show ?case
  proof (cases "ph = Finished")
    case True
    with Suc.prems show ?thesis by (intro exI [of _ 0] exI [of _ p]) simp
  next
    case False
    from Suc.prems(3) obtain ph1 s1 where c: "conn_step e ph (the_session p) = Some (ph1, s1)" "conn_steps e k ph1 s1 = Some (ph', s')"
      by (auto split: option.splits)
    let ?closed = "closed_by (Some n) (the_session p) s1 p"
    define p1 where "p1 = p\<lparr>shop := launch s1 (shop p), conns := (conns p)(n \<mapsto> ph1), conn_thread := (if ?closed then None else conn_thread p)\<rparr>"
    have "conn_thread p = Some m \<Longrightarrow> m = n" for m
      using settled_last(2) [OF Suc.prems(1)] Suc.prems(2) False by (auto simp: conn_alive_def)
    then have "may_close (Some n) p" by (auto simp: may_close_def split: option.split)
    moreover have "\<not> crashed (shop p)" using Suc.prems(1) by (simp add: settled_def orderly_def)
    ultimately have step: "station_step e (CConn n) p p1"
      unfolding p1_def using station_step.conn [OF _ Suc.prems(2) False c(1)] by blast
    have p1: "settled p1" "conns p1 n = Some ph1" "the_session p1 = s1"
      "controller_joins (shop p1) = controller_joins (shop p)" "closing p1 = closing p"
      using settled_step [OF step _ Suc.prems(1)] by (simp_all add: p1_def launch_fields)
    from Suc.IH [OF p1(1,2)] c(2) p1(3) obtain j p' where
      "station_run e (replicate j (CConn n)) p1 p'" "settled p'" "conns p' n = Some ph'" "the_session p' = s'"
      "controller_joins (shop p') = controller_joins (shop p1)" "closing p' = closing p1" by auto
    with station_run.some [OF step] p1(4,5) show ?thesis
      by (intro exI [of _ "Suc j"] exI [of _ p']) (simp del: station_run_simps)
  qed
qed

text \<open>C29: \<open>end()\<close> called while the address is still being resolved returns at once and is lost: it finds the socket closed, and
  leaves the thread that resolves alone, which then makes the session that the start would have made without it; if
  that session plays, its worker is alive.\<close>

theorem end_lost:
  assumes "stopped s" and "count_list (sock_delegates s) SessionDelegate \<le> 1" and "polite_run e evs (new_station s) p"
    and "controller_idle p" and "conns p n = Some Resolving"
    and "resolve session_handler (net e) (session_didConnect (watcher_handshake e)) ((the_session p)\<lparr>worker := None\<rparr>) = Some s'"
  shows "\<exists>p1 j p2. station_step e CEnds p p1 \<and> controller_idle p1 \<and> conns p1 n = Some Resolving \<and>
    station_run e (replicate j (CConn n)) p1 p2 \<and> controller_idle p2 \<and> the_session p2 = s' \<and>
    (stopped s' \<or> (\<exists>m. alive m (shop p2)))"
proof -
  have p: "settled p" by (rule settled_run [OF assms(3) settled_new [OF assms(1,2)]])
  then have o: "orderly (shop p)" and j: "joinable (shop p) = None" and op: "\<not> sock_open (the_session p)"
    using assms(5) by (auto simp: settled_def)
  then have st: "stopped (the_session p)" and ok: "\<not> crashed (shop p)" by (simp_all add: orderly_def)
  define p1 where "p1 = station_end e p"
  have step: "station_step e CEnds p p1" using assms(4) ok by (simp add: p1_def)
  have "(the_session p)\<lparr>stopped := True, worker := None\<rparr> = (the_session p)\<lparr>worker := None\<rparr>"
    using st by (cases "the_session p") simp
  then have "end_called e None (shop p) = (shop p)\<lparr>shop_session := (the_session p)\<lparr>worker := None\<rparr>, joinable := None\<rparr>"
    using j op by (simp add: end_called_def end_session_def session_end_def socket_close_def Let_def)
  then have p1: "the_session p1 = (the_session p)\<lparr>worker := None\<rparr>" "conns p1 n = Some Resolving" "controller_idle p1"
    using op assms(4,5) by (simp_all add: p1_def station_end_def controller_closed_def controller_idle_def)
  have "settled p1" by (rule settled_step [OF step _ p]) simp
  moreover obtain k where "conn_steps e k Resolving (the_session p1) = Some (Finished, s')"
    using conn_steps_rest [of Resolving "the_session p1" e] assms(6) p1(1) by auto
  ultimately obtain j p2 where p2: "station_run e (replicate j (CConn n)) p1 p2" "settled p2" "the_session p2 = s'"
      "controller_joins (shop p2) = controller_joins (shop p1)" "closing p2 = closing p1"
    using conn_runs [OF _ p1(2)] by blast
  moreover from this p1(3) have "controller_idle p2" by (simp add: controller_idle_def)
  moreover from p2(2,3) have "stopped s' \<or> (\<exists>m. alive m (shop p2))" by (auto simp: settled_def)
  ultimately show ?thesis using step p1(2,3) by blast
qed

lemma users_told:
  fixes s :: "'w watcher_session"
  assumes "SessionDelegate \<notin> set ds"
  shows "\<exists>s'. for_each (session_didConnect h) ds s = Some s' \<and> stopped s' = stopped s"
  using assms
proof (induction ds arbitrary: s)
  case (Cons d ds)
  then obtain n where "d = UserDelegate n" by (cases d) auto
  with Cons.IH [of "call n (SocketEvent DidConnect) s"] Cons.prems show ?case by (simp add: session_didConnect_def)
qed simp

text \<open>A worker whose flag is down goes on, whatever is done but a call of the controller.\<close>

definition left_behind :: "'w station \<Rightarrow> bool" where
  "left_behind p \<longleftrightarrow> settled p \<and> controller_idle p \<and> \<not> stopped (the_session p) \<and> \<not> sock_open (the_session p) \<and> (\<forall>n. \<not> conn_alive n p)"

lemma left_behind_step:
  assumes "station_step e ev p p'" and "unasked ev" and p: "left_behind p"
  shows "left_behind p'"
proof -
  have "settled p'"
    using settled_step [OF assms(1) unasked_polite [OF assms(2)]] p by (simp add: left_behind_def)
  with assms(1) show ?thesis
  proof cases
    case (work ev sh)
    with worker_step_session [OF work(4,3)] p \<open>settled p'\<close> show ?thesis
      by (auto simp: left_behind_def controller_idle_def conn_alive_def)
  qed (use assms(2) p in \<open>auto simp: left_behind_def controller_idle_def conn_alive_def\<close>)
qed

lemma left_behind_run:
  "station_run e evs p p' \<Longrightarrow> \<forall>ev \<in> set evs. unasked ev \<Longrightarrow> left_behind p \<Longrightarrow> left_behind p'"
  by (induction rule: station_run.induct) (auto dest: left_behind_step)

lemma end_waits:
  assumes "settled p" and "controller_idle p" and "joinable (shop p) = None" and "conn_thread p = Some n" and "sock_open (the_session p)"
  shows "\<exists>p1. station_step e CEnds p p1 \<and> settled p1 \<and> closing p1 = Some (n, None) \<and> conns p1 = conns p \<and>
    stopped (the_session p1) \<and> \<not> sock_open (the_session p1) \<and> controller_joins (shop p1) = None"
proof -
  have o: "orderly (shop p)" and cj: "controller_joins (shop p) = None"
    using assms(1,2) by (simp_all add: settled_def controller_idle_def)
  have step: "station_step e CEnds p (station_end e p)"
    using assms(2) o by (simp add: orderly_def)
  moreover have "settled (station_end e p)" by (rule settled_step [OF step _ assms(1)]) simp
  moreover have "closing (station_end e p) = Some (n, None) \<and> conns (station_end e p) = conns p \<and>
      stopped (the_session (station_end e p)) \<and> \<not> sock_open (the_session (station_end e p)) \<and>
      controller_joins (shop (station_end e p)) = None"
    using end_called_session(1,3) [OF o cj, where e = e] assms(3-5)
    by (simp add: station_end_def controller_closed_def Let_def)
  ultimately show ?thesis by blast
qed

lemma close_returns:
  assumes "settled p" and "closing p = Some (n, None)" and "conns p n = Some ph"
    and "conn_steps e k ph (the_session p) = Some (Finished, s')"
  shows "\<exists>j p'. station_run e (replicate j (CConn n) @ [CClosed]) p p' \<and> settled p' \<and> controller_idle p' \<and>
    (\<forall>m. \<not> conn_alive m p') \<and> the_session p' = s' \<and> \<not> sock_open s'"
proof -
  have "controller_joins (shop p) = None" using assms(1,2) by (simp add: settled_def)
  with conn_runs [OF assms(1,3,4)] assms(2) obtain j q where q: "station_run e (replicate j (CConn n)) p q" "settled q"
      "conns q n = Some Finished" "the_session q = s'" "controller_joins (shop q) = None" "closing q = Some (n, None)"
    by auto
  define p' where "p' = q\<lparr>closing := None, conn_thread := None\<rparr>"
  have c: "conn_thread q = Some n" "\<not> sock_open s'" "\<not> crashed (shop q)"
    using q(2,4,6) by (auto simp: settled_def orderly_def)
  have last: "station_step e CClosed q p'" using q(3,6) c(3) by (simp add: p'_def)
  have "\<not> conn_alive m p'" for m
  proof
    assume "conn_alive m p'"
    then have m: "conn_alive m q" by (simp add: p'_def conn_alive_def)
    from settled_last(2) [OF q(2) m c(1)] m q(3) show False by (simp add: conn_alive_def)
  qed
  moreover have "settled p'" by (rule settled_step [OF last _ q(2)]) simp
  moreover have "station_run e (xs @ [CClosed]) r p'" if "station_run e xs r q" for xs r
    using that last by (induction rule: station_run.induct) auto
  from this [OF q(1)] have "station_run e (replicate j (CConn n) @ [CClosed]) p p'" .
  moreover have "controller_idle p'" "the_session p' = s'" using q(4,5) by (simp_all add: p'_def controller_idle_def)
  ultimately show ?thesis using c(2) by blast
qed

text \<open>C30: \<open>end()\<close> called when the last reply has been read, and the worker is not running yet, closes the socket and waits for
  the thread of the socket, which starts the worker nevertheless: when \<open>end()\<close> has returned the worker is alive on a
  closed socket, and stays so whatever happens until the controller calls again.\<close>

theorem end_late:
  assumes "stopped s" and "count_list (sock_delegates s) SessionDelegate \<le> 1" and "polite_run e evs (new_station s) p"
    and "controller_idle p" and "conns p n = Some (Requesting r ds)" and "r = SessionReady \<or> r = StartMediaPacketRetriever"
    and "sock_open (the_session p)"
  shows "\<exists>p1 j p2. station_step e CEnds p p1 \<and> station_run e (replicate j (CConn n) @ [CClosed]) p1 p2 \<and> controller_idle p2 \<and>
    (\<forall>evs2 p3. station_run e evs2 p2 p3 \<and> (\<forall>ev \<in> set evs2. unasked ev) \<longrightarrow>
       \<not> stopped (the_session p3) \<and> \<not> sock_open (the_session p3) \<and> (\<exists>m. alive m (shop p3)))"
proof -
  have p: "settled p" by (rule settled_run [OF assms(3) settled_new [OF assms(1,2)]])
  have "r \<noteq> AnnounceHandshake" using assms(6) by auto
  with p assms(5,7) have j: "joinable (shop p) = None" and th: "conn_thread p = Some n" and "once (Requesting r ds)"
    unfolding settled_def by (auto simp del: once.simps)
  then have ds: "SessionDelegate \<notin> set ds" by simp
  from end_waits [OF p assms(4) j th assms(7)] obtain p1 where p1: "station_step e CEnds p p1" "settled p1"
      "closing p1 = Some (n, None)" "conns p1 = conns p" "stopped (the_session p1)" "\<not> sock_open (the_session p1)"
    by blast
  obtain s1 where s1: "request_chain e r (the_session p1) = Some s1" "\<not> stopped s1"
    using assms(6) p1(5,6) by (auto simp: watcher_sessionReady_def watcher_startMediaPacketRetriever_def)
  from users_told [OF ds] s1 obtain s2 where "conn_rest e (Requesting r ds) (the_session p1) = Some s2" and s2: "\<not> stopped s2"
    by auto
  then obtain k where "conn_steps e k (Requesting r ds) (the_session p1) = Some (Finished, s2)"
    using conn_steps_rest [of "Requesting r ds" "the_session p1" e] by auto
  with close_returns [OF p1(2,3)] assms(5) p1(4) obtain j p2 where p2: "station_run e (replicate j (CConn n) @ [CClosed]) p1 p2"
      "settled p2" "controller_idle p2" "\<forall>m. \<not> conn_alive m p2" "the_session p2 = s2" "\<not> sock_open s2"
    by metis
  with s2 have left: "left_behind p2" by (simp add: left_behind_def)
  then have "\<not> stopped (the_session p3) \<and> \<not> sock_open (the_session p3) \<and> (\<exists>m. alive m (shop p3))"
    if "station_run e evs2 p2 p3" "\<forall>ev \<in> set evs2. unasked ev" for evs2 p3
    using left_behind_run [OF that left] by (auto simp: left_behind_def settled_def)
  with p1(1) p2(1,3) show ?thesis by blast
qed

section \<open>The wait in \<open>close()\<close>\<close>

lemma closing_step:
  assumes "station_step e ev p p'" and "unasked ev" and "ev \<noteq> CClosed" and p: "settled p" and c: "closing p = Some (n, k)"
    and ph: "conns p n = Some ph"
  shows "closing p' = Some (n, k) \<and> sock_delegates (the_session p') = sock_delegates (the_session p) \<and>
    (\<exists>ph'. conns p' n = Some ph' \<and>
       conn_left (sock_delegates (the_session p)) ph' + (if ev = CConn n then 1 else 0) \<le> conn_left (sock_delegates (the_session p)) ph)"
  using assms(1)
proof cases
  case (joined sh)
  with c show ?thesis by simp
next
  case (conn m ph1 ph' s')
  have m: "conn_alive m p" using conn(4,5) by (auto simp: conn_alive_def)
  have "conn_thread p = Some n" using p c by (simp add: settled_def)
  from settled_last(2) [OF p m this] have "m = n" by simp
  with conn conn_step_left [OF conn(6,5)] conn_step_socket(1) [OF conn(6,5)] c ph show ?thesis
    by (auto simp: launch_fields)
next
  case (work ev' sh)
  with worker_step_session(2) [OF work(4,3)] c ph show ?thesis by auto
qed (use assms(2,3) in simp_all)

lemma closing_run:
  "station_run e evs p p' \<Longrightarrow> \<forall>ev \<in> set evs. unasked ev \<and> ev \<noteq> CClosed \<Longrightarrow> settled p \<Longrightarrow> closing p = Some (n, k) \<Longrightarrow>
    conns p n = Some ph \<Longrightarrow>
    closing p' = Some (n, k) \<and> settled p' \<and>
    (\<exists>ph'. conns p' n = Some ph' \<and>
       conn_left (sock_delegates (the_session p)) ph' + count_list evs (CConn n) \<le> conn_left (sock_delegates (the_session p)) ph)"
proof (induction arbitrary: ph rule: station_run.induct)
  case (some ev p p1 evs p')
  have ev: "unasked ev" "ev \<noteq> CClosed" using some.prems(1) by auto
  from closing_step [OF some.hyps(1) ev some.prems(2-4)] obtain ph1 where
    1: "closing p1 = Some (n, k)" "sock_delegates (the_session p1) = sock_delegates (the_session p)" "conns p1 n = Some ph1"
      "conn_left (sock_delegates (the_session p)) ph1 + (if ev = CConn n then 1 else 0) \<le> conn_left (sock_delegates (the_session p)) ph"
    by blast
  from some.IH [OF _ settled_step [OF some.hyps(1) unasked_polite [OF ev(1)] some.prems(2)] 1(1,3)] some.prems(1) 1(2,4)
  show ?case by (force split: if_splits)
qed simp

text \<open>C28: \<open>close()\<close> returns: while the controller waits in it for the thread of the socket, that thread takes no more than the
  steps that are left of its chain, whatever the others do, and there always is a next step, its own or that it is
  joined, unless its own is undefined.\<close>

theorem close_waits:
  assumes "stopped s" and "count_list (sock_delegates s) SessionDelegate \<le> 1" and "polite_run e evs0 (new_station s) p"
    and "closing p = Some (n, k)" and "station_run e evs p p'" and "\<forall>ev \<in> set evs. unasked ev \<and> ev \<noteq> CClosed"
  shows "\<exists>ph ph'. conns p n = Some ph \<and> conns p' n = Some ph' \<and>
    conn_left (sock_delegates (the_session p)) ph' + count_list evs (CConn n) \<le> conn_left (sock_delegates (the_session p)) ph \<and>
    (\<exists>ev p''. station_step e ev p' p'' \<and> ev = (if ph' = Finished then CClosed
       else if conn_step e ph' (the_session p') = None then CThrows n else CConn n))"
proof -
  have p: "settled p" by (rule settled_run [OF assms(3) settled_new [OF assms(1,2)]])
  with assms(4) have "conn_thread p = Some n" by (simp add: settled_def)
  with p obtain ph where ph: "conns p n = Some ph" unfolding settled_def by blast
  from closing_run [OF assms(5,6) p assms(4) ph] obtain ph' where p': "closing p' = Some (n, k)" "settled p'" "conns p' n = Some ph'"
    "conn_left (sock_delegates (the_session p)) ph' + count_list evs (CConn n) \<le> conn_left (sock_delegates (the_session p)) ph"
    by blast
  have ok: "\<not> crashed (shop p')" and th: "conn_thread p' = Some n"
    using p'(1,2) by (auto simp: settled_def orderly_def)
  have "\<exists>ev p''. station_step e ev p' p'' \<and> ev = (if ph' = Finished then CClosed
       else if conn_step e ph' (the_session p') = None then CThrows n else CConn n)"
  proof (cases "conn_step e ph' (the_session p')")
    case None
    then have "ph' \<noteq> Finished" by auto
    with None station_step.throws [OF ok p'(3) None] show ?thesis by (simp del: station_step_simps) blast
  next
    case (Some r)
    obtain ph1 s1 where r: "r = (ph1, s1)" by (cases r)
    have "may_close (Some n) p'" using th by (simp add: may_close_def)
    then have "ph' \<noteq> Finished \<Longrightarrow> \<exists>p''. station_step e (CConn n) p' p''"
      using station_step.conn [OF ok p'(3) _ Some [unfolded r]] by blast
    moreover have "ph' = Finished \<Longrightarrow> \<exists>p''. station_step e CClosed p' p''"
      using station_step.closed [OF ok p'(1), of e] p'(3) by blast
    ultimately show ?thesis
      using Some by (simp del: station_step_simps)
  qed
  with ph p'(3,4) show ?thesis by blast
qed

section \<open>A server that answers\<close>

definition resolving_station :: "script station" where
  "resolving_station = station_start answering_host ''h'' ''1935'' ''app'' ''cam'' (new_station idle_watcher)"

lemma idle_watcher_once [simp]: "count_list (sock_delegates idle_watcher) SessionDelegate \<le> 1"
  by simp

lemma resolving_station:
  "polite_run answering_host [CStarts ''h'' ''1935'' ''app'' ''cam''] (new_station idle_watcher) resolving_station"
  "controller_idle resolving_station" "conns resolving_station 0 = Some Resolving" "conn_thread resolving_station = Some 0"
  "the_session resolving_station =
     before_thread answering_host ''h'' ''1935'' (idle_watcher\<lparr>appName := ''app'', session_streamName := ''cam''\<rparr>)"
  "worker (the_session resolving_station) = None" "spawned (shop resolving_station) = 0"
proof -
  let ?s = "registered (idle_watcher\<lparr>appName := ''app'', session_streamName := ''cam''\<rparr>)"
  have closed: "\<not> sock_open ?s" "worker ?s = None"
    using idle_watcher(3)
    by (simp_all add: registered_def socket_addDelegate_def socket_removeDelegate_def idle_watcher_def addMediaDelegate_def
        session_addDelegate_def new_watcher_session_def new_client_session_def new_rtmp_session_def new_socket_def
        watcher_session.defs client_session.defs rtmp_session.defs socket.defs)
  then have s: "socket_close session_handler (net answering_host) ?s = ?s" by (simp add: socket_close_def)
  have "still (new_station idle_watcher)"
    by (simp add: still_def conn_alive_def alive_def new_station_def new_workshop_def)
  then show "polite_run answering_host [CStarts ''h'' ''1935'' ''app'' ''cam''] (new_station idle_watcher) resolving_station"
    by (simp add: resolving_station_def new_station_def new_workshop_def controller_idle_def)
  show "controller_idle resolving_station" "conns resolving_station 0 = Some Resolving" "conn_thread resolving_station = Some 0"
    "the_session resolving_station =
       before_thread answering_host ''h'' ''1935'' (idle_watcher\<lparr>appName := ''app'', session_streamName := ''cam''\<rparr>)"
    "worker (the_session resolving_station) = None" "spawned (shop resolving_station) = 0"
    using closed s idle_watcher(3)
    by (simp_all add: resolving_station_def station_start_def controller_closed_def new_station_def new_workshop_def
        with_shop_session_def controller_idle_def before_thread_def Let_def)
qed

lemma settled_resolving: "settled resolving_station"
  by (rule settled_run [OF resolving_station(1) settled_new]) simp_all

lemma answered_thread:
  "\<exists>s'. conn_rest answering_host Resolving (the_session resolving_station) = Some s' \<and> \<not> stopped s' \<and> sock_open s'"
  using answered_start [of idle_watcher] unfolding resolving_station(5)
  by (auto simp: session_start_def start_connection_def socket_connect_def before_thread_def registered_def Let_def)

theorem end_lost_witness:
  "\<exists>p1 j p2. station_step answering_host CEnds resolving_station p1 \<and> controller_idle p1 \<and>
     station_run answering_host (replicate j (CConn 0)) p1 p2 \<and> controller_idle p2 \<and> (\<exists>m. alive m (shop p2))"
proof -
  obtain s' where s': "conn_rest answering_host Resolving (the_session resolving_station) = Some s'" "\<not> stopped s'"
    using answered_thread by blast
  have "(the_session resolving_station)\<lparr>worker := None\<rparr> = the_session resolving_station"
    using resolving_station(6) by (cases "the_session resolving_station") simp
  with end_lost [OF _ _ resolving_station(1-3), of s'] s' show ?thesis
    by (simp del: station_step_simps station_run_simps) blast
qed

text \<open>The connection is being made.\<close>

lemma connecting_station:
  "\<exists>p. polite_run answering_host [CStarts ''h'' ''1935'' ''app'' ''cam'', CConn 0] (new_station idle_watcher) p \<and> settled p \<and>
     controller_idle p \<and> conns p 0 = Some Connecting \<and> conn_thread p = Some 0 \<and> joinable (shop p) = None \<and>
     sock_open (the_session p)"
proof -
  let ?q = resolving_station
  obtain s1 where c: "conn_step answering_host Resolving (the_session ?q) = Some (Connecting, s1)"
    by (simp add: answering_def script_transport_def Let_def)
  have open1: "sock_open s1" by (rule conn_step_connecting [OF c])
  have free: "may_close (Some 0) ?q" using resolving_station(4) by (simp add: may_close_def)
  have ok: "\<not> crashed (shop ?q)" using settled_resolving by (simp add: settled_def orderly_def)
  from station_step.conn [OF ok resolving_station(3) _ c] free obtain p where
    step: "station_step answering_host (CConn 0) ?q p" by blast
  with c resolving_station(2-4) have p: "controller_idle p" "conns p 0 = Some Connecting" "the_session p = s1" "conn_thread p = Some 0"
    by (auto simp: controller_idle_def launch_fields closed_by_def)
  have s: "settled p" by (rule settled_step [OF step _ settled_resolving]) simp
  with p(2) have "joinable (shop p) = None" by (auto simp: settled_def)
  moreover have "polite_run answering_host [CStarts ''h'' ''1935'' ''app'' ''cam'', CConn 0] (new_station idle_watcher) p"
    using polite_run_append [OF resolving_station(1) polite_run.some [OF step _ polite_run.none]]
    by (simp only: append.simps polite.simps simp_thms)
  ultimately show ?thesis
    using p s open1 by (intro exI [of _ p]) (simp del: polite_run_simps)
qed

text \<open>An end while the connection is being made.\<close>

lemma connecting_ends:
  "\<exists>p p1. polite_run answering_host [CStarts ''h'' ''1935'' ''app'' ''cam'', CConn 0] (new_station idle_watcher) p \<and>
     sock_open (the_session p) \<and> station_step answering_host CEnds p p1 \<and> settled p1 \<and> closing p1 = Some (0, None) \<and>
     conns p1 0 = Some Connecting \<and> \<not> sock_open (the_session p1)"
proof -
  obtain p where p: "polite_run answering_host [CStarts ''h'' ''1935'' ''app'' ''cam'', CConn 0] (new_station idle_watcher) p"
    "settled p" "controller_idle p" "conns p 0 = Some Connecting" "conn_thread p = Some 0" "joinable (shop p) = None"
    "sock_open (the_session p)"
    using connecting_station by blast
  from end_waits [OF p(2,3,6,5,7)] p(1,4,7) show ?thesis by metis
qed

theorem end_leaves_nothing_witness:
  "\<exists>p p1 p2. polite_run answering_host [CStarts ''h'' ''1935'' ''app'' ''cam'', CConn 0] (new_station idle_watcher) p \<and>
     station_step answering_host CEnds p p1 \<and> station_run answering_host [CConn 0, CClosed] p1 p2 \<and>
     (\<forall>n. \<not> conn_alive n p2) \<and> \<not> sock_open (the_session p2)"
proof -
  obtain p p1 where p: "polite_run answering_host [CStarts ''h'' ''1935'' ''app'' ''cam'', CConn 0] (new_station idle_watcher) p"
    "sock_open (the_session p)" "station_step answering_host CEnds p p1" "settled p1" "closing p1 = Some (0, None)"
    "conns p1 0 = Some Connecting" "\<not> sock_open (the_session p1)"
    using connecting_ends by blast
  obtain s' where c: "conn_step answering_host Connecting (the_session p1) = Some (Finished, s')"
    using p(7) by (simp add: Let_def)
  have "stopped s' = stopped (the_session p1)" using c p(7) by (auto simp: Let_def)
  then have l: "launch s' (shop p1) = (shop p1)\<lparr>shop_session := s'\<rparr>" by (simp add: launch_fields)
  define p2 where "p2 = p1\<lparr>shop := (shop p1)\<lparr>shop_session := s'\<rparr>, conns := (conns p1)(0 \<mapsto> Finished)\<rparr>"
  have ok: "\<not> crashed (shop p1)" "conn_thread p1 = Some 0" "controller_joins (shop p1) = None"
    using p(4,5) by (auto simp: settled_def orderly_def)
  have nc: "\<not> closed_by (Some 0) (the_session p1) s' p1" using p(7) by (simp add: closed_by_def)
  from station_step.conn [OF ok(1) p(6) _ c] have "station_step answering_host (CConn 0) p1 p2"
    using nc l by (simp add: p2_def del: station_step_simps)
  moreover define p3 where "p3 = p2\<lparr>closing := None, conn_thread := None\<rparr>"
  moreover have "station_step answering_host CClosed p2 p3"
    using station_step.closed [of p2 0 None answering_host] ok(1) p(5) by (simp add: p2_def p3_def del: station_step_simps)
  ultimately have r: "station_run answering_host [CConn 0, CClosed] p1 p3"
    by (blast intro: station_run.intros)
  have "spawned (shop p3) = spawned (shop p1)" "controller_idle p3"
    using ok(3) by (simp_all add: p2_def p3_def controller_idle_def)
  moreover have "spawned (shop p1) = spawned (shop p)"
  proof -
    have "settled p" by (rule settled_run [OF p(1) settled_new]) simp_all
    moreover from p(3) have "controller_idle p" "p1 = station_end answering_host p" by simp_all
    ultimately show ?thesis using ending_ends(2) p(2) by blast
  qed
  ultimately have "(\<forall>n. \<not> conn_alive n p3) \<and> \<not> sock_open (the_session p3)"
    using end_leaves_nothing [OF _ _ p(1) _ p(3) r] p(2) by simp
  with p(1,3) r show ?thesis by blast
qed

theorem close_waits_witness:
  "\<exists>p ph. polite_run answering_host [CStarts ''h'' ''1935'' ''app'' ''cam'', CConn 0, CEnds] (new_station idle_watcher) p \<and>
     closing p = Some (0, None) \<and> conns p 0 = Some ph \<and> (\<exists>ev p'. station_step answering_host ev p p')"
proof -
  obtain p p1 where p: "polite_run answering_host [CStarts ''h'' ''1935'' ''app'' ''cam'', CConn 0] (new_station idle_watcher) p"
    "station_step answering_host CEnds p p1" "closing p1 = Some (0, None)"
    using connecting_ends by blast
  from polite_run_append [OF p(1) polite_run.some [OF p(2) _ polite_run.none]]
  have r: "polite_run answering_host [CStarts ''h'' ''1935'' ''app'' ''cam'', CConn 0, CEnds] (new_station idle_watcher) p1"
    by (simp only: append.simps polite.simps simp_thms)
  from close_waits [OF _ _ r p(3) station_run.none] obtain ph where "conns p1 0 = Some ph" "\<exists>ev p'. station_step answering_host ev p1 p'"
    by auto
  with r p(3) show ?thesis by blast
qed

text \<open>On its way to a session that plays the thread of the socket comes to the start of the worker.\<close>

lemma conn_steps_open:
  "conn_steps e k ph s = Some (ph', s') \<Longrightarrow> ph \<noteq> Resolving \<Longrightarrow> sock_open s' \<Longrightarrow> sock_open s"
proof (induction k arbitrary: ph s)
  case (Suc k)
  show ?case
  proof (cases "ph = Finished")
    case False
    from Suc.prems(1) obtain ph1 s1 where c: "conn_step e ph s = Some (ph1, s1)" "conn_steps e k ph1 s1 = Some (ph', s')"
      by (auto split: option.splits)
    from Suc.IH [OF c(2) conn_step_socket(3) [OF c(1) False] Suc.prems(3)] conn_step_socket(2) [OF c(1) False] Suc.prems(2)
    show ?thesis by blast
  qed (use Suc.prems in simp)
qed simp

lemma passes_launch:
  assumes "conn_steps e k ph s = Some (ph', s')" and "stopped s" and "\<not> stopped s'" and "sock_open s'"
  shows "\<exists>j ds s1. conn_steps e j ph s = Some (Requesting StartMediaPacketRetriever ds, s1) \<and> sock_open s1"
  using assms
proof (induction k arbitrary: ph s)
  case (Suc k)
  from Suc.prems(1) obtain ph1 s1 where c: "conn_step e ph s = Some (ph1, s1)" "conn_steps e k ph1 s1 = Some (ph', s')"
    by (auto split: option.splits)
  show ?case
  proof (cases "stopped s1")
    case True
    from Suc.IH [OF c(2) True Suc.prems(3,4)] obtain j ds s2 where
      "conn_steps e j ph1 s1 = Some (Requesting StartMediaPacketRetriever ds, s2)" "sock_open s2" by blast
    with c(1) show ?thesis by (intro exI [of _ "Suc j"]) auto
  next
    case False
    then obtain ds where ph: "ph = Requesting StartMediaPacketRetriever ds"
      using c(1) Suc.prems(2)
      by (cases "(e, ph, s)" rule: conn_step.cases)
         (auto simp: Let_def dest: request_step_launch(2) split: prod.splits option.splits if_splits)
    from c(1) have "ph1 \<noteq> Resolving" by (rule conn_step_socket(3)) (simp add: ph)
    from conn_steps_open [OF c(2) this Suc.prems(4)] conn_step_socket(2) [OF c(1)] ph have "sock_open s" by simp
    with ph show ?thesis by (intro exI [of _ 0]) simp
  qed
qed simp

lemma polite_conn: "station_run e (replicate j (CConn n)) p p' \<Longrightarrow> polite_run e (replicate j (CConn n)) p p'"
  by (induction j arbitrary: p) (auto simp del: station_step_simps)

theorem end_late_witness:
  "\<exists>evs p p1 j p2. polite_run answering_host evs (new_station idle_watcher) p \<and> station_step answering_host CEnds p p1 \<and>
     station_run answering_host (replicate j (CConn 0) @ [CClosed]) p1 p2 \<and> controller_idle p2 \<and>
     \<not> sock_open (the_session p2) \<and> (\<exists>m. alive m (shop p2))"
proof -
  let ?q = resolving_station
  obtain s' where s': "conn_rest answering_host Resolving (the_session ?q) = Some s'" "\<not> stopped s'" "sock_open s'"
    using answered_thread by blast
  then obtain k where "conn_steps answering_host k Resolving (the_session ?q) = Some (Finished, s')"
    using conn_steps_rest [of Resolving "the_session ?q" answering_host] by auto
  moreover have "stopped (the_session ?q)"
    using still_free(2) settled_resolving resolving_station(3) by (auto simp: settled_def orderly_def)
  ultimately obtain i ds s1 where "conn_steps answering_host i Resolving (the_session ?q) =
      Some (Requesting StartMediaPacketRetriever ds, s1)" "sock_open s1"
    using passes_launch s'(2,3) by blast
  with conn_runs [OF settled_resolving resolving_station(3)] obtain i p where p:
    "station_run answering_host (replicate i (CConn 0)) ?q p" "conns p 0 = Some (Requesting StartMediaPacketRetriever ds)"
    "sock_open (the_session p)" "controller_joins (shop p) = None" "closing p = None"
    using resolving_station(2) unfolding controller_idle_def by metis
  from polite_run_append [OF resolving_station(1) polite_conn [OF p(1)]]
  have r: "polite_run answering_host ([CStarts ''h'' ''1935'' ''app'' ''cam''] @ replicate i (CConn 0)) (new_station idle_watcher) p" .
  from p(4,5) have "controller_idle p" by (simp add: controller_idle_def)
  from end_late [OF _ _ r this p(2) _ p(3)] obtain p1 j p2 where e: "station_step answering_host CEnds p p1"
    "station_run answering_host (replicate j (CConn 0) @ [CClosed]) p1 p2" "controller_idle p2"
    "\<forall>evs2 p3. station_run answering_host evs2 p2 p3 \<and> (\<forall>ev \<in> set evs2. unasked ev) \<longrightarrow>
       \<not> stopped (the_session p3) \<and> \<not> sock_open (the_session p3) \<and> (\<exists>m. alive m (shop p3))"
    by (simp del: station_step_simps station_run_simps) blast
  from e(4) [rule_format, of "[]" p2] have "\<not> sock_open (the_session p2)" "\<exists>m. alive m (shop p2)" by simp_all
  with r e(1-3) show ?thesis by blast
qed

text \<open>A start while the address is being resolved: the thread that resolves is detached and goes on beside the new one.\<close>

lemma start_over:
  assumes "controller_idle p" and "\<not> crashed (shop p)" and "conns p n = Some Resolving" and "n < conn_count p"
    and "\<not> sock_open (the_session p)" and "address \<noteq> []" and "port \<noteq> []"
  shows "\<exists>p'. station_step e (CStarts address port app stream) p p' \<and> conn_alive n p' \<and> conn_alive (conn_count p) p' \<and>
    conn_thread p' = Some (conn_count p)"
proof -
  have "sock_open (registered ((the_session p)\<lparr>appName := app, session_streamName := stream\<rparr>)) = sock_open (the_session p)"
    by (cases "the_session p") (simp add: registered_def socket_addDelegate_def socket_removeDelegate_def)
  with assms show ?thesis
    by (simp add: station_start_def controller_closed_def with_shop_session_def conn_alive_def socket_close_def Let_def)
qed

end
