(* ===== verification/MetricsThread.thy ===== *)
theory MetricsThread
imports NetMetrics
begin

text \<open>
  The thread of the metrics: \<open>start()\<close> arms a timer and starts a thread that runs the handlers of the service,
  \<open>run()\<close> grades and arms the timer again, \<open>stop()\<close> cancels the timer and joins the thread, or detaches it when it
  is called by the thread itself, in a callback of the delegate. The mutex is held while the delegate is called. The
  thread that controls the metrics and the threads of the service take their steps in any order. A socket has metrics
  for what it sends and others for what it receives; here is one of the two, with a thread and a mutex of its own.
\<close>

section \<open>The timer and its service\<close>

text \<open>What the code calls of \<open>deadline_timer\<close> and \<open>io_service\<close>; \<open>t_elapse\<close> lets the time of the timer go by, \<open>t_take\<close> is
  the next handler that \<open>run()\<close> of the service would call.\<close>

record 'w timer_api =
  t_expires_from_now :: "'w \<Rightarrow> 'w"
  t_async_wait :: "'w \<Rightarrow> 'w"
  t_cancel :: "'w \<Rightarrow> 'w"
  t_elapse :: "'w \<Rightarrow> 'w"
  t_take :: "'w \<Rightarrow> 'w option"
  t_stop :: "'w \<Rightarrow> 'w"
  t_reset :: "'w \<Rightarrow> 'w"

text \<open>
  What Boost.Asio documents: setting the expiry time, like \<open>cancel\<close>, cancels the waits that are pending, whose handlers
  are then called, with an error; the handlers of waits that are over are called by \<open>run\<close>, one each; a service that was
  stopped, or has run out of work, calls no handler before it is reset.
\<close>

record service_state =
  armed :: nat
  due :: nat
  halted :: bool

definition asio_timer :: "'w timer_api \<Rightarrow> ('w \<Rightarrow> service_state) \<Rightarrow> bool" where
  "asio_timer api view \<longleftrightarrow>
     (\<forall>w. view (t_expires_from_now api w) = (view w)\<lparr>armed := 0, due := due (view w) + armed (view w)\<rparr> \<and>
          view (t_async_wait api w) = (view w)\<lparr>armed := Suc (armed (view w))\<rparr> \<and>
          view (t_cancel api w) = (view w)\<lparr>armed := 0, due := due (view w) + armed (view w)\<rparr> \<and>
          view (t_elapse api w) = (view w)\<lparr>armed := 0, due := due (view w) + armed (view w)\<rparr> \<and>
          (t_take api w = None \<longleftrightarrow> due (view w) = 0 \<or> halted (view w)) \<and>
          (\<forall>w'. t_take api w = Some w' \<longrightarrow> view w' = (view w)\<lparr>due := due (view w) - 1\<rparr>) \<and>
          view (t_stop api w) = (view w)\<lparr>halted := True\<rparr> \<and>
          view (t_reset api w) = (view w)\<lparr>halted := False\<rparr>)"

lemma asio_timer_simps:
  assumes "asio_timer api view"
  shows "view (t_expires_from_now api w) = (view w)\<lparr>armed := 0, due := due (view w) + armed (view w)\<rparr>"
    "view (t_async_wait api w) = (view w)\<lparr>armed := Suc (armed (view w))\<rparr>"
    "view (t_cancel api w) = (view w)\<lparr>armed := 0, due := due (view w) + armed (view w)\<rparr>"
    "view (t_elapse api w) = (view w)\<lparr>armed := 0, due := due (view w) + armed (view w)\<rparr>"
    "t_take api w = None \<longleftrightarrow> due (view w) = 0 \<or> halted (view w)"
    "t_take api w = Some w' \<Longrightarrow> view w' = (view w)\<lparr>due := due (view w) - 1\<rparr>"
    "view (t_stop api w) = (view w)\<lparr>halted := True\<rparr>" "view (t_reset api w) = (view w)\<lparr>halted := False\<rparr>"
  using assms by (auto simp: asio_timer_def)

section \<open>The threads\<close>

text \<open>A transfer goes the way these metrics count, or the other way.\<close>

datatype direction = SameWay | OtherWay

text \<open>A thread runs the loop of the service; waits in \<open>run()\<close> for the mutex, behind its test of the flag; calls the
  delegate with the mutex held; is about to arm the timer again; waits for the mutex in a callback that has bytes to
  count, or in \<open>stop()\<close> for another thread; or has ended.\<close>

datatype meter_phase = Serving | Entering | Notifying | Rearming | Blocked clock u64 | Joining nat | Over

record 'w meter =
  m_metrics :: metrics
  m_service :: 'w
  m_holder :: "nat option"
  m_threads :: "nat \<Rightarrow> meter_phase option"
  m_thread :: "nat option"
  m_spawned :: nat
  m_joining :: "nat option"
  m_crashed :: bool

definition new_meter :: "metrics \<Rightarrow> 'w \<Rightarrow> 'w meter" where
  "new_meter m w = \<lparr> m_metrics = m, m_service = w, m_holder = None, m_threads = (\<lambda>_. None), m_thread = None, m_spawned = 0,
     m_joining = None, m_crashed = False \<rparr>"

definition set_meter_phase :: "nat \<Rightarrow> meter_phase \<Rightarrow> 'w meter \<Rightarrow> 'w meter" where
  "set_meter_phase n ph p = p\<lparr>m_threads := (m_threads p)(n \<mapsto> ph)\<rparr>"

text \<open>\<open>start()\<close>. \<open>clear()\<close> unlocks the mutex also when \<open>try_lock\<close> has failed, which throws.\<close>

definition meter_start :: "'w timer_api \<Rightarrow> clock \<Rightarrow> 'w meter \<Rightarrow> 'w meter" where
  "meter_start api now p =
     (if \<not> metrics_stopped (m_metrics p) then p
      else if m_holder p \<noteq> None then p\<lparr>m_crashed := True\<rparr>
      else let p = p\<lparr>m_metrics := metrics_start now (m_metrics p),
                     m_service := t_async_wait api (t_expires_from_now api (m_service p))\<rparr>
           in if m_thread p \<noteq> None then p\<lparr>m_crashed := True\<rparr>
              else p\<lparr>m_threads := (m_threads p)(m_spawned p \<mapsto> Serving), m_thread := Some (m_spawned p),
                     m_spawned := Suc (m_spawned p)\<rparr>)"

text \<open>\<open>stop()\<close>, called by a thread of the service (\<open>Some n\<close>) or from outside; and what it does when the thread is joined
  or detached.\<close>

definition meter_stopped :: "'w timer_api \<Rightarrow> 'w meter \<Rightarrow> 'w meter" where
  "meter_stopped api p = p\<lparr>m_thread := None, m_service := t_reset api (t_stop api (m_service p))\<rparr>"

definition meter_joined_by :: "nat \<Rightarrow> 'w meter \<Rightarrow> bool" where
  "meter_joined_by n p \<longleftrightarrow> m_joining p = Some n \<or> (\<exists>k. m_threads p k = Some (Joining n))"

definition meter_stop :: "'w timer_api \<Rightarrow> nat option \<Rightarrow> 'w meter \<Rightarrow> 'w meter" where
  "meter_stop api who p =
     (if metrics_stopped (m_metrics p) then p
      else let p = p\<lparr>m_metrics := metrics_stop (m_metrics p), m_service := t_cancel api (m_service p)\<rparr>
           in case m_thread p of
                None \<Rightarrow> meter_stopped api p
              | Some n \<Rightarrow>
                  if meter_joined_by n p then p\<lparr>m_crashed := True\<rparr>
                  else case who of
                    None \<Rightarrow> p\<lparr>m_joining := Some n\<rparr>
                  | Some k \<Rightarrow> if k = n then meter_stopped api p else set_meter_phase k (Joining n) p)"

text \<open>\<open>run()\<close>: the test of the flag; the grading, with the mutex; and the timer armed again.\<close>

definition meter_run :: "'w timer_api \<Rightarrow> nat \<Rightarrow> 'w \<Rightarrow> 'w meter \<Rightarrow> 'w meter" where
  "meter_run api n w p =
     (if metrics_stopped (m_metrics p) then p\<lparr>m_service := t_cancel api w\<rparr>
      else set_meter_phase n Entering (p\<lparr>m_service := w\<rparr>))"

definition meter_grade :: "nat \<Rightarrow> metrics \<Rightarrow> 'w meter \<Rightarrow> 'w meter" where
  "meter_grade n m p =
     set_meter_phase n (if metrics_events m = metrics_events (m_metrics p) then Rearming else Notifying)
       (p\<lparr>m_holder := Some n, m_metrics := m\<rparr>)"

definition meter_rearm :: "'w timer_api \<Rightarrow> nat \<Rightarrow> 'w meter \<Rightarrow> 'w meter" where
  "meter_rearm api n p =
     set_meter_phase n Serving
       (p\<lparr>m_holder := None, m_service := t_async_wait api (t_expires_from_now api (m_service p))\<rparr>)"

text \<open>The service has no work: nothing waits, and no thread is in a handler.\<close>

definition out_of_work :: "('w \<Rightarrow> service_state) \<Rightarrow> 'w meter \<Rightarrow> bool" where
  "out_of_work view p \<longleftrightarrow> armed (view (m_service p)) = 0 \<and> due (view (m_service p)) = 0 \<and>
     (\<forall>k ph. m_threads p k = Some ph \<longrightarrow> ph = Serving \<or> ph = Over)"

datatype meter_event =
    MStarts "nat option" clock
  | MStops "nat option"
  | MUpdates "nat option" direction clock u64
  | MUnblocks nat
  | MJoined "nat option"
  | MElapses
  | MFires nat
  | MGrades nat
  | MReturns nat
  | MRearms nat
  | MExits nat

fun may_call :: "nat option \<Rightarrow> 'w meter \<Rightarrow> bool" where
  "may_call None p \<longleftrightarrow> m_joining p = None"
| "may_call (Some n) p \<longleftrightarrow> m_threads p n = Some Notifying"

text \<open>A transfer counts its bytes with the mutex of the metrics of its own direction (\<open>sendDataImpl\<close>, \<open>receiveData\<close>): these
  metrics take no part in one that goes the other way. A callback that waits for the mutex goes on when it is free. That
  the thread which holds a \<open>std::mutex\<close> waits for it as any other does is what the usual implementations do.\<close>

inductive meter_step :: "'w timer_api \<Rightarrow> ('w \<Rightarrow> service_state) \<Rightarrow> meter_event \<Rightarrow> 'w meter \<Rightarrow> 'w meter \<Rightarrow> bool"
  for api view where
  starts: "\<not> m_crashed p \<Longrightarrow> may_call who p \<Longrightarrow> meter_step api view (MStarts who now) p (meter_start api now p)"
| stops: "\<not> m_crashed p \<Longrightarrow> may_call who p \<Longrightarrow> meter_step api view (MStops who) p (meter_stop api who p)"
| updates: "\<not> m_crashed p \<Longrightarrow> m_holder p = None \<Longrightarrow>
    meter_step api view (MUpdates None SameWay now n) p (p\<lparr>m_metrics := updateData now n (m_metrics p)\<rparr>)"
| updates_inside: "\<not> m_crashed p \<Longrightarrow> m_threads p k = Some Notifying \<Longrightarrow>
    meter_step api view (MUpdates (Some k) SameWay now n) p (set_meter_phase k (Blocked now n) p)"
| unblocks: "\<not> m_crashed p \<Longrightarrow> m_threads p k = Some (Blocked now n) \<Longrightarrow> m_holder p = None \<Longrightarrow>
    meter_step api view (MUnblocks k) p (set_meter_phase k Notifying (p\<lparr>m_metrics := updateData now n (m_metrics p)\<rparr>))"
| updates_other: "\<not> m_crashed p \<Longrightarrow> (\<forall>k. who = Some k \<longrightarrow> m_threads p k = Some Notifying) \<Longrightarrow>
    meter_step api view (MUpdates who OtherWay now n) p p"
| joined: "\<not> m_crashed p \<Longrightarrow> m_joining p = Some n \<Longrightarrow> m_threads p n = Some Over \<Longrightarrow>
    meter_step api view (MJoined None) p (meter_stopped api (p\<lparr>m_joining := None\<rparr>))"
| joined_inside: "\<not> m_crashed p \<Longrightarrow> m_threads p k = Some (Joining n) \<Longrightarrow> m_threads p n = Some Over \<Longrightarrow>
    meter_step api view (MJoined (Some k)) p (meter_stopped api (set_meter_phase k Notifying p))"
| elapses: "\<not> m_crashed p \<Longrightarrow> 0 < armed (view (m_service p)) \<Longrightarrow>
    meter_step api view MElapses p (p\<lparr>m_service := t_elapse api (m_service p)\<rparr>)"
| fires: "\<not> m_crashed p \<Longrightarrow> m_threads p n = Some Serving \<Longrightarrow> t_take api (m_service p) = Some w \<Longrightarrow>
    meter_step api view (MFires n) p (meter_run api n w p)"
| grades: "\<not> m_crashed p \<Longrightarrow> m_threads p n = Some Entering \<Longrightarrow> m_holder p = None \<Longrightarrow> metrics_profile (m_metrics p) = Some m \<Longrightarrow>
    meter_step api view (MGrades n) p (meter_grade n m p)"
| returns: "\<not> m_crashed p \<Longrightarrow> m_threads p n = Some Notifying \<Longrightarrow> meter_step api view (MReturns n) p (set_meter_phase n Rearming p)"
| rearms: "\<not> m_crashed p \<Longrightarrow> m_threads p n = Some Rearming \<Longrightarrow> meter_step api view (MRearms n) p (meter_rearm api n p)"
| exits: "\<not> m_crashed p \<Longrightarrow> m_threads p n = Some Serving \<Longrightarrow> halted (view (m_service p)) \<or> out_of_work view p \<Longrightarrow>
    meter_step api view (MExits n) p (set_meter_phase n Over (p\<lparr>m_service := t_stop api (m_service p)\<rparr>))"

inductive_cases meter_stepE: "meter_step api view ev p p'"
inductive_simps meter_step_simps [simp]:
  "meter_step api view (MStarts who now) p p'" "meter_step api view (MStops who) p p'" "meter_step api view (MUpdates who d now n) p p'"
  "meter_step api view (MUnblocks k) p p'"
  "meter_step api view (MJoined who) p p'" "meter_step api view MElapses p p'" "meter_step api view (MFires n) p p'"
  "meter_step api view (MGrades n) p p'" "meter_step api view (MReturns n) p p'" "meter_step api view (MRearms n) p p'"
  "meter_step api view (MExits n) p p'"

inductive meter_run_of :: "'w timer_api \<Rightarrow> ('w \<Rightarrow> service_state) \<Rightarrow> meter_event list \<Rightarrow> 'w meter \<Rightarrow> 'w meter \<Rightarrow> bool"
  for api view where
  none: "meter_run_of api view [] p p"
| some: "meter_step api view ev p p1 \<Longrightarrow> meter_run_of api view evs p1 p' \<Longrightarrow> meter_run_of api view (ev # evs) p p'"

inductive_simps meter_run_of_simps [simp]: "meter_run_of api view [] p p'" "meter_run_of api view (ev # evs) p p'"

text \<open>No callback starts or stops the metrics, or transfers bytes that they count.\<close>

fun outside :: "meter_event \<Rightarrow> bool" where
  "outside (MStarts who now) \<longleftrightarrow> who = None"
| "outside (MStops who) \<longleftrightarrow> who = None"
| "outside (MUpdates who d now n) \<longleftrightarrow> who = None \<or> d = OtherWay"
| "outside ev \<longleftrightarrow> True"

section \<open>A controller that keeps the metrics to itself\<close>

definition meter_alive :: "nat \<Rightarrow> 'w meter \<Rightarrow> bool" where
  "meter_alive n p \<longleftrightarrow> (\<exists>ph. m_threads p n = Some ph \<and> ph \<noteq> Over)"

text \<open>The handlers the service still has, and the mutex, by what the one thread does.\<close>

fun phase_fits :: "bool \<Rightarrow> service_state \<Rightarrow> nat \<Rightarrow> nat option \<Rightarrow> meter_phase \<Rightarrow> bool" where
  "phase_fits off v n holder Serving \<longleftrightarrow> holder = None \<and> \<not> halted v \<and> armed v + due v \<le> 1 \<and> (off \<or> armed v + due v = 1)"
| "phase_fits off v n holder Entering \<longleftrightarrow> holder = None \<and> \<not> halted v \<and> armed v = 0 \<and> due v = 0"
| "phase_fits off v n holder Notifying \<longleftrightarrow> holder = Some n \<and> \<not> halted v \<and> armed v = 0 \<and> due v = 0"
| "phase_fits off v n holder Rearming \<longleftrightarrow> holder = Some n \<and> \<not> halted v \<and> armed v = 0 \<and> due v = 0"
| "phase_fits off v n holder Over \<longleftrightarrow> off \<and> holder = None \<and> armed v = 0 \<and> due v = 0"
| "phase_fits off v n holder _ \<longleftrightarrow> False"

definition meter_tidy :: "('w \<Rightarrow> service_state) \<Rightarrow> 'w meter \<Rightarrow> bool" where
  "meter_tidy view p \<longleftrightarrow> \<not> m_crashed p \<and> metrics_ok (m_metrics p) \<and>
     (\<forall>n. meter_alive n p \<longrightarrow> m_thread p = Some n) \<and> (\<forall>n. m_spawned p \<le> n \<longrightarrow> m_threads p n = None) \<and>
     (case m_thread p of
        None \<Rightarrow> metrics_stopped (m_metrics p) \<and> m_joining p = None \<and> m_holder p = None \<and>
          view (m_service p) = \<lparr>armed = 0, due = 0, halted = False\<rparr>
      | Some n \<Rightarrow> m_joining p = (if metrics_stopped (m_metrics p) then Some n else None) \<and>
          (\<exists>ph. m_threads p n = Some ph \<and> phase_fits (metrics_stopped (m_metrics p)) (view (m_service p)) n (m_holder p) ph))"

lemma metrics_flag [simp]:
  "metrics_stopped (metrics_stop m)" "metrics_stopped (metrics_start now m) = False" "metrics_stopped (updateData now n m) = metrics_stopped m"
  by (auto simp: metrics_stop_def metrics_start_def metrics_clear_def updateData_def)

lemma profile_kept:
  assumes "metrics_profile m = Some m'" and "metrics_ok m"
  shows "metrics_ok m'" "metrics_stopped m' = metrics_stopped m"
  using metrics_profile_ok [OF assms(2)] assms(1) by auto

lemma meter_tidy_thread:
  assumes "meter_tidy view p" and "m_threads p k = Some ph" and "ph \<noteq> Over"
  shows "m_thread p = Some k" "phase_fits (metrics_stopped (m_metrics p)) (view (m_service p)) k (m_holder p) ph"
    "m_joining p = (if metrics_stopped (m_metrics p) then Some k else None)"
  using assms by (auto simp: meter_tidy_def meter_alive_def split: option.splits)

lemma meter_tidy_others:
  assumes "meter_tidy view p" and "m_thread p = Some n" and "m_threads p k = Some ph" and "k \<noteq> n"
  shows "ph = Over"
  using assms by (auto simp: meter_tidy_def meter_alive_def)

lemma meter_tidy_not_joining: "meter_tidy view p \<Longrightarrow> m_threads p k \<noteq> Some (Joining j)"
  using meter_tidy_thread(2) [of view p k "Joining j"] by auto

text \<open>A step of the one thread: it goes on to a phase that fits.\<close>

lemma meter_tidy_phase:
  assumes "meter_tidy view p" and "m_thread p = Some n"
    and "\<not> m_crashed p'" and "metrics_ok (m_metrics p')" and "metrics_stopped (m_metrics p') = metrics_stopped (m_metrics p)"
    and "m_thread p' = m_thread p" and "m_spawned p' = m_spawned p" and "m_joining p' = m_joining p"
    and "m_threads p' = (m_threads p)(n \<mapsto> ph)"
    and "phase_fits (metrics_stopped (m_metrics p)) (view (m_service p')) n (m_holder p') ph"
  shows "meter_tidy view p'"
proof -
  have "n < m_spawned p"
    using assms(1,2) by (auto simp: meter_tidy_def not_le [symmetric])
  with assms show ?thesis
    by (auto simp: meter_tidy_def meter_alive_def split: if_splits)
qed

lemma meter_tidy_new: "metrics_stopped m \<Longrightarrow> metrics_ok m \<Longrightarrow> view w = \<lparr>armed = 0, due = 0, halted = False\<rparr> \<Longrightarrow> meter_tidy view (new_meter m w)"
  by (simp add: meter_tidy_def new_meter_def meter_alive_def)

lemma meter_tidy_start:
  assumes api: "asio_timer api view" and tidy: "meter_tidy view p" and free: "m_joining p = None"
  shows "meter_tidy view (meter_start api now p)"
proof (cases "metrics_stopped (m_metrics p)")
  case True
  with tidy free have none: "m_thread p = None" by (auto simp: meter_tidy_def split: option.splits)
  with tidy True show ?thesis
    by (auto simp: meter_start_def Let_def meter_tidy_def meter_alive_def asio_timer_simps [OF api] split: if_splits)
next
  case False
  with tidy show ?thesis by (simp add: meter_start_def)
qed

lemma meter_tidy_stop:
  assumes api: "asio_timer api view" and tidy: "meter_tidy view p" and free: "m_joining p = None"
  shows "meter_tidy view (meter_stop api None p)"
proof (cases "metrics_stopped (m_metrics p)")
  case True
  with tidy show ?thesis by (simp add: meter_stop_def)
next
  case False
  with tidy obtain n ph where n: "m_thread p = Some n" "m_threads p n = Some ph"
    "phase_fits False (view (m_service p)) n (m_holder p) ph"
    by (auto simp: meter_tidy_def split: option.splits)
  have "m_threads p k \<noteq> Some (Joining m)" for k m
    using n meter_tidy_others [OF tidy n(1), of k] by (cases "k = n") auto
  with free tidy n False show ?thesis
    by (cases ph) (auto simp: meter_stop_def Let_def meter_joined_by_def meter_tidy_def meter_alive_def asio_timer_simps [OF api])
qed

lemma meter_tidy_step:
  assumes api: "asio_timer api view" and step: "meter_step api view ev p p'" and "outside ev" and tidy: "meter_tidy view p"
  shows "meter_tidy view p'"
proof -
  note laws = asio_timer_simps [OF api]
  from step show ?thesis
  proof cases
    case (starts who now)
    with assms(3) show ?thesis by (simp add: meter_tidy_start [OF api tidy])
  next
    case (stops who)
    with assms(3) show ?thesis by (simp add: meter_tidy_stop [OF api tidy])
  next
    case (updates now n)
    with tidy show ?thesis
      by (auto simp: meter_tidy_def meter_alive_def split: option.splits)
  next
    case (updates_inside k now n)
    with assms(3) show ?thesis by simp
  next
    case (unblocks k now n)
    with meter_tidy_thread [OF tidy, of k "Blocked now n"] show ?thesis by simp
  next
    case (updates_other who now n)
    with tidy show ?thesis by simp
  next
    case (joined n)
    with tidy have n: "m_thread p = Some n" "metrics_stopped (m_metrics p)"
      by (auto simp: meter_tidy_def split: option.splits if_splits)
    have "\<not> meter_alive k p" for k
      using n meter_tidy_others [OF tidy n(1), of k] joined by (cases "k = n") (auto simp: meter_alive_def)
    with tidy n joined show ?thesis
      by (auto simp: meter_stopped_def meter_tidy_def meter_alive_def laws)
  next
    case (joined_inside k n)
    with meter_tidy_thread [OF tidy, of k "Joining n"] show ?thesis by simp
  next
    case elapses
    then obtain n ph where n: "m_thread p = Some n" "m_threads p n = Some ph"
      "phase_fits (metrics_stopped (m_metrics p)) (view (m_service p)) n (m_holder p) ph"
      using tidy by (auto simp: meter_tidy_def split: option.splits)
    with elapses have "ph = Serving" by (cases ph) auto
    with elapses tidy n show ?thesis
      by (intro meter_tidy_phase [OF tidy n(1), where ph = ph]) (auto simp: laws meter_tidy_def)
  next
    case (fires n w)
    note t = meter_tidy_thread [OF tidy fires(4), simplified]
    have v: "view w = (view (m_service p))\<lparr>due := due (view (m_service p)) - 1\<rparr>" "due (view (m_service p)) \<noteq> 0"
      using laws(5,6) fires(5) by (metis, metis option.distinct(1))
    show ?thesis
      using fires tidy t v
      by (intro meter_tidy_phase [OF tidy t(1), where ph = "if metrics_stopped (m_metrics p) then Serving else Entering"])
         (auto simp: meter_run_def set_meter_phase_def laws meter_tidy_def fun_upd_idem)
  next
    case (grades n m)
    note t = meter_tidy_thread [OF tidy grades(4), simplified]
    have ok: "metrics_ok (m_metrics p)" using tidy by (simp add: meter_tidy_def)
    show ?thesis
      using grades t profile_kept [OF grades(6) ok]
      by (intro meter_tidy_phase [OF tidy t(1), where ph = "if metrics_events m = metrics_events (m_metrics p) then Rearming else Notifying"])
         (auto simp: meter_grade_def set_meter_phase_def)
  next
    case (returns n)
    note t = meter_tidy_thread [OF tidy returns(4), simplified]
    show ?thesis
      using returns t tidy
      by (intro meter_tidy_phase [OF tidy t(1), where ph = Rearming]) (auto simp: set_meter_phase_def meter_tidy_def)
  next
    case (rearms n)
    note t = meter_tidy_thread [OF tidy rearms(4), simplified]
    show ?thesis
      using rearms t tidy
      by (intro meter_tidy_phase [OF tidy t(1), where ph = Serving]) (auto simp: meter_rearm_def set_meter_phase_def laws meter_tidy_def)
  next
    case (exits n)
    note t = meter_tidy_thread [OF tidy exits(4), simplified]
    show ?thesis
      using exits t tidy
      by (intro meter_tidy_phase [OF tidy t(1), where ph = Over]) (auto simp: out_of_work_def set_meter_phase_def laws meter_tidy_def)
  qed
qed

lemma meter_tidy_run:
  assumes "asio_timer api view"
  shows "meter_run_of api view evs p p' \<Longrightarrow> \<forall>ev \<in> set evs. outside ev \<Longrightarrow> meter_tidy view p \<Longrightarrow> meter_tidy view p'"
  by (induction rule: meter_run_of.induct) (auto dest: meter_tidy_step [OF assms])

lemma meter_tidy_reached:
  assumes "asio_timer api view" and "metrics_ok m" and "metrics_stopped m" and "view w = \<lparr>armed = 0, due = 0, halted = False\<rparr>"
    and "meter_run_of api view evs (new_meter m w) p" and "\<forall>ev \<in> set evs. outside ev"
  shows "meter_tidy view p"
  using meter_tidy_new [of m view w] assms(2-4) meter_tidy_run [OF assms(1,5,6)] by blast

section \<open>A timer that counts\<close>

definition counting_timer :: "service_state timer_api" where
  "counting_timer = \<lparr> t_expires_from_now = (\<lambda>w. w\<lparr>armed := 0, due := due w + armed w\<rparr>), t_async_wait = (\<lambda>w. w\<lparr>armed := Suc (armed w)\<rparr>),
     t_cancel = (\<lambda>w. w\<lparr>armed := 0, due := due w + armed w\<rparr>), t_elapse = (\<lambda>w. w\<lparr>armed := 0, due := due w + armed w\<rparr>),
     t_take = (\<lambda>w. if due w = 0 \<or> halted w then None else Some (w\<lparr>due := due w - 1\<rparr>)),
     t_stop = (\<lambda>w. w\<lparr>halted := True\<rparr>), t_reset = (\<lambda>w. w\<lparr>halted := False\<rparr>) \<rparr>"

lemma counting_timer_ok: "asio_timer counting_timer (\<lambda>w. w)"
  by (auto simp: asio_timer_def counting_timer_def)

definition sample_metrics :: metrics where
  "sample_metrics = metrics_setDelegate True (new_metrics (0, 0) 57600)"

definition idle_service :: service_state where
  "idle_service = \<lparr> armed = 0, due = 0, halted = False \<rparr>"

lemma sample_metrics_ok: "metrics_ok sample_metrics" "metrics_stopped sample_metrics"
  by (simp_all add: sample_metrics_def metrics_ok_new) (simp add: new_metrics_def metrics_setDelegate_def)

text \<open>Less than a third of the expected rate has gone through: the delegate is told.\<close>

definition slow_metrics :: metrics where
  "slow_metrics = updateData (1, 0) 100 (metrics_start (0, 0) sample_metrics)"

definition graded_metrics :: metrics where
  "graded_metrics = slow_metrics\<lparr>metrics_events := [MetricsDowngraded High 51840, MetricsChanged High 51840],
     currentNetwork := High, oldCbs := 100\<rparr>"

lemma slow_graded: "metrics_profile slow_metrics = Some graded_metrics"
  by (simp add: metrics_profile_def slow_metrics_def graded_metrics_def sample_metrics_def new_metrics_def metrics_setDelegate_def
      metrics_start_def metrics_clear_def updateData_def setTransferredBytes_def speed_reset_def new_speed_indicator_def
      currentBytesPerSeconds_def handleNetworkProfiler_def byteRateShouldDrop_def float_of_nat_exact
      newByteRateFromPercentage_def notifyListenersIfNeeded_def less_network_type_def)

definition told_meter :: "service_state meter" where
  "told_meter = \<lparr> m_metrics = graded_metrics, m_service = idle_service, m_holder = Some 0, m_threads = [0 \<mapsto> Notifying],
     m_thread = Some 0, m_spawned = 1, m_joining = None, m_crashed = False \<rparr>"

lemma told_meter_reached:
  "meter_run_of counting_timer (\<lambda>w. w) [MStarts None (0, 0), MUpdates None SameWay (1, 0) 100, MElapses, MFires 0, MGrades 0]
     (new_meter sample_metrics idle_service) told_meter"
proof -
  have e: "metrics_events slow_metrics = []" "metrics_events graded_metrics \<noteq> []" "\<not> metrics_stopped slow_metrics"
    by (simp_all add: slow_metrics_def graded_metrics_def sample_metrics_def new_metrics_def metrics_setDelegate_def
        metrics_start_def metrics_clear_def updateData_def)
  show ?thesis
    by (simp add: new_meter_def meter_start_def sample_metrics_ok counting_timer_def idle_service_def meter_run_def meter_grade_def
        set_meter_phase_def slow_metrics_def [symmetric] slow_graded e told_meter_def)
qed

section \<open>Properties\<close>



text \<open>How many steps the thread still takes once the flag is set: from the test of the flag on, a whole interval more.\<close>

fun meter_left :: "service_state \<Rightarrow> meter_phase \<Rightarrow> nat" where
  "meter_left v Serving = 1 + 2 * armed v + due v"
| "meter_left v Rearming = 4" | "meter_left v Notifying = 5" | "meter_left v Entering = 6" | "meter_left v _ = 0"

fun intervals_left :: "service_state \<Rightarrow> meter_phase \<Rightarrow> nat" where
  "intervals_left v Serving = armed v" | "intervals_left v Over = 0" | "intervals_left v _ = 1"

fun is_update :: "meter_event \<Rightarrow> bool" where
  "is_update (MUpdates who d now n) \<longleftrightarrow> True"
| "is_update _ \<longleftrightarrow> False"

lemma meter_joining_step:
  assumes api: "asio_timer api view" and step: "meter_step api view ev p p'" and ev: "outside ev" "ev \<noteq> MJoined None"
    and tidy: "meter_tidy view p" and j: "m_joining p = Some n" and ph: "m_threads p n = Some ph"
  shows "m_joining p' = Some n \<and> (\<exists>ph'. m_threads p' n = Some ph' \<and>
    meter_left (view (m_service p')) ph' + (if is_update ev then 0 else 1) \<le> meter_left (view (m_service p)) ph \<and>
    intervals_left (view (m_service p')) ph' + (if ev = MElapses then 1 else 0) \<le> intervals_left (view (m_service p)) ph)"
proof -
  note laws = asio_timer_simps [OF api]
  have n: "m_thread p = Some n" "metrics_stopped (m_metrics p)"
    using tidy j by (auto simp: meter_tidy_def split: option.splits if_splits)
  have fit: "phase_fits True (view (m_service p)) n (m_holder p) ph"
    using tidy n ph by (auto simp: meter_tidy_def)
  have one: "k = n" if "m_threads p k = Some x" "x \<noteq> Over" for k x
    using meter_tidy_others [OF tidy n(1) that(1)] that(2) by blast
  from step show ?thesis
  proof cases
    case (starts who now)
    with ev(1) j show ?thesis by simp
  next
    case (stops who)
    with ev(1) j show ?thesis by simp
  next
    case (updates now k)
    with j ph show ?thesis by simp
  next
    case (updates_inside k now m)
    with ev(1) show ?thesis by simp
  next
    case (unblocks k now m)
    with meter_tidy_thread [OF tidy, of k "Blocked now m"] show ?thesis by simp
  next
    case (updates_other who now m)
    with j ph show ?thesis by simp
  next
    case (joined k)
    with ev(2) show ?thesis by simp
  next
    case (joined_inside k m)
    with meter_tidy_thread [OF tidy, of k "Joining m"] show ?thesis by simp
  next
    case elapses
    with fit have "ph = Serving" by (cases ph) auto
    with elapses j ph fit show ?thesis by (simp add: laws)
  next
    case (fires k w)
    with one have k: "k = n" by blast
    have v: "view w = (view (m_service p))\<lparr>due := due (view (m_service p)) - 1\<rparr>" "due (view (m_service p)) \<noteq> 0"
      using laws(5,6) fires(5) by (metis, metis option.distinct(1))
    with fires k fit ph j n(2) show ?thesis by (auto simp: meter_run_def laws)
  next
    case (grades k m)
    with one have k: "k = n" by blast
    with grades ph j show ?thesis by (auto simp: meter_grade_def set_meter_phase_def)
  next
    case (returns k)
    with one have k: "k = n" by blast
    with returns ph j show ?thesis by (auto simp: set_meter_phase_def)
  next
    case (rearms k)
    with one have k: "k = n" by blast
    with rearms ph j fit show ?thesis by (auto simp: meter_rearm_def set_meter_phase_def laws)
  next
    case (exits k)
    with one have k: "k = n" by blast
    with exits ph j show ?thesis by (auto simp: set_meter_phase_def)
  qed
qed

lemma meter_joining_run:
  assumes api: "asio_timer api view"
  shows "meter_run_of api view evs p p' \<Longrightarrow> \<forall>ev \<in> set evs. outside ev \<Longrightarrow> MJoined None \<notin> set evs \<Longrightarrow> meter_tidy view p \<Longrightarrow>
    m_joining p = Some n \<Longrightarrow> m_threads p n = Some ph \<Longrightarrow>
    m_joining p' = Some n \<and> meter_tidy view p' \<and> (\<exists>ph'. m_threads p' n = Some ph' \<and>
      meter_left (view (m_service p')) ph' + length (filter (\<lambda>ev. \<not> is_update ev) evs) \<le> meter_left (view (m_service p)) ph \<and>
      intervals_left (view (m_service p')) ph' + length (filter ((=) MElapses) evs) \<le> intervals_left (view (m_service p)) ph)"
proof (induction arbitrary: ph rule: meter_run_of.induct)
  case (some ev p p1 evs p')
  from some.prems have ev: "outside ev" "ev \<noteq> MJoined None" by auto
  from meter_joining_step [OF api some.hyps(1) ev some.prems(3-5)] obtain ph1 where
    1: "m_joining p1 = Some n" "m_threads p1 n = Some ph1"
      "meter_left (view (m_service p1)) ph1 + (if is_update ev then 0 else 1) \<le> meter_left (view (m_service p)) ph"
      "intervals_left (view (m_service p1)) ph1 + (if ev = MElapses then 1 else 0) \<le> intervals_left (view (m_service p)) ph" by blast
  from some.IH [OF _ _ meter_tidy_step [OF api some.hyps(1) ev(1) some.prems(3)] 1(1,2)] some.prems(1,2) obtain ph' where
    2: "m_joining p' = Some n" "meter_tidy view p'" "m_threads p' n = Some ph'"
      "meter_left (view (m_service p')) ph' + length (filter (\<lambda>ev. \<not> is_update ev) evs) \<le> meter_left (view (m_service p1)) ph1"
      "intervals_left (view (m_service p')) ph' + length (filter ((=) MElapses) evs) \<le> intervals_left (view (m_service p1)) ph1"
    by auto
  show ?case
    using 1(3,4) 2 by (intro conjI exI [of _ ph']) (auto split: if_splits)
qed simp

text \<open>While the controller waits in \<open>stop()\<close> there is a next step.\<close>

lemma meter_joining_moves:
  assumes api: "asio_timer api view" and r: "m_joining p' = Some n" "meter_tidy view p'" "m_threads p' n = Some ph'"
  shows "\<exists>ev p''. outside ev \<and> \<not> is_update ev \<and> meter_step api view ev p' p''"
proof -
  note laws = asio_timer_simps [OF api]
  have n: "m_thread p' = Some n" "metrics_stopped (m_metrics p')" "\<not> m_crashed p'" "metrics_ok (m_metrics p')"
    using r(1,2) by (auto simp: meter_tidy_def split: option.splits if_splits)
  have fit: "phase_fits True (view (m_service p')) n (m_holder p') ph'"
    using r n by (auto simp: meter_tidy_def)
  have others: "x = Over" if "m_threads p' k = Some x" "k \<noteq> n" for k x
    by (rule meter_tidy_others [OF r(2) n(1) that])
  show ?thesis
  proof (cases ph')
    case Serving
    consider "0 < armed (view (m_service p'))" | "due (view (m_service p')) \<noteq> 0"
      | "armed (view (m_service p')) = 0" "due (view (m_service p')) = 0" by auto
    then show ?thesis
    proof cases
      case 1
      with n show ?thesis by (intro exI [of _ MElapses]) auto
    next
      case 2
      with fit Serving laws(5) obtain w' where "t_take api (m_service p') = Some w'" by fastforce
      with n r(3) Serving show ?thesis by (intro exI [of _ "MFires n"]) auto
    next
      case 3
      have "out_of_work view p'"
        unfolding out_of_work_def using 3 others r(3) Serving by (metis option.inject)
      with n r(3) Serving show ?thesis by (intro exI [of _ "MExits n"]) auto
    qed
  next
    case Entering
    from metrics_profile_ok [OF n(4)] obtain m' where "metrics_profile (m_metrics p') = Some m'" by blast
    with Entering n r(3) fit show ?thesis by (intro exI [of _ "MGrades n"]) auto
  next
    case Notifying
    with n r(3) show ?thesis by (intro exI [of _ "MReturns n"]) auto
  next
    case Rearming
    with n r(3) show ?thesis by (intro exI [of _ "MRearms n"]) auto
  next
    case Over
    with n r(1,3) show ?thesis by (intro exI [of _ "MJoined None"]) auto
  qed (use fit in simp_all)
qed

text \<open>C26: \<open>stop()\<close> returns, as long as no callback starts or stops the metrics or transfers in their direction, which would wait
  for ever, and every callback returns: while it waits for the thread at most six steps are taken, bytes that are counted aside, and one
  of them is an interval of the timer: a thread that has tested the flag arms the timer that \<open>stop()\<close> has cancelled. As
  long as it waits, some step can be taken.\<close>

theorem metrics_stop_returns:
  assumes "asio_timer api view" and "metrics_ok m" and "metrics_stopped m" and "view w = \<lparr>armed = 0, due = 0, halted = False\<rparr>"
    and "meter_run_of api view evs0 (new_meter m w) p" and "\<forall>ev \<in> set evs0. outside ev" and "m_joining p = Some n"
    and "meter_run_of api view evs p p'" and "\<forall>ev \<in> set evs. outside ev" and "MJoined None \<notin> set evs"
  shows "length (filter (\<lambda>ev. \<not> is_update ev) evs) \<le> 6 \<and> length (filter ((=) MElapses) evs) \<le> 1 \<and>
    (\<exists>ev p''. outside ev \<and> \<not> is_update ev \<and> meter_step api view ev p' p'')"
proof -
  note t = meter_tidy_reached [OF assms(1-6)]
  from t obtain ph where ph: "m_threads p n = Some ph" "phase_fits True (view (m_service p)) n (m_holder p) ph"
    using assms(7) by (auto simp: meter_tidy_def split: option.splits if_splits)
  from meter_joining_run [OF assms(1,8-10) t assms(7) ph(1)] obtain ph' where
    r: "m_joining p' = Some n" "meter_tidy view p'" "m_threads p' n = Some ph'"
      "meter_left (view (m_service p')) ph' + length (filter (\<lambda>ev. \<not> is_update ev) evs) \<le> meter_left (view (m_service p)) ph"
      "intervals_left (view (m_service p')) ph' + length (filter ((=) MElapses) evs) \<le> intervals_left (view (m_service p)) ph" by blast
  have "meter_left (view (m_service p)) ph \<le> 6 \<and> intervals_left (view (m_service p)) ph \<le> 1"
    using ph(2) by (cases ph) auto
  moreover have "\<exists>ev p''. outside ev \<and> \<not> is_update ev \<and> meter_step api view ev p' p''"
    by (rule meter_joining_moves [OF assms(1) r(1-3)])
  ultimately show ?thesis
    using r(4,5) by (auto intro: order_trans)
qed

text \<open>The flag falls behind the test of it: the thread grades, arms the timer that was cancelled, and an interval goes by.\<close>

theorem metrics_stop_returns_witness:
  "\<exists>p p'. meter_run_of counting_timer (\<lambda>w. w) [MStarts None (0, 0), MElapses, MFires 0, MStops None]
       (new_meter sample_metrics idle_service) p \<and> m_joining p = Some 0 \<and>
     meter_run_of counting_timer (\<lambda>w. w) [MGrades 0, MRearms 0, MElapses, MFires 0] p p' \<and>
     (\<exists>ev p''. meter_step counting_timer (\<lambda>w. w) ev p' p'')"
proof -
  let ?evs = "[MStarts None (0, 0), MElapses, MFires 0, MStops None]"
  let ?m = "metrics_stop (metrics_start (0, 0) sample_metrics)"
  have g: "metrics_profile ?m = Some ?m"
    by (simp add: metrics_profile_def sample_metrics_def new_metrics_def metrics_setDelegate_def metrics_start_def metrics_stop_def
        metrics_clear_def speed_reset_def new_speed_indicator_def currentBytesPerSeconds_def)
  let ?p = "\<lparr> m_metrics = ?m, m_service = idle_service, m_holder = None, m_threads = [0 \<mapsto> Entering], m_thread = Some 0,
    m_spawned = 1, m_joining = Some 0, m_crashed = False \<rparr>"
  have free: "(\<exists>k :: nat. (if k = 0 then Some Entering else None) = Some (Joining 0)) = False"
    by (auto split: if_splits)
  have p: "meter_run_of counting_timer (\<lambda>w. w) ?evs (new_meter sample_metrics idle_service) ?p" "m_joining ?p = Some 0"
    by (simp_all add: new_meter_def meter_start_def meter_stop_def Let_def meter_joined_by_def sample_metrics_ok counting_timer_def
        idle_service_def meter_run_def set_meter_phase_def free)
  have p': "meter_run_of counting_timer (\<lambda>w. w) [MGrades 0, MRearms 0, MElapses, MFires 0] ?p (?p\<lparr>m_threads := [0 \<mapsto> Serving]\<rparr>)"
    by (simp add: counting_timer_def idle_service_def meter_run_def set_meter_phase_def meter_grade_def meter_rearm_def g)
  have idle: "(\<lambda>w. w) idle_service = \<lparr>armed = 0, due = 0, halted = False\<rparr>"
    by (simp add: idle_service_def)
  have "\<exists>ev p''. outside ev \<and> \<not> is_update ev \<and>
      meter_step counting_timer (\<lambda>w. w) ev (?p\<lparr>m_threads := [0 \<mapsto> Serving]\<rparr>) p''"
    by (rule metrics_stop_returns [OF counting_timer_ok sample_metrics_ok idle p(1) _ p(2) p', THEN conjunct2, THEN conjunct2]) simp_all
  then show ?thesis
    using p p' by (intro exI [of _ ?p] exI [of _ "?p\<lparr>m_threads := [0 \<mapsto> Serving]\<rparr>"] conjI) (assumption | blast)+
qed

section \<open>A callback that stops the metrics\<close>

text \<open>What happens when nobody starts or stops the metrics any more.\<close>

fun goes_on :: "meter_event \<Rightarrow> bool" where
  "goes_on (MStarts who now) \<longleftrightarrow> False"
| "goes_on (MStops who) \<longleftrightarrow> False"
| "goes_on (MUpdates who d now n) \<longleftrightarrow> who = None \<or> d = OtherWay"
| "goes_on ev \<longleftrightarrow> True"

fun is_grading :: "meter_event \<Rightarrow> bool" where
  "is_grading (MGrades n) \<longleftrightarrow> True"
| "is_grading _ \<longleftrightarrow> False"

definition busy :: "meter_phase \<Rightarrow> nat" where
  "busy ph = (if ph = Serving then 0 else 1)"

definition holds_mutex :: "meter_phase \<Rightarrow> bool" where
  "holds_mutex ph \<longleftrightarrow> ph = Notifying \<or> ph = Rearming"

text \<open>Two threads run the service, and two handlers go round: only one of them can be a wait that is pending.\<close>

fun moving :: "meter_phase \<Rightarrow> bool" where
  "moving (Blocked now n) \<longleftrightarrow> False" | "moving (Joining n) \<longleftrightarrow> False" | "moving Over \<longleftrightarrow> False" | "moving _ \<longleftrightarrow> True"

definition only_two :: "nat \<Rightarrow> nat \<Rightarrow> (nat \<Rightarrow> meter_phase option) \<Rightarrow> bool" where
  "only_two n k th \<longleftrightarrow> (\<forall>i x. th i = Some x \<longrightarrow> i = n \<or> i = k \<or> x = Over)"

lemma only_two_update: "only_two n k th \<Longrightarrow> only_two n k (th(n \<mapsto> x))"
  by (auto simp: only_two_def)

lemma only_two_swap: "only_two n k th \<longleftrightarrow> only_two k n th"
  by (auto simp: only_two_def)

definition chasing :: "('w \<Rightarrow> service_state) \<Rightarrow> nat \<Rightarrow> meter_phase \<Rightarrow> nat \<Rightarrow> meter_phase \<Rightarrow> 'w meter \<Rightarrow> bool" where
  "chasing view n a k b p \<longleftrightarrow> \<not> m_crashed p \<and> metrics_ok (m_metrics p) \<and> \<not> metrics_stopped (m_metrics p) \<and> m_joining p = None \<and>
     n \<noteq> k \<and> m_threads p n = Some a \<and> m_threads p k = Some b \<and> moving a \<and> moving b \<and>
     only_two n k (m_threads p) \<and> \<not> halted (view (m_service p)) \<and> armed (view (m_service p)) \<le> 1 \<and>
     armed (view (m_service p)) + due (view (m_service p)) + busy a + busy b = 2 \<and> \<not> (holds_mutex a \<and> holds_mutex b) \<and>
     m_holder p = (if holds_mutex a then Some n else if holds_mutex b then Some k else None)"

lemma chasing_swap: "chasing view n a k b p \<Longrightarrow> chasing view k b n a p"
  unfolding chasing_def only_two_swap [of k n] by auto

lemma chasing_phase:
  assumes "chasing view n a k b p" and "\<not> m_crashed p'" and "metrics_ok (m_metrics p')" and "\<not> metrics_stopped (m_metrics p')"
    and "m_joining p' = None" and "m_threads p' = (m_threads p)(n \<mapsto> x)" and "moving x"
    and "\<not> halted (view (m_service p'))" and "armed (view (m_service p')) \<le> 1"
    and "armed (view (m_service p')) + due (view (m_service p')) + busy x + busy b = 2" and "\<not> (holds_mutex x \<and> holds_mutex b)"
    and "m_holder p' = (if holds_mutex x then Some n else if holds_mutex b then Some k else None)"
  shows "chasing view n x k b p'"
  using assms(1) assms(2-5,7-12) only_two_update [of n k "m_threads p" x] unfolding chasing_def assms(6) by simp

text \<open>The steps of a thread, the first of the two.\<close>

lemma chasing_fires:
  assumes api: "asio_timer api view" and c: "chasing view n Serving k b p" and w: "t_take api (m_service p) = Some w"
  shows "chasing view n Entering k b (meter_run api n w p)"
proof -
  have v: "view w = (view (m_service p))\<lparr>due := due (view (m_service p)) - 1\<rparr>" "due (view (m_service p)) \<noteq> 0"
    using asio_timer_simps(5,6) [OF api] w by (metis, metis option.distinct(1))
  show ?thesis
    by (rule chasing_phase [OF c])
       (use c v in \<open>auto simp: chasing_def meter_run_def set_meter_phase_def busy_def holds_mutex_def\<close>)
qed

lemma chasing_grades:
  assumes c: "chasing view n Entering k b p" and "m_holder p = None" and "metrics_profile (m_metrics p) = Some m"
  shows "chasing view n (if metrics_events m = metrics_events (m_metrics p) then Rearming else Notifying) k b (meter_grade n m p)"
proof -
  have ok: "metrics_ok (m_metrics p)" using c by (simp add: chasing_def)
  show ?thesis
    by (rule chasing_phase [OF c])
       (use c assms(2) profile_kept [OF assms(3) ok] in
         \<open>auto simp: chasing_def meter_grade_def set_meter_phase_def busy_def holds_mutex_def split: if_splits\<close>)
qed

lemma chasing_returns:
  assumes c: "chasing view n Notifying k b p"
  shows "chasing view n Rearming k b (set_meter_phase n Rearming p)"
  by (rule chasing_phase [OF c])
     (use c in \<open>auto simp: chasing_def set_meter_phase_def busy_def holds_mutex_def split: if_splits\<close>)

lemma chasing_rearms:
  assumes api: "asio_timer api view" and c: "chasing view n Rearming k b p"
  shows "chasing view n Serving k b (meter_rearm api n p)"
  by (rule chasing_phase [OF c])
     (use c asio_timer_simps [OF api] in
       \<open>auto simp: chasing_def meter_rearm_def set_meter_phase_def busy_def holds_mutex_def split: if_splits\<close>)

lemma chasing_thread:
  assumes "chasing view n a k b p" and "m_threads p i = Some x" and "x \<noteq> Over"
  shows "(i = n \<and> x = a) \<or> (i = k \<and> x = b)"
proof -
  from assms(1) have "only_two n k (m_threads p)" "m_threads p n = Some a" "m_threads p k = Some b"
    by (simp_all add: chasing_def)
  with assms(2,3) show ?thesis
    unfolding only_two_def by fastforce
qed

text \<open>What each step of the first thread leads to, and with it, by symmetry, of both.\<close>

lemma chasing_first:
  assumes api: "asio_timer api view" and step: "meter_step api view ev p p'" and c: "chasing view n a k b p"
    and ev: "ev \<in> {MFires n, MGrades n, MReturns n, MRearms n}"
  shows "\<exists>a'. chasing view n a' k b p'"
proof -
  have a: "m_threads p n = Some a" "\<not> metrics_stopped (m_metrics p)" using c by (simp_all add: chasing_def)
  from ev consider "ev = MFires n" | "ev = MGrades n" | "ev = MReturns n" | "ev = MRearms n" by blast
  then show ?thesis
  proof cases
    case 1
    with step a c obtain w where "a = Serving" "t_take api (m_service p) = Some w" "p' = meter_run api n w p" by auto
    with chasing_fires [OF api, of n k b p w] c show ?thesis by blast
  next
    case 2
    with step a c obtain m where "a = Entering" "m_holder p = None" "metrics_profile (m_metrics p) = Some m" "p' = meter_grade n m p" by auto
    with chasing_grades [of view n k b p m] c show ?thesis by blast
  next
    case 3
    with step a c have "a = Notifying" "p' = set_meter_phase n Rearming p" by auto
    with chasing_returns [of view n k b p] c show ?thesis by blast
  next
    case 4
    with step a c have "a = Rearming" "p' = meter_rearm api n p" by auto
    with chasing_rearms [OF api, of n k b p] c show ?thesis by blast
  qed
qed

lemma chasing_step:
  assumes api: "asio_timer api view" and step: "meter_step api view ev p p'" and "goes_on ev" and c: "chasing view n a k b p"
  shows "\<exists>a' b'. chasing view n a' k b' p'"
proof -
  have moves: ?thesis if "m_threads p i = Some x" "x \<noteq> Over" "ev \<in> {MFires i, MGrades i, MReturns i, MRearms i}" for i x
  proof (cases "i = n")
    case True
    with chasing_first [OF api step c] that(3) show ?thesis by blast
  next
    case False
    with chasing_thread [OF c that(1,2)] have "i = k" by blast
    with chasing_first [OF api step chasing_swap [OF c]] that(3) show ?thesis by (blast intro: chasing_swap)
  qed
  have no_end: "\<not> halted (view (m_service p))" "\<not> out_of_work view p"
  proof -
    show "\<not> out_of_work view p"
    proof
      assume w: "out_of_work view p"
      with c have "a = Serving" "b = Serving"
        unfolding out_of_work_def chasing_def by (metis moving.simps(3))+
      with c w show False by (simp add: chasing_def out_of_work_def busy_def)
    qed
  qed (use c in \<open>simp add: chasing_def\<close>)
  from step show ?thesis
  proof cases
    case (updates now m)
    with c show ?thesis by (intro exI [of _ a] exI [of _ b]) (simp add: chasing_def metrics_ok_ops)
  next
    case elapses
    with c show ?thesis
      by (intro exI [of _ a] exI [of _ b]) (simp add: chasing_def asio_timer_simps [OF api])
  next
    case (fires i w)
    then show ?thesis by (intro moves [of i Serving]) auto
  next
    case (grades i m)
    then show ?thesis by (intro moves [of i Entering]) auto
  next
    case (returns i)
    then show ?thesis by (intro moves [of i Notifying]) auto
  next
    case (rearms i)
    then show ?thesis by (intro moves [of i Rearming]) auto
  next
    case (joined i)
    with c show ?thesis by (simp add: chasing_def)
  next
    case (joined_inside i j)
    with chasing_thread [OF c joined_inside(4)] c show ?thesis by (auto simp: chasing_def)
  next
    case (unblocks i now m)
    with chasing_thread [OF c unblocks(4)] c show ?thesis by (auto simp: chasing_def)
  next
    case (updates_other who now m)
    with c show ?thesis by blast
  qed (use assms(3) no_end in auto)
qed

lemma chasing_run:
  assumes api: "asio_timer api view"
  shows "meter_run_of api view evs p p' \<Longrightarrow> \<forall>ev \<in> set evs. goes_on ev \<Longrightarrow> chasing view n a k b p \<Longrightarrow> \<exists>a' b'. chasing view n a' k b' p'"
proof (induction arbitrary: a b rule: meter_run_of.induct)
  case (some ev p p1 evs p')
  from chasing_step [OF api some.hyps(1) _ some.prems(2)] some.prems(1) some.IH show ?case by fastforce
qed auto

text \<open>A step that needs no time: the thread with the mutex goes on; without one, a thread that waits for it takes it;
  and otherwise a handler is due.\<close>

fun brief :: "meter_event \<Rightarrow> bool" where
  "brief (MFires n) \<longleftrightarrow> True" | "brief (MGrades n) \<longleftrightarrow> True" | "brief (MReturns n) \<longleftrightarrow> True" | "brief (MRearms n) \<longleftrightarrow> True"
| "brief _ \<longleftrightarrow> False"

text \<open>How far the two are from the next grading.\<close>

fun to_grading :: "meter_phase \<Rightarrow> nat" where
  "to_grading Notifying = 4" | "to_grading Rearming = 3" | "to_grading Serving = 1" | "to_grading _ = 0"

lemma chasing_ready_first:
  assumes api: "asio_timer api view" and c: "chasing view n a k b p"
    and "holds_mutex a \<or> \<not> holds_mutex b \<and> (a = Entering \<or> a = Serving \<and> b = Serving)"
  shows "\<exists>ev p' a'. brief ev \<and> meter_step api view ev p p' \<and> chasing view n a' k b p' \<and>
    (is_grading ev \<or> to_grading a' < to_grading a)"
proof -
  have t: "\<not> m_crashed p" "m_threads p n = Some a" using c by (simp_all add: chasing_def)
  from assms(3) consider "a = Notifying" | "a = Rearming" | "a = Entering" "\<not> holds_mutex b" | "a = Serving" "b = Serving"
    by (auto simp: holds_mutex_def)
  then show ?thesis
  proof cases
    case 1
    with t chasing_returns [of view n k b p] c show ?thesis
      by (intro exI [of _ "MReturns n"] exI [of _ "set_meter_phase n Rearming p"] exI [of _ Rearming]) simp
  next
    case 2
    with t chasing_rearms [OF api, of n k b p] c show ?thesis
      by (intro exI [of _ "MRearms n"] exI [of _ "meter_rearm api n p"] exI [of _ Serving]) simp
  next
    case 3
    with c have free: "m_holder p = None" "metrics_ok (m_metrics p)" by (simp_all add: chasing_def holds_mutex_def)
    from metrics_profile_ok [OF free(2)] obtain m where m: "metrics_profile (m_metrics p) = Some m" by blast
    from chasing_grades [OF c [unfolded 3(1)] free(1) m] t 3(1) free(1) m show ?thesis
      by (intro exI [of _ "MGrades n"] exI [of _ "meter_grade n m p"] exI conjI) auto
  next
    case 4
    with c have "due (view (m_service p)) \<noteq> 0" "\<not> halted (view (m_service p))" by (auto simp: chasing_def busy_def)
    with asio_timer_simps(5) [OF api, of "m_service p"] obtain w where w: "t_take api (m_service p) = Some w" by auto
    from chasing_fires [OF api c [unfolded 4(1)] w] t 4(1) w show ?thesis
      by (intro exI [of _ "MFires n"] exI [of _ "meter_run api n w p"] exI [of _ Entering]) simp
  qed
qed

lemma chasing_ready:
  assumes api: "asio_timer api view" and c: "chasing view n a k b p"
  shows "\<exists>ev p' a' b'. brief ev \<and> meter_step api view ev p p' \<and> chasing view n a' k b' p' \<and>
    (is_grading ev \<or> to_grading a' + to_grading b' < to_grading a + to_grading b)"
proof -
  have "moving a" "moving b" using c by (simp_all add: chasing_def)
  then have "(holds_mutex a \<or> \<not> holds_mutex b \<and> (a = Entering \<or> a = Serving \<and> b = Serving)) \<or>
      (holds_mutex b \<or> \<not> holds_mutex a \<and> (b = Entering \<or> b = Serving \<and> a = Serving))"
    by (cases a; cases b) (simp_all add: holds_mutex_def)
  then show ?thesis
  proof
    assume "holds_mutex a \<or> \<not> holds_mutex b \<and> (a = Entering \<or> a = Serving \<and> b = Serving)"
    from chasing_ready_first [OF api c this] show ?thesis by (metis add_less_cancel_right)
  next
    assume "holds_mutex b \<or> \<not> holds_mutex a \<and> (b = Entering \<or> b = Serving \<and> a = Serving)"
    from chasing_ready_first [OF api chasing_swap [OF c] this] show ?thesis
      by (metis chasing_swap add_less_cancel_left)
  qed
qed

lemma chasing_next_grading:
  assumes api: "asio_timer api view"
  shows "chasing view n a k b p \<Longrightarrow> \<exists>evs p' a' b'. meter_run_of api view evs p p' \<and> (\<forall>ev \<in> set evs. brief ev) \<and>
    length (filter is_grading evs) = 1 \<and> chasing view n a' k b' p'"
proof (induction "to_grading a + to_grading b" arbitrary: a b p rule: less_induct)
  case less
  from chasing_ready [OF api less.prems] obtain ev p1 a1 b1 where
    1: "brief ev" "meter_step api view ev p p1" "chasing view n a1 k b1 p1"
      "is_grading ev \<or> to_grading a1 + to_grading b1 < to_grading a + to_grading b" by blast
  show ?case
  proof (cases "is_grading ev")
    case True
    with 1 show ?thesis
      by (intro exI [of _ "[ev]"] exI [of _ p1] exI [of _ a1] exI [of _ b1]) (auto simp del: meter_step_simps)
  next
    case False
    with less.hyps [OF _ 1(3)] 1(4) obtain evs p' a' b' where
      "meter_run_of api view evs p1 p'" "\<forall>ev \<in> set evs. brief ev" "length (filter is_grading evs) = 1" "chasing view n a' k b' p'"
      by blast
    with 1(1,2) False show ?thesis
      by (intro exI [of _ "ev # evs"] exI [of _ p'] exI [of _ a'] exI [of _ b']) (auto simp del: meter_step_simps)
  qed
qed

lemma meter_run_append:
  "meter_run_of api view evs p p1 \<Longrightarrow> meter_run_of api view evs' p1 p' \<Longrightarrow> meter_run_of api view (evs @ evs') p p'"
  by (induction rule: meter_run_of.induct) (auto simp del: meter_step_simps)

lemma chasing_gradings:
  assumes api: "asio_timer api view" and "chasing view n a k b p"
  shows "\<exists>evs p' a' b'. meter_run_of api view evs p p' \<and> (\<forall>ev \<in> set evs. brief ev) \<and>
    length (filter is_grading evs) = j \<and> chasing view n a' k b' p'"
proof (induction j)
  case 0
  show ?case using assms(2) by (intro exI [of _ "[]"] exI [of _ p] exI [of _ a] exI [of _ b]) simp
next
  case (Suc j)
  then obtain evs p1 a1 b1 where 1: "meter_run_of api view evs p p1" "\<forall>ev \<in> set evs. brief ev"
    "length (filter is_grading evs) = j" "chasing view n a1 k b1 p1" by blast
  from chasing_next_grading [OF api 1(4)] obtain evs' p' a' b' where
    2: "meter_run_of api view evs' p1 p'" "\<forall>ev \<in> set evs'. brief ev" "length (filter is_grading evs') = 1" "chasing view n a' k b' p'"
    by blast
  with 1 meter_run_append [OF 1(1) 2(1)] show ?case
    by (intro exI [of _ "evs @ evs'"] exI [of _ p'] exI [of _ a'] exI [of _ b']) auto
qed

text \<open>What is left when the callback has returned: a detached thread, and the wait it has armed.\<close>

definition detached :: "('w \<Rightarrow> service_state) \<Rightarrow> nat \<Rightarrow> 'w meter \<Rightarrow> bool" where
  "detached view n p \<longleftrightarrow> \<not> m_crashed p \<and> metrics_ok (m_metrics p) \<and> metrics_stopped (m_metrics p) \<and> m_thread p = None \<and>
     m_holder p = None \<and> m_joining p = None \<and> m_threads p n = Some Serving \<and> m_threads p (m_spawned p) = None \<and>
     (\<forall>i x. m_threads p i = Some x \<longrightarrow> i = n \<or> x = Over) \<and> view (m_service p) = \<lparr>armed = 1, due = 0, halted = False\<rparr>"

lemma callback_stops:
  assumes api: "asio_timer api view" and t: "meter_tidy view p" and note_n: "m_threads p n = Some Notifying" and j: "m_joining p = None"
  shows "\<exists>pa. meter_run_of api view [MStops (Some n), MReturns n, MRearms n] p pa \<and> detached view n pa \<and> m_spawned pa = m_spawned p"
proof -
  note laws = asio_timer_simps [OF api] and n = meter_tidy_thread [OF t note_n, simplified]
  have live: "\<not> metrics_stopped (m_metrics p)" using n j by (auto split: if_splits)
  have ok: "\<not> m_crashed p" "metrics_ok (m_metrics p)" and k: "m_threads p (m_spawned p) = None"
    using t by (simp_all add: meter_tidy_def)
  have nk: "n \<noteq> m_spawned p" using k note_n by auto
  have others: "x = Over" if "m_threads p i = Some x" "i \<noteq> n" for i x
    by (rule meter_tidy_others [OF t n(1) that])
  have free: "\<not> meter_joined_by n p"
    using j meter_tidy_not_joining [OF t] by (simp add: meter_joined_by_def)
  define ps pr pa where "ps = meter_stop api (Some n) p" and "pr = set_meter_phase n Rearming ps" and "pa = meter_rearm api n pr"
  have ps: "ps = p\<lparr>m_metrics := metrics_stop (m_metrics p), m_thread := None,
      m_service := t_reset api (t_stop api (t_cancel api (m_service p)))\<rparr>"
    using live n(1) free by (simp add: ps_def meter_stop_def Let_def meter_joined_by_def meter_stopped_def)
  have "meter_run_of api view [MStops (Some n), MReturns n, MRearms n] p pa"
    using note_n j ok(1)
    by (simp add: ps_def [symmetric]) (simp add: ps pr_def [symmetric] pa_def [symmetric] set_meter_phase_def meter_rearm_def pr_def pa_def)
  moreover have "detached view n pa" "m_spawned pa = m_spawned p"
    using ok n nk k j others
    by (auto simp: detached_def pa_def pr_def ps meter_rearm_def set_meter_phase_def laws)
  ultimately show ?thesis by blast
qed

text \<open>A callback that stops the metrics, and a start before the interval that its own thread arms again is over: two
  threads run the service, and each handler cancels the wait of the other, whose handler takes the cancellation for an
  expiry. From then on, until the next \<open>stop()\<close>, there is always a step that needs no time, and any number of gradings
  follow each other without an interval between them.\<close>

theorem metrics_chase:
  assumes "asio_timer api view" and "metrics_ok m" and "metrics_stopped m" and "view w = \<lparr>armed = 0, due = 0, halted = False\<rparr>"
    and "meter_run_of api view evs0 (new_meter m w) p" and "\<forall>ev \<in> set evs0. outside ev"
    and "m_threads p n = Some Notifying" and "m_joining p = None"
  shows "\<exists>p1. meter_run_of api view [MStops (Some n), MReturns n, MRearms n, MStarts None now] p p1 \<and>
    (\<forall>evs p2. meter_run_of api view evs p1 p2 \<and> (\<forall>ev \<in> set evs. goes_on ev) \<longrightarrow>
       \<not> m_crashed p2 \<and> (\<exists>ev p3. brief ev \<and> meter_step api view ev p2 p3)) \<and>
    (\<forall>j. \<exists>evs p2. meter_run_of api view evs p1 p2 \<and> (\<forall>ev \<in> set evs. brief ev) \<and> length (filter is_grading evs) = j)"
proof -
  note laws = asio_timer_simps [OF assms(1)]
  from callback_stops [OF assms(1) meter_tidy_reached [OF assms(1-6)] assms(7,8)] obtain pa where
    pa: "meter_run_of api view [MStops (Some n), MReturns n, MRearms n] p pa" "detached view n pa" by blast
  let ?k = "m_spawned pa"
  define p1 where "p1 = meter_start api now pa"
  have "meter_run_of api view [MStarts None now] pa p1"
    using pa(2) by (simp add: p1_def detached_def)
  from meter_run_append [OF pa(1) this]
  have "meter_run_of api view [MStops (Some n), MReturns n, MRearms n, MStarts None now] p p1"
    by (simp del: meter_step_simps meter_run_of_simps)
  moreover have "chasing view n Serving ?k Serving p1"
  proof -
    have "only_two n ?k (m_threads p1)"
      using pa(2) by (auto simp: only_two_def p1_def detached_def meter_start_def Let_def)
    moreover have "n \<noteq> ?k" using pa(2) by (auto simp: detached_def)
    ultimately show ?thesis
      using pa(2) by (auto simp: chasing_def p1_def detached_def meter_start_def Let_def laws busy_def holds_mutex_def)
  qed
  note c = this
  have "\<not> m_crashed p2 \<and> (\<exists>ev p3. brief ev \<and> meter_step api view ev p2 p3)"
    if "meter_run_of api view evs p1 p2" "\<forall>ev \<in> set evs. goes_on ev" for evs p2
  proof -
    from chasing_run [OF assms(1) that c] obtain a b where "chasing view n a ?k b p2" by blast
    with chasing_ready [OF assms(1) this] show ?thesis by (auto simp: chasing_def)
  qed
  moreover have "\<exists>evs p2. meter_run_of api view evs p1 p2 \<and> (\<forall>ev \<in> set evs. brief ev) \<and> length (filter is_grading evs) = j" for j
    using chasing_gradings [OF assms(1) c, of j] by blast
  ultimately show ?thesis by blast
qed

theorem metrics_chase_witness:
  "\<exists>p1. meter_run_of counting_timer (\<lambda>w. w) [MStops (Some 0), MReturns 0, MRearms 0, MStarts None (2, 0)] told_meter p1 \<and>
     (\<exists>evs p2. meter_run_of counting_timer (\<lambda>w. w) evs p1 p2 \<and> (\<forall>ev \<in> set evs. brief ev) \<and> length (filter is_grading evs) = 1000)"
proof -
  have "m_threads told_meter 0 = Some Notifying" "m_joining told_meter = None"
    by (simp_all add: told_meter_def)
  from metrics_chase [OF counting_timer_ok sample_metrics_ok _ told_meter_reached _ this, of "(2, 0)"] show ?thesis
    unfolding idle_service_def by auto
qed

text \<open>A start in the callback itself: \<open>clear()\<close> does not get the mutex, and throws.\<close>

lemma callback_restart_throws:
  assumes t: "meter_tidy view p" and c: "m_threads p n = Some Notifying" and j: "m_joining p = None"
  shows "\<exists>p1. meter_run_of api view [MStops (Some n), MStarts (Some n) now] p p1 \<and> m_crashed p1"
proof -
  note n = meter_tidy_thread [OF t c, simplified]
  have live: "\<not> metrics_stopped (m_metrics p)" "\<not> m_crashed p" using n j t by (auto simp: meter_tidy_def split: if_splits)
  have free: "\<not> meter_joined_by n p"
    using j meter_tidy_not_joining [OF t] by (simp add: meter_joined_by_def)
  let ?ps = "p\<lparr>m_metrics := metrics_stop (m_metrics p), m_thread := None,
      m_service := t_reset api (t_stop api (t_cancel api (m_service p)))\<rparr>"
  have "meter_stop api (Some n) p = ?ps"
    using live n(1) free by (simp add: meter_stop_def Let_def meter_joined_by_def meter_stopped_def)
  moreover have "meter_start api now ?ps = ?ps\<lparr>m_crashed := True\<rparr>"
    using n(2) by (simp add: meter_start_def)
  ultimately show ?thesis
    using c live(2) by simp
qed

text \<open>A service that ran out of work, and was not reset: its threads end.\<close>

definition run_out :: "('w \<Rightarrow> service_state) \<Rightarrow> 'w meter \<Rightarrow> bool" where
  "run_out view p \<longleftrightarrow> halted (view (m_service p)) \<and> m_joining p = None \<and> (\<forall>i x. m_threads p i = Some x \<longrightarrow> x = Serving \<or> x = Over)"

lemma run_out_step:
  assumes api: "asio_timer api view" and step: "meter_step api view ev p p'" and "goes_on ev" and r: "run_out view p"
  shows "run_out view p' \<and> \<not> brief ev"
proof -
  note laws = asio_timer_simps [OF api]
  have only: "x = Serving \<or> x = Over" if "m_threads p i = Some x" for i x
    using r that by (simp add: run_out_def)
  from step show ?thesis
  proof cases
    case (joined k)
    with r show ?thesis by (simp add: run_out_def)
  next
    case (joined_inside k m)
    with only show ?thesis by fastforce
  next
    case elapses
    with r show ?thesis by (simp add: run_out_def laws)
  next
    case (fires k w)
    with r laws(5) [of "m_service p"] show ?thesis by (simp add: run_out_def)
  next
    case (grades k m)
    with only show ?thesis by fastforce
  next
    case (returns k)
    with only show ?thesis by fastforce
  next
    case (rearms k)
    with only show ?thesis by fastforce
  next
    case (exits k)
    with r show ?thesis by (auto simp: run_out_def set_meter_phase_def laws)
  qed (use assms(3) r in \<open>auto simp: run_out_def\<close>)
qed

lemma run_out_run:
  assumes "asio_timer api view"
  shows "meter_run_of api view evs p p' \<Longrightarrow> \<forall>ev \<in> set evs. goes_on ev \<Longrightarrow> run_out view p \<Longrightarrow> \<forall>ev \<in> set evs. \<not> brief ev"
  by (induction rule: meter_run_of.induct) (auto dest: run_out_step [OF assms] simp del: meter_step_simps)

text \<open>A callback that stops the metrics, and a start after that interval: the thread of the callback has ended on a service
  that ran out of work, and nothing resets the service before the start; so the new thread never runs a handler, and no
  connection is graded until the next \<open>stop()\<close>.\<close>

theorem metrics_silent:
  assumes "asio_timer api view" and "metrics_ok m" and "metrics_stopped m" and "view w = \<lparr>armed = 0, due = 0, halted = False\<rparr>"
    and "meter_run_of api view evs0 (new_meter m w) p" and "\<forall>ev \<in> set evs0. outside ev"
    and "m_threads p n = Some Notifying" and "m_joining p = None"
  shows "\<exists>p1. meter_run_of api view [MStops (Some n), MReturns n, MRearms n, MElapses, MFires n, MExits n, MStarts None now] p p1 \<and>
    \<not> m_crashed p1 \<and> \<not> metrics_stopped (m_metrics p1) \<and> m_threads p1 (m_spawned p) = Some Serving \<and>
    (\<forall>evs p2. meter_run_of api view evs p1 p2 \<and> (\<forall>ev \<in> set evs. goes_on ev) \<longrightarrow> (\<forall>ev \<in> set evs. \<not> brief ev))"
proof -
  note laws = asio_timer_simps [OF assms(1)]
  from callback_stops [OF assms(1) meter_tidy_reached [OF assms(1-6)] assms(7,8)] obtain pa where
    pa: "meter_run_of api view [MStops (Some n), MReturns n, MRearms n] p pa" "detached view n pa" "m_spawned pa = m_spawned p" by blast
  let ?k = "m_spawned pa"
  have nk: "n \<noteq> ?k" using pa(2) by (auto simp: detached_def)
  define pe where "pe = pa\<lparr>m_service := t_elapse api (m_service pa)\<rparr>"
  have ve: "view (m_service pe) = \<lparr>armed = 0, due = 1, halted = False\<rparr>"
    using pa(2) by (simp add: pe_def detached_def laws)
  with laws(5) [of "m_service pe"] obtain w' where w': "t_take api (m_service pe) = Some w'" by auto
  define pf where "pf = meter_run api n w' pe"
  define px where "px = set_meter_phase n Over (pf\<lparr>m_service := t_stop api (m_service pf)\<rparr>)"
  define p1 where "p1 = meter_start api now px"
  have pf: "pf = pe\<lparr>m_service := t_cancel api w'\<rparr>"
    using pa(2) by (simp add: pf_def meter_run_def pe_def detached_def)
  have vf: "view (m_service pf) = \<lparr>armed = 0, due = 0, halted = False\<rparr>"
    using laws(6) [OF w'] by (simp add: pf laws ve)
  have idle: "x = Serving \<or> x = Over" if "m_threads pa i = Some x" for i x
    using pa(2) that unfolding detached_def by (metis option.inject)
  have "m_threads pf = m_threads pa"
    by (simp add: pf pe_def)
  with idle vf have "out_of_work view pf"
    by (simp add: out_of_work_def)
  then have "meter_run_of api view [MElapses, MFires n, MExits n, MStarts None now] pa p1"
    using pa(2) w' by (simp add: pe_def [symmetric] pf_def [symmetric] px_def [symmetric] p1_def [symmetric])
       (simp add: detached_def pe_def pf px_def set_meter_phase_def)
  from meter_run_append [OF pa(1) this]
  have run: "meter_run_of api view [MStops (Some n), MReturns n, MRearms n, MElapses, MFires n, MExits n, MStarts None now] p p1"
    by (simp del: meter_step_simps meter_run_of_simps)
  have vx: "view (m_service px) = \<lparr>armed = 0, due = 0, halted = True\<rparr>"
    by (simp add: px_def set_meter_phase_def laws vf)
  have p1: "p1 = px\<lparr>m_metrics := metrics_start now (m_metrics px),
      m_service := t_async_wait api (t_expires_from_now api (m_service px)), m_threads := (m_threads px)(?k \<mapsto> Serving),
      m_thread := Some ?k, m_spawned := Suc ?k\<rparr>"
    using pa(2) by (simp add: p1_def meter_start_def Let_def px_def set_meter_phase_def pf pe_def detached_def)
  have "run_out view p1"
    using pa(2) vx by (auto simp: run_out_def p1 laws) (auto simp: px_def set_meter_phase_def pf pe_def detached_def split: if_splits)
  moreover have "\<not> m_crashed p1" "\<not> metrics_stopped (m_metrics p1)" "m_threads p1 ?k = Some Serving"
    using pa(2) by (simp_all add: p1 px_def set_meter_phase_def pf pe_def detached_def)
  ultimately show ?thesis
    using run run_out_run [OF assms(1)] pa(3) by metis
qed

theorem metrics_silent_witness:
  "\<exists>p1. meter_run_of counting_timer (\<lambda>w. w) [MStops (Some 0), MReturns 0, MRearms 0, MElapses, MFires 0, MExits 0, MStarts None (9, 0)]
       told_meter p1 \<and> \<not> metrics_stopped (m_metrics p1) \<and>
     (\<forall>evs p2. meter_run_of counting_timer (\<lambda>w. w) evs p1 p2 \<and> (\<forall>ev \<in> set evs. goes_on ev) \<longrightarrow> MFires 1 \<notin> set evs)"
proof -
  have "m_threads told_meter 0 = Some Notifying" "m_joining told_meter = None"
    by (simp_all add: told_meter_def)
  note r = metrics_silent [OF counting_timer_ok sample_metrics_ok _ told_meter_reached _ this, of "(9, 0)"]
  have "(\<lambda>w. w) idle_service = \<lparr>armed = 0, due = 0, halted = False\<rparr>"
    by (simp add: idle_service_def)
  from r [OF this] obtain p1 where
    "meter_run_of counting_timer (\<lambda>w. w) [MStops (Some 0), MReturns 0, MRearms 0, MElapses, MFires 0, MExits 0, MStarts None (9, 0)] told_meter p1"
    "\<not> metrics_stopped (m_metrics p1)"
    and no: "\<forall>evs p2. meter_run_of counting_timer (\<lambda>w. w) evs p1 p2 \<and> (\<forall>ev \<in> set evs. goes_on ev) \<longrightarrow> (\<forall>ev \<in> set evs. \<not> brief ev)"
    by auto
  moreover from no have "\<forall>evs p2. meter_run_of counting_timer (\<lambda>w. w) evs p1 p2 \<and> (\<forall>ev \<in> set evs. goes_on ev) \<longrightarrow> MFires 1 \<notin> set evs"
    by fastforce
  ultimately show ?thesis by blast
qed

text \<open>Bytes that these metrics count.\<close>

fun counts :: "meter_event \<Rightarrow> bool" where
  "counts (MUpdates who d now n) \<longleftrightarrow> d = SameWay"
| "counts _ \<longleftrightarrow> False"

definition stuck :: "nat \<Rightarrow> clock \<Rightarrow> u64 \<Rightarrow> 'w meter \<Rightarrow> bool" where
  "stuck n now bytes p \<longleftrightarrow> \<not> m_crashed p \<and> m_threads p n = Some (Blocked now bytes) \<and> m_holder p = Some n \<and> m_thread p = Some n \<and>
     (\<forall>i x. m_threads p i = Some x \<longrightarrow> i = n \<or> x = Over) \<and>
     m_joining p = (if metrics_stopped (m_metrics p) then Some n else None)"

lemma stuck_step:
  assumes "meter_step api view ev p p'" and st: "stuck n t b p"
  shows "stuck n t b p' \<and> \<not> counts ev \<and> ev \<noteq> MJoined None \<and> ev \<noteq> MReturns n"
proof -
  have only: "x = Over \<or> x = Blocked t b" if "m_threads p i = Some x" for i x
    using st that unfolding stuck_def by (metis option.inject)
  have free: "\<not> meter_joined_by n p" if "m_joining p = None"
    using that only unfolding meter_joined_by_def by fastforce
  from assms(1) show ?thesis
  proof cases
    case (starts who now)
    then have "\<not> metrics_stopped (m_metrics p)"
      using st only [of "the who"] by (cases who) (auto simp: stuck_def split: if_splits)
    with starts st show ?thesis by (simp add: meter_start_def)
  next
    case (stops who)
    then have "who = None"
      using only [of "the who"] by (cases who) auto
    with stops st free show ?thesis
      by (auto simp: meter_stop_def Let_def stuck_def meter_joined_by_def)
  next
    case (updates now k)
    with st show ?thesis by (simp add: stuck_def)
  next
    case (updates_inside k now m)
    with only show ?thesis by fastforce
  next
    case (unblocks k now m)
    with st show ?thesis by (simp add: stuck_def)
  next
    case (updates_other who now m)
    with st show ?thesis by simp
  next
    case (joined k)
    with st show ?thesis by (auto simp: stuck_def split: if_splits)
  next
    case (joined_inside k m)
    with only show ?thesis by fastforce
  next
    case elapses
    with st show ?thesis by (simp add: stuck_def)
  next
    case (fires k w)
    with only show ?thesis by fastforce
  next
    case (grades k m)
    with only show ?thesis by fastforce
  next
    case (returns k)
    with only show ?thesis by fastforce
  next
    case (rearms k)
    with only show ?thesis by fastforce
  next
    case (exits k)
    with only show ?thesis by fastforce
  qed
qed

lemma stuck_run:
  "meter_run_of api view evs p p' \<Longrightarrow> stuck n t b p \<Longrightarrow>
    stuck n t b p' \<and> (\<forall>ev \<in> set evs. \<not> counts ev \<and> ev \<noteq> MJoined None \<and> ev \<noteq> MReturns n)"
  by (induction rule: meter_run_of.induct) (auto dest: stuck_step simp del: meter_step_simps)

text \<open>C25: a callback of the metrics that transfers bytes in the direction which these metrics count, such as a broadcaster's
  callback that sends, waits for the mutex that its own thread holds. The mutex is never free again, so it goes on waiting,
  whatever comes after: nobody counts a byte of that direction any more, so every transfer in that direction waits as well,
  and neither the callback nor a \<open>stop()\<close> returns.\<close>

theorem metrics_callback_blocks:
  assumes "asio_timer api view" and "metrics_ok m" and "metrics_stopped m" and "view w = \<lparr>armed = 0, due = 0, halted = False\<rparr>"
    and "meter_run_of api view evs0 (new_meter m w) p" and "\<forall>ev \<in> set evs0. outside ev" and "m_threads p n = Some Notifying"
  shows "\<exists>p1. meter_step api view (MUpdates (Some n) SameWay now k) p p1 \<and>
    (\<forall>evs p2. meter_run_of api view evs p1 p2 \<longrightarrow> m_threads p2 n = Some (Blocked now k) \<and> m_holder p2 = Some n \<and>
       (\<forall>ev \<in> set evs. \<not> counts ev \<and> ev \<noteq> MJoined None \<and> ev \<noteq> MReturns n))"
proof -
  note t = meter_tidy_reached [OF assms(1-6)]
  note n = meter_tidy_thread [OF t assms(7), simplified]
  have alive: "\<not> m_crashed p" using t by (simp add: meter_tidy_def)
  have "stuck n now k (set_meter_phase n (Blocked now k) p)"
    using n alive meter_tidy_others [OF t n(1)] by (auto simp: stuck_def set_meter_phase_def)
  with stuck_run [of api view _ "set_meter_phase n (Blocked now k) p" _ n now k] alive assms(7) show ?thesis
    by (intro exI [of _ "set_meter_phase n (Blocked now k) p"]) (auto simp: stuck_def)
qed

theorem metrics_callback_blocks_witness:
  "\<exists>p1. meter_step counting_timer (\<lambda>w. w) (MUpdates (Some 0) SameWay (2, 0) 12) told_meter p1 \<and>
     (\<forall>evs p2. meter_run_of counting_timer (\<lambda>w. w) evs p1 p2 \<longrightarrow> MJoined None \<notin> set evs)"
proof -
  have "m_threads told_meter 0 = Some Notifying"
    by (simp add: told_meter_def)
  from metrics_callback_blocks [OF counting_timer_ok sample_metrics_ok _ told_meter_reached _ this, of "(2, 0)" 12] show ?thesis
    unfolding idle_service_def by auto
qed

end
