(* ===== verification/UnitTests.thy ===== *)
theory UnitTests
imports Amf0_Roundtrip Bytes FileReader FlvAmf FlvItem
begin

text \<open>
  The unit tests of the repository (\<open>src/tests\<close>), each a function of the model that is true when the assertions
  of the test hold. A test that opens a file is a function of the bytes of that file, one that writes an unordered map
  of the order it is walked in. They pass: the definitions they call behave as the tests say the code does.
\<close>

section \<open>AMF0\<close>

definition amf0_number_test :: bool where
  "amf0_number_test =
     (case deserialize (serializeNumber (double_of_nat 3191)) of
        Some [Subset (NumberVariant d)] \<Rightarrow> d = double_of_nat 3191
      | _ \<Rightarrow> False)"

definition amf0_string_test :: "string \<Rightarrow> bool" where
  "amf0_string_test s =
     (case deserialize (serializeString s True) of Some [Subset (StringVariant t)] \<Rightarrow> t = s | _ \<Rightarrow> False)"

definition amf0_boolean_test :: bool where
  "amf0_boolean_test =
     (case deserialize (serializeBoolean True) of Some [Subset (BooleanVariant b)] \<Rightarrow> b = True | _ \<Rightarrow> False)"

definition mike :: "subset dict" where
  "mike = [(''name'', StringVariant ''Mike''), (''age'', NumberVariant (double_of_nat 30)), (''alias'', StringVariant ''Micky'')]"

definition amf0_object_test :: "(subset dict \<Rightarrow> subset dict) \<Rightarrow> bool" where
  "amf0_object_test ord =
     (case deserialize (serializeObject (ord mike)) of
        Some [ObjectVariant d] \<Rightarrow>
          length d = length mike \<and> map_of d ''name'' = Some (StringVariant ''Mike'') \<and>
          map_of d ''age'' = Some (NumberVariant (double_of_nat 30)) \<and> map_of d ''alias'' = Some (StringVariant ''Micky'')
      | _ \<Rightarrow> False)"

lemma deserialize_one:
  assumes "variant_ok v"
  shows "deserialize (serializeVariant v) = Some [v]"
  using amf0.decs_encs [of "[v]"] assms by simp

lemma amf0_tests:
  "amf0_number_test" "string_ok s \<Longrightarrow> amf0_string_test s" "amf0_boolean_test" "order_ok ord \<Longrightarrow> amf0_object_test ord"
proof -
  show amf0_number_test
    using deserialize_one [of "Subset (NumberVariant (double_of_nat 3191))"] by (simp add: amf0_number_test_def)
  show "amf0_string_test s" if "string_ok s"
    using deserialize_one [of "Subset (StringVariant s)"] that by (simp add: amf0_string_test_def)
  show amf0_boolean_test
    using deserialize_one [of "Subset (BooleanVariant True)"] by (simp add: amf0_boolean_test_def)
  show "amf0_object_test ord" if ord: "order_ok ord"
  proof -
    have ok: "object_ok mike"
      by (simp add: mike_def object_ok_def dict_ok_def key_ok_def string_ok_def)
    then have "dict_ok mike" by (simp add: object_ok_def)
    from map_of_ord [OF ord this] have m: "map_of (ord mike) = map_of mike" .
    have "length (ord mike) = length mike"
      using ord by (metis order_ok_def size_mset)
    with deserialize_one [of "ObjectVariant (ord mike)"] object_ok_ord [OF ord ok] m show ?thesis
      by (simp add: amf0_object_test_def) (simp add: mike_def)
  qed
qed

section \<open>Byte order\<close>

definition endianess_test :: bool where
  "endianess_test \<longleftrightarrow> fromBigEndian16 (toBigEndian16 42) = Some 42 \<and> fromBigEndian24 (toBigEndian24 42) = Some 42 \<and>
     fromBigEndian32 (toBigEndian32 42) = Some 42"

definition bits_test :: bool where
  "bits_test \<longleftrightarrow> fromBigEndian24 [0x00, 0x00, 0xE0] = Some 224"

lemma byte_order_tests: "endianess_test" "bits_test"
  by (simp_all add: endianess_test_def bits_test_def toBigEndian16_def toBigEndian24_def toBigEndian32_def
      fromBigEndian16_def fromBigEndian24_def fromBigEndian32_def)

section \<open>Tags and files\<close>

definition audio_test :: bool where
  "audio_test = (flv_audio_serialize (flv_audio_deserialize_payload (new_flv_audio_tag\<lparr>payload := [0xAF]\<rparr>)) = [0xAF])"

definition video_test :: bool where
  "video_test = (flv_video_serialize (flv_video_deserialize_payload (new_flv_video_tag\<lparr>payload := [0x27]\<rparr>)) = [0x27])"

definition parser_test :: "v8 \<Rightarrow> bool" where
  "parser_test file =
     (case readAll (open_file (Some file)) of
        None \<Rightarrow> False
      | Some (n, data, s) \<Rightarrow>
          (case flv_item_deserialize_range data new_flv_item of
             None \<Rightarrow> False
           | Some m \<Rightarrow> map_of supportedFileTypes FLVFile = Some (signature (flv_head m))))"

definition loader_size_test :: "v8 \<Rightarrow> nat \<Rightarrow> bool" where
  "loader_size_test file n = (fst (reader_size (open_file (Some file))) = int n)"

definition loader_exist_test :: "v8 \<Rightarrow> bool" where
  "loader_exist_test file \<longleftrightarrow> reader_exist (open_file (Some file)) \<and> \<not> reader_exist (open_file None)"

text \<open>Everything, everything again with a size, 1024 bytes, and three.\<close>

definition loader_read_test :: "v8 \<Rightarrow> bool" where
  "loader_read_test file =
     (let (streamSize, s) = reader_size (open_file (Some file)) in
      case do { (a, _, s) \<leftarrow> readAll s;
                (b, _, s) \<leftarrow> reader_read streamSize (reader_seek 0 s);
                (c, _, s) \<leftarrow> reader_read (int videoReadBufferSize) (reader_seek 0 s);
                (d, _, s) \<leftarrow> reader_read 3 (reader_seek 0 s);
                Some (a, b, c, d) } of
        None \<Rightarrow> False
      | Some (a, b, c, d) \<Rightarrow> int a = streamSize \<and> int b = streamSize \<and> c = videoReadBufferSize \<and> d = 3)"

definition loader_type_test :: "v8 \<Rightarrow> bool \<Rightarrow> bool" where
  "loader_type_test file flv =
     (case reader_type (open_file (Some file)) of None \<Rightarrow> False | Some (t, _) \<Rightarrow> (t = FLVFile) = flv)"

lemma tag_tests: "audio_test" "video_test"
  by (simp_all add: audio_test_def video_test_def flv_audio_serialize_def flv_video_serialize_def
      flv_audio_deserialize_payload_def flv_video_deserialize_payload_def Let_def)

lemma parser_tests:
  assumes "\<forall>a \<in> set tags. tag_ok a" and "map tag_event tags = map Some es" and "length trailer \<le> 4"
  shows "parser_test (encode_file ''FLV'' v f tags trailer)"
proof -
  obtain s where "readAll (open_file (Some (encode_file ''FLV'' v f tags trailer)))
      = Some (length (encode_file ''FLV'' v f tags trailer), encode_file ''FLV'' v f tags trailer, s)"
    using readAll_file by blast
  with flv_file_parsed [of "''FLV''" tags es trailer v f new_flv_item] assms show ?thesis
    by (simp add: parser_test_def supportedFileTypes_def)
qed

text \<open>A stream that is good is read again from its start, and stays good as long as there is enough to read.\<close>

definition good_stream :: "v8 \<Rightarrow> file_stream \<Rightarrow> bool" where
  "good_stream file s \<longleftrightarrow> is_open s \<and> contents s = file \<and> \<not> eofbit s \<and> \<not> failbit s"

lemma rewind_read:
  assumes "good_stream file s" and "0 < n" and "n \<le> length file"
  shows "\<exists>b s'. reader_read (int n) (reader_seek 0 s) = Some (n, b, s') \<and> good_stream file s'"
proof -
  let ?s = "s\<lparr>position := 0\<rparr>"
  have seek: "reader_seek 0 s = ?s"
    using assms(1) by (simp add: good_stream_def reader_seek_def stream_seek_def)
  have "is_open ?s" "\<not> eofbit ?s" "\<not> failbit ?s"
    using assms(1) by (simp_all add: good_stream_def)
  from read_loop_once [OF this assms(2) length_replicate, of 0] assms show ?thesis
    by (simp add: seek reader_read_def good_stream_def Let_def del: replicate.simps)
qed

lemma loader_tests:
  "loader_size_test file (length file)" "loader_exist_test file" "1024 \<le> length file \<Longrightarrow> loader_read_test file"
  "9 \<le> length file \<Longrightarrow> loader_type_test file (contains (map to_upper (take 9 file)) ''FLV'')"
proof -
  let ?s = "open_file (Some file)"
  have size: "reader_size ?s = (int (length file), ?s)"
    by (simp add: reader_size_def reader_isOpen_def reader_currentPosition_def reader_seek_def stream_tell_def
        stream_seek_end_def stream_seek_def open_file_def)
  then show "loader_size_test file (length file)"
    by (simp add: loader_size_test_def)
  show "loader_exist_test file"
    by (simp add: loader_exist_test_def reader_exist_def reader_isOpen_def open_file_def)
  show "loader_read_test file" if long: "1024 \<le> length file"
  proof -
    have good: "good_stream file ?s" and start: "reader_seek 0 ?s = ?s"
      by (simp_all add: good_stream_def open_file_def reader_seek_def stream_seek_def)
    from long have pos: "0 < length file" by linarith
    from rewind_read [OF good pos order_refl] obtain a s1 where
      1: "reader_read (int (length file)) ?s = Some (length file, a, s1)" "good_stream file s1" by (auto simp: start)
    from rewind_read [OF 1(2) pos order_refl] obtain b s2 where
      2: "reader_read (int (length file)) (reader_seek 0 s1) = Some (length file, b, s2)" "good_stream file s2" by blast
    from rewind_read [OF 2(2), of 1024] long obtain c s3 where
      3: "reader_read 1024 (reader_seek 0 s2) = Some (1024, c, s3)" "good_stream file s3" by auto
    from rewind_read [OF 3(2), of 3] long obtain d s4 where
      4: "reader_read 3 (reader_seek 0 s3) = Some (3, d, s4)" by auto
    show ?thesis
      by (simp add: loader_read_test_def readAll_def size 1(1) 2(1) videoReadBufferSize_def 3(1) 4)
  qed
  show "loader_type_test file (contains (map to_upper (take 9 file)) ''FLV'')" if "9 \<le> length file"
  proof -
    from rewind_read [of "file" ?s 9] that obtain b s' where r: "reader_read 9 ?s = Some (9, b, s')"
      by (auto simp: good_stream_def open_file_def reader_seek_def stream_seek_def)
    moreover have "b = take 9 file"
      using r read_front [of 9 "file"] that by (simp add: Let_def)
    ultimately show ?thesis
      using that
      by (auto simp: loader_type_test_def reader_type_def reader_isOpen_def reader_currentPosition_def open_file_stream detect_type_FLV)
  qed
qed

section \<open>Properties\<close>

text \<open>The unit tests of the repository pass, for every string and object order of the AMF0 tests, for every FLV file that the
  parser test could open, and for every file of at least 1024 bytes of the loader tests, whose type is FLV exactly when its
  first nine bytes hold that name in some case.\<close>

theorem unit_tests_pass:
  assumes "string_ok s" and "order_ok ord" and "\<forall>a \<in> set tags. tag_ok a" and "map tag_event tags = map Some es" and "length trailer \<le> 4"
    and "1024 \<le> length file"
  shows "amf0_number_test \<and> amf0_string_test s \<and> amf0_boolean_test \<and> amf0_object_test ord \<and> endianess_test \<and> bits_test \<and>
    audio_test \<and> video_test \<and> parser_test (encode_file ''FLV'' v f tags trailer) \<and>
    loader_size_test file (length file) \<and> loader_exist_test file \<and> loader_read_test file \<and>
    loader_type_test file (contains (map to_upper (take 9 file)) ''FLV'')"
proof -
  from assms(6) have "9 \<le> length file" by linarith
  with assms loader_tests(3) [of "file"] loader_tests(4) [of "file"] show ?thesis
    by (simp add: amf0_tests byte_order_tests tag_tests loader_tests(1,2) parser_tests)
qed

text \<open>The string of the test, its object in reverse order, a file with one picture and one of 2048 bytes.\<close>

theorem unit_tests_pass_witness:
  "amf0_string_test ''570686e3-43c1-4a18-b2d3-b029bc3d1f25?RtmpKitChannelId=f2ac27e5-6e27-4901-8614-52b7c71a68ef&RtmpKitClientId=2A87B538-D388-4E19-81D0-972C9690B38F&AuthToken=L2Jc7Duuy1Ln34TXYFhyGdtWhpJrOZlomWUuMolYdPXoGfjsq4p005jqh8yMzToq0K2S7nwvRfbJ9FPVf5jIjw%253D%253D'' \<and>
   amf0_object_test rev \<and> loader_read_test (replicate 2048 0) \<and>
   parser_test (encode_file ''FLV'' 1 5 [\<lparr>a_prev = 0, a_kind = 9, a_time = 40, a_timeExt = 0, a_stream = 0, a_body = [0x17, 1]\<rparr>] [0, 0, 0, 17])"
proof -
  let ?s = "''570686e3-43c1-4a18-b2d3-b029bc3d1f25?RtmpKitChannelId=f2ac27e5-6e27-4901-8614-52b7c71a68ef&RtmpKitClientId=2A87B538-D388-4E19-81D0-972C9690B38F&AuthToken=L2Jc7Duuy1Ln34TXYFhyGdtWhpJrOZlomWUuMolYdPXoGfjsq4p005jqh8yMzToq0K2S7nwvRfbJ9FPVf5jIjw%253D%253D''"
  let ?a = "\<lparr>a_prev = 0, a_kind = 9, a_time = 40, a_timeExt = 0, a_stream = 0, a_body = [0x17, 1]\<rparr> :: abs_tag"
  have "string_ok ?s" by (simp add: string_ok_def)
  moreover have "\<forall>a \<in> set [?a]. tag_ok a" by (simp add: tag_ok_def)
  moreover have "map tag_event [?a] = map Some [VideoPacketReady (flv_video_deserialize_payload (fill ?a new_flv_video_tag))]"
    by (simp add: tag_event_def)
  moreover have "length [0, 0, 0, 17 :: u8] \<le> 4" "1024 \<le> length (replicate 2048 (0 :: u8))" by simp_all
  ultimately show ?thesis
    using unit_tests_pass [OF _ order_ok_rev, of ?s "[?a]" _ "[0, 0, 0, 17]" "replicate 2048 0" 1 5] by blast
qed

end
