(* ===== verification/Queues.thy ===== *)
theory Queues
imports Rtmp_Prelude "HOL-Library.Signed_Division"
begin

text \<open>
  The containers between threads: \<open>Queue\<close> with its worker, as a relation over the steps of the threads that the
  mutex leaves atomic; \<open>BufferQueue\<close>, whose operations hold the mutex from end to end, as functions; and
  \<open>SimpleSemaphore\<close>. Both queues are interpretations of one interface, first in, first out.
\<close>

section \<open>The interface\<close>

text \<open>\<open>view\<close> is what the queue holds; \<open>put\<close> keeps its promise as long as the queue \<open>accepts\<close>.\<close>

locale fifo =
  fixes view :: "'q \<Rightarrow> 'x list"
    and accepts :: "'q \<Rightarrow> bool"
    and put :: "'x \<Rightarrow> 'q \<Rightarrow> 'q"
    and get :: "'q \<Rightarrow> 'x \<times> 'q"
  assumes put: "accepts q \<Longrightarrow> view (put x q) = view q @ [x] \<and> accepts (put x q)"
    and get: "view q = x # xs \<Longrightarrow> fst (get q) = x \<and> view (snd (get q)) = xs \<and> accepts (snd (get q)) = accepts q"
begin

primrec gets :: "nat \<Rightarrow> 'q \<Rightarrow> 'x list \<times> 'q" where
  "gets 0 q = ([], q)"
| "gets (Suc n) q = (case get q of (x, q) \<Rightarrow> case gets n q of (xs, q) \<Rightarrow> (x # xs, q))"

lemma puts: "accepts q \<Longrightarrow> view (fold put xs q) = view q @ xs \<and> accepts (fold put xs q)"
  by (induction xs arbitrary: q) (simp_all add: put)

lemma gets: "view q = xs @ ys \<Longrightarrow> fst (gets (length xs) q) = xs \<and> view (snd (gets (length xs) q)) = ys"
proof (induction xs arbitrary: q)
  case (Cons x xs)
  obtain q' where q': "get q = (x, q')" "view q' = xs @ ys"
    using get [of q x "xs @ ys"] Cons.prems by (cases "get q") auto
  from Cons.IH [OF q'(2)] q'(1) show ?case
    by (auto split: prod.split)
qed simp

lemma in_order: "accepts q \<Longrightarrow> view q = [] \<Longrightarrow> fst (gets (length xs) (fold put xs q)) = xs"
  using puts [of q xs] gets [of "fold put xs q" xs "[]"] by simp

end

section \<open>Queue\<close>

text \<open>
  A worker is at the loop's test of \<open>stopped_\<close>, waits for the mutex, evaluates the predicate of the wait with it
  (\<open>Looking\<close>), has found it false and will release the mutex in falling asleep (\<open>Dozing\<close>), sleeps, has found it
  true and decides (\<open>Deciding\<close>), has let go of the mutex before \<open>pop\<close> (\<open>Taking\<close>), runs the handler, waits inside
  the handler's \<open>stop\<close> for another worker (\<open>Joining\<close>), or has ended. \<open>q_thread\<close> is \<open>thread_\<close> where it is joinable. A
  push first tests \<open>stopped_\<close> without the mutex (\<open>q_passed\<close> holds the items of those that have, and whether they go
  to the front) and then appends. \<open>q_stopping\<close> is how far the controller is in \<open>stop\<close>. \<open>q_pushed\<close> and
  \<open>q_handled\<close> are histories. Assigning to a joinable \<open>std::thread\<close> ends the program: \<open>q_crashed\<close>.
\<close>

datatype 'x worker_state =
    Testing | Locking | Looking | Dozing | Asleep | Deciding | Taking | Handling 'x | Joining 'x nat | Gone

datatype stop_call = NoStop | Flagged | Waiting nat

record 'x queue =
  q_stopped :: bool
  q_items :: "'x list"
  q_passed :: "(bool \<times> 'x) list"
  q_thread :: "nat option"
  q_workers :: "'x worker_state list"
  q_stopping :: stop_call
  q_crashed :: bool
  q_pushed :: "'x list"
  q_handled :: "'x list"

definition new_queue :: "'x queue" where
  "new_queue = \<lparr> q_stopped = False, q_items = [], q_passed = [], q_thread = None, q_workers = [], q_stopping = NoStop,
     q_crashed = False, q_pushed = [], q_handled = [] \<rparr>"

definition new_queue_with_action :: "'x queue" where
  "new_queue_with_action = new_queue\<lparr>q_stopped := True\<rparr>"

definition queue_start :: "'x queue \<Rightarrow> 'x queue" where
  "queue_start q =
     (if \<not> q_stopped q then q
      else let q = q\<lparr>q_stopped := False, q_workers := q_workers q @ [Testing]\<rparr>
        in if q_thread q \<noteq> None then q\<lparr>q_crashed := True\<rparr> else q\<lparr>q_thread := Some (length (q_workers q) - 1)\<rparr>)"

text \<open>\<open>notify_one\<close>: one of those that sleep wants the mutex again.\<close>

definition notify_one :: "'x worker_state list \<Rightarrow> 'x worker_state list \<Rightarrow> bool" where
  "notify_one ws ws' \<longleftrightarrow>
     (if Asleep \<in> set ws then \<exists>i<length ws. ws ! i = Asleep \<and> ws' = ws[i := Locking] else ws' = ws)"

text \<open>\<open>stop\<close> from the controller: the flag, the notification, and waiting for the worker; and from worker \<open>k\<close>'s
  handler, where a worker that stops its own queue detaches itself.\<close>

definition queue_stop :: "'x queue \<Rightarrow> 'x queue" where
  "queue_stop q = (if q_stopped q then q else q\<lparr>q_stopped := True, q_stopping := Flagged\<rparr>)"

definition queue_stop_notified :: "'x worker_state list \<Rightarrow> 'x queue \<Rightarrow> 'x queue" where
  "queue_stop_notified ws q =
     q\<lparr>q_workers := ws, q_stopping := (case q_thread q of Some w \<Rightarrow> Waiting w | None \<Rightarrow> NoStop)\<rparr>"

definition queue_stop_inside :: "nat \<Rightarrow> 'x \<Rightarrow> 'x worker_state list \<Rightarrow> 'x queue \<Rightarrow> 'x queue" where
  "queue_stop_inside k x ws q =
     (let q = q\<lparr>q_stopped := True, q_workers := ws\<rparr>
      in case q_thread q of
           None \<Rightarrow> q
         | Some w \<Rightarrow> if w = k then q\<lparr>q_thread := None\<rparr> else q\<lparr>q_workers := ws[k := Joining x w]\<rparr>)"

definition queue_clear :: "'x queue \<Rightarrow> 'x queue" where
  "queue_clear q = q\<lparr>q_items := []\<rparr>"

definition queue_size :: "'x queue \<Rightarrow> nat" where
  "queue_size q = length (q_items q)"

text \<open>\<open>front\<close> and \<open>back\<close> of an empty queue are undefined.\<close>

definition queue_front :: "'x queue \<Rightarrow> 'x option" where
  "queue_front q = (case q_items q of [] \<Rightarrow> None | x # _ \<Rightarrow> Some x)"

definition queue_back :: "'x queue \<Rightarrow> 'x option" where
  "queue_back q = (if q_items q = [] then None else Some (last (q_items q)))"

text \<open>The second half of a push, with the mutex; its notification is in the steps.\<close>

definition queue_append :: "'x \<Rightarrow> 'x queue \<Rightarrow> 'x queue" where
  "queue_append x q = q\<lparr>q_items := q_items q @ [x], q_pushed := q_pushed q @ [x]\<rparr>"

definition queue_prepend :: "'x \<Rightarrow> 'x queue \<Rightarrow> 'x queue" where
  "queue_prepend x q = q\<lparr>q_items := x # q_items q\<rparr>"

definition queue_pushBack :: "'x \<Rightarrow> 'x queue \<Rightarrow> 'x queue" where
  "queue_pushBack x q = (if q_stopped q then q else queue_append x q)"

definition queue_pushBack_if :: "'x \<Rightarrow> ('x \<Rightarrow> bool) \<Rightarrow> 'x queue \<Rightarrow> 'x queue" where
  "queue_pushBack_if x predicate q =
     (let canPush = (case q_items q of [] \<Rightarrow> True | y # _ \<Rightarrow> predicate y)
      in if canPush then queue_pushBack x q else q)"

definition queue_pushFront :: "'x \<Rightarrow> 'x queue \<Rightarrow> 'x queue" where
  "queue_pushFront x q = (if q_stopped q then q else queue_prepend x q)"

definition queue_pushFront_if :: "'x \<Rightarrow> ('x \<Rightarrow> bool) \<Rightarrow> 'x queue \<Rightarrow> 'x queue" where
  "queue_pushFront_if x predicate q =
     (let canPush = (if q_items q = [] then True else predicate (last (q_items q)))
      in if canPush then queue_pushFront x q else q)"

text \<open>\<open>d\<close> is a default-constructed item.\<close>

definition queue_popFront :: "'x \<Rightarrow> 'x queue \<Rightarrow> 'x \<times> 'x queue" where
  "queue_popFront d q = (case q_items q of [] \<Rightarrow> (d, q) | x # xs \<Rightarrow> (x, q\<lparr>q_items := xs\<rparr>))"

definition queue_popBack :: "'x \<Rightarrow> 'x queue \<Rightarrow> 'x \<times> 'x queue" where
  "queue_popBack d q =
     (if q_items q = [] then (d, q) else (last (q_items q), q\<lparr>q_items := butlast (q_items q)\<rparr>))"

definition queue_removeWithPredicate :: "('x \<Rightarrow> bool) \<Rightarrow> 'x queue \<Rightarrow> 'x queue" where
  "queue_removeWithPredicate predicate q = q\<lparr>q_items := dropWhile predicate (q_items q)\<rparr>"

interpretation queue_fifo: fifo q_items "\<lambda>q. \<not> q_stopped q" queue_pushBack "queue_popFront d" for d
  by unfold_locales (simp_all add: queue_pushBack_def queue_append_def queue_popFront_def)

subsection \<open>The steps of the threads\<close>

text \<open>\<open>start\<close> and \<open>stop\<close> are called by one thread, the controller, which is then in one call at a time, or by a
  handler; everything else by any thread. What the caller is: \<open>None\<close> the controller, \<open>Some k\<close> worker \<open>k\<close>.\<close>

datatype 'x queue_event =
    Starts "nat option" | Stops "nat option" | Notifies | Joins | JoinsInside nat
  | Checks bool 'x | Appends bool 'x | Clears | Pops | Removes "'x \<Rightarrow> bool"
  | Tests nat | Locks nat | Looks nat | Dozes nat | Wakes nat | Decides nat | Takes nat | Returns nat

definition worker_at :: "'x queue \<Rightarrow> nat \<Rightarrow> 'x worker_state \<Rightarrow> bool" where
  "worker_at q w s \<longleftrightarrow> w < length (q_workers q) \<and> q_workers q ! w = s"

definition worker_goes :: "nat \<Rightarrow> 'x worker_state \<Rightarrow> 'x queue \<Rightarrow> 'x queue" where
  "worker_goes w s q = q\<lparr>q_workers := (q_workers q)[w := s]\<rparr>"

fun holds_lock :: "'x worker_state \<Rightarrow> bool" where
  "holds_lock Looking = True" | "holds_lock Dozing = True" | "holds_lock Deciding = True" | "holds_lock _ = False"

definition q_free :: "'x queue \<Rightarrow> bool" where
  "q_free q \<longleftrightarrow> (\<forall>s \<in> set (q_workers q). \<not> holds_lock s)"

fun in_handler :: "'x worker_state \<Rightarrow> bool" where
  "in_handler (Handling x) = True" | "in_handler _ = False"

definition may_call :: "'x queue \<Rightarrow> nat option \<Rightarrow> bool" where
  "may_call q who \<longleftrightarrow>
     (case who of None \<Rightarrow> q_stopping q = NoStop | Some k \<Rightarrow> k < length (q_workers q) \<and> in_handler (q_workers q ! k))"

text \<open>A push whose predicate holds is a push that is then checked, whatever has changed since.\<close>

inductive queue_step :: "'x \<Rightarrow> 'x queue_event \<Rightarrow> 'x queue \<Rightarrow> 'x queue \<Rightarrow> bool" for d :: 'x where
  starts: "\<not> q_crashed q \<Longrightarrow> may_call q who \<Longrightarrow> queue_step d (Starts who) q (queue_start q)"
| stops: "\<not> q_crashed q \<Longrightarrow> q_stopping q = NoStop \<Longrightarrow> queue_step d (Stops None) q (queue_stop q)"
| notifies: "\<not> q_crashed q \<Longrightarrow> q_stopping q = Flagged \<Longrightarrow> notify_one (q_workers q) ws \<Longrightarrow>
    queue_step d Notifies q (queue_stop_notified ws q)"
| joins: "\<not> q_crashed q \<Longrightarrow> q_stopping q = Waiting w \<Longrightarrow> worker_at q w Gone \<Longrightarrow>
    queue_step d Joins q (q\<lparr>q_thread := None, q_stopping := NoStop\<rparr>)"
| stopped_inside: "\<not> q_crashed q \<Longrightarrow> worker_at q k (Handling x) \<Longrightarrow> q_stopped q \<Longrightarrow> queue_step d (Stops (Some k)) q q"
| stops_inside: "\<not> q_crashed q \<Longrightarrow> worker_at q k (Handling x) \<Longrightarrow> \<not> q_stopped q \<Longrightarrow> notify_one (q_workers q) ws \<Longrightarrow>
    queue_step d (Stops (Some k)) q (queue_stop_inside k x ws q)"
| joins_inside: "\<not> q_crashed q \<Longrightarrow> worker_at q k (Joining x w) \<Longrightarrow> worker_at q w Gone \<Longrightarrow>
    queue_step d (JoinsInside k) q (worker_goes k (Handling x) (q\<lparr>q_thread := None\<rparr>))"
| checks: "\<not> q_crashed q \<Longrightarrow> queue_step d (Checks front x) q
    (if q_stopped q then q else q\<lparr>q_passed := q_passed q @ [(front, x)]\<rparr>)"
| appends: "\<not> q_crashed q \<Longrightarrow> q_free q \<Longrightarrow> q_passed q = as @ (front, x) # bs \<Longrightarrow> notify_one (q_workers q) ws \<Longrightarrow>
    queue_step d (Appends front x) q
      ((if front then queue_prepend x else queue_append x) (q\<lparr>q_passed := as @ bs, q_workers := ws\<rparr>))"
| clears: "\<not> q_crashed q \<Longrightarrow> q_free q \<Longrightarrow> queue_step d Clears q (queue_clear q)"
| pops: "\<not> q_crashed q \<Longrightarrow> q_free q \<Longrightarrow> queue_step d Pops q (snd (queue_popFront d q))"
| removes: "\<not> q_crashed q \<Longrightarrow> q_free q \<Longrightarrow> queue_step d (Removes predicate) q (queue_removeWithPredicate predicate q)"
| tests: "\<not> q_crashed q \<Longrightarrow> worker_at q w Testing \<Longrightarrow>
    queue_step d (Tests w) q (worker_goes w (if q_stopped q then Gone else Locking) q)"
| locks: "\<not> q_crashed q \<Longrightarrow> worker_at q w Locking \<Longrightarrow> q_free q \<Longrightarrow> queue_step d (Locks w) q (worker_goes w Looking q)"
| looks: "\<not> q_crashed q \<Longrightarrow> worker_at q w Looking \<Longrightarrow>
    queue_step d (Looks w) q (worker_goes w (if q_stopped q \<or> q_items q \<noteq> [] then Deciding else Dozing) q)"
| dozes: "\<not> q_crashed q \<Longrightarrow> worker_at q w Dozing \<Longrightarrow> queue_step d (Dozes w) q (worker_goes w Asleep q)"
| wakes: "\<not> q_crashed q \<Longrightarrow> worker_at q w Asleep \<Longrightarrow> queue_step d (Wakes w) q (worker_goes w Locking q)"
| decides: "\<not> q_crashed q \<Longrightarrow> worker_at q w Deciding \<Longrightarrow>
    queue_step d (Decides w) q (worker_goes w (if q_items q = [] \<or> q_stopped q then Testing else Taking) q)"
| takes: "\<not> q_crashed q \<Longrightarrow> worker_at q w Taking \<Longrightarrow> q_free q \<Longrightarrow> queue_popFront d q = (x, q') \<Longrightarrow>
    queue_step d (Takes w) q (worker_goes w (Handling x) (q'\<lparr>q_handled := q_handled q @ [x]\<rparr>))"
| returns: "\<not> q_crashed q \<Longrightarrow> worker_at q w (Handling x) \<Longrightarrow> queue_step d (Returns w) q (worker_goes w Testing q)"

inductive queue_run :: "'x \<Rightarrow> 'x queue_event list \<Rightarrow> 'x queue \<Rightarrow> 'x queue \<Rightarrow> bool" for d :: 'x where
  none: "queue_run d [] q q"
| some: "queue_step d ev q q1 \<Longrightarrow> queue_run d evs q1 q' \<Longrightarrow> queue_run d (ev # evs) q q'"

declare queue_run.none [simp]

inductive_simps queue_step_simps [simp]:
  "queue_step d (Starts who) q q'" "queue_step d (Stops None) q q'" "queue_step d Notifies q q'" "queue_step d Joins q q'"
  "queue_step d (Stops (Some k)) q q'" "queue_step d (JoinsInside k) q q'" "queue_step d (Checks front x) q q'"
  "queue_step d (Appends front x) q q'" "queue_step d (Tests w) q q'" "queue_step d (Locks w) q q'"
  "queue_step d (Looks w) q q'" "queue_step d (Dozes w) q q'" "queue_step d (Wakes w) q q'" "queue_step d (Decides w) q q'"
  "queue_step d (Takes w) q q'" "queue_step d (Returns w) q q'"

inductive_simps queue_run_simps: "queue_run d [] q q'" "queue_run d (ev # evs) q q'"

subsection \<open>One controller, pushes at the back\<close>

text \<open>The use that loses nothing: \<open>start\<close> and \<open>stop\<close> come from the controller, the pushes go to the back, and nobody
  but the worker takes items out.\<close>

fun ordinary :: "'x queue_event \<Rightarrow> bool" where
  "ordinary (Starts who) \<longleftrightarrow> who = None"
| "ordinary (Stops who) \<longleftrightarrow> who = None"
| "ordinary (Checks front x) \<longleftrightarrow> \<not> front"
| "ordinary (Appends front x) \<longleftrightarrow> \<not> front"
| "ordinary Clears \<longleftrightarrow> False"
| "ordinary Pops \<longleftrightarrow> False"
| "ordinary (Removes predicate) \<longleftrightarrow> False"
| "ordinary _ \<longleftrightarrow> True"

fun state_ok :: "'x list \<Rightarrow> 'x worker_state \<Rightarrow> bool" where
  "state_ok items (Joining x w) \<longleftrightarrow> False"
| "state_ok items Dozing \<longleftrightarrow> items = []"
| "state_ok items Asleep \<longleftrightarrow> items = []"
| "state_ok items Taking \<longleftrightarrow> items \<noteq> []"
| "state_ok items _ \<longleftrightarrow> True"

text \<open>At most one worker has not ended.\<close>

definition alone :: "nat \<Rightarrow> 'x worker_state \<Rightarrow> 'x worker_state list \<Rightarrow> bool" where
  "alone w s ws \<longleftrightarrow> w < length ws \<and> ws = (replicate (length ws) Gone)[w := s]"

lemma alone_nth: "alone w s ws \<Longrightarrow> i < length ws \<Longrightarrow> ws ! i = (if i = w then s else Gone)"
  unfolding alone_def by (metis length_replicate nth_list_update nth_replicate)

lemma alone_update [simp]: "alone w s ws \<Longrightarrow> alone w s' (ws[w := s'])"
  unfolding alone_def by (metis length_list_update list_update_overwrite)

lemma alone_starts: "ws = replicate (length ws) Gone \<Longrightarrow> alone (length ws) s (ws @ [s])"
  by (metis alone_def length_append_singleton length_replicate lessI list_update_length replicate_Suc replicate_append_same)

lemma alone_gone: "alone w Gone ws \<Longrightarrow> ws = replicate (length ws) Gone"
  unfolding alone_def by (metis list_update_id nth_replicate length_replicate)

lemma alone_set: "alone w s ws \<Longrightarrow> r \<in> set ws \<Longrightarrow> r = s \<or> r = Gone"
  by (metis alone_nth in_set_conv_nth)

lemma alone_in: "alone w s ws \<Longrightarrow> s \<in> set ws"
  by (metis alone_def alone_nth nth_mem)

lemma alone_worker: "alone w s (q_workers q) \<Longrightarrow> worker_at q k r \<Longrightarrow> r \<noteq> Gone \<Longrightarrow> k = w \<and> r = s"
  unfolding worker_at_def by (metis alone_nth)

lemma alone_at: "alone w s (q_workers q) \<Longrightarrow> worker_at q w s"
  unfolding worker_at_def using alone_nth alone_def by metis

lemma alone_notified:
  assumes a: "alone w s ws" and "notify_one ws ws'"
  shows "ws' = (if s = Asleep then ws[w := Locking] else ws)"
proof (cases "Asleep \<in> set ws")
  case True
  with alone_set [OF a] have "s = Asleep" by blast
  moreover from True assms(2) obtain i where "i < length ws" "ws ! i = Asleep" "ws' = ws[i := Locking]"
    by (auto simp: notify_one_def)
  ultimately show ?thesis using alone_nth [OF a, of i] by (cases "i = w") simp_all
next
  case False
  with alone_in [OF a] assms(2) show ?thesis by (auto simp: notify_one_def)
qed

lemma alone_length: "alone w s ws \<Longrightarrow> length (filter (\<lambda>s. s \<noteq> Gone) ws) \<le> 1"
proof -
  assume a: "alone w s ws"
  have "{i. i < length ws \<and> ws ! i \<noteq> Gone} \<subseteq> {w}" using alone_nth [OF a] by (auto split: if_splits)
  then have "card {i. i < length ws \<and> ws ! i \<noteq> Gone} \<le> card {w}" by (intro card_mono) simp_all
  then show ?thesis by (simp add: length_filter_conv_card)
qed

lemma alone_free: "alone w s (q_workers q) \<Longrightarrow> q_free q \<longleftrightarrow> \<not> holds_lock s"
  unfolding q_free_def using alone_set alone_in holds_lock.simps by metis

definition delivered :: "'x queue \<Rightarrow> bool" where
  "delivered q \<longleftrightarrow> \<not> q_crashed q \<and> q_pushed q = q_handled q @ q_items q"

definition resting :: "'x queue \<Rightarrow> bool" where
  "resting q \<longleftrightarrow> delivered q \<and> q_thread q = None \<and> q_stopped q \<and> q_stopping q = NoStop \<and>
     q_workers q = replicate (length (q_workers q)) Gone"

definition working :: "nat \<Rightarrow> 'x worker_state \<Rightarrow> 'x queue \<Rightarrow> bool" where
  "working w s q \<longleftrightarrow> delivered q \<and> q_thread q = Some w \<and> alone w s (q_workers q) \<and> state_ok (q_items q) s \<and>
     (if q_stopped q then q_stopping q = Flagged \<or> q_stopping q = Waiting w else q_stopping q = NoStop \<and> s \<noteq> Gone)"

definition queue_ok :: "'x queue \<Rightarrow> bool" where
  "queue_ok q \<longleftrightarrow> resting q \<or> (\<exists>w s. working w s q)"

lemma workingI: "working w s q \<Longrightarrow> queue_ok q"
  by (auto simp: queue_ok_def)

text \<open>What the steps lead to: with a worker, and without.\<close>

lemma working_goes:
  "working w s q \<Longrightarrow> state_ok (q_items q) s' \<Longrightarrow> (s' = Gone \<Longrightarrow> q_stopped q) \<Longrightarrow> working w s' (worker_goes w s' q)"
  by (auto simp: working_def worker_goes_def delivered_def)

lemma state_ok_awake: "state_ok items s \<Longrightarrow> \<not> holds_lock s \<Longrightarrow> s \<noteq> Asleep \<Longrightarrow> state_ok (items @ [x]) s"
  by (cases s) simp_all

lemma working_appends:
  assumes c: "working w s q" and "q_free q" and ws: "notify_one (q_workers q) ws"
  shows "\<exists>s'. working w s' (queue_append x (q\<lparr>q_passed := ps, q_workers := ws\<rparr>))"
proof -
  from c have a: "alone w s (q_workers q)" by (simp add: working_def)
  with assms(2) have free: "\<not> holds_lock s" by (simp add: alone_free)
  let ?s = "if s = Asleep then Locking else s"
  have "alone w ?s ws" using a alone_notified [OF a ws] by simp
  moreover have "state_ok (q_items q @ [x]) ?s"
    using c free state_ok_awake [of "q_items q" s x] by (simp add: working_def)
  ultimately have "working w ?s (queue_append x (q\<lparr>q_passed := ps, q_workers := ws\<rparr>))"
    using c by (auto simp: working_def queue_append_def delivered_def)
  then show ?thesis by blast
qed

lemma working_notified:
  assumes c: "working w s q" and "q_stopping q = Flagged" and ws: "notify_one (q_workers q) ws"
  shows "\<exists>s'. working w s' (queue_stop_notified ws q)"
proof -
  from c have a: "alone w s (q_workers q)" by (simp add: working_def)
  let ?s = "if s = Asleep then Locking else s"
  have "alone w ?s ws" using a alone_notified [OF a ws] by simp
  then have "working w ?s (queue_stop_notified ws q)"
    using c assms(2) by (auto simp: working_def queue_stop_notified_def delivered_def split: if_splits)
  then show ?thesis by blast
qed

lemma working_step:
  assumes step: "queue_step d ev q q'" and "ordinary ev" and c: "working w s q"
  shows "queue_ok q'"
proof -
  have a: "alone w s (q_workers q)" using c by (simp add: working_def)
  have own: "k = w \<and> r = s" if "worker_at q k r" "r \<noteq> Gone" for k r
    using alone_worker [OF a that] .
  have goes: "queue_ok (worker_goes k r' q)" if "worker_at q k r" "r \<noteq> Gone" "state_ok (q_items q) r'" "r' = Gone \<Longrightarrow> q_stopped q" for k r r'
    using working_goes [OF c that(3,4)] own [OF that(1,2)] by (auto intro: workingI)
  from step show ?thesis
  proof cases
    case (starts who)
    with assms(2) c have "\<not> q_stopped q" by (auto simp: may_call_def working_def split: if_splits)
    with starts c show ?thesis by (auto simp: queue_start_def intro: workingI)
  next
    case stops
    with c have "working w s q'" by (auto simp: working_def queue_stop_def delivered_def)
    then show ?thesis by (rule workingI)
  next
    case (notifies ws)
    with working_notified [OF c] show ?thesis by (auto intro: workingI)
  next
    case (joins k)
    with c have k: "k = w" "q_stopped q" by (auto simp: working_def split: if_splits)
    with joins(5) alone_nth [OF a, of w] a have "s = Gone" by (auto simp: worker_at_def alone_def)
    with a have "q_workers q = replicate (length (q_workers q)) Gone" by (simp add: alone_gone)
    with joins c k show ?thesis by (simp add: queue_ok_def resting_def working_def delivered_def)
  next
    case (joins_inside k x j)
    with own [of k "Joining x j"] c show ?thesis by (auto simp: working_def)
  next
    case (checks front x)
    with c have "working w s q'" by (auto simp: working_def delivered_def)
    then show ?thesis by (rule workingI)
  next
    case (appends as front x bs ws)
    with assms(2) working_appends [OF c, of ws x "as @ bs"] show ?thesis by (auto intro: workingI)
  next
    case (dozes k)
    with own [of k Dozing] c have "q_items q = []" by (auto simp: working_def)
    with dozes goes [of k Dozing Asleep] show ?thesis by simp
  next
    case (takes k x q1)
    with own [of k Taking] c have "q_items q \<noteq> []" "k = w" by (auto simp: working_def)
    with takes obtain xs where "q_items q = x # xs" "q1 = q\<lparr>q_items := xs\<rparr>"
      by (auto simp: queue_popFront_def split: list.splits)
    with c takes(2) \<open>k = w\<close> have "working w (Handling x) q'"
      by (auto simp: working_def worker_goes_def delivered_def)
    then show ?thesis by (rule workingI)
  qed (use assms(2) in \<open>auto intro: goes\<close>)
qed

lemma resting_step:
  assumes step: "queue_step d ev q q'" and "ordinary ev" and c: "resting q"
  shows "queue_ok q'"
proof -
  have gone: "r = Gone" if "worker_at q k r" for k r
    using that c unfolding resting_def worker_at_def by (metis nth_replicate)
  have still: "queue_ok q'" if "resting q'" using that by (simp add: queue_ok_def)
  from step show ?thesis
  proof cases
    case (starts who)
    with c alone_starts [of "q_workers q" Testing] have "working (length (q_workers q)) Testing q'"
      by (simp add: working_def resting_def queue_start_def Let_def delivered_def)
    then show ?thesis by (rule workingI)
  next
    case stops
    with c still show ?thesis by (simp add: queue_stop_def resting_def)
  next
    case (checks front x)
    with c still show ?thesis by (simp add: resting_def)
  next
    case (appends as front x bs ws)
    have "Asleep \<notin> set (q_workers q)" using gone unfolding worker_at_def by (fastforce simp: in_set_conv_nth)
    with appends(6) have "ws = q_workers q" by (simp add: notify_one_def)
    with appends assms(2) c still show ?thesis by (auto simp: resting_def queue_append_def delivered_def)
  qed (use assms(2) c gone in \<open>auto simp: resting_def dest!: gone\<close>)
qed

lemma queue_ok_step: "queue_step d ev q q' \<Longrightarrow> ordinary ev \<Longrightarrow> queue_ok q \<Longrightarrow> queue_ok q'"
  by (metis queue_ok_def resting_step working_step)

lemma queue_ok_run: "queue_run d evs q q' \<Longrightarrow> \<forall>ev \<in> set evs. ordinary ev \<Longrightarrow> queue_ok q \<Longrightarrow> queue_ok q'"
  by (induction rule: queue_run.induct) (auto intro: queue_ok_step)


text \<open>A worker of a queue that runs brings the handler everything, by its own steps.\<close>

fun own_step :: "nat \<Rightarrow> 'x queue_event \<Rightarrow> bool" where
  "own_step w (Tests k) \<longleftrightarrow> k = w" | "own_step w (Locks k) \<longleftrightarrow> k = w" | "own_step w (Looks k) \<longleftrightarrow> k = w"
| "own_step w (Decides k) \<longleftrightarrow> k = w" | "own_step w (Takes k) \<longleftrightarrow> k = w" | "own_step w (Returns k) \<longleftrightarrow> k = w"
| "own_step w _ \<longleftrightarrow> False"

definition drains :: "'x \<Rightarrow> nat \<Rightarrow> 'x queue \<Rightarrow> bool" where
  "drains d w q \<longleftrightarrow> (\<exists>evs q'. queue_run d evs q q' \<and> (\<forall>ev \<in> set evs. own_step w ev) \<and>
     q_handled q' = q_pushed q \<and> q_pushed q' = q_pushed q \<and> q_items q' = [])"

lemma drains_step:
  "queue_step d ev q q1 \<Longrightarrow> own_step w ev \<Longrightarrow> q_pushed q1 = q_pushed q \<Longrightarrow> drains d w q1 \<Longrightarrow> drains d w q"
  unfolding drains_def by (metis queue_run.some set_ConsD)

lemma drains_done: "working w s q \<Longrightarrow> q_items q = [] \<Longrightarrow> drains d w q"
  unfolding drains_def by (intro exI [of _ "[]"] exI [of _ q]) (simp add: working_def delivered_def)

lemma goes_kept [simp]:
  "q_items (worker_goes w s q) = q_items q" "q_pushed (worker_goes w s q) = q_pushed q"
  "q_stopped (worker_goes w s q) = q_stopped q" "q_handled (worker_goes w s q) = q_handled q"
  by (simp_all add: worker_goes_def)

lemma running_drains: "working w s q \<Longrightarrow> \<not> q_stopped q \<Longrightarrow> drains d w q"
proof (induction "q_items q" arbitrary: q s)
  case Nil
  then show ?case by (simp add: drains_done)
next
  case (Cons x xs)
  have goes: "drains d w r" if c: "working w s r" and i: "\<not> q_stopped r" "q_items r = x # xs"
      and next_step: "queue_step d ev r (worker_goes w s' r)" "own_step w ev" "state_ok (x # xs) s'"
      and rest: "working w s' (worker_goes w s' r) \<Longrightarrow> drains d w (worker_goes w s' r)" and "s' \<noteq> Gone" for s s' r ev
    using drains_step [OF next_step(1,2)] rest working_goes [OF c, of s'] i(2) next_step(3) \<open>s' \<noteq> Gone\<close> by simp
  have at: "\<not> q_crashed r" "worker_at r w s" "q_free r \<longleftrightarrow> \<not> holds_lock s" if "working w s r" for r s
    using that alone_at [of w s r] alone_free [of w s r] by (simp_all add: working_def delivered_def)
  have taking: "drains d w r" if c: "working w Taking r" and i: "\<not> q_stopped r" "q_items r = x # xs" for r
  proof -
    let ?r = "worker_goes w (Handling x) (r\<lparr>q_items := xs, q_handled := q_handled r @ [x]\<rparr>)"
    have "queue_step d (Takes w) r ?r"
      using at [OF c] i by (simp add: queue_popFront_def)
    moreover have "working w (Handling x) ?r"
      using c i by (auto simp: working_def worker_goes_def delivered_def)
    from Cons.hyps(1) [OF _ this] i have "drains d w ?r" by simp
    ultimately show ?thesis by (intro drains_step [of d "Takes w" r ?r]) simp_all
  qed
  have deciding: "drains d w r" if c: "working w Deciding r" and i: "\<not> q_stopped r" "q_items r = x # xs" for r
    by (rule goes [OF c i, of "Decides w" Taking]) (use at [OF c] i taking in auto)
  have looking: "drains d w r" if c: "working w Looking r" and i: "\<not> q_stopped r" "q_items r = x # xs" for r
    by (rule goes [OF c i, of "Looks w" Deciding]) (use at [OF c] i deciding in auto)
  have locking: "drains d w r" if c: "working w Locking r" and i: "\<not> q_stopped r" "q_items r = x # xs" for r
    by (rule goes [OF c i, of "Locks w" Looking]) (use at [OF c] i looking in auto)
  have testing: "drains d w r" if c: "working w Testing r" and i: "\<not> q_stopped r" "q_items r = x # xs" for r
    by (rule goes [OF c i, of "Tests w" Locking]) (use at [OF c] i locking in auto)
  have handling: "drains d w r" if c: "working w (Handling y) r" and i: "\<not> q_stopped r" "q_items r = x # xs" for r y
    by (rule goes [OF c i, of "Returns w" Testing]) (use at [OF c] i testing in auto)
  have "state_ok (x # xs) s" "s \<noteq> Gone" using Cons by (auto simp: working_def)
  then show ?case using Cons(3,4) Cons.hyps(2) [symmetric]
    by (cases s) (auto intro: taking deciding looking locking testing handling)
qed

text \<open>C20: the queue under its ordinary use, where one controller starts and stops it, items are pushed at the back,
  and nobody but the worker takes items out (no \<open>clear\<close>, \<open>pop\<close>, \<open>removeWithPredicate\<close> or push at the front, and no
  handler that starts or stops its own queue): in every interleaving of the controller, the producers and the worker,
  spurious wake-ups included, no start finds the worker of an earlier one, the handler has been given the items that
  were pushed, in the order of the pushes and each once, and what it has not been given is still in the queue; at
  most one worker is alive; and as long as the queue is not stopped there is one, and from wherever it is, steps of
  its own bring the handler everything that was pushed: it never sleeps while items wait.\<close>

theorem queue_delivery:
  assumes "queue_run (d :: 'x) evs new_queue_with_action q" and "\<forall>ev \<in> set evs. ordinary ev"
  shows "\<not> q_crashed q \<and> q_handled q @ q_items q = q_pushed q \<and>
    length (filter (\<lambda>s. s \<noteq> Gone) (q_workers q)) \<le> 1 \<and>
    (\<not> q_stopped q \<longrightarrow> (\<exists>w s evs' q'. worker_at q w s \<and> s \<noteq> Gone \<and> queue_run d evs' q q' \<and> (\<forall>ev \<in> set evs'. own_step w ev) \<and>
       q_handled q' = q_pushed q \<and> q_pushed q' = q_pushed q \<and> q_items q' = []))"
proof -
  have "resting (new_queue_with_action :: 'x queue)"
    by (simp add: resting_def delivered_def new_queue_with_action_def new_queue_def)
  then have "queue_ok (new_queue_with_action :: 'x queue)" by (simp add: queue_ok_def)
  with queue_ok_run [OF assms] have "queue_ok q" by blast
  then consider "resting q" | w s where "working w s q" by (auto simp: queue_ok_def)
  then show ?thesis
  proof cases
    case 1
    then have "\<forall>s \<in> set (q_workers q). s = Gone" unfolding resting_def by (metis in_set_replicate)
    with 1 show ?thesis by (simp add: resting_def delivered_def filter_empty_conv)
  next
    case 2
    then have a: "alone w s (q_workers q)" by (simp add: working_def)
    have "length (filter (\<lambda>s. s \<noteq> Gone) (q_workers q)) \<le> 1" by (rule alone_length [OF a])
    moreover have "\<not> q_crashed q" "q_handled q @ q_items q = q_pushed q" "\<not> q_stopped q \<longrightarrow> s \<noteq> Gone"
      using 2 by (auto simp: working_def delivered_def)
    ultimately show ?thesis
      using running_drains [OF 2, of d] alone_at [OF a] unfolding drains_def by blast
  qed
qed

theorem queue_delivery_witness:
  "\<exists>q. queue_run 0 [Starts None, Checks False (5 :: nat), Tests 0, Locks 0, Looks 0, Dozes 0, Appends False 5] new_queue_with_action q \<and>
     q_workers q = [Locking] \<and> q_pushed q = [5] \<and> (\<exists>evs' q'. queue_run 0 evs' q q' \<and> q_handled q' = [5])"
proof -
  define q where "q = new_queue_with_action\<lparr>q_stopped := False, q_workers := [Locking], q_thread := Some 0,
    q_items := [5 :: nat], q_pushed := [5]\<rparr>"
  have r: "queue_run 0 [Starts None, Checks False 5, Tests 0, Locks 0, Looks 0, Dozes 0, Appends False 5] new_queue_with_action q"
    by (simp add: queue_run_simps q_def)
       (simp add: new_queue_with_action_def new_queue_def queue_start_def may_call_def worker_at_def worker_goes_def
         q_free_def notify_one_def queue_append_def)
  have "q_pushed q = [5]" "\<not> q_stopped q" "q_workers q = [Locking]"
    by (simp_all add: q_def)
  with queue_delivery [OF r] r show ?thesis by fastforce
qed

text \<open>A \<open>clear\<close> between the worker's look and its \<open>pop\<close> makes it hand out a default-constructed item.\<close>

lemma clear_race:
  assumes "worker_at q w Taking" and "q_free q" and "\<not> q_crashed q"
  shows "queue_run d [Clears, Takes w] q (worker_goes w (Handling d) ((queue_clear q)\<lparr>q_handled := q_handled q @ [d]\<rparr>))"
proof (rule queue_run.some)
  show "queue_step d Clears q (queue_clear q)" using assms by (intro queue_step.clears) simp_all
  show "queue_run d [Takes w] (queue_clear q) (worker_goes w (Handling d) ((queue_clear q)\<lparr>q_handled := q_handled q @ [d]\<rparr>))"
    using assms by (simp add: queue_run_simps queue_clear_def queue_popFront_def worker_at_def q_free_def)
qed

text \<open>A handler that stops its queue detaches its worker; a start before that worker has seen it gives a second.\<close>

lemma two_workers:
  "queue_run d [Starts None, Checks False x, Appends False x, Tests 0, Locks 0, Looks 0, Decides 0, Takes 0, Stops (Some 0), Starts None]
     new_queue_with_action (new_queue_with_action\<lparr>q_stopped := False, q_thread := Some 1, q_workers := [Handling x, Testing],
       q_pushed := [x], q_handled := [x]\<rparr>)"
  by (simp add: queue_run_simps new_queue_with_action_def new_queue_def queue_start_def may_call_def worker_at_def worker_goes_def
       q_free_def notify_one_def queue_append_def queue_popFront_def queue_stop_inside_def Cons_eq_append_conv)

text \<open>\<open>stop\<close> sets the flag and notifies without the mutex, so that both may come after the worker has found the
  predicate false and before it sleeps.\<close>

fun wakes_up :: "'x queue_event \<Rightarrow> bool" where
  "wakes_up (Wakes w) \<longleftrightarrow> True" | "wakes_up (Starts who) \<longleftrightarrow> True" | "wakes_up _ \<longleftrightarrow> False"

definition waits_on :: "nat \<Rightarrow> 'x queue \<Rightarrow> bool" where
  "waits_on w q \<longleftrightarrow> \<not> q_crashed q \<and> q_stopped q \<and> q_passed q = [] \<and> q_thread q = Some w \<and> q_stopping q = Waiting w \<and>
     (alone w Dozing (q_workers q) \<or> alone w Asleep (q_workers q))"

lemma waits_on_step:
  assumes "queue_step d ev q q'" and "\<not> wakes_up ev" and w: "waits_on w q"
  shows "waits_on w q'"
proof -
  have only: "r = Gone \<or> k = w \<and> (r = Dozing \<or> r = Asleep)" if "worker_at q k r" for k r
    using that w alone_worker [of w _ q k r] by (auto simp: waits_on_def)
  have "\<not> worker_at q w Gone" using w by (auto simp: waits_on_def worker_at_def alone_nth)
  with assms show ?thesis
    by (cases rule: queue_step.cases)
       (auto simp: waits_on_def queue_stop_def queue_clear_def queue_popFront_def queue_removeWithPredicate_def
         worker_goes_def dest!: only split: list.splits)
qed

lemma waits_on_run: "queue_run d evs q q' \<Longrightarrow> \<forall>ev \<in> set evs. \<not> wakes_up ev \<Longrightarrow> waits_on w q \<Longrightarrow> waits_on w q'"
  by (induction rule: queue_run.induct) (auto intro: waits_on_step)

text \<open>C21: the lost wake-up of \<open>stop\<close>: where the controller is in \<open>stop\<close>, has set the flag and now notifies while
  the one worker, having found nothing to do, is about to sleep, with no push that was admitted before the flag still
  under way, \<open>stop\<close> does not return: in whatever way the threads go on, unless some thread calls \<open>start\<close> or the
  condition variable wakes up spuriously, the controller still waits for the worker, and the worker is asleep or about
  to be.\<close>

theorem stop_waits_forever:
  assumes "queue_run d (Notifies # evs) q q'" and "alone w Dozing (q_workers q)" and "q_thread q = Some w"
    and "q_stopped q" and "q_passed q = []" and "\<forall>ev \<in> set evs. \<not> wakes_up ev"
  shows "q_stopping q' = Waiting w \<and> (worker_at q' w Dozing \<or> worker_at q' w Asleep)"
proof -
  from assms(1) obtain q1 where "queue_step d Notifies q q1" and r: "queue_run d evs q1 q'"
    by (auto simp: queue_run_simps)
  then obtain ws where "q1 = queue_stop_notified ws q" "notify_one (q_workers q) ws" "\<not> q_crashed q" by auto
  with alone_notified [OF assms(2), of ws] assms(2-5) have "waits_on w q1"
    by (simp add: waits_on_def queue_stop_notified_def)
  from waits_on_run [OF r assms(6) this] show ?thesis
    using alone_at [of w _ q'] by (auto simp: waits_on_def)
qed

theorem stop_waits_forever_witness:
  "\<exists>q q'. queue_run (0 :: nat) [Starts None, Tests 0, Locks 0, Looks 0, Stops None] new_queue_with_action q \<and>
     queue_run 0 [Notifies, Dozes 0] q q' \<and> q_stopping q' = Waiting 0 \<and> (worker_at q' 0 Dozing \<or> worker_at q' 0 Asleep)"
proof -
  define q :: "nat queue" where "q = new_queue_with_action\<lparr>q_workers := [Dozing], q_thread := Some 0, q_stopping := Flagged\<rparr>"
  define q' where "q' = q\<lparr>q_workers := [Asleep], q_stopping := Waiting 0\<rparr>"
  note defs = new_queue_with_action_def new_queue_def worker_at_def worker_goes_def
  have r: "queue_run 0 [Starts None, Tests 0, Locks 0, Looks 0, Stops None] new_queue_with_action q"
    by (simp add: queue_run_simps q_def) (simp add: defs queue_start_def may_call_def q_free_def queue_stop_def)
  have "queue_run 0 [Notifies, Dozes 0] q q'"
    by (simp add: queue_run_simps q_def q'_def) (simp add: defs notify_one_def queue_stop_notified_def)
  moreover from this have "q_stopping q' = Waiting 0 \<and> (worker_at q' 0 Dozing \<or> worker_at q' 0 Asleep)"
    by (rule stop_waits_forever) (simp_all add: alone_def q_def new_queue_with_action_def new_queue_def)
  ultimately show ?thesis using r by blast
qed

section \<open>BufferQueue\<close>

text \<open>\<open>dur\<close> is the duration of an item in milliseconds; division is that of C++. A push reads the duration of the
  item after it has moved it, which leaves the number in place.\<close>

record 'x buffer_queue =
  bq_items :: "'x list"
  bq_total :: int
  bq_min :: int
  bq_max :: int

definition setMinimumBufferSize :: "int \<Rightarrow> 'x buffer_queue \<Rightarrow> 'x buffer_queue" where
  "setMinimumBufferSize n q = q\<lparr>bq_min := n, bq_max := n + n sdiv 3\<rparr>"

definition new_buffer_queue :: "int \<Rightarrow> 'x buffer_queue" where
  "new_buffer_queue n = \<lparr> bq_items = [], bq_total = 0, bq_min = n, bq_max = n + n sdiv 3 \<rparr>"

definition bq_clear :: "'x buffer_queue \<Rightarrow> 'x buffer_queue" where
  "bq_clear q = q\<lparr>bq_total := 0, bq_items := []\<rparr>"

definition isReady :: "'x buffer_queue \<Rightarrow> bool" where
  "isReady q = (bq_total q \<ge> bq_min q)"

definition fetchDuration :: "('x \<Rightarrow> u32) \<Rightarrow> 'x \<Rightarrow> int" where
  "fetchDuration dur x = uint (dur x)"

definition handleDurationIncrease :: "int \<Rightarrow> 'x buffer_queue \<Rightarrow> 'x buffer_queue" where
  "handleDurationIncrease n q = q\<lparr>bq_total := bq_total q + n\<rparr>"

definition handleDurationDecrease :: "int \<Rightarrow> 'x buffer_queue \<Rightarrow> 'x buffer_queue" where
  "handleDurationDecrease n q =
     (let q = q\<lparr>bq_total := bq_total q - n\<rparr> in if bq_total q < 0 then q\<lparr>bq_total := 0\<rparr> else q)"

definition bq_push :: "('x \<Rightarrow> u32) \<Rightarrow> 'x \<Rightarrow> 'x buffer_queue \<Rightarrow> 'x buffer_queue" where
  "bq_push dur x q =
     (let q = q\<lparr>bq_items := bq_items q @ [x]\<rparr> in handleDurationIncrease (fetchDuration dur x) q)"

definition bq_pop :: "('x \<Rightarrow> u32) \<Rightarrow> 'x \<Rightarrow> 'x buffer_queue \<Rightarrow> 'x \<times> 'x buffer_queue" where
  "bq_pop dur d q =
     (case bq_items q of
        [] \<Rightarrow> (d, q)
      | x # xs \<Rightarrow> let q = q\<lparr>bq_items := xs\<rparr> in (x, handleDurationDecrease (fetchDuration dur x) q))"

text \<open>\<open>front\<close> and \<open>back\<close> of an empty list are undefined.\<close>

definition bq_front :: "'x buffer_queue \<Rightarrow> 'x option" where
  "bq_front q = (if bq_items q = [] then None else Some (hd (bq_items q)))"

definition bq_back :: "'x buffer_queue \<Rightarrow> 'x option" where
  "bq_back q = (if bq_items q = [] then None else Some (last (bq_items q)))"

text \<open>Advancing the iterator past the end of the list is undefined.\<close>

definition shrinkToFit :: "int \<Rightarrow> 'x buffer_queue \<Rightarrow> 'x buffer_queue option" where
  "shrinkToFit newSize q =
     (let cBufferedSize = bq_total q; qSize = length (bq_items q) in
      if bq_items q = [] \<or> newSize \<ge> cBufferedSize then Some q
      else if newSize = 0 then Some (handleDurationDecrease cBufferedSize (q\<lparr>bq_items := []\<rparr>))
      else let averagePacketDuration = cBufferedSize div int qSize;
               diff = cBufferedSize - newSize
        in if diff < averagePacketDuration \<or> averagePacketDuration \<le> 0 then Some q
           else let itemsToBeRemoved = nat (diff div averagePacketDuration) in
             if itemsToBeRemoved > qSize then None
             else Some (handleDurationDecrease diff (q\<lparr>bq_items := drop itemsToBeRemoved (bq_items q)\<rparr>)))"

definition syncBufferSize :: "'x buffer_queue \<Rightarrow> 'x buffer_queue option" where
  "syncBufferSize q = shrinkToFit (bq_max q) q"

definition buffered :: "('x \<Rightarrow> u32) \<Rightarrow> 'x buffer_queue \<Rightarrow> int" where
  "buffered dur q = sum_list (map (fetchDuration dur) (bq_items q))"

lemma buffered_simps [simp]:
  "buffered dur (bq_push dur x q) = buffered dur q + fetchDuration dur x"
  "bq_total (bq_push dur x q) = bq_total q + fetchDuration dur x"
  "bq_items (bq_push dur x q) = bq_items q @ [x]"
  by (simp_all add: buffered_def bq_push_def handleDurationIncrease_def)

interpretation buffer_fifo: fifo bq_items "\<lambda>_. True" "bq_push dur" "bq_pop dur d" for dur d
  by unfold_locales (auto simp: bq_pop_def handleDurationDecrease_def Let_def)

text \<open>\<open>front\<close> shows what the next pop takes, \<open>back\<close> what the last push brought.\<close>

lemma front_pop: "bq_front q = Some x \<Longrightarrow> fst (bq_pop dur d q) = x \<and> bq_items q = x # bq_items (snd (bq_pop dur d q))"
  by (cases "bq_items q") (simp_all add: bq_front_def bq_pop_def handleDurationDecrease_def Let_def)

lemma back_push: "bq_back (bq_push dur x q) = Some x"
  by (simp add: bq_back_def)

lemma fetchDuration_pos [simp]: "0 \<le> fetchDuration dur x"
  by (simp add: fetchDuration_def)

lemma sum_durations_pos: "0 \<le> sum_list (map (fetchDuration dur) xs)"
  by (induction xs) simp_all

text \<open>Pushing and popping keep the counter equal to the durations in the buffer.\<close>

lemma buffered_push: "bq_total q = buffered dur q \<Longrightarrow> bq_total (bq_push dur x q) = buffered dur (bq_push dur x q)"
  by simp

lemma buffered_pop: "bq_total q = buffered dur q \<Longrightarrow> bq_total (snd (bq_pop dur d q)) = buffered dur (snd (bq_pop dur d q))"
  using sum_durations_pos [of dur "tl (bq_items q)"]
  by (cases "bq_items q") (simp_all add: bq_pop_def buffered_def handleDurationDecrease_def Let_def)

lemma buffered_uniform:
  "\<forall>x \<in> set (bq_items q). fetchDuration dur x = d \<Longrightarrow> buffered dur q = int (length (bq_items q)) * d"
proof -
  have "\<forall>x \<in> set xs. fetchDuration dur x = d \<Longrightarrow> sum_list (map (fetchDuration dur) xs) = int (length xs) * d" for xs
    by (induction xs) (simp_all add: algebra_simps)
  then show "\<forall>x \<in> set (bq_items q). fetchDuration dur x = d \<Longrightarrow> buffered dur q = int (length (bq_items q)) * d"
    by (simp add: buffered_def)
qed

text \<open>When all items have the same duration, \<open>syncBufferSize\<close> drops the oldest items until less than one item
  more than the maximum is left, and never drops below the maximum; but it takes the whole surplus off the
  counter, so that from then on the counter says less than what is buffered, by the part of the surplus that is
  not a whole item.\<close>

theorem sync_uniform:
  assumes "\<forall>x \<in> set (bq_items q). fetchDuration dur x = d" and "0 < d" and "bq_total q = buffered dur q" and "0 < bq_max q"
  shows "\<exists>q' n. syncBufferSize q = Some q' \<and> bq_items q' = drop n (bq_items q) \<and>
    buffered dur q' < bq_max q + d \<and> min (bq_max q) (buffered dur q) \<le> buffered dur q' \<and>
    (if n = 0 then q' = q else bq_total q' = bq_max q \<and>
       buffered dur q' - bq_total q' = (buffered dur q - bq_max q) mod d)"
proof -
  let ?l = "int (length (bq_items q))" and ?diff = "bq_total q - bq_max q"
  have t: "bq_total q = ?l * d"
    using assms(3) buffered_uniform [OF assms(1)] by simp
  consider "bq_items q = []" | "bq_total q \<le> bq_max q" | "bq_items q \<noteq> []" "0 < ?diff" "?diff < d" | "bq_items q \<noteq> []" "d \<le> ?diff"
    by linarith
  then show ?thesis
  proof cases
    case 1
    with assms(2,4) t show ?thesis
      by (intro exI [of _ q] exI [of _ 0]) (simp add: syncBufferSize_def shrinkToFit_def Let_def assms(3) [symmetric])
  next
    case 2
    with assms(2) show ?thesis
      by (intro exI [of _ q] exI [of _ 0]) (simp add: syncBufferSize_def shrinkToFit_def Let_def assms(3) [symmetric])
  next
    case 3
    with assms(2,4) t show ?thesis
      by (intro exI [of _ q] exI [of _ 0]) (simp add: syncBufferSize_def shrinkToFit_def Let_def assms(3) [symmetric])
  next
    case 4
    define n where "n = nat (?diff div d)"
    have n: "int n = ?diff div d"
      using 4 assms(2) by (simp add: n_def pos_imp_zdiv_nonneg_iff)
    have r: "?diff = int n * d + ?diff mod d" "0 \<le> ?diff mod d" "?diff mod d < d"
      using assms(2) by (simp_all add: n)
    have "int n * d \<le> ?diff" using r by linarith
    also have "\<dots> \<le> ?l * d" using t assms(4) by simp
    finally have le: "n \<le> length (bq_items q)"
      using assms(2) by simp
    have pos: "0 < n"
      using zdiv_mono1 [OF 4(2) assms(2)] assms(2) n by simp
    let ?q = "q\<lparr>bq_items := drop n (bq_items q), bq_total := bq_max q\<rparr>"
    have avg: "bq_total q div ?l = d" "?l \<noteq> 0"
      using 4(1) t by simp_all
    have "syncBufferSize q = Some ?q"
      using 4 assms(2,4) avg le
      by (simp add: syncBufferSize_def shrinkToFit_def Let_def n_def [symmetric] handleDurationDecrease_def)
    moreover have b: "buffered dur ?q = bq_max q + ?diff mod d"
    proof -
      have "\<forall>x \<in> set (bq_items ?q). fetchDuration dur x = d"
        using assms(1) set_drop_subset [of n "bq_items q"] by auto
      from buffered_uniform [OF this] have "buffered dur ?q = (?l - int n) * d"
        using le by (simp add: of_nat_diff)
      then show ?thesis
        using r(1) t by (simp add: algebra_simps)
    qed
    ultimately show ?thesis
      using pos r(2,3) assms(3) by (intro exI [of _ ?q] exI [of _ n]) simp
  qed
qed

theorem sync_uniform_witness:
  "\<exists>q'. syncBufferSize \<lparr> bq_items = [1, 2, 3, 4 :: nat], bq_total = 80, bq_min = 30, bq_max = 30 \<rparr> = Some q' \<and>
     bq_items q' = [3, 4] \<and> bq_total q' = 30 \<and> buffered (\<lambda>_. 20) q' = 40"
proof -
  let ?q = "\<lparr> bq_items = [1, 2, 3, 4 :: nat], bq_total = 80, bq_min = 30, bq_max = 30 \<rparr>"
  have "\<forall>x \<in> set (bq_items ?q). fetchDuration (\<lambda>_. 20) x = 20" "bq_total ?q = buffered (\<lambda>_. 20) ?q"
    by (simp_all add: fetchDuration_def buffered_def)
  from sync_uniform [OF this(1) _ this(2)] show ?thesis
    by (simp add: syncBufferSize_def shrinkToFit_def handleDurationDecrease_def Let_def buffered_def fetchDuration_def)
qed

text \<open>With durations that differ, \<open>syncBufferSize\<close> may want to remove more items than there are.\<close>

lemma sync_past_end:
  "syncBufferSize \<lparr> bq_items = [1, 2, 3 :: nat], bq_total = 5, bq_min = 1, bq_max = 1 \<rparr> = None"
  by (simp add: syncBufferSize_def shrinkToFit_def Let_def)

section \<open>AudioRenderItem\<close>

record audio_render_item =
  item_timestamp :: u32
  item_duration :: u32
  item_bufferLenght :: u32
  item_payload :: "v8 option"

definition render_item :: "u32 \<Rightarrow> u32 \<Rightarrow> u32 \<Rightarrow> v8 option \<Rightarrow> audio_render_item" where
  "render_item ts duration n bytes =
     \<lparr> item_timestamp = ts, item_duration = duration, item_bufferLenght = n, item_payload = bytes \<rparr>"

section \<open>SimpleSemaphore\<close>

definition semaphore_notify :: "int \<Rightarrow> int" where
  "semaphore_notify count = count + 1"

text \<open>\<open>wait\<close> blocks, which is \<open>None\<close>, while the count is zero; a negative count does not block it.\<close>

definition semaphore_wait :: "int \<Rightarrow> int option" where
  "semaphore_wait count = (if count = 0 then None else Some (count - 1))"

datatype semaphore_call = Notify | Wait

inductive semaphore_run :: "int \<Rightarrow> semaphore_call list \<Rightarrow> int \<Rightarrow> bool" where
  idle: "semaphore_run c [] c"
| notify: "semaphore_run c calls c' \<Longrightarrow> semaphore_run c (calls @ [Notify]) (semaphore_notify c')"
| wait: "semaphore_run c calls c' \<Longrightarrow> semaphore_wait c' = Some c'' \<Longrightarrow> semaphore_run c (calls @ [Wait]) c''"

text \<open>In every run of a semaphore that starts at a count of at least zero, no more waits have returned than the
  count at the start and the notifications before them allow.\<close>

theorem semaphore_waits:
  assumes "semaphore_run c calls c'" and "0 \<le> c"
  shows "0 \<le> c' \<and> int (count_list calls Wait) + c' = c + int (count_list calls Notify)"
  using assms by (induction rule: semaphore_run.induct) (auto simp: semaphore_notify_def semaphore_wait_def split: if_splits)

theorem semaphore_waits_witness:
  "semaphore_run 0 ([] @ [Notify] @ [Wait]) 0 \<and> int (count_list [Notify, Wait] Wait) = 1"
proof -
  have "semaphore_run 0 (([] @ [Notify]) @ [Wait]) 0"
    by (rule semaphore_run.wait, rule semaphore_run.notify, rule semaphore_run.idle)
       (simp add: semaphore_notify_def semaphore_wait_def)
  with semaphore_waits [of 0 "([] @ [Notify]) @ [Wait]" 0] show ?thesis by simp
qed

end
